(* ===== verification/Prelude.thy ===== *)
theory Prelude
  imports Main "HOL-Library.Word" "HOL-Library.AList"
begin

text \<open>
  The shared base of the development.

  \<^item> \<open>outcome\<close> is the result of a Rust function: a value, an error value, or a panic.
    The release profile of the workspace sets \<open>overflow-checks = true\<close> (src/Cargo.toml), so a plain
    \<open>+\<close>, \<open>-\<close> or \<open>*\<close> that leaves its width is a panic and never wraps; the
    operations \<open>padd\<close>, \<open>psub\<close>, \<open>pmul\<close> below say so.
  \<^item> \<open>checked_*\<close> and \<open>saturating_*\<close> are the integer methods of the standard library,
    on words of any width, each with its reading through \<^const>\<open>unat\<close>.
  \<^item> little-endian byte strings of words (\<open>to_le_bytes\<close>, \<open>from_le_bytes\<close>) and their
    round trips.
  The named collections \<open>outcome_simps\<close> and \<open>unat_rules\<close> carry the component proofs.
\<close>

unbundle bit_operations_syntax

named_theorems outcome_simps "rewriting of the outcome monad"
named_theorems unat_rules "readings of machine arithmetic through unat"

type_synonym u8 = "8 word"
type_synonym u16 = "16 word"
type_synonym u32 = "32 word"
type_synonym u64 = "64 word"
type_synonym bytes = "u8 list"

section \<open>Outcomes\<close>

datatype ('e, 'a) outcome = Ok 'a | Err 'e | Panic

primrec obind :: "('e, 'a) outcome \<Rightarrow> ('a \<Rightarrow> ('e, 'b) outcome) \<Rightarrow> ('e, 'b) outcome" where
  "obind (Ok x) f = f x"
| "obind (Err e) f = Err e"
| "obind Panic f = Panic"

text \<open>A check that returns nothing, followed by the rest of the function (\<open>check()?; rest\<close>).\<close>

definition then_do :: "('e, unit) outcome \<Rightarrow> ('e, 'b) outcome \<Rightarrow> ('e, 'b) outcome" where
  "then_do m r = obind m (\<lambda>_. r)"

text \<open>\<open>if \<not> b \<open>return Err(e)\<close>\<close>.\<close>

definition ensure :: "bool \<Rightarrow> 'e \<Rightarrow> ('e, unit) outcome" where
  "ensure b e = (if b then Ok () else Err e)"

text \<open>\<open>.map_err(f)\<close>.\<close>

primrec map_err :: "('e \<Rightarrow> 'f) \<Rightarrow> ('e, 'a) outcome \<Rightarrow> ('f, 'a) outcome" where
  "map_err f (Ok x) = Ok x"
| "map_err f (Err e) = Err (f e)"
| "map_err f Panic = Panic"

text \<open>\<open>.ok_or(e)\<close> and \<open>.unwrap()\<close> of an option.\<close>

definition ok_or :: "'a option \<Rightarrow> 'e \<Rightarrow> ('e, 'a) outcome" where
  "ok_or x e = (case x of None \<Rightarrow> Err e | Some y \<Rightarrow> Ok y)"

definition unwrap :: "'a option \<Rightarrow> ('e, 'a) outcome" where
  "unwrap x = (case x of None \<Rightarrow> Panic | Some y \<Rightarrow> Ok y)"

text \<open>A loop over a list that carries an accumulator and stops at the first error (\<open>for x in xs\<close>
  with \<open>?\<close> inside, \<open>try_fold\<close>).\<close>

fun ofold :: "('a \<Rightarrow> 's \<Rightarrow> ('e, 's) outcome) \<Rightarrow> 'a list \<Rightarrow> 's \<Rightarrow> ('e, 's) outcome" where
  "ofold f [] s = Ok s"
| "ofold f (x # xs) s = obind (f x s) (ofold f xs)"

lemma ofold_map: "ofold f (map g xs) s = ofold (\<lambda>x. f (g x)) xs s"
proof (induction xs arbitrary: s)
  case (Cons x xs)
  then have "ofold f (map g xs) = ofold (\<lambda>x. f (g x)) xs" by (simp add: fun_eq_iff)
  then show ?case by simp
qed simp

text \<open>A loop that only checks (\<open>for (i, x) in xs.iter().enumerate()\<close>), with the running index.\<close>

fun ocheck :: "(nat \<Rightarrow> 'a \<Rightarrow> ('e, unit) outcome) \<Rightarrow> nat \<Rightarrow> 'a list \<Rightarrow> ('e, unit) outcome" where
  "ocheck f i [] = Ok ()"
| "ocheck f i (x # xs) = then_do (f i x) (ocheck f (Suc i) xs)"

fun omap :: "('a \<Rightarrow> ('e, 'b) outcome) \<Rightarrow> 'a list \<Rightarrow> ('e, 'b list) outcome" where
  "omap f [] = Ok []"
| "omap f (x # xs) = obind (f x) (\<lambda>y. obind (omap f xs) (\<lambda>ys. Ok (y # ys)))"

lemma obind_eq_Ok [outcome_simps]: "obind m f = Ok y \<longleftrightarrow> (\<exists>x. m = Ok x \<and> f x = Ok y)"
  by (cases m) auto

lemma obind_eq_Err [outcome_simps]:
  "obind m f = Err e \<longleftrightarrow> m = Err e \<or> (\<exists>x. m = Ok x \<and> f x = Err e)"
  by (cases m) auto

lemma obind_eq_Panic [outcome_simps]:
  "obind m f = Panic \<longleftrightarrow> m = Panic \<or> (\<exists>x. m = Ok x \<and> f x = Panic)"
  by (cases m) auto

lemma obind_Ok_right [simp]: "obind m Ok = m"
  by (cases m) auto

lemma obind_assoc: "obind (obind m f) g = obind m (\<lambda>x. obind (f x) g)"
  by (cases m) auto

lemma then_do_eq_Ok [outcome_simps]: "then_do m r = Ok y \<longleftrightarrow> m = Ok () \<and> r = Ok y"
  by (cases m) (auto simp: then_do_def)

lemma then_do_eq_Err [outcome_simps]: "then_do m r = Err e \<longleftrightarrow> m = Err e \<or> m = Ok () \<and> r = Err e"
  by (cases m) (auto simp: then_do_def)

lemma then_do_eq_Panic [outcome_simps]: "then_do m r = Panic \<longleftrightarrow> m = Panic \<or> m = Ok () \<and> r = Panic"
  by (cases m) (auto simp: then_do_def)

lemma then_do_simps [simp]:
  "then_do (Ok ()) r = r" "then_do (Err e) r = Err e" "then_do Panic r = Panic"
  by (simp_all add: then_do_def)

lemma ensure_eq_Ok [outcome_simps]: "ensure b e = Ok u \<longleftrightarrow> b"
  by (simp add: ensure_def)

lemma ensure_eq_Err [outcome_simps]: "ensure b e = Err e' \<longleftrightarrow> \<not> b \<and> e' = e"
  by (auto simp: ensure_def)

lemma ensure_neq_Panic [simp]: "ensure b e \<noteq> Panic"
  by (simp add: ensure_def)

lemma ensure_simps [simp]: "ensure True e = Ok ()" "ensure False e = Err e"
  by (simp_all add: ensure_def)

lemma map_err_eq_Ok [outcome_simps]: "map_err f m = Ok x \<longleftrightarrow> m = Ok x"
  by (cases m) auto

lemma map_err_eq_Panic [outcome_simps]: "map_err f m = Panic \<longleftrightarrow> m = Panic"
  by (cases m) auto

lemma ok_or_eq_Ok [outcome_simps]: "ok_or x e = Ok y \<longleftrightarrow> x = Some y"
  by (auto simp: ok_or_def split: option.splits)

lemma ok_or_neq_Panic [simp]: "ok_or x e \<noteq> Panic"
  by (auto simp: ok_or_def split: option.splits)

lemma unwrap_eq_Ok [outcome_simps]: "unwrap x = Ok y \<longleftrightarrow> x = Some y"
  by (auto simp: unwrap_def split: option.splits)

lemma unwrap_eq_Panic [outcome_simps]: "unwrap x = Panic \<longleftrightarrow> x = None"
  by (auto simp: unwrap_def split: option.splits)

lemma unwrap_neq_Err [simp]: "unwrap x \<noteq> Err e"
  by (auto simp: unwrap_def split: option.splits)

lemma unwrap_simps [simp]: "unwrap (Some y) = Ok y" "unwrap None = Panic"
  by (simp_all add: unwrap_def)

lemma omap_eq_Ok: "omap f xs = Ok ys \<longleftrightarrow> list_all2 (\<lambda>x y. f x = Ok y) xs ys"
  by (induction xs arbitrary: ys) (auto simp: obind_eq_Ok list_all2_Cons1)

lemma omap_Ok: "(\<And>x. x \<in> set xs \<Longrightarrow> f x = Ok (g x)) \<Longrightarrow> omap f xs = Ok (map g xs)"
  by (induction xs) simp_all

lemma ocheck_eq_Ok:
  "ocheck f i xs = Ok () \<longleftrightarrow> (\<forall>j < length xs. f (i + j) (xs ! j) = Ok ())"
proof (induction xs arbitrary: i)
  case Nil
  then show ?case by simp
next
  case (Cons x xs)
  have "(\<forall>j < length (x # xs). f (i + j) ((x # xs) ! j) = Ok ()) \<longleftrightarrow>
      f i x = Ok () \<and> (\<forall>j < length xs. f (Suc i + j) (xs ! j) = Ok ())"
    using All_less_Suc2 [of "length xs" "\<lambda>j. f (i + j) ((x # xs) ! j) = Ok ()"] by simp
  then show ?case by (simp add: Cons.IH then_do_eq_Ok)
qed

lemma ocheck_Ok_each: "ocheck f k xs = Ok () \<Longrightarrow> x \<in> set xs \<Longrightarrow> \<exists>i. f i x = Ok ()"
  by (induction xs arbitrary: k) (auto simp: then_do_eq_Ok)

section \<open>Machine integers\<close>

definition checked_add :: "'a::len word \<Rightarrow> 'a word \<Rightarrow> 'a word option" where
  "checked_add a b = (if unat a + unat b < 2 ^ LENGTH('a) then Some (a + b) else None)"

definition checked_sub :: "'a::len word \<Rightarrow> 'a word \<Rightarrow> 'a word option" where
  "checked_sub a b = (if b \<le> a then Some (a - b) else None)"

definition checked_mul :: "'a::len word \<Rightarrow> 'a word \<Rightarrow> 'a word option" where
  "checked_mul a b = (if unat a * unat b < 2 ^ LENGTH('a) then Some (a * b) else None)"

definition checked_div :: "'a::len word \<Rightarrow> 'a word \<Rightarrow> 'a word option" where
  "checked_div a b = (if b = 0 then None else Some (a div b))"

definition saturating_add :: "'a::len word \<Rightarrow> 'a word \<Rightarrow> 'a word" where
  "saturating_add a b = (case checked_add a b of None \<Rightarrow> -1 | Some c \<Rightarrow> c)"

definition saturating_sub :: "'a::len word \<Rightarrow> 'a word \<Rightarrow> 'a word" where
  "saturating_sub a b = (case checked_sub a b of None \<Rightarrow> 0 | Some c \<Rightarrow> c)"

definition saturating_mul :: "'a::len word \<Rightarrow> 'a word \<Rightarrow> 'a word" where
  "saturating_mul a b = (case checked_mul a b of None \<Rightarrow> -1 | Some c \<Rightarrow> c)"

text \<open>The plain operators, with the overflow check of the release profile; \<open>/\<close> panics on a zero
  divisor. \<open>div_ceil\<close> is written as the standard library computes it.\<close>

definition padd :: "'a::len word \<Rightarrow> 'a word \<Rightarrow> ('e, 'a word) outcome" where
  "padd a b = unwrap (checked_add a b)"

definition psub :: "'a::len word \<Rightarrow> 'a word \<Rightarrow> ('e, 'a word) outcome" where
  "psub a b = unwrap (checked_sub a b)"

definition pmul :: "'a::len word \<Rightarrow> 'a word \<Rightarrow> ('e, 'a word) outcome" where
  "pmul a b = unwrap (checked_mul a b)"

definition pdiv :: "'a::len word \<Rightarrow> 'a word \<Rightarrow> ('e, 'a word) outcome" where
  "pdiv a b = unwrap (checked_div a b)"

definition div_ceil :: "'a::len word \<Rightarrow> 'a word \<Rightarrow> ('e, 'a word) outcome" where
  "div_ceil a b = (if b = 0 then Panic
     else if a mod b > 0 then padd (a div b) 1 else Ok (a div b))"

lemma unat_less_exp: "unat (a :: 'a::len word) < 2 ^ LENGTH('a)"
  by (rule unsigned_less)

lemma unat_ucast_up:
  assumes "LENGTH('a) \<le> LENGTH('b)"
  shows "unat (ucast (w :: 'a::len word) :: 'b::len word) = unat w"
proof -
  have "unat w < 2 ^ LENGTH('b)"
    by (rule less_le_trans [OF unat_less_exp [of w] power_increasing [OF assms]]) simp
  then show ?thesis by (simp add: unsigned_ucast_eq take_bit_nat_eq_self)
qed

lemma unat_of_nat_small: "n < 2 ^ LENGTH('a) \<Longrightarrow> unat (of_nat n :: 'a::len word) = n"
  by (simp add: unat_of_nat take_bit_nat_eq_self)

lemma checked_add_eq_Some [unat_rules]:
  "checked_add a b = Some c \<longleftrightarrow> unat c = unat a + unat b" for a :: "'a::len word"
proof
  assume "checked_add a b = Some c"
  then show "unat c = unat a + unat b"
    by (auto simp: checked_add_def unat_word_ariths split: if_splits)
next
  assume c: "unat c = unat a + unat b"
  then have "unat a + unat b < 2 ^ LENGTH('a)" using unat_less_exp [of c] by simp
  moreover from this have "a + b = c"
    using c by (intro word_unat_eq_iff [THEN iffD2]) (simp add: unat_word_ariths)
  ultimately show "checked_add a b = Some c" by (simp add: checked_add_def)
qed

lemma checked_add_eq_None [unat_rules]:
  "checked_add a b = None \<longleftrightarrow> 2 ^ LENGTH('a) \<le> unat a + unat b" for a :: "'a::len word"
  by (auto simp: checked_add_def)

lemma checked_sub_eq_Some [unat_rules]:
  "checked_sub a b = Some c \<longleftrightarrow> unat a = unat b + unat c" for a :: "'a::len word"
proof
  assume "checked_sub a b = Some c"
  then show "unat a = unat b + unat c"
    by (auto simp: checked_sub_def unat_sub word_le_nat_alt split: if_splits)
next
  assume c: "unat a = unat b + unat c"
  then have le: "b \<le> a" by (simp add: word_le_nat_alt)
  moreover have "a - b = c"
    using c le by (intro word_unat_eq_iff [THEN iffD2]) (simp add: unat_sub)
  ultimately show "checked_sub a b = Some c" by (simp add: checked_sub_def)
qed

lemma checked_sub_eq_None [unat_rules]:
  "checked_sub a b = None \<longleftrightarrow> unat a < unat b" for a :: "'a::len word"
  by (auto simp: checked_sub_def word_le_nat_alt)

lemma checked_mul_eq_Some [unat_rules]:
  "checked_mul a b = Some c \<longleftrightarrow> unat c = unat a * unat b" for a :: "'a::len word"
proof
  assume "checked_mul a b = Some c"
  then show "unat c = unat a * unat b"
    by (auto simp: checked_mul_def unat_word_ariths split: if_splits)
next
  assume c: "unat c = unat a * unat b"
  then have "unat a * unat b < 2 ^ LENGTH('a)" using unat_less_exp [of c] by simp
  moreover from this have "a * b = c"
    using c by (intro word_unat_eq_iff [THEN iffD2]) (simp add: unat_word_ariths)
  ultimately show "checked_mul a b = Some c" by (simp add: checked_mul_def)
qed

lemma checked_mul_eq_None [unat_rules]:
  "checked_mul a b = None \<longleftrightarrow> 2 ^ LENGTH('a) \<le> unat a * unat b" for a :: "'a::len word"
  by (auto simp: checked_mul_def)

lemma word_div_eq_iff: "a div b = c \<longleftrightarrow> unat c = unat a div unat b" for a :: "'a::len word"
  by (metis unat_div word_unat_eq_iff)

lemma checked_div_eq_Some [unat_rules]:
  "checked_div a b = Some c \<longleftrightarrow> unat b \<noteq> 0 \<and> unat c = unat a div unat b" for a :: "'a::len word"
  by (simp add: checked_div_def unat_eq_zero word_div_eq_iff)

lemma checked_div_eq_None [unat_rules]: "checked_div a b = None \<longleftrightarrow> unat b = 0"
  by (auto simp: checked_div_def unat_eq_zero)

lemma unat_max_word: "unat (- 1 :: 'a::len word) = 2 ^ LENGTH('a) - 1"
  by (simp add: unsigned_minus_1_eq_mask mask_eq_exp_minus_1)

lemma unat_saturating_add [unat_rules]:
  "unat (saturating_add a b) = min (unat a + unat b) (2 ^ LENGTH('a) - 1)" for a :: "'a::len word"
proof (cases "unat a + unat b < 2 ^ LENGTH('a)")
  case True
  then show ?thesis by (simp add: saturating_add_def checked_add_def unat_word_ariths)
next
  case False
  then show ?thesis by (simp add: saturating_add_def checked_add_def unat_max_word)
qed

lemma unat_saturating_sub [unat_rules]:
  "unat (saturating_sub a b) = unat a - unat b" for a :: "'a::len word"
  by (auto simp: saturating_sub_def checked_sub_def unat_sub word_le_nat_alt)

lemma unat_saturating_mul [unat_rules]:
  "unat (saturating_mul a b) = min (unat a * unat b) (2 ^ LENGTH('a) - 1)" for a :: "'a::len word"
proof (cases "unat a * unat b < 2 ^ LENGTH('a)")
  case True
  then show ?thesis by (simp add: saturating_mul_def checked_mul_def unat_word_ariths)
next
  case False
  then show ?thesis by (simp add: saturating_mul_def checked_mul_def unat_max_word)
qed

lemma padd_eq_Ok [unat_rules]: "padd a b = Ok c \<longleftrightarrow> unat c = unat a + unat b"
  by (simp add: padd_def unwrap_eq_Ok checked_add_eq_Some)

lemma padd_eq_Panic [unat_rules]:
  "padd a b = Panic \<longleftrightarrow> 2 ^ LENGTH('a) \<le> unat a + unat b" for a :: "'a::len word"
  by (simp add: padd_def unwrap_eq_Panic checked_add_eq_None)

lemma psub_eq_Ok [unat_rules]: "psub a b = Ok c \<longleftrightarrow> unat a = unat b + unat c"
  by (simp add: psub_def unwrap_eq_Ok checked_sub_eq_Some)

lemma psub_eq_Panic [unat_rules]: "psub a b = Panic \<longleftrightarrow> unat a < unat b"
  by (simp add: psub_def unwrap_eq_Panic checked_sub_eq_None)

lemma pmul_eq_Ok [unat_rules]: "pmul a b = Ok c \<longleftrightarrow> unat c = unat a * unat b"
  by (simp add: pmul_def unwrap_eq_Ok checked_mul_eq_Some)

lemma pmul_eq_Panic [unat_rules]:
  "pmul a b = Panic \<longleftrightarrow> 2 ^ LENGTH('a) \<le> unat a * unat b" for a :: "'a::len word"
  by (simp add: pmul_def unwrap_eq_Panic checked_mul_eq_None)

lemma pdiv_eq_Ok [unat_rules]: "pdiv a b = Ok c \<longleftrightarrow> unat b \<noteq> 0 \<and> unat c = unat a div unat b"
  by (simp add: pdiv_def unwrap_eq_Ok checked_div_eq_Some)

lemma pdiv_eq_Panic [unat_rules]: "pdiv a b = Panic \<longleftrightarrow> unat b = 0"
  by (simp add: pdiv_def unwrap_eq_Panic checked_div_eq_None)

lemma plain_ops_neq_Err [simp]:
  "padd a b \<noteq> Err e" "psub a b \<noteq> Err e" "pmul a b \<noteq> Err e" "pdiv a b \<noteq> Err e"
  by (simp_all add: padd_def psub_def pmul_def pdiv_def)

lemma padd_eq: "unat a + unat b < 2 ^ LENGTH('a) \<Longrightarrow> padd a b = Ok (a + b)" for a :: "'a::len word"
  by (simp add: padd_def checked_add_def)

text \<open>\<open>returns Q m\<close>: the computation returns a value that satisfies \<open>Q\<close> (total
  correctness). Its equations compute the weakest precondition of a chain of plain operations.\<close>

definition returns :: "('a \<Rightarrow> bool) \<Rightarrow> ('e, 'a) outcome \<Rightarrow> bool" where
  "returns Q m \<longleftrightarrow> (\<exists>x. m = Ok x \<and> Q x)"

named_theorems returns_simps "weakest preconditions"

lemma returns_Ok [returns_simps, simp]: "returns Q (Ok x) \<longleftrightarrow> Q x"
  by (simp add: returns_def)

lemma returns_Err [simp]: "\<not> returns Q (Err e)" and returns_Panic [simp]: "\<not> returns Q Panic"
  by (simp_all add: returns_def)

lemma returns_obind [returns_simps]: "returns Q (obind m f) \<longleftrightarrow> returns (\<lambda>x. returns Q (f x)) m"
  by (cases m) (simp_all add: returns_def)

lemma returns_then_do [returns_simps]: "returns Q (then_do m r) \<longleftrightarrow> returns (\<lambda>_. returns Q r) m"
  by (simp add: then_do_def returns_obind)

lemma returns_ensure [returns_simps]: "returns Q (ensure b e) \<longleftrightarrow> b \<and> Q ()"
  by (simp add: ensure_def)

lemma returns_ok_or [returns_simps]: "returns Q (ok_or x e) \<longleftrightarrow> (\<exists>y. x = Some y \<and> Q y)"
  by (cases x) (simp_all add: ok_or_def)

lemma returns_unwrap [returns_simps]: "returns Q (unwrap x) \<longleftrightarrow> (\<exists>y. x = Some y \<and> Q y)"
  by (cases x) simp_all

lemma returns_mono: "returns Q m \<Longrightarrow> (\<And>x. Q x \<Longrightarrow> R x) \<Longrightarrow> returns R m"
  by (auto simp: returns_def)

text \<open>The loop rule: an invariant of the prefix already processed.\<close>

lemma returns_ofold:
  assumes "I [] s" and "\<And>ys y zs s. xs = ys @ y # zs \<Longrightarrow> I ys s \<Longrightarrow> returns (I (ys @ [y])) (f y s)"
  shows "returns (I xs) (ofold f xs s)"
proof -
  have "returns (I (ys @ zs)) (ofold f zs s)" if "xs = ys @ zs" "I ys s" for ys zs s
    using that
  proof (induction zs arbitrary: ys s)
    case (Cons z zs)
    have "returns (I (ys @ [z])) (f z s)" using assms(2) Cons.prems by blast
    then show ?case using Cons.IH [of "ys @ [z]"] Cons.prems(1) by (auto simp: returns_obind elim: returns_mono)
  qed simp
  from this [of "[]" xs s] assms(1) show ?thesis by simp
qed

lemma unat_unique: "(\<forall>c. unat c = unat d \<longrightarrow> Q c) \<longleftrightarrow> Q d" for d :: "'a::len word"
  by (metis word_unat_eq_iff)

lemma returns_padd [returns_simps]:
  "returns Q (padd a b :: ('e, 'a word) outcome) \<longleftrightarrow> unat a + unat b < 2 ^ LENGTH('a) \<and> (\<forall>c. unat c = unat a + unat b \<longrightarrow> Q c)"
  for a :: "'a::len word"
proof (cases "padd a b :: ('e, 'a word) outcome")
  case (Ok c)
  then have c: "unat c = unat a + unat b" by (simp add: padd_eq_Ok)
  then show ?thesis using Ok unat_unique [of c Q] unat_less_exp [of c] by simp
next
  case Panic
  moreover from Panic [unfolded padd_eq_Panic] have "\<not> (unat a + unat b < 2 ^ LENGTH('a))" by simp
  ultimately show ?thesis by (simp only: returns_Panic simp_thms)
qed simp

lemma returns_pmul [returns_simps]:
  "returns Q (pmul a b :: ('e, 'a word) outcome) \<longleftrightarrow> unat a * unat b < 2 ^ LENGTH('a) \<and> (\<forall>c. unat c = unat a * unat b \<longrightarrow> Q c)"
  for a :: "'a::len word"
proof (cases "pmul a b :: ('e, 'a word) outcome")
  case (Ok c)
  then have c: "unat c = unat a * unat b" by (simp add: pmul_eq_Ok)
  then show ?thesis using Ok unat_unique [of c Q] unat_less_exp [of c] by simp
next
  case Panic
  moreover from Panic [unfolded pmul_eq_Panic] have "\<not> (unat a * unat b < 2 ^ LENGTH('a))" by simp
  ultimately show ?thesis by (simp only: returns_Panic simp_thms)
qed simp

lemma returns_psub [returns_simps]:
  "returns Q (psub a b :: ('e, 'a word) outcome) \<longleftrightarrow> unat b \<le> unat a \<and> (\<forall>c. unat c = unat a - unat b \<longrightarrow> Q c)"
  for a :: "'a::len word"
proof (cases "psub a b :: ('e, 'a word) outcome")
  case (Ok c)
  then have c: "unat c = unat a - unat b" "unat b \<le> unat a" by (simp_all add: psub_eq_Ok)
  then show ?thesis using Ok unat_unique [of c Q] by simp
next
  case Panic
  moreover from Panic [unfolded psub_eq_Panic] have "\<not> (unat b \<le> unat a)" by simp
  ultimately show ?thesis by (simp only: returns_Panic simp_thms)
qed simp

lemma returns_pdiv [returns_simps]:
  "returns Q (pdiv a b :: ('e, 'a word) outcome) \<longleftrightarrow> unat b \<noteq> 0 \<and> (\<forall>c. unat c = unat a div unat b \<longrightarrow> Q c)"
  for a :: "'a::len word"
proof (cases "pdiv a b :: ('e, 'a word) outcome")
  case (Ok c)
  then have c: "unat c = unat a div unat b" "unat b \<noteq> 0" by (simp_all only: pdiv_eq_Ok simp_thms)
  then show ?thesis using Ok unat_unique [of c Q] by simp
next
  case Panic
  moreover from Panic [unfolded pdiv_eq_Panic] have "\<not> (unat b \<noteq> 0)" by simp
  ultimately show ?thesis by (simp only: returns_Panic simp_thms)
qed simp

text \<open>\<open>div_ceil\<close> rounds up and never panics on a positive divisor.\<close>

lemma div_ceil_nat: "0 < b \<Longrightarrow> (a + b - 1) div b = a div b + (if 0 < a mod b then 1 else 0)" for a b :: nat
proof -
  assume b: "0 < b"
  define q r where "q = a div b" and "r = a mod b"
  have a: "a = q * b + r" and r: "r < b" using b by (simp_all add: q_def r_def)
  have "a + b - 1 = (r + b - 1) + q * b" using a b by simp
  then have "(a + b - 1) div b = ((r + b - 1) + q * b) div b" by (rule arg_cong)
  also have "\<dots> = (r + b - 1) div b + q" using b by (subst div_mult_self1) simp_all
  finally have "(a + b - 1) div b = (r + b - 1) div b + q" .
  moreover have "(r + b - 1) div b = (if 0 < r then 1 else 0)"
  proof (cases "r = 0")
    case True
    then show ?thesis using b by simp
  next
    case False
    then show ?thesis using r b by (simp add: div_nat_eqI)
  qed
  ultimately show ?thesis by (simp add: q_def r_def)
qed

lemma div_ceil_eq_Ok [unat_rules]:
  "div_ceil a b = Ok c \<longleftrightarrow> unat b \<noteq> 0 \<and> unat c = (unat a + unat b - 1) div unat b"
  for a :: "'a::len word"
proof (cases "b = 0")
  case True
  then show ?thesis by (simp add: div_ceil_def)
next
  case False
  then have b: "0 < unat b" by (simp add: unat_gt_0)
  have m: "0 < a mod b \<longleftrightarrow> 0 < unat a mod unat b"
    by (simp add: word_less_nat_alt unat_mod)
  show ?thesis
    unfolding div_ceil_nat [OF b] using False b
    by (simp add: div_ceil_def m word_div_eq_iff padd_eq_Ok unat_div)
qed

lemma div_ceil_neq_Panic: "unat b \<noteq> 0 \<Longrightarrow> div_ceil a b \<noteq> Panic" for a :: "'a::len word"
proof -
  assume b: "unat b \<noteq> 0"
  have "unat (a div b) + unat (1 :: 'a word) < 2 ^ LENGTH('a)" if "0 < a mod b"
  proof -
    from that have m: "0 < unat a mod unat b" by (simp add: word_less_nat_alt unat_mod)
    have "unat b \<noteq> 1" using m by auto
    then have "2 \<le> unat b" using b by simp
    have "0 < unat a" using m by (cases "unat a") auto
    have "unat a div unat b < unat a" using \<open>2 \<le> unat b\<close> \<open>0 < unat a\<close> by simp
    then have "unat a div unat b + 1 < 2 ^ LENGTH('a)" using unat_less_exp [of a] by linarith
    then show ?thesis by (simp add: unat_div)
  qed
  then show ?thesis using b by (auto simp: div_ceil_def padd_eq_Panic unat_eq_zero)
qed

section \<open>Little-endian byte strings\<close>

text \<open>\<open>to_le_bytes n w\<close> is the \<open>n\<close>-byte little-endian encoding (\<open>w.to_le_bytes()\<close> for a word of
  \<open>8 * n\<close> bits), \<open>from_le_bytes\<close> its reading.\<close>

primrec to_le_bytes :: "nat \<Rightarrow> 'a::len word \<Rightarrow> bytes" where
  "to_le_bytes 0 w = []"
| "to_le_bytes (Suc n) w = ucast w # to_le_bytes n (drop_bit 8 w)"

primrec from_le_bytes :: "bytes \<Rightarrow> 'a::len word" where
  "from_le_bytes [] = 0"
| "from_le_bytes (b # bs) = ucast b OR push_bit 8 (from_le_bytes bs)"

lemma length_to_le_bytes [simp]: "length (to_le_bytes n w) = n"
  by (induction n arbitrary: w) simp_all

lemma nth_to_le_bytes: "j < n \<Longrightarrow> to_le_bytes n w ! j = ucast (drop_bit (8 * j) w)"
proof (induction n arbitrary: w j)
  case 0
  then show ?case by simp
next
  case (Suc n)
  show ?case
  proof (cases j)
    case 0
    then show ?thesis by simp
  next
    case (Suc k)
    with Suc.prems Suc.IH [of k "drop_bit 8 w"] show ?thesis by (simp add: drop_bit_drop_bit add.commute)
  qed
qed

lemma bit_from_le_bytes:
  "bit (from_le_bytes bs :: 'a::len word) i \<longleftrightarrow>
     i < LENGTH('a) \<and> i div 8 < length bs \<and> bit (bs ! (i div 8)) (i mod 8)"
proof (induction bs arbitrary: i)
  case Nil
  then show ?case by simp
next
  case (Cons b bs)
  show ?case
  proof (cases "i < 8")
    case True
    then show ?thesis by (auto simp: bit_or_iff bit_push_bit_iff bit_ucast_iff)
  next
    case False
    then have "i div 8 = Suc ((i - 8) div 8)" and "i mod 8 = (i - 8) mod 8"
      by (simp_all add: le_div_geq le_mod_geq)
    moreover have "\<not> bit b i" using False bit_imp_le_length [of b i] by auto
    ultimately show ?thesis using False Cons.IH [of "i - 8"]
      by (auto simp: bit_or_iff bit_push_bit_iff bit_ucast_iff)
  qed
qed

lemma from_to_le_bytes [simp]:
  assumes "LENGTH('a) \<le> 8 * n"
  shows "from_le_bytes (to_le_bytes n w) = (w :: 'a::len word)"
proof (rule bit_word_eqI)
  fix i assume i: "i < LENGTH('a)"
  then have j: "i div 8 < n" using assms by (simp add: less_mult_imp_div_less mult.commute)
  have "8 * (i div 8) + i mod 8 = i" by simp
  then show "bit (from_le_bytes (to_le_bytes n w) :: 'a word) i = bit w i"
    using i j by (simp add: bit_from_le_bytes nth_to_le_bytes bit_ucast_iff bit_drop_bit_eq)
qed

lemma to_from_le_bytes [simp]:
  assumes "8 * length bs \<le> LENGTH('a)" and "n = length bs"
  shows "to_le_bytes n (from_le_bytes bs :: 'a::len word) = bs"
proof (rule nth_equalityI)
  show "length (to_le_bytes n (from_le_bytes bs :: 'a word)) = length bs" by (simp add: assms)
next
  fix j assume "j < length (to_le_bytes n (from_le_bytes bs :: 'a word))"
  then have j: "j < n" by simp
  show "to_le_bytes n (from_le_bytes bs :: 'a word) ! j = bs ! j"
  proof (rule bit_word_eqI)
    fix i :: nat assume i: "i < LENGTH(8)"
    then have "8 * j + i < LENGTH('a)" using j assms by simp
    moreover have "(8 * j + i) div 8 = j" "(8 * j + i) mod 8 = i" using i by simp_all
    ultimately show "bit (to_le_bytes n (from_le_bytes bs :: 'a word) ! j) i = bit (bs ! j) i"
      using i j assms(2) by (simp add: nth_to_le_bytes bit_ucast_iff bit_drop_bit_eq bit_from_le_bytes)
  qed
qed

section \<open>Safe computations\<close>

text \<open>\<open>safely\<close> is the predicate transformer of a computation that may fail with an error but may not panic.\<close>

definition safely :: "('a \<Rightarrow> bool) \<Rightarrow> ('e, 'a) outcome \<Rightarrow> bool" where
  "safely Q m \<longleftrightarrow> m \<noteq> Panic \<and> (\<forall>x. m = Ok x \<longrightarrow> Q x)"

named_theorems safely_simps "weakest preconditions of safe computations"

lemma safely_Ok [safely_simps, simp]: "safely Q (Ok x) \<longleftrightarrow> Q x"
  by (simp add: safely_def)

lemma safely_Err [safely_simps, simp]: "safely Q (Err e)"
  by (simp add: safely_def)

lemma safely_Panic [simp]: "\<not> safely Q Panic"
  by (simp add: safely_def)

lemma safely_obind [safely_simps]: "safely Q (obind m f) \<longleftrightarrow> safely (\<lambda>x. safely Q (f x)) m"
  by (cases m) simp_all

lemma safely_then_do [safely_simps]: "safely Q (then_do m r) \<longleftrightarrow> safely (\<lambda>_. safely Q r) m"
  by (simp add: then_do_def safely_obind)

lemma safely_ok_or [safely_simps]: "safely Q (ok_or x e) \<longleftrightarrow> (\<forall>y. x = Some y \<longrightarrow> Q y)"
  by (cases x) (simp_all add: ok_or_def)

lemma safely_ensure [safely_simps]: "safely Q (ensure b e) \<longleftrightarrow> (b \<longrightarrow> Q ())"
  by (simp add: ensure_def)

lemma safely_map_err [safely_simps]: "safely Q (map_err f m) \<longleftrightarrow> safely Q m"
  by (cases m) simp_all

lemma safely_if [safely_simps]: "safely Q (if b then m else n) \<longleftrightarrow> (b \<longrightarrow> safely Q m) \<and> (\<not> b \<longrightarrow> safely Q n)"
  by simp

lemma safely_mono: "safely Q m \<Longrightarrow> (\<And>x. Q x \<Longrightarrow> R x) \<Longrightarrow> safely R m"
  by (auto simp: safely_def)

lemma safely_True: "safely (\<lambda>_. True) m \<longleftrightarrow> m \<noteq> Panic"
  by (simp add: safely_def)

lemma safely_omap: "(\<And>x. f x \<noteq> Panic) \<Longrightarrow> safely (\<lambda>ys. length ys = length xs) (omap f xs)"
proof (induction xs)
  case (Cons x xs)
  have "safely (\<lambda>_. True) (f x)" using Cons(2) by (simp add: safely_True)
  moreover have "safely (\<lambda>ys. length ys = length xs) (omap f xs)" using Cons by blast
  ultimately show ?case by (simp add: safely_obind)
qed simp

text \<open>Loops with an invariant.\<close>

lemma safely_ofold:
  assumes "I s" and "\<And>x s. x \<in> set xs \<Longrightarrow> I s \<Longrightarrow> safely I (f x s)"
  shows "safely I (ofold f xs s)"
  using assms
proof (induction xs arbitrary: s)
  case (Cons x xs)
  have "safely I (f x s)" using Cons by simp
  then show ?case using Cons by (auto simp: safely_obind intro: safely_mono)
qed simp

text \<open>The same with an invariant of the prefix already processed, and for checks of every element.\<close>

lemma safely_ofold_prefix:
  assumes "I [] s" and "\<And>ys y zs s. xs = ys @ y # zs \<Longrightarrow> I ys s \<Longrightarrow> safely (I (ys @ [y])) (f y s)"
  shows "safely (I xs) (ofold f xs s)"
proof -
  have "safely (I (ys @ zs)) (ofold f zs s)" if "xs = ys @ zs" "I ys s" for ys zs s
    using that
  proof (induction zs arbitrary: ys s)
    case (Cons z zs)
    have "safely (I (ys @ [z])) (f z s)" using assms(2) Cons.prems by blast
    then show ?case using Cons.IH [of "ys @ [z]"] Cons.prems(1) by (auto simp: safely_obind elim: safely_mono)
  qed simp
  from this [of "[]" xs s] assms(1) show ?thesis by simp
qed

lemma safely_ofold_each:
  assumes "\<And>x s. x \<in> set xs \<Longrightarrow> safely (\<lambda>_. P x) (f x s)"
  shows "safely (\<lambda>_. \<forall>x \<in> set xs. P x) (ofold f xs s)"
  using assms by (intro safely_ofold_prefix [where I = "\<lambda>ys _. \<forall>x \<in> set ys. P x"]) (auto elim: safely_mono)

lemma ball_enumerate: "(\<forall>p \<in> set (enumerate n xs). P (snd p)) \<longleftrightarrow> (\<forall>x \<in> set xs. P x)"
  by (metis enumerate_append_eq in_set_conv_nth in_set_enumerate_eq length_enumerate nth_enumerate_eq nth_mem snd_conv)

lemma safely_ocheck:
  assumes "\<And>i x. x \<in> set xs \<Longrightarrow> safely (\<lambda>_. P x) (f i x)"
  shows "safely (\<lambda>_. \<forall>x \<in> set xs. P x) (ocheck f k xs)"
  using assms
proof (induction xs arbitrary: k)
  case (Cons x xs)
  have "safely (\<lambda>_. P x) (f k x)" using Cons by simp
  moreover have "safely (\<lambda>_. \<forall>x \<in> set xs. P x) (ocheck f (Suc k) xs)" using Cons by simp
  ultimately show ?case by (auto simp: safely_then_do elim!: safely_mono)
qed simp

lemma safely_conj: "safely Q m \<Longrightarrow> safely R m \<Longrightarrow> safely (\<lambda>x. Q x \<and> R x) m"
  by (auto simp: safely_def)

lemma safely_padd: "safely Q (padd a b) \<longleftrightarrow> unat a + unat b < 2 ^ LENGTH('a) \<and> Q (a + b)" for a :: "'a::len word"
  by (simp add: padd_def checked_add_def)

lemma safely_psub: "safely Q (psub a b) \<longleftrightarrow> unat b \<le> unat a \<and> Q (a - b)" for a :: "'a::len word"
  by (simp add: psub_def checked_sub_def word_le_nat_alt)

end
