(* ===== verification/Tx.thy ===== *)
theory Tx
  imports Prelude "HOL-Library.List_Lexorder"
begin

text \<open>
  The transaction data model: src/consensus/core/src/tx.rs, tx/script_public_key.rs, subnets.rs,
  constants.rs and the 32-byte \<open>Hash\<close> of src/crypto/hashes/src/lib.rs. A struct is a record with the
  source's fields, a \<open>Vec<u8>\<close> is \<^typ>\<open>bytes\<close>, integers keep their width, and \<open>usize\<close>
  lengths are \<^typ>\<open>nat\<close>. The atomic \<open>mass\<close> cell and the cached \<open>id\<close> of a transaction are
  plain fields.
\<close>

section \<open>Hashes\<close>

text \<open>\<open>Hash([u8; 32])\<close>; the derived \<open>Ord\<close> is the lexicographic order of the bytes.\<close>

datatype hash = Hash (as_bytes: bytes)

instantiation hash :: linorder
begin

definition less_eq_hash :: "hash \<Rightarrow> hash \<Rightarrow> bool" where
  "less_eq_hash a b \<longleftrightarrow> as_bytes a \<le> as_bytes b"

definition less_hash :: "hash \<Rightarrow> hash \<Rightarrow> bool" where
  "less_hash a b \<longleftrightarrow> as_bytes a < as_bytes b"

instance
  by standard (auto simp: less_eq_hash_def less_hash_def hash.expand)

end

type_synonym transaction_id = hash

definition HASH_SIZE :: nat where
  "HASH_SIZE = 32"

definition from_le_u64 :: "u64 list \<Rightarrow> hash" where
  "from_le_u64 arr = Hash (concat (map (to_le_bytes 8) arr))"

definition from_u64_word :: "u64 \<Rightarrow> hash" where
  "from_u64_word w = from_le_u64 [0, 0, 0, w]"

section \<open>Subnetworks\<close>

datatype subnetwork_id_t = SubnetworkId bytes

definition SUBNETWORK_ID_SIZE :: nat where
  "SUBNETWORK_ID_SIZE = 20"

definition subnetwork_from_byte :: "u8 \<Rightarrow> subnetwork_id_t" where
  "subnetwork_from_byte b = SubnetworkId (b # replicate (SUBNETWORK_ID_SIZE - 1) 0)"

definition SUBNETWORK_ID_NATIVE :: subnetwork_id_t where
  "SUBNETWORK_ID_NATIVE = subnetwork_from_byte 0"

definition SUBNETWORK_ID_COINBASE :: subnetwork_id_t where
  "SUBNETWORK_ID_COINBASE = subnetwork_from_byte 1"

definition SUBNETWORK_ID_REGISTRY :: subnetwork_id_t where
  "SUBNETWORK_ID_REGISTRY = subnetwork_from_byte 2"

definition is_native :: "subnetwork_id_t \<Rightarrow> bool" where
  "is_native s \<longleftrightarrow> s = SUBNETWORK_ID_NATIVE"

definition is_builtin :: "subnetwork_id_t \<Rightarrow> bool" where
  "is_builtin s \<longleftrightarrow> s = SUBNETWORK_ID_COINBASE \<or> s = SUBNETWORK_ID_REGISTRY"

definition is_builtin_or_native :: "subnetwork_id_t \<Rightarrow> bool" where
  "is_builtin_or_native s \<longleftrightarrow> is_native s \<or> is_builtin s"

section \<open>Constants\<close>

definition TX_VERSION :: u16 where "TX_VERSION = 0"
definition MAX_TX_VERSION :: u16 where "MAX_TX_VERSION = 1"
definition LOCK_TIME_THRESHOLD :: u64 where "LOCK_TIME_THRESHOLD = 500000000000"
definition MAX_SCRIPT_PUBLIC_KEY_VERSION :: u16 where "MAX_SCRIPT_PUBLIC_KEY_VERSION = 5"
definition SCRIPT_VERSION_CONTRACT :: u16 where "SCRIPT_VERSION_CONTRACT = 1"
definition SCRIPT_VERSION_TOKEN :: u16 where "SCRIPT_VERSION_TOKEN = 2"
definition SCRIPT_VERSION_CARRIER :: u16 where "SCRIPT_VERSION_CARRIER = 5"
definition SOMPI_PER_SOPHIS :: u64 where "SOMPI_PER_SOPHIS = 100000000"
definition STORAGE_MASS_PARAMETER :: u64 where "STORAGE_MASS_PARAMETER = SOMPI_PER_SOPHIS * 10000"
definition TRANSIENT_BYTE_TO_MASS_FACTOR :: u64 where "TRANSIENT_BYTE_TO_MASS_FACTOR = 4"
definition MAX_SOMPI :: u64 where "MAX_SOMPI = 210000000 * SOMPI_PER_SOPHIS"
definition MAX_TX_IN_SEQUENCE_NUM :: u64 where "MAX_TX_IN_SEQUENCE_NUM = - 1"
definition SEQUENCE_LOCK_TIME_MASK :: u64 where "SEQUENCE_LOCK_TIME_MASK = 0x00000000ffffffff"
definition SEQUENCE_LOCK_TIME_DISABLED :: u64 where "SEQUENCE_LOCK_TIME_DISABLED = push_bit 63 1"
definition UNACCEPTED_DAA_SCORE :: u64 where "UNACCEPTED_DAA_SCORE = - 1"

lemma unat_MAX_SOMPI: "unat MAX_SOMPI = 21000000000000000"
  by (simp add: MAX_SOMPI_def SOMPI_PER_SOPHIS_def)

section \<open>Transactions\<close>

record script_public_key =
  spk_version :: u16
  spk_script :: bytes

record utxo_entry =
  amount :: u64
  entry_spk :: script_public_key
  block_daa_score :: u64
  entry_is_coinbase :: bool

record transaction_outpoint =
  transaction_id :: transaction_id
  outpoint_index :: u32

record transaction_input =
  previous_outpoint :: transaction_outpoint
  signature_script :: bytes
  sequence :: u64
  sig_op_count :: u8

record transaction_output =
  out_value :: u64
  out_spk :: script_public_key

record transaction =
  tx_version :: u16
  tx_inputs :: "transaction_input list"
  tx_outputs :: "transaction_output list"
  lock_time :: u64
  subnetwork_id :: subnetwork_id_t
  tx_gas :: u64
  tx_payload :: bytes
  tx_mass :: u64
  tx_id :: transaction_id

definition is_coinbase :: "transaction \<Rightarrow> bool" where
  "is_coinbase tx \<longleftrightarrow> subnetwork_id tx = SUBNETWORK_ID_COINBASE"

text \<open>\<open>Transaction::new_non_finalized\<close>, \<open>finalize\<close> and \<open>new\<close>; the transaction hash is the
  parameter \<open>hash_tx\<close>.\<close>

definition transaction_new_non_finalized ::
  "u16 \<Rightarrow> transaction_input list \<Rightarrow> transaction_output list \<Rightarrow> u64 \<Rightarrow> subnetwork_id_t \<Rightarrow> u64 \<Rightarrow> bytes
     \<Rightarrow> transaction" where
  "transaction_new_non_finalized v ins outs lock subnet gas pl =
     \<lparr>tx_version = v, tx_inputs = ins, tx_outputs = outs, lock_time = lock, subnetwork_id = subnet,
      tx_gas = gas, tx_payload = pl, tx_mass = 0, tx_id = Hash (replicate HASH_SIZE 0)\<rparr>"

definition finalize :: "(transaction \<Rightarrow> hash) \<Rightarrow> transaction \<Rightarrow> transaction" where
  "finalize hash_tx tx = tx\<lparr>tx_id := hash_tx tx\<rparr>"

definition set_mass :: "transaction \<Rightarrow> u64 \<Rightarrow> transaction" where
  "set_mass tx m = tx\<lparr>tx_mass := m\<rparr>"

definition transaction_new ::
  "(transaction \<Rightarrow> hash) \<Rightarrow> u16 \<Rightarrow> transaction_input list \<Rightarrow> transaction_output list \<Rightarrow> u64
     \<Rightarrow> subnetwork_id_t \<Rightarrow> u64 \<Rightarrow> bytes \<Rightarrow> transaction" where
  "transaction_new hash_tx v ins outs lock subnet gas pl =
     finalize hash_tx (transaction_new_non_finalized v ins outs lock subnet gas pl)"

text \<open>\<open>PopulatedTransaction\<close>: the constructor asserts one entry per input, so that
  \<open>populated_inputs\<close> pairs them up.\<close>

record populated_transaction =
  ptx :: transaction
  ptx_entries :: "utxo_entry list"

definition populated_transaction_new ::
  "transaction \<Rightarrow> utxo_entry list \<Rightarrow> ('e, populated_transaction) outcome" where
  "populated_transaction_new tx es =
     (if length (tx_inputs tx) = length es then Ok \<lparr>ptx = tx, ptx_entries = es\<rparr> else Panic)"

definition populated_wf :: "populated_transaction \<Rightarrow> bool" where
  "populated_wf p \<longleftrightarrow> length (tx_inputs (ptx p)) = length (ptx_entries p)"

definition populated_inputs :: "populated_transaction \<Rightarrow> (transaction_input \<times> utxo_entry) list" where
  "populated_inputs p = zip (tx_inputs (ptx p)) (ptx_entries p)"

lemma populated_transaction_new_wf: "populated_transaction_new tx es = Ok p \<Longrightarrow> populated_wf p"
  by (auto simp: populated_transaction_new_def populated_wf_def split: if_splits)

lemma length_populated_inputs [simp]:
  "populated_wf p \<Longrightarrow> length (populated_inputs p) = length (tx_inputs (ptx p))"
  by (simp add: populated_inputs_def populated_wf_def)

lemma coinbase_not_native [simp]: "SUBNETWORK_ID_COINBASE \<noteq> SUBNETWORK_ID_NATIVE"
  by (simp add: SUBNETWORK_ID_COINBASE_def SUBNETWORK_ID_NATIVE_def subnetwork_from_byte_def)

end
