(* ===== verification/Hash_Map.thy ===== *)
theory Hash_Map
  imports Prelude
begin

text \<open>
  \<open>std::collections::HashMap\<close> as the code uses it. A map is the list of its entries in the order
  the iterator visits them, with distinct keys; \<open>insert\<close> replaces in place or adds an entry and
  \<open>remove\<close> drops it. The iteration order of a real \<open>HashMap\<close> is unspecified, so every lemma
  the components use is stated through \<open>hm_get\<close> and holds for any order of the list.

  The locale \<open>map_store\<close> is the contract the loops of the code rely on: what a lookup returns after
  an insert and a remove, and that the iterator visits exactly the stored entries. Loops that insert
  (or drop) the entries of another collection are characterised once, inside the locale.
\<close>

type_synonym ('k, 'v) hmap = "('k \<times> 'v) list"

definition hm_get :: "('k, 'v) hmap \<Rightarrow> 'k \<Rightarrow> 'v option" where
  "hm_get m k = map_of m k"

definition hm_contains_key :: "('k, 'v) hmap \<Rightarrow> 'k \<Rightarrow> bool" where
  "hm_contains_key m k = (hm_get m k \<noteq> None)"

definition hm_insert :: "'k \<Rightarrow> 'v \<Rightarrow> ('k, 'v) hmap \<Rightarrow> ('k, 'v) hmap" where
  "hm_insert k v m = AList.update k v m"

definition hm_remove :: "'k \<Rightarrow> ('k, 'v) hmap \<Rightarrow> ('k, 'v) hmap" where
  "hm_remove k m = AList.delete k m"

definition hm_inv :: "('k, 'v) hmap \<Rightarrow> bool" where
  "hm_inv m = distinct (map fst m)"

locale map_store =
  fixes get :: "'m \<Rightarrow> 'k \<Rightarrow> 'v option"
    and insert :: "'k \<Rightarrow> 'v \<Rightarrow> 'm \<Rightarrow> 'm"
    and remove :: "'k \<Rightarrow> 'm \<Rightarrow> 'm"
    and entries :: "'m \<Rightarrow> ('k \<times> 'v) list"
    and invar :: "'m \<Rightarrow> bool"
  assumes entries_get: "invar m \<Longrightarrow> map_of (entries m) = get m"
    and entries_distinct: "invar m \<Longrightarrow> distinct (map fst (entries m))"
    and get_insert: "invar m \<Longrightarrow> get (insert k v m) = (get m)(k \<mapsto> v)"
    and get_remove: "invar m \<Longrightarrow> get (remove k m) = (get m)(k := None)"
    and invar_insert: "invar m \<Longrightarrow> invar (insert k v m)"
    and invar_remove: "invar m \<Longrightarrow> invar (remove k m)"
begin

lemma in_entries: "invar m \<Longrightarrow> (k, v) \<in> set (entries m) \<longleftrightarrow> get m k = Some v"
  using entries_get [of m] entries_distinct [of m] by (metis map_of_eq_Some_iff)

lemma bex_entries: "invar m \<Longrightarrow> (\<exists>x\<in>set (entries m). P x) \<longleftrightarrow> (\<exists>k v. get m k = Some v \<and> P (k, v))"
  by (metis in_entries surj_pair)

lemma ball_entries: "invar m \<Longrightarrow> (\<forall>x\<in>set (entries m). P x) \<longleftrightarrow> (\<forall>k v. get m k = Some v \<longrightarrow> P (k, v))"
  by (metis in_entries surj_pair)

lemma invar_fold_insert_if:
  "invar m \<Longrightarrow> invar (fold (\<lambda>(k, v) m. if P k v then insert k v m else m) xs m)"
  by (induction xs arbitrary: m) (auto simp: invar_insert)

lemma get_fold_insert_if:
  assumes "invar m" and "distinct (map fst xs)"
  shows "get (fold (\<lambda>(k, v) m. if P k v then insert k v m else m) xs m) =
    (\<lambda>k. case map_of xs k of Some v \<Rightarrow> if P k v then Some v else get m k | None \<Rightarrow> get m k)"
  using assms
proof (induction xs arbitrary: m)
  case Nil
  then show ?case by simp
next
  case (Cons x xs)
  obtain k v where x: "x = (k, v)" by (cases x)
  have k: "map_of xs k = None" using Cons.prems x by (auto simp: map_of_eq_None_iff)
  let ?m = "if P k v then insert k v m else m"
  have "invar ?m" using Cons.prems by (simp add: invar_insert)
  then show ?case using Cons.IH [of ?m] Cons.prems k
    by (auto simp: x get_insert fun_eq_iff split: option.splits)
qed

lemma get_fold_insert_entries:
  assumes "invar m" and "invar m'"
  shows "get (fold (\<lambda>(k, v) m. if P k v then insert k v m else m) (entries m') m) =
    (\<lambda>k. case get m' k of Some v \<Rightarrow> if P k v then Some v else get m k | None \<Rightarrow> get m k)"
  using get_fold_insert_if [OF assms(1) entries_distinct [OF assms(2)]] entries_get [OF assms(2)] by simp

lemma invar_fold_remove: "invar m \<Longrightarrow> invar (fold (\<lambda>(k, v). remove k) xs m)"
  by (induction xs arbitrary: m) (auto simp: invar_remove)

lemma get_fold_remove:
  "invar m \<Longrightarrow> get (fold (\<lambda>(k, v). remove k) xs m) = (\<lambda>k. if k \<in> fst ` set xs then None else get m k)"
proof (induction xs arbitrary: m)
  case Nil
  then show ?case by simp
next
  case (Cons x xs)
  then show ?case by (cases x) (simp add: invar_remove get_remove fun_eq_iff)
qed

lemma get_fold_remove_entries:
  assumes "invar m" and "invar m'"
  shows "get (fold (\<lambda>(k, v). remove k) (entries m') m) =
    (\<lambda>k. if get m' k \<noteq> None then None else get m k)"
proof -
  have "k \<in> fst ` set (entries m') \<longleftrightarrow> get m' k \<noteq> None" for k
    using in_entries [OF assms(2)] by (force simp: image_iff)
  then show ?thesis by (simp add: get_fold_remove [OF assms(1)])
qed

end

interpretation hm: map_store hm_get hm_insert hm_remove "\<lambda>m. m" hm_inv
proof unfold_locales
  show "map_of m = hm_get m" for m :: "('k, 'v) hmap" by (simp add: hm_get_def fun_eq_iff)
  show "hm_inv m \<Longrightarrow> distinct (map fst m)" for m :: "('k, 'v) hmap" by (simp add: hm_inv_def)
  show "hm_get (hm_insert k v m) = (hm_get m)(k \<mapsto> v)" for m :: "('k, 'v) hmap" and k v
    by (simp add: hm_get_def hm_insert_def fun_eq_iff update_conv')
  show "hm_get (hm_remove k m) = (hm_get m)(k := None)" for m :: "('k, 'v) hmap" and k
    by (simp add: hm_get_def hm_remove_def fun_eq_iff delete_conv')
  show "hm_inv m \<Longrightarrow> hm_inv (hm_insert k v m)" for m :: "('k, 'v) hmap" and k v
    by (simp add: hm_inv_def hm_insert_def distinct_update)
  show "hm_inv m \<Longrightarrow> hm_inv (hm_remove k m)" for m :: "('k, 'v) hmap" and k
    by (simp add: hm_inv_def hm_remove_def distinct_delete)
qed

lemma hm_get_Nil [simp]: "hm_get [] k = None"
  by (simp add: hm_get_def)

lemma hm_inv_Nil [simp]: "hm_inv []"
  by (simp add: hm_inv_def)

lemma hm_get_insert [simp]: "hm_get (hm_insert k v m) = (hm_get m)(k \<mapsto> v)"
  by (simp add: hm_get_def hm_insert_def fun_eq_iff update_conv')

lemma hm_get_remove [simp]: "hm_get (hm_remove k m) = (hm_get m)(k := None)"
  by (simp add: hm_get_def hm_remove_def fun_eq_iff delete_conv')

lemmas hm_inv_intros [simp, intro] = hm.invar_insert hm.invar_remove

lemmas hm_get_simps = hm_contains_key_def hm.in_entries hm.bex_entries hm.ball_entries

end
