(* ===== verification/Utxo.thy ===== *)
theory Utxo
  imports Tx Hash_Map
begin

text \<open>
  The UTXO diff algebra: src/consensus/core/src/utxo (utxo_collection.rs, utxo_diff.rs, utxo_view.rs,
  utxo_error.rs). A collection is a \<open>HashMap\<close> from outpoints to entries (theory \<open>Hash_Map\<close>),
  a view is its \<open>get\<close>, and the two implementations of \<open>ImmutableUtxoDiff\<close> are the constructors
  of \<open>immutable_diff\<close>. The specification is the set-theoretic reading of a diff: \<open>applies\<close> says
  that a diff is a legal change of a base view, \<open>compose_get\<close> is the view it leads to, and the
  lemmas show that every operation of the algebra computes the diff it promises.
\<close>

section \<open>Collections\<close>

type_synonym utxo_collection = "(transaction_outpoint, utxo_entry) hmap"
type_synonym utxo_view = "transaction_outpoint \<Rightarrow> utxo_entry option"

definition contains_with_daa_score :: "utxo_collection \<Rightarrow> transaction_outpoint \<Rightarrow> u64 \<Rightarrow> bool" where
  "contains_with_daa_score m k daa =
     (case hm_get m k of Some entry \<Rightarrow> block_daa_score entry = daa | None \<Rightarrow> False)"

definition add_collection :: "utxo_collection \<Rightarrow> utxo_collection \<Rightarrow> utxo_collection" where
  "add_collection self other = fold (\<lambda>(k, v). hm_insert k v) other self"

definition remove_collection :: "utxo_collection \<Rightarrow> utxo_collection \<Rightarrow> utxo_collection" where
  "remove_collection self other = fold (\<lambda>(k, v). hm_remove k) other self"

definition intersects :: "utxo_collection \<Rightarrow> utxo_collection \<Rightarrow> bool" where
  "intersects self other =
     (if length self \<le> length other
      then list_ex (\<lambda>(k, v). hm_contains_key other k) self
      else list_ex (\<lambda>(k, v). hm_contains_key self k) other)"

definition intersects_with_rule ::
  "utxo_collection \<Rightarrow> utxo_collection \<Rightarrow> (transaction_outpoint \<Rightarrow> utxo_entry \<Rightarrow> utxo_entry \<Rightarrow> bool)
     \<Rightarrow> transaction_outpoint option" where
  "intersects_with_rule self other rule =
     (if length self \<le> length other
      then map_option fst (List.find (\<lambda>(k, v1). case hm_get other k of
             Some v2 \<Rightarrow> rule k v1 v2 | None \<Rightarrow> False) self)
      else map_option fst (List.find (\<lambda>(k, v2). case hm_get self k of
             Some v1 \<Rightarrow> rule k v1 v2 | None \<Rightarrow> False) other))"

text \<open>The three loops of the diff algebra; the in-place results are returned.\<close>

definition intersection_with_remainder_having_daa_score_in_place ::
  "utxo_collection \<Rightarrow> utxo_collection \<Rightarrow> utxo_collection \<Rightarrow> utxo_collection
     \<Rightarrow> utxo_collection \<times> utxo_collection" where
  "intersection_with_remainder_having_daa_score_in_place this other result remainder =
     fold (\<lambda>(outpoint, entry) (result, remainder).
       if contains_with_daa_score other outpoint (block_daa_score entry)
       then (hm_insert outpoint entry result, remainder)
       else (result, hm_insert outpoint entry remainder)) this (result, remainder)"

definition subtraction_having_daa_score_in_place ::
  "utxo_collection \<Rightarrow> utxo_collection \<Rightarrow> utxo_collection \<Rightarrow> utxo_collection" where
  "subtraction_having_daa_score_in_place this other result =
     fold (\<lambda>(outpoint, entry) result.
       if \<not> contains_with_daa_score other outpoint (block_daa_score entry)
       then hm_insert outpoint entry result else result) this result"

definition subtraction_with_remainder_having_daa_score_in_place ::
  "utxo_collection \<Rightarrow> utxo_collection \<Rightarrow> utxo_collection \<Rightarrow> utxo_collection
     \<Rightarrow> utxo_collection \<times> utxo_collection" where
  "subtraction_with_remainder_having_daa_score_in_place this other result remainder =
     fold (\<lambda>(outpoint, entry) (result, remainder).
       if \<not> contains_with_daa_score other outpoint (block_daa_score entry)
       then (hm_insert outpoint entry result, remainder)
       else (result, hm_insert outpoint entry remainder)) this (result, remainder)"

section \<open>Diffs and views\<close>

record utxo_diff =
  diff_add :: utxo_collection
  diff_remove :: utxo_collection

datatype immutable_diff = Direct utxo_diff | Reversed utxo_diff

fun added :: "immutable_diff \<Rightarrow> utxo_collection" where
  "added (Direct d) = diff_add d"
| "added (Reversed d) = diff_remove d"

fun removed :: "immutable_diff \<Rightarrow> utxo_collection" where
  "removed (Direct d) = diff_remove d"
| "removed (Reversed d) = diff_add d"

definition utxo_diff_new :: "utxo_collection \<Rightarrow> utxo_collection \<Rightarrow> utxo_diff" where
  "utxo_diff_new a r = \<lparr>diff_add = a, diff_remove = r\<rparr>"

definition as_reversed :: "utxo_diff \<Rightarrow> immutable_diff" where
  "as_reversed d = Reversed d"

definition to_reversed :: "utxo_diff \<Rightarrow> utxo_diff" where
  "to_reversed d = utxo_diff_new (diff_remove d) (diff_add d)"

definition compose_get :: "utxo_view \<Rightarrow> immutable_diff \<Rightarrow> utxo_view" where
  "compose_get base diff outpoint =
     (case hm_get (added diff) outpoint of
        Some entry \<Rightarrow> Some entry
      | None \<Rightarrow> if hm_contains_key (removed diff) outpoint then None else base outpoint)"

section \<open>The operations of \<open>UtxoDiff\<close>\<close>

datatype utxo_algebra_error =
    DuplicateRemovePoint transaction_outpoint
  | DuplicateAddPoint transaction_outpoint
  | DoubleRemoveCall transaction_outpoint
  | DoubleAddCall transaction_outpoint
  | DiffIntersectionPoint transaction_outpoint string
  | General string

type_synonym 'a utxo_result = "(utxo_algebra_error, 'a) outcome"

definition with_diff_in_place :: "utxo_diff \<Rightarrow> immutable_diff \<Rightarrow> utxo_diff utxo_result" where
  "with_diff_in_place self other =
    (case intersects_with_rule (removed other) (diff_remove self)
        (\<lambda>outpoint entry_to_add _. \<not> contains_with_daa_score (diff_add self) outpoint (block_daa_score entry_to_add)) of
      Some offending_outpoint \<Rightarrow> Err (DuplicateRemovePoint offending_outpoint)
    | None \<Rightarrow>
     (case intersects_with_rule (added other) (diff_add self)
        (\<lambda>outpoint _ existing_entry. \<not> contains_with_daa_score (removed other) outpoint (block_daa_score existing_entry)) of
      Some offending_outpoint \<Rightarrow> Err (DuplicateAddPoint offending_outpoint)
    | None \<Rightarrow>
      let (intersection, remove1) =
            intersection_with_remainder_having_daa_score_in_place (removed other) (diff_add self) [] (diff_remove self);
          add1 = remove_collection (diff_add self) intersection;
          (intersection, add2) =
            intersection_with_remainder_having_daa_score_in_place (added other) remove1 [] add1;
          remove2 = remove_collection remove1 intersection
      in Ok \<lparr>diff_add = add2, diff_remove = remove2\<rparr>))"

definition with_diff :: "utxo_diff \<Rightarrow> immutable_diff \<Rightarrow> utxo_diff utxo_result" where
  "with_diff self other = with_diff_in_place self other"

definition diff_from :: "utxo_diff \<Rightarrow> immutable_diff \<Rightarrow> utxo_diff utxo_result" where
  "diff_from self other =
    (case intersects_with_rule (diff_remove self) (added other)
        (\<lambda>outpoint this_entry other_entry.
           \<not> (block_daa_score other_entry \<noteq> block_daa_score this_entry
              \<and> (contains_with_daa_score (diff_add self) outpoint (block_daa_score other_entry)
                  \<or> contains_with_daa_score (removed other) outpoint (block_daa_score this_entry)))) of
      Some p \<Rightarrow> Err (DiffIntersectionPoint p ''both in self.add and in other.remove'')
    | None \<Rightarrow>
     (case intersects_with_rule (diff_add self) (removed other)
        (\<lambda>outpoint this_entry other_entry.
           \<not> (block_daa_score other_entry \<noteq> block_daa_score this_entry
              \<and> (contains_with_daa_score (diff_remove self) outpoint (block_daa_score other_entry)
                  \<or> contains_with_daa_score (added other) outpoint (block_daa_score this_entry)))) of
      Some p \<Rightarrow> Err (DiffIntersectionPoint p ''both in self.remove and in other.add'')
    | None \<Rightarrow>
     (case intersects_with_rule (diff_remove self) (removed other)
        (\<lambda>_ this_entry other_entry. block_daa_score other_entry \<noteq> block_daa_score this_entry) of
      Some p \<Rightarrow> Err (DiffIntersectionPoint p
        ''both in self.remove and other.remove with different DAA scores, with no corresponding entry in self.add'')
    | None \<Rightarrow>
      let (res_remove, in_both_to_add) =
            subtraction_with_remainder_having_daa_score_in_place (diff_add self) (added other) [] []
      in if intersects in_both_to_add (diff_remove self) \<noteq> intersects in_both_to_add (removed other)
         then Err (General ''diff_from: outpoint both in self.add, other.add, and only one of self.remove and other.remove'')
         else Ok \<lparr>diff_add = subtraction_having_daa_score_in_place (added other) (diff_add self)
                              (subtraction_having_daa_score_in_place (diff_remove self) (removed other) []),
                  diff_remove = subtraction_having_daa_score_in_place (removed other) (diff_remove self) res_remove\<rparr>)))"

definition remove_entry :: "transaction_outpoint \<Rightarrow> utxo_entry \<Rightarrow> utxo_diff \<Rightarrow> utxo_diff utxo_result" where
  "remove_entry outpoint entry self =
     (if contains_with_daa_score (diff_add self) outpoint (block_daa_score entry)
      then Ok (self\<lparr>diff_add := hm_remove outpoint (diff_add self)\<rparr>)
      else if \<not> hm_contains_key (diff_remove self) outpoint
      then Ok (self\<lparr>diff_remove := hm_insert outpoint entry (diff_remove self)\<rparr>)
      else Err (DoubleRemoveCall outpoint))"

definition add_entry :: "transaction_outpoint \<Rightarrow> utxo_entry \<Rightarrow> utxo_diff \<Rightarrow> utxo_diff utxo_result" where
  "add_entry outpoint entry self =
     (if contains_with_daa_score (diff_remove self) outpoint (block_daa_score entry)
      then Ok (self\<lparr>diff_remove := hm_remove outpoint (diff_remove self)\<rparr>)
      else if \<not> hm_contains_key (diff_add self) outpoint
      then Ok (self\<lparr>diff_add := hm_insert outpoint entry (diff_add self)\<rparr>)
      else Err (DoubleAddCall outpoint))"

definition output_entries :: "transaction \<Rightarrow> u64 \<Rightarrow> (transaction_outpoint \<times> utxo_entry) list" where
  "output_entries tx daa =
     map (\<lambda>(i, out). (\<lparr>transaction_id = tx_id tx, outpoint_index = of_nat i\<rparr>,
            \<lparr>amount = out_value out, entry_spk = out_spk out, block_daa_score = daa,
             entry_is_coinbase = is_coinbase tx\<rparr>))
       (List.enumerate 0 (tx_outputs tx))"

definition add_transaction :: "populated_transaction \<Rightarrow> u64 \<Rightarrow> utxo_diff \<Rightarrow> utxo_diff utxo_result" where
  "add_transaction p daa self =
     obind (ofold (\<lambda>(input, entry). remove_entry (previous_outpoint input) entry) (populated_inputs p) self)
       (ofold (\<lambda>(outpoint, entry). add_entry outpoint entry) (output_entries (ptx p) daa))"

section \<open>What the collection loops compute\<close>

named_theorems collection_simps

lemma contains_with_daa_score_iff:
  "contains_with_daa_score m k daa \<longleftrightarrow> (\<exists>e. hm_get m k = Some e \<and> block_daa_score e = daa)"
  by (auto simp: contains_with_daa_score_def split: option.splits)

lemma fold_pair_split:
  "fold (\<lambda>(k, v) (a, b). if P k v then (f k v a, b) else (a, f k v b)) xs (a, b) =
    (fold (\<lambda>(k, v) a. if P k v then f k v a else a) xs a,
     fold (\<lambda>(k, v) b. if \<not> P k v then f k v b else b) xs b)"
  by (induction xs arbitrary: a b) auto

lemma get_add_collection [collection_simps]:
  assumes "hm_inv self" and "hm_inv other"
  shows "hm_get (add_collection self other) k =
    (case hm_get other k of Some v \<Rightarrow> Some v | None \<Rightarrow> hm_get self k)"
  using hm.get_fold_insert_entries [OF assms, of "\<lambda>_ _. True"] by (simp add: add_collection_def split: option.splits)

lemma get_remove_collection [collection_simps]:
  assumes "hm_inv self" and "hm_inv other"
  shows "hm_get (remove_collection self other) k = (if hm_get other k \<noteq> None then None else hm_get self k)"
  using hm.get_fold_remove_entries [OF assms] by (simp add: remove_collection_def)

lemma inv_add_collection [simp]: "hm_inv self \<Longrightarrow> hm_inv (add_collection self other)"
  using hm.invar_fold_insert_if [of self "\<lambda>_ _. True"] by (simp add: add_collection_def)

lemma inv_remove_collection [simp]: "hm_inv self \<Longrightarrow> hm_inv (remove_collection self other)"
  unfolding remove_collection_def by (rule hm.invar_fold_remove)

lemma get_subtraction [collection_simps]:
  assumes "hm_inv this" and "hm_inv result"
  shows "hm_get (subtraction_having_daa_score_in_place this other result) k =
    (case hm_get this k of
       Some e \<Rightarrow> if contains_with_daa_score other k (block_daa_score e) then hm_get result k else Some e
     | None \<Rightarrow> hm_get result k)"
  using hm.get_fold_insert_entries [OF assms(2,1),
      of "\<lambda>k e. \<not> contains_with_daa_score other k (block_daa_score e)"]
  by (simp add: subtraction_having_daa_score_in_place_def split: option.splits)

lemma inv_subtraction [simp]:
  "hm_inv result \<Longrightarrow> hm_inv (subtraction_having_daa_score_in_place this other result)"
  unfolding subtraction_having_daa_score_in_place_def by (rule hm.invar_fold_insert_if)

text \<open>Intersection: the entries of \<open>this\<close> that \<open>other\<close> holds with the same DAA score.\<close>

definition intersection_having_daa_score ::
  "utxo_collection \<Rightarrow> utxo_collection \<Rightarrow> utxo_collection \<Rightarrow> utxo_collection" where
  "intersection_having_daa_score this other result =
     fold (\<lambda>(outpoint, entry) result.
       if contains_with_daa_score other outpoint (block_daa_score entry)
       then hm_insert outpoint entry result else result) this result"

lemma get_intersection [collection_simps]:
  assumes "hm_inv this" and "hm_inv result"
  shows "hm_get (intersection_having_daa_score this other result) k =
    (case hm_get this k of
       Some e \<Rightarrow> if contains_with_daa_score other k (block_daa_score e) then Some e else hm_get result k
     | None \<Rightarrow> hm_get result k)"
  using hm.get_fold_insert_entries [OF assms(2,1),
      of "\<lambda>k e. contains_with_daa_score other k (block_daa_score e)"]
  by (simp add: intersection_having_daa_score_def)

lemma inv_intersection [simp]:
  "hm_inv result \<Longrightarrow> hm_inv (intersection_having_daa_score this other result)"
  unfolding intersection_having_daa_score_def by (rule hm.invar_fold_insert_if)

lemma intersection_with_remainder_eq:
  "intersection_with_remainder_having_daa_score_in_place this other result remainder =
    (intersection_having_daa_score this other result,
     subtraction_having_daa_score_in_place this other remainder)"
  by (simp add: intersection_with_remainder_having_daa_score_in_place_def intersection_having_daa_score_def
      subtraction_having_daa_score_in_place_def fold_pair_split)

lemma subtraction_with_remainder_eq:
  "subtraction_with_remainder_having_daa_score_in_place this other result remainder =
    (subtraction_having_daa_score_in_place this other result,
     intersection_having_daa_score this other remainder)"
  by (simp add: subtraction_with_remainder_having_daa_score_in_place_def intersection_having_daa_score_def
      subtraction_having_daa_score_in_place_def fold_pair_split)

lemma intersects_iff:
  assumes "hm_inv self" and "hm_inv other"
  shows "intersects self other \<longleftrightarrow> (\<exists>k. hm_get self k \<noteq> None \<and> hm_get other k \<noteq> None)"
  using assms by (auto simp: intersects_def list_ex_iff hm_get_simps)

lemma find_None_ball: "List.find P xs = None \<longleftrightarrow> (\<forall>x\<in>set xs. \<not> P x)"
  by (auto simp: find_None_iff)

lemma find_Some_in: "List.find P xs = Some x \<Longrightarrow> x \<in> set xs \<and> P x"
  by (induction xs) (auto split: if_splits)

lemma intersects_with_rule_None:
  assumes "hm_inv self" and "hm_inv other"
  shows "intersects_with_rule self other rule = None \<longleftrightarrow>
    (\<forall>k v1 v2. hm_get self k = Some v1 \<longrightarrow> hm_get other k = Some v2 \<longrightarrow> \<not> rule k v1 v2)"
  using assms by (auto simp: intersects_with_rule_def find_None_ball hm_get_simps split: option.splits)

lemma intersects_with_rule_Some:
  assumes "hm_inv self" and "hm_inv other" and "intersects_with_rule self other rule = Some k"
  shows "\<exists>v1 v2. hm_get self k = Some v1 \<and> hm_get other k = Some v2 \<and> rule k v1 v2"
  using assms by (auto simp: intersects_with_rule_def hm_get_simps
      split: option.splits if_splits dest!: find_Some_in)

section \<open>The specification of a diff\<close>

definition diff_inv :: "immutable_diff \<Rightarrow> bool" where
  "diff_inv d \<longleftrightarrow> hm_inv (added d) \<and> hm_inv (removed d)"

text \<open>A diff applies to a base view when it removes entries the base holds, adds outpoints that are
  unspent nowhere else, and re-adds a removed outpoint only with another DAA score.\<close>

definition applies_at :: "utxo_entry option \<Rightarrow> utxo_entry option \<Rightarrow> utxo_entry option \<Rightarrow> bool" where
  "applies_at b a r =
     (case r of
        Some e \<Rightarrow> b = Some e \<and> (case a of Some e' \<Rightarrow> block_daa_score e' \<noteq> block_daa_score e | None \<Rightarrow> True)
      | None \<Rightarrow> (case a of Some _ \<Rightarrow> b = None | None \<Rightarrow> True))"

definition applies :: "utxo_view \<Rightarrow> immutable_diff \<Rightarrow> bool" where
  "applies base d \<longleftrightarrow> diff_inv d \<and> (\<forall>p. applies_at (base p) (hm_get (added d) p) (hm_get (removed d) p))"

text \<open>Outpoints are unique per acceptance: the same outpoint with the same DAA score is the same entry.\<close>

definition daa_consistent :: "utxo_collection \<Rightarrow> utxo_collection \<Rightarrow> bool" where
  "daa_consistent m1 m2 \<longleftrightarrow>
     (\<forall>p e1 e2. hm_get m1 p = Some e1 \<longrightarrow> hm_get m2 p = Some e2 \<longrightarrow>
        block_daa_score e1 = block_daa_score e2 \<longrightarrow> e1 = e2)"

definition effect_at :: "utxo_entry option \<Rightarrow> utxo_entry option \<Rightarrow> utxo_entry option \<Rightarrow> utxo_entry option" where
  "effect_at b a r = (case a of Some e \<Rightarrow> Some e | None \<Rightarrow> if r \<noteq> None then None else b)"

lemma compose_get_effect: "compose_get base d p = effect_at (base p) (hm_get (added d) p) (hm_get (removed d) p)"
  by (auto simp: compose_get_def effect_at_def hm_contains_key_def split: option.splits)

lemmas diff_at_defs = applies_at_def effect_at_def contains_with_daa_score_iff

text \<open>A diff is determined by its base and its effect.\<close>

lemma effect_at_unique:
  assumes "applies_at b a r" and "applies_at b a' r'" and "effect_at b a r = effect_at b a' r'"
  shows "a = a' \<and> r = r'"
  using assms by (cases b; cases a; cases r; cases a'; cases r') (auto simp: diff_at_defs)

lemma applies_unique:
  assumes "applies base d" and "applies base d'" and "compose_get base d = compose_get base d'"
  shows "hm_get (added d) = hm_get (added d') \<and> hm_get (removed d) = hm_get (removed d')"
proof -
  have "hm_get (added d) p = hm_get (added d') p \<and> hm_get (removed d) p = hm_get (removed d') p" for p
    by (rule effect_at_unique [of "base p"])
      (use assms(1,2) fun_cong [OF assms(3), of p] in \<open>auto simp: applies_def compose_get_effect\<close>)
  then show ?thesis by (simp add: fun_eq_iff)
qed

section \<open>\<open>with_diff\<close> composes diffs\<close>

text \<open>The algebra at a single outpoint: a pair of the added and the removed entry, if any.\<close>

definition same_daa :: "utxo_entry option \<Rightarrow> utxo_entry option \<Rightarrow> bool" where
  "same_daa x y = (case (x, y) of (Some e, Some e') \<Rightarrow> block_daa_score e = block_daa_score e' | _ \<Rightarrow> False)"

definition cell :: "immutable_diff \<Rightarrow> transaction_outpoint \<Rightarrow> utxo_entry option \<times> utxo_entry option" where
  "cell d p = (hm_get (added d) p, hm_get (removed d) p)"

definition cell_with :: "utxo_entry option \<times> utxo_entry option \<Rightarrow> utxo_entry option \<times> utxo_entry option
    \<Rightarrow> utxo_entry option \<times> utxo_entry option" where
  "cell_with = (\<lambda>(a, r) (a', r').
     let (a1, r1) = (if r' = None then (a, r) else if same_daa r' a then (None, r) else (a, r'))
     in if a' = None then (a1, r1) else if same_daa a' r1 then (a1, None) else (a', r1))"

definition cells_addable :: "utxo_entry option \<times> utxo_entry option \<Rightarrow> utxo_entry option \<times> utxo_entry option \<Rightarrow> bool" where
  "cells_addable = (\<lambda>(a, r) (a', r').
     (r' \<noteq> None \<and> r \<noteq> None \<longrightarrow> same_daa r' a) \<and> (a' \<noteq> None \<and> a \<noteq> None \<longrightarrow> same_daa a r'))"

lemma contains_same_daa: "contains_with_daa_score m p (block_daa_score e) = same_daa (Some e) (hm_get m p)"
  by (auto simp: contains_with_daa_score_def same_daa_def split: option.splits)

lemma with_diff_eq:
  "with_diff d1 d2 =
    (case intersects_with_rule (removed d2) (diff_remove d1) (\<lambda>p e _. \<not> same_daa (Some e) (hm_get (diff_add d1) p)) of
      Some p \<Rightarrow> Err (DuplicateRemovePoint p)
    | None \<Rightarrow> (case intersects_with_rule (added d2) (diff_add d1) (\<lambda>p _ e. \<not> same_daa (Some e) (hm_get (removed d2) p)) of
      Some p \<Rightarrow> Err (DuplicateAddPoint p)
    | None \<Rightarrow> Ok (let remove1 = subtraction_having_daa_score_in_place (removed d2) (diff_add d1) (diff_remove d1);
          add1 = remove_collection (diff_add d1) (intersection_having_daa_score (removed d2) (diff_add d1) [])
        in \<lparr>diff_add = subtraction_having_daa_score_in_place (added d2) remove1 add1,
            diff_remove = remove_collection remove1 (intersection_having_daa_score (added d2) remove1 [])\<rparr>)))"
  by (simp add: with_diff_def with_diff_in_place_def intersection_with_remainder_eq contains_same_daa Let_def
      split: option.splits)

lemma with_diff_Ok:
  assumes "diff_inv (Direct d1)" and "diff_inv d2"
  shows "(\<exists>d. with_diff d1 d2 = Ok d) \<longleftrightarrow> (\<forall>p. cells_addable (cell (Direct d1) p) (cell d2 p))"
proof -
  have "(\<exists>d. with_diff d1 d2 = Ok d) \<longleftrightarrow>
    intersects_with_rule (removed d2) (diff_remove d1) (\<lambda>p e _. \<not> same_daa (Some e) (hm_get (diff_add d1) p)) = None \<and>
    intersects_with_rule (added d2) (diff_add d1) (\<lambda>p _ e. \<not> same_daa (Some e) (hm_get (removed d2) p)) = None"
    by (simp add: with_diff_eq split: option.splits)
  also have "\<dots> \<longleftrightarrow> (\<forall>p. cells_addable (cell (Direct d1) p) (cell d2 p))"
    using assms by (auto simp: diff_inv_def intersects_with_rule_None cells_addable_def cell_def)
  finally show ?thesis .
qed

lemma with_diff_cell:
  assumes "diff_inv (Direct d1)" and "diff_inv d2" and "with_diff d1 d2 = Ok d"
  shows "diff_inv (Direct d) \<and> cell (Direct d) p = cell_with (cell (Direct d1) p) (cell d2 p)"
proof -
  obtain a r a' r' where c: "hm_get (diff_add d1) p = a" "hm_get (diff_remove d1) p = r"
    "hm_get (added d2) p = a'" "hm_get (removed d2) p = r'" by simp
  from assms(3) have d: "d = (let remove1 = subtraction_having_daa_score_in_place (removed d2) (diff_add d1) (diff_remove d1);
          add1 = remove_collection (diff_add d1) (intersection_having_daa_score (removed d2) (diff_add d1) [])
        in \<lparr>diff_add = subtraction_having_daa_score_in_place (added d2) remove1 add1,
            diff_remove = remove_collection remove1 (intersection_having_daa_score (added d2) remove1 [])\<rparr>)"
    by (simp add: with_diff_eq split: option.splits)
  show ?thesis using assms(1,2) c unfolding d
    by (cases a; cases r; cases a'; cases r')
      (simp_all add: diff_inv_def Let_def cell_with_def cell_def contains_same_daa collection_simps)
qed

lemma cells_addable_if_applies:
  assumes "applies_at b a r" and "applies_at (effect_at b a r) a' r'"
  shows "cells_addable (a, r) (a', r')"
  using assms by (cases a; cases r; cases a'; cases r')
    (simp_all add: cells_addable_def same_daa_def diff_at_defs)

lemma cell_with_correct:
  assumes "applies_at b a r" and "applies_at (effect_at b a r) a' r'" and "same_daa r a' \<longrightarrow> r = a'"
    and "cell_with (a, r) (a', r') = (a2, r2)"
  shows "applies_at b a2 r2 \<and> effect_at b a2 r2 = effect_at (effect_at b a r) a' r'"
  using assms by (cases a; cases r; cases a'; cases r')
    (auto simp: cell_with_def same_daa_def applies_at_def effect_at_def split: if_splits)

lemma applies_cell:
  "applies base d \<longleftrightarrow> diff_inv d \<and> (\<forall>p. applies_at (base p) (fst (cell d p)) (snd (cell d p)))"
  by (simp add: applies_def cell_def)

lemma compose_get_cell: "compose_get base d p = effect_at (base p) (fst (cell d p)) (snd (cell d p))"
  by (simp add: compose_get_effect cell_def)

lemma daa_consistentD: "daa_consistent m1 m2 \<Longrightarrow> same_daa (hm_get m1 p) (hm_get m2 p) \<longrightarrow> hm_get m1 p = hm_get m2 p"
  by (auto simp: daa_consistent_def same_daa_def split: option.splits)

lemma with_diff_applies:
  assumes "applies base (Direct d1)" and "applies (compose_get base (Direct d1)) d2"
    and "daa_consistent (diff_remove d1) (added d2)"
  shows "\<exists>d. with_diff d1 d2 = Ok d \<and> applies base (Direct d) \<and>
    compose_get base (Direct d) = compose_get (compose_get base (Direct d1)) d2"
proof -
  have inv: "diff_inv (Direct d1)" "diff_inv d2" using assms(1,2) by (simp_all add: applies_def)
  have at: "applies_at (base p) (hm_get (diff_add d1) p) (hm_get (diff_remove d1) p)"
    "applies_at (effect_at (base p) (hm_get (diff_add d1) p) (hm_get (diff_remove d1) p)) (hm_get (added d2) p) (hm_get (removed d2) p)" for p
    using assms(1,2) by (simp_all add: applies_def compose_get_effect)
  have "\<forall>p. cells_addable (cell (Direct d1) p) (cell d2 p)"
    using cells_addable_if_applies [OF at] by (simp add: cell_def)
  then obtain d where d: "with_diff d1 d2 = Ok d" using with_diff_Ok [OF inv] by blast
  have c: "diff_inv (Direct d)" "cell (Direct d) p = cell_with (cell (Direct d1) p) (cell d2 p)" for p
    using with_diff_cell [OF inv d] by simp_all
  have "applies_at (base p) (fst (cell (Direct d) p)) (snd (cell (Direct d) p)) \<and>
    compose_get base (Direct d) p = compose_get (compose_get base (Direct d1)) d2 p" for p
    using cell_with_correct [OF at [of p] daa_consistentD [OF assms(3)] prod.collapse [symmetric]] c(2) [of p]
    by (simp add: compose_get_cell [of base "Direct d"]) (simp add: cell_def compose_get_effect)
  then show ?thesis using d c(1) by (auto simp: applies_cell fun_eq_iff)
qed

section \<open>\<open>diff_from\<close> is the difference of diffs\<close>

definition cell_from :: "utxo_entry option \<times> utxo_entry option \<Rightarrow> utxo_entry option \<times> utxo_entry option
    \<Rightarrow> utxo_entry option \<times> utxo_entry option" where
  "cell_from = (\<lambda>(a, r) (a', r').
     (if a' \<noteq> None \<and> \<not> same_daa a' a then a' else if \<not> same_daa r r' then r else None,
      if r' \<noteq> None \<and> \<not> same_daa r' r then r' else if \<not> same_daa a a' then a else None))"

lemma diff_from_cell:
  assumes "diff_inv (Direct d1)" and "diff_inv d2" and "diff_from d1 d2 = Ok d"
  shows "diff_inv (Direct d) \<and> cell (Direct d) p = cell_from (cell (Direct d1) p) (cell d2 p)"
proof -
  obtain a r a' r' where c: "hm_get (diff_add d1) p = a" "hm_get (diff_remove d1) p = r"
    "hm_get (added d2) p = a'" "hm_get (removed d2) p = r'" by simp
  from assms(3) have d: "d = \<lparr>diff_add = subtraction_having_daa_score_in_place (added d2) (diff_add d1)
        (subtraction_having_daa_score_in_place (diff_remove d1) (removed d2) []),
      diff_remove = subtraction_having_daa_score_in_place (removed d2) (diff_remove d1)
        (subtraction_having_daa_score_in_place (diff_add d1) (added d2) [])\<rparr>"
    by (simp add: diff_from_def subtraction_with_remainder_eq split: option.splits if_splits)
  show ?thesis using assms(1,2) c unfolding d
    by (cases a; cases r; cases a'; cases r')
      (simp_all add: diff_inv_def cell_from_def cell_def contains_same_daa collection_simps same_daa_def)
qed

lemma applies_at_removed_added:
  "applies_at b a r \<Longrightarrow> applies_at b a' r' \<Longrightarrow> r = Some t \<Longrightarrow> a' = Some e \<Longrightarrow>
    r' = Some t \<and> block_daa_score e \<noteq> block_daa_score t"
  by (auto simp: applies_at_def split: option.splits)

lemma applies_at_removed_removed:
  "applies_at b a r \<Longrightarrow> applies_at b a' r' \<Longrightarrow> r = Some t \<Longrightarrow> r' = Some e \<Longrightarrow> e = t"
  by (auto simp: applies_at_def split: option.splits)

text \<open>When both diffs apply to the same base, none of the sanity checks of \<open>diff_from\<close> fires.\<close>

lemma diff_from_Ok:
  assumes "applies base (Direct d1)" and "applies base d2"
  shows "\<exists>d. diff_from d1 d2 = Ok d"
proof -
  have inv: "hm_inv (diff_add d1)" "hm_inv (diff_remove d1)" "hm_inv (added d2)" "hm_inv (removed d2)"
    using assms by (simp_all add: applies_def diff_inv_def)
  have at: "applies_at (base p) (hm_get (diff_add d1) p) (hm_get (diff_remove d1) p)"
    "applies_at (base p) (hm_get (added d2) p) (hm_get (removed d2) p)" for p
    using assms by (simp_all add: applies_def)
  let ?both = "intersection_having_daa_score (diff_add d1) (added d2) []"
  have i1: "intersects_with_rule (diff_remove d1) (added d2) (\<lambda>p t e. \<not> (block_daa_score e \<noteq> block_daa_score t
      \<and> (contains_with_daa_score (diff_add d1) p (block_daa_score e)
          \<or> contains_with_daa_score (removed d2) p (block_daa_score t)))) = None"
    using applies_at_removed_added [OF at] by (fastforce simp: intersects_with_rule_None inv contains_with_daa_score_iff)
  have i2: "intersects_with_rule (diff_add d1) (removed d2) (\<lambda>p t e. \<not> (block_daa_score e \<noteq> block_daa_score t
      \<and> (contains_with_daa_score (diff_remove d1) p (block_daa_score e)
          \<or> contains_with_daa_score (added d2) p (block_daa_score t)))) = None"
    using applies_at_removed_added [OF at(2,1)] by (fastforce simp: intersects_with_rule_None inv contains_with_daa_score_iff)
  have i3: "intersects_with_rule (diff_remove d1) (removed d2)
      (\<lambda>_ t e. block_daa_score e \<noteq> block_daa_score t) = None"
    using applies_at_removed_removed [OF at] by (fastforce simp: intersects_with_rule_None inv)
  have "hm_get ?both p \<noteq> None \<Longrightarrow> hm_get (diff_remove d1) p \<noteq> None \<longleftrightarrow> hm_get (removed d2) p \<noteq> None" for p
    using at [of p] by (auto simp: collection_simps inv diff_at_defs split: option.splits if_splits)
  then have "intersects ?both (diff_remove d1) = intersects ?both (removed d2)"
    unfolding intersects_iff [OF inv_intersection [OF hm_inv_Nil] inv(2)]
      intersects_iff [OF inv_intersection [OF hm_inv_Nil] inv(4)] by blast
  then show ?thesis unfolding diff_from_def subtraction_with_remainder_eq i1 i2 i3 by simp
qed

lemma cell_from_correct:
  assumes "applies_at b a r" and "applies_at b a' r'" and "same_daa a a' \<longrightarrow> a = a'"
    and "cell_from (a, r) (a', r') = (a2, r2)"
  shows "applies_at (effect_at b a r) a2 r2 \<and> effect_at (effect_at b a r) a2 r2 = effect_at b a' r'"
  using assms by (cases a; cases r; cases a'; cases r')
    (auto simp: cell_from_def same_daa_def applies_at_def effect_at_def split: if_splits)

lemma diff_from_applies:
  assumes "applies base (Direct d1)" and "applies base d2" and "daa_consistent (diff_add d1) (added d2)"
  shows "\<exists>d. diff_from d1 d2 = Ok d \<and> applies (compose_get base (Direct d1)) (Direct d) \<and>
    compose_get (compose_get base (Direct d1)) (Direct d) = compose_get base d2"
proof -
  have inv: "diff_inv (Direct d1)" "diff_inv d2" using assms(1,2) by (simp_all add: applies_def)
  have at: "applies_at (base p) (hm_get (diff_add d1) p) (hm_get (diff_remove d1) p)"
    "applies_at (base p) (hm_get (added d2) p) (hm_get (removed d2) p)" for p
    using assms(1,2) by (simp_all add: applies_def)
  obtain d where d: "diff_from d1 d2 = Ok d" using diff_from_Ok [OF assms(1,2)] by blast
  have c: "diff_inv (Direct d)" "cell (Direct d) p = cell_from (cell (Direct d1) p) (cell d2 p)" for p
    using diff_from_cell [OF inv d] by simp_all
  have "applies_at (compose_get base (Direct d1) p) (fst (cell (Direct d) p)) (snd (cell (Direct d) p)) \<and>
    compose_get (compose_get base (Direct d1)) (Direct d) p = compose_get base d2 p" for p
    using cell_from_correct [OF at [of p] daa_consistentD [OF assms(3)] prod.collapse [symmetric]] c(2) [of p]
    by (simp add: compose_get_cell [of _ "Direct d"]) (simp add: cell_def compose_get_effect)
  then show ?thesis using d c(1) by (auto simp: applies_cell fun_eq_iff)
qed

section \<open>Reversal\<close>

lemma added_to_reversed [simp]: "diff_add (to_reversed d) = diff_remove d" "diff_remove (to_reversed d) = diff_add d"
  by (simp_all add: to_reversed_def utxo_diff_new_def)

lemma reversed_applies:
  assumes "applies base (Direct d)"
  shows "applies (compose_get base (Direct d)) (Reversed d) \<and>
    compose_get (compose_get base (Direct d)) (Reversed d) = base"
proof -
  have "applies_at b a r \<Longrightarrow> applies_at (effect_at b a r) r a \<and> effect_at (effect_at b a r) r a = b" for b a r
    by (cases b; cases a; cases r) (auto simp: applies_at_def effect_at_def)
  then show ?thesis using assms by (simp add: applies_def diff_inv_def compose_get_effect fun_eq_iff)
qed

section \<open>Adding a transaction\<close>

text \<open>\<open>remove_entry\<close> and \<open>add_entry\<close> are the single steps of \<open>add_transaction\<close>.\<close>

lemma cell_update_applies:
  assumes "applies base d" and "diff_inv d'" and "cell d' = (cell d)(p := (a, r))" and "applies_at (base p) a r"
  shows "applies base d' \<and> compose_get base d' = (compose_get base d)(p := effect_at (base p) a r)"
  using assms by (auto simp: applies_cell compose_get_cell fun_eq_iff)

lemma remove_entry_applies:
  assumes "applies base (Direct d)" and "compose_get base (Direct d) p = Some e"
  shows "\<exists>d'. remove_entry p e d = Ok d' \<and> applies base (Direct d') \<and>
    compose_get base (Direct d') = (compose_get base (Direct d))(p := None) \<and>
    (\<forall>q. q \<noteq> p \<longrightarrow> cell (Direct d') q = cell (Direct d) q)"
proof -
  have at: "applies_at (base p) (hm_get (diff_add d) p) (hm_get (diff_remove d) p)" and inv: "diff_inv (Direct d)"
    using assms(1) by (simp_all add: applies_def)
  show ?thesis
  proof (cases "hm_get (diff_add d) p")
    case None
    with at assms(2) have none: "hm_get (diff_remove d) p = None" and base: "base p = Some e"
      by (auto simp: compose_get_effect effect_at_def split: if_splits)
    let ?d = "d\<lparr>diff_remove := hm_insert p e (diff_remove d)\<rparr>"
    have "remove_entry p e d = Ok ?d" using None none
      by (simp add: remove_entry_def contains_with_daa_score_def hm_contains_key_def)
    moreover have c: "diff_inv (Direct ?d)" "cell (Direct ?d) = (cell (Direct d))(p := (None, Some e))"
      using None inv by (auto simp: diff_inv_def cell_def fun_eq_iff)
    moreover have "applies_at (base p) None (Some e)" using base by (simp add: applies_at_def)
    ultimately show ?thesis using cell_update_applies [OF assms(1) c] by (auto simp: effect_at_def)
  next
    case (Some a)
    with assms(2) have a: "a = e" by (simp add: compose_get_effect effect_at_def)
    let ?d = "d\<lparr>diff_add := hm_remove p (diff_add d)\<rparr>"
    have "remove_entry p e d = Ok ?d" using Some a by (simp add: remove_entry_def contains_with_daa_score_def)
    moreover have c: "diff_inv (Direct ?d)" "cell (Direct ?d) = (cell (Direct d))(p := (None, hm_get (diff_remove d) p))"
      using inv by (auto simp: diff_inv_def cell_def fun_eq_iff)
    moreover have "applies_at (base p) None (hm_get (diff_remove d) p)"
      "effect_at (base p) None (hm_get (diff_remove d) p) = None"
      using at Some by (auto simp: applies_at_def effect_at_def split: option.splits)
    ultimately show ?thesis using cell_update_applies [OF assms(1) c] by auto
  qed
qed

lemma add_entry_applies:
  assumes "applies base (Direct d)" and "compose_get base (Direct d) p = None"
    and "same_daa (hm_get (diff_remove d) p) (Some e) \<longrightarrow> hm_get (diff_remove d) p = Some e"
  shows "\<exists>d'. add_entry p e d = Ok d' \<and> applies base (Direct d') \<and>
    compose_get base (Direct d') = (compose_get base (Direct d))(p := Some e) \<and>
    (\<forall>q. q \<noteq> p \<longrightarrow> cell (Direct d') q = cell (Direct d) q)"
proof -
  have at: "applies_at (base p) (hm_get (diff_add d) p) (hm_get (diff_remove d) p)" and inv: "diff_inv (Direct d)"
    using assms(1) by (simp_all add: applies_def)
  have none: "hm_get (diff_add d) p = None"
    using assms(2) by (simp add: compose_get_effect effect_at_def split: option.splits)
  show ?thesis
  proof (cases "same_daa (hm_get (diff_remove d) p) (Some e)")
    case True
    with assms(3) have r: "hm_get (diff_remove d) p = Some e" by simp
    let ?d = "d\<lparr>diff_remove := hm_remove p (diff_remove d)\<rparr>"
    have "add_entry p e d = Ok ?d" using r by (simp add: add_entry_def contains_with_daa_score_def)
    moreover have c: "diff_inv (Direct ?d)" "cell (Direct ?d) = (cell (Direct d))(p := (None, None))"
      using none inv by (auto simp: diff_inv_def cell_def fun_eq_iff)
    moreover have "applies_at (base p) None None" "effect_at (base p) None None = Some e"
      using at r by (auto simp: applies_at_def effect_at_def)
    ultimately show ?thesis using cell_update_applies [OF assms(1) c] by auto
  next
    case False
    let ?d = "d\<lparr>diff_add := hm_insert p e (diff_add d)\<rparr>"
    have "add_entry p e d = Ok ?d" using False none
      by (auto simp: add_entry_def contains_with_daa_score_def hm_contains_key_def same_daa_def split: option.splits)
    moreover have c: "diff_inv (Direct ?d)" "cell (Direct ?d) = (cell (Direct d))(p := (Some e, hm_get (diff_remove d) p))"
      using inv by (auto simp: diff_inv_def cell_def fun_eq_iff)
    moreover have "applies_at (base p) (Some e) (hm_get (diff_remove d) p)"
      using at False none assms(2) 
      by (auto simp: applies_at_def same_daa_def compose_get_effect effect_at_def split: option.splits)
    ultimately show ?thesis using cell_update_applies [OF assms(1) c] by (auto simp: effect_at_def)
  qed
qed

lemma remove_entries_applies:
  assumes "applies base (Direct d)" and "distinct (map fst xs)"
    and "\<forall>(p, e)\<in>set xs. compose_get base (Direct d) p = Some e"
  shows "\<exists>d'. ofold (\<lambda>(p, e). remove_entry p e) xs d = Ok d' \<and> applies base (Direct d') \<and>
    (\<forall>q. compose_get base (Direct d') q = (if q \<in> fst ` set xs then None else compose_get base (Direct d) q)) \<and>
    (\<forall>q. q \<notin> fst ` set xs \<longrightarrow> cell (Direct d') q = cell (Direct d) q)"
  using assms
proof (induction xs arbitrary: d)
  case (Cons x xs)
  obtain p e where x: "x = (p, e)" by (cases x)
  obtain d1 where d1: "remove_entry p e d = Ok d1" "applies base (Direct d1)"
    "compose_get base (Direct d1) = (compose_get base (Direct d))(p := None)"
    "\<forall>q. q \<noteq> p \<longrightarrow> cell (Direct d1) q = cell (Direct d) q"
    using remove_entry_applies [of base d p e] Cons.prems x by auto
  have "\<forall>(q, e)\<in>set xs. compose_get base (Direct d1) q = Some e"
    using Cons.prems d1(3) x by (force simp: image_iff)
  then show ?case using Cons.IH [OF d1(2)] Cons.prems(2) d1 x by auto
qed simp

lemma add_entries_applies:
  assumes "applies base (Direct d)" and "distinct (map fst xs)"
    and "\<forall>(p, e)\<in>set xs. compose_get base (Direct d) p = None \<and>
      (same_daa (hm_get (diff_remove d) p) (Some e) \<longrightarrow> hm_get (diff_remove d) p = Some e)"
  shows "\<exists>d'. ofold (\<lambda>(p, e). add_entry p e) xs d = Ok d' \<and> applies base (Direct d') \<and>
    (\<forall>q. compose_get base (Direct d') q =
      (case map_of xs q of Some e \<Rightarrow> Some e | None \<Rightarrow> compose_get base (Direct d) q))"
  using assms
proof (induction xs arbitrary: d)
  case (Cons x xs)
  obtain p e where x: "x = (p, e)" by (cases x)
  obtain d1 where d1: "add_entry p e d = Ok d1" "applies base (Direct d1)"
    "compose_get base (Direct d1) = (compose_get base (Direct d))(p := Some e)"
    "\<forall>q. q \<noteq> p \<longrightarrow> cell (Direct d1) q = cell (Direct d) q"
    using add_entry_applies [of base d p e] Cons.prems x by auto
  have p: "q \<noteq> p" if "(q, e') \<in> set xs" for q e' using Cons.prems(2) that x by force
  then have xs: "\<forall>(q, e)\<in>set xs. compose_get base (Direct d1) q = None \<and>
      (same_daa (hm_get (diff_remove d1) q) (Some e) \<longrightarrow> hm_get (diff_remove d1) q = Some e)"
    using Cons.prems(3) d1(3,4) by (fastforce simp: cell_def)
  obtain d2 where d2: "ofold (\<lambda>(p, e). add_entry p e) xs d1 = Ok d2" "applies base (Direct d2)"
    "\<And>q. compose_get base (Direct d2) q =
      (case map_of xs q of Some e \<Rightarrow> Some e | None \<Rightarrow> compose_get base (Direct d1) q)"
    using Cons.IH [OF d1(2) _ xs] Cons.prems(2) by auto
  have "map_of xs p = None" using Cons.prems(2) x by (simp add: map_of_eq_None_iff)
  then show ?case by (intro exI [of _ d2]) (simp add: x d1(1,3) d2 cong: option.case_cong)
qed simp

definition spends_from :: "utxo_view \<Rightarrow> populated_transaction \<Rightarrow> bool" where
  "spends_from view p \<longleftrightarrow> distinct (map (\<lambda>(i, e). previous_outpoint i) (populated_inputs p)) \<and>
     (\<forall>(i, e)\<in>set (populated_inputs p). view (previous_outpoint i) = Some e)"

lemma distinct_output_entries:
  assumes "length (tx_outputs tx) \<le> 2 ^ 32"
  shows "distinct (map fst (output_entries tx daa))"
proof -
  have "distinct (map (\<lambda>i. \<lparr>transaction_id = tx_id tx, outpoint_index = (of_nat i :: u32)\<rparr>)
    [0..<length (tx_outputs tx)])"
    using assms by (auto simp: distinct_map inj_on_def of_nat_eq_iff word_of_nat_eq_iff take_bit_nat_eq_self)
  also have "map (\<lambda>i. \<lparr>transaction_id = tx_id tx, outpoint_index = of_nat i\<rparr>) [0..<length (tx_outputs tx)]
    = map fst (output_entries tx daa)"
    by (rule nth_equalityI) (simp_all add: output_entries_def nth_enumerate_eq)
  finally show ?thesis .
qed

lemma add_transaction_applies:
  assumes "applies base (Direct d)" and view: "view = compose_get base (Direct d)"
    and "spends_from view p" and "length (tx_outputs (ptx p)) \<le> 2 ^ 32"
    and "\<forall>(q, e)\<in>set (output_entries (ptx p) daa). view q = None \<and>
      (same_daa (hm_get (diff_remove d) q) (Some e) \<longrightarrow> hm_get (diff_remove d) q = Some e)"
  shows "\<exists>d'. add_transaction p daa d = Ok d' \<and> applies base (Direct d') \<and>
    (\<forall>q. compose_get base (Direct d') q =
      (case map_of (output_entries (ptx p) daa) q of
         Some e \<Rightarrow> Some e
       | None \<Rightarrow> if q \<in> (\<lambda>(i, e). previous_outpoint i) ` set (populated_inputs p) then None else view q))"
proof -
  let ?ins = "map (\<lambda>(i, e). (previous_outpoint i, e)) (populated_inputs p)"
  have ins: "map fst ?ins = map (\<lambda>(i, e). previous_outpoint i) (populated_inputs p)"
    "fst ` set ?ins = (\<lambda>(i, e). previous_outpoint i) ` set (populated_inputs p)"
    by (simp_all add: case_prod_unfold image_image comp_def)
  have spent: "\<forall>(q, e)\<in>set ?ins. compose_get base (Direct d) q = Some e" "distinct (map fst ?ins)"
    using assms(3) unfolding ins(1) by (auto simp: spends_from_def view)
  obtain d1 where d1: "ofold (\<lambda>(p, e). remove_entry p e) ?ins d = Ok d1" "applies base (Direct d1)"
    "\<And>q. compose_get base (Direct d1) q = (if q \<in> fst ` set ?ins then None else view q)"
    "\<And>q. q \<notin> fst ` set ?ins \<Longrightarrow> cell (Direct d1) q = cell (Direct d) q"
    using remove_entries_applies [OF assms(1) spent(2,1)] view by auto
  have "q \<notin> fst ` set ?ins" if "(q, e) \<in> set (output_entries (ptx p) daa)" for q e
    using assms(5) that spent(1) view by fastforce
  then have "\<forall>(q, e)\<in>set (output_entries (ptx p) daa). compose_get base (Direct d1) q = None \<and>
      (same_daa (hm_get (diff_remove d1) q) (Some e) \<longrightarrow> hm_get (diff_remove d1) q = Some e)"
    using assms(5) d1(3,4) by (fastforce simp: cell_def)
  then obtain d2 where d2: "ofold (\<lambda>(p, e). add_entry p e) (output_entries (ptx p) daa) d1 = Ok d2"
    "applies base (Direct d2)"
    "\<And>q. compose_get base (Direct d2) q =
      (case map_of (output_entries (ptx p) daa) q of Some e \<Rightarrow> Some e | None \<Rightarrow> compose_get base (Direct d1) q)"
    using add_entries_applies [OF d1(2) distinct_output_entries [OF assms(4)]] by blast
  have "add_transaction p daa d = Ok d2"
    using d1(1) d2(1) by (simp add: add_transaction_def ofold_map case_prod_unfold)
  then show ?thesis using d2(2) by (intro exI [of _ d2]) (simp only: d2(3) d1(3) ins(2), simp)
qed

section \<open>Properties\<close>

text \<open>Concrete data for the witnesses: a base with one entry, a diff that spends it and creates another,
  a second diff that spends that one and re-creates the first outpoint, and a transaction.\<close>

definition ex_point :: "u8 \<Rightarrow> transaction_outpoint" where
  "ex_point n = \<lparr>transaction_id = Hash [n], outpoint_index = 0\<rparr>"

definition ex_entry :: "u64 \<Rightarrow> u64 \<Rightarrow> utxo_entry" where
  "ex_entry v daa = \<lparr>amount = v, entry_spk = \<lparr>spk_version = 0, spk_script = []\<rparr>,
     block_daa_score = daa, entry_is_coinbase = False\<rparr>"

definition ex_base :: utxo_view where
  "ex_base = (\<lambda>p. if p = ex_point 0 then Some (ex_entry 10 1) else None)"

definition ex_diff1 :: utxo_diff where
  "ex_diff1 = \<lparr>diff_add = [(ex_point 1, ex_entry 9 2)], diff_remove = [(ex_point 0, ex_entry 10 1)]\<rparr>"

definition ex_diff2 :: utxo_diff where
  "ex_diff2 = \<lparr>diff_add = [(ex_point 0, ex_entry 8 3)], diff_remove = [(ex_point 1, ex_entry 9 2)]\<rparr>"

definition ex_diff3 :: utxo_diff where
  "ex_diff3 = \<lparr>diff_add = [(ex_point 2, ex_entry 9 2)], diff_remove = []\<rparr>"

definition ex_tx :: populated_transaction where
  "ex_tx = \<lparr>ptx = \<lparr>tx_version = 0, tx_inputs = [\<lparr>previous_outpoint = ex_point 1, signature_script = [],
       sequence = 0, sig_op_count = 0\<rparr>],
     tx_outputs = [\<lparr>out_value = 7, out_spk = \<lparr>spk_version = 0, spk_script = []\<rparr>\<rparr>], lock_time = 0,
     subnetwork_id = SUBNETWORK_ID_NATIVE, tx_gas = 0, tx_payload = [], tx_mass = 0, tx_id = Hash [5]\<rparr>,
     ptx_entries = [ex_entry 9 2]\<rparr>"

lemmas ex_defs = ex_point_def ex_entry_def ex_base_def ex_diff1_def ex_diff2_def ex_diff3_def ex_tx_def

lemmas ex_eval = applies_def diff_inv_def applies_at_def compose_get_effect effect_at_def hm_inv_def hm_get_def
  daa_consistent_def

lemma ex_applies:
  "applies ex_base (Direct ex_diff1)"
  "applies (compose_get ex_base (Direct ex_diff1)) (Direct ex_diff2)"
  "applies ex_base (Direct ex_diff3)"
  "daa_consistent (diff_remove ex_diff1) (added (Direct ex_diff2))"
  "daa_consistent (diff_add ex_diff1) (added (Direct ex_diff3))"
  "daa_consistent (diff_remove ex_diff1) (added (Direct ex_diff3))"
  by (simp_all add: ex_eval ex_defs)

text \<open>
  C1: \<open>UtxoDiff::with_diff\<close> is the composition of diffs. When the first diff applies to a base UTXO set
  and the second to the set the first one leads to, \<open>with_diff\<close> succeeds, its result applies to the
  base, and the composed view of the result is the view of applying the two diffs in turn.
\<close>

theorem with_diff_composes:
  assumes "applies base (Direct d1)" and "applies (compose_get base (Direct d1)) d2"
    and "daa_consistent (diff_remove d1) (added d2)"
  shows "\<exists>d. with_diff d1 d2 = Ok d \<and> applies base (Direct d) \<and>
    compose_get base (Direct d) = compose_get (compose_get base (Direct d1)) d2"
  using assms by (rule with_diff_applies)

theorem with_diff_composes_witness:
  "\<exists>d. with_diff ex_diff1 (Direct ex_diff2) = Ok d \<and> applies ex_base (Direct d) \<and>
    compose_get ex_base (Direct d) = compose_get (compose_get ex_base (Direct ex_diff1)) (Direct ex_diff2)"
  using with_diff_composes [OF ex_applies(1,2,4)] by simp

text \<open>
  C2: \<open>UtxoDiff::diff_from\<close> is the difference of diffs over a common base: it succeeds, its result applies
  to the set the first diff leads to and turns it into the set the second diff leads to, and composing
  the first diff with the result by \<open>with_diff\<close> gives back the second diff, entry for entry.
\<close>

theorem with_diff_diff_from:
  assumes "applies base (Direct d1)" and "applies base d2"
    and "daa_consistent (diff_add d1) (added d2)" and "daa_consistent (diff_remove d1) (added d2)"
  shows "\<exists>d d'. diff_from d1 d2 = Ok d \<and>
    compose_get (compose_get base (Direct d1)) (Direct d) = compose_get base d2 \<and>
    with_diff d1 (Direct d) = Ok d' \<and>
    hm_get (diff_add d') = hm_get (added d2) \<and> hm_get (diff_remove d') = hm_get (removed d2)"
proof -
  have inv: "diff_inv (Direct d1)" "diff_inv d2" using assms(1,2) by (simp_all add: applies_def)
  obtain d where d: "diff_from d1 d2 = Ok d" "applies (compose_get base (Direct d1)) (Direct d)"
    "compose_get (compose_get base (Direct d1)) (Direct d) = compose_get base d2"
    using diff_from_applies [OF assms(1-3)] by blast
  have "hm_get (diff_add d) p = hm_get (added d2) p \<or> hm_get (diff_add d) p = hm_get (diff_remove d1) p
    \<or> hm_get (diff_add d) p = None" for p
    using diff_from_cell [OF inv d(1), of p] by (auto simp: cell_def cell_from_def split: if_splits)
  then have "daa_consistent (diff_remove d1) (diff_add d)"
    using assms(4) unfolding daa_consistent_def by (metis option.inject option.distinct(1))
  from with_diff_applies [OF assms(1) d(2)] this obtain d' where
    "with_diff d1 (Direct d) = Ok d'" "applies base (Direct d')" "compose_get base (Direct d') = compose_get base d2"
    using d(3) by auto
  then show ?thesis using d applies_unique [of base "Direct d'" d2] assms(2) by auto
qed

theorem with_diff_diff_from_witness:
  "\<exists>d d'. diff_from ex_diff1 (Direct ex_diff3) = Ok d \<and>
    compose_get (compose_get ex_base (Direct ex_diff1)) (Direct d) = compose_get ex_base (Direct ex_diff3) \<and>
    with_diff ex_diff1 (Direct d) = Ok d' \<and>
    hm_get (diff_add d') = hm_get (diff_add ex_diff3) \<and> hm_get (diff_remove d') = hm_get (diff_remove ex_diff3)"
  using with_diff_diff_from [OF ex_applies(1,3,5,6)] by simp

text \<open>Reversing a diff undoes it: the reversed view of a diff (\<open>as_reversed\<close>) applies to the set the
  diff leads to and restores the base, and \<open>with_diff\<close> of a diff with its own reversal is the empty diff.
\<close>

theorem with_diff_reversed:
  assumes "applies base (Direct d)"
  shows "compose_get (compose_get base (Direct d)) (as_reversed d) = base \<and>
    (\<exists>d'. with_diff d (as_reversed d) = Ok d' \<and>
       (\<forall>p. hm_get (diff_add d') p = None \<and> hm_get (diff_remove d') p = None))"
proof -
  have "daa_consistent (diff_remove d) (added (Reversed d))" by (simp add: daa_consistent_def)
  from with_diff_applies [OF assms _ this] reversed_applies [OF assms] obtain d' where
    d': "with_diff d (Reversed d) = Ok d'" "applies base (Direct d')" "compose_get base (Direct d') = base"
    by auto
  have "applies base (Direct \<lparr>diff_add = [], diff_remove = []\<rparr>)"
    "compose_get base (Direct \<lparr>diff_add = [], diff_remove = []\<rparr>) = base"
    by (simp_all add: applies_def diff_inv_def applies_at_def compose_get_effect effect_at_def fun_eq_iff)
  then show ?thesis using applies_unique [OF d'(2)] d'(1,3) reversed_applies [OF assms]
    by (auto simp: as_reversed_def)
qed

theorem with_diff_reversed_witness:
  "compose_get (compose_get ex_base (Direct ex_diff1)) (as_reversed ex_diff1) = ex_base \<and>
    (\<exists>d'. with_diff ex_diff1 (as_reversed ex_diff1) = Ok d' \<and>
       (\<forall>p. hm_get (diff_add d') p = None \<and> hm_get (diff_remove d') p = None))"
  using with_diff_reversed [OF ex_applies(1)] by simp

text \<open>
  C3: \<open>UtxoDiff::add_transaction\<close> spends and creates exactly what the transaction says. When the inputs
  are distinct unspent outpoints of the current view populated with their entries, and the created
  outpoints are not in the view, the call succeeds, the diff still applies to its base, and the new view
  holds the transaction's outputs, none of its inputs, and is unchanged everywhere else.
\<close>

theorem add_transaction_effect:
  assumes "applies base (Direct d)" and "view = compose_get base (Direct d)"
    and "spends_from view p" and "length (tx_outputs (ptx p)) \<le> 2 ^ 32"
    and "\<forall>(q, e)\<in>set (output_entries (ptx p) daa). view q = None \<and>
      (same_daa (hm_get (diff_remove d) q) (Some e) \<longrightarrow> hm_get (diff_remove d) q = Some e)"
  shows "\<exists>d'. add_transaction p daa d = Ok d' \<and> applies base (Direct d') \<and>
    (\<forall>q. compose_get base (Direct d') q =
      (case map_of (output_entries (ptx p) daa) q of
         Some e \<Rightarrow> Some e
       | None \<Rightarrow> if q \<in> (\<lambda>(i, e). previous_outpoint i) ` set (populated_inputs p) then None else view q))"
  using assms by (rule add_transaction_applies)

theorem add_transaction_effect_witness:
  "\<exists>d'. add_transaction ex_tx 4 ex_diff1 = Ok d' \<and> applies ex_base (Direct d') \<and>
    compose_get ex_base (Direct d') (ex_point 5) = Some (ex_entry 7 4) \<and>
    compose_get ex_base (Direct d') (ex_point 1) = None"
proof -
  let ?view = "compose_get ex_base (Direct ex_diff1)"
  have out: "output_entries (ptx ex_tx) 4 = [(ex_point 5, ex_entry 7 4)]"
    by (simp add: output_entries_def ex_defs is_coinbase_def coinbase_not_native [symmetric])
  have "spends_from ?view ex_tx" "length (tx_outputs (ptx ex_tx)) \<le> 2 ^ 32"
    "\<forall>(q, e)\<in>set (output_entries (ptx ex_tx) 4). ?view q = None \<and>
      (same_daa (hm_get (diff_remove ex_diff1) q) (Some e) \<longrightarrow> hm_get (diff_remove ex_diff1) q = Some e)"
    unfolding out by (simp_all add: spends_from_def populated_inputs_def ex_defs ex_eval same_daa_def)
  from add_transaction_effect [OF ex_applies(1) refl this] show ?thesis
    unfolding out by (auto simp: ex_defs populated_inputs_def)
qed

end
