(* ===== verification/Params.thy ===== *)
theory Params
  imports Tx
begin

text \<open>
  Consensus parameters: src/consensus/core/src/config/bps.rs (constants as functions of the block rate),
  config/constants.rs, and the fork activations, block-rate parameters and mainnet values of
  config/params.rs. The \<open>const fn\<close>s of \<open>Bps\<close> are functions of the rate whose overflow or
  \<open>panic!\<close> is \<^const>\<open>Panic\<close> (a build failure in the source). Fields of \<open>Params\<close> that only
  name the network, and the floating-point ones, are left out.
\<close>

section \<open>Fork activation\<close>

datatype fork_activation = ForkActivation u64

definition fork_never :: fork_activation where "fork_never = ForkActivation (- 1)"
definition fork_always :: fork_activation where "fork_always = ForkActivation 0"

primrec daa_score_of :: "fork_activation \<Rightarrow> u64" where
  "daa_score_of (ForkActivation d) = d"

definition is_active :: "fork_activation \<Rightarrow> u64 \<Rightarrow> bool" where
  "is_active a current = (daa_score_of a \<le> current)"

definition is_within_range_from_activation :: "fork_activation \<Rightarrow> u64 \<Rightarrow> u64 \<Rightarrow> ('e, bool) outcome" where
  "is_within_range_from_activation a current rng =
     (if a \<noteq> fork_always \<and> is_active a current
      then obind (padd (daa_score_of a) rng) (\<lambda>s. Ok (current < s)) else Ok False)"

definition is_within_range_before_activation :: "fork_activation \<Rightarrow> u64 \<Rightarrow> u64 \<Rightarrow> ('e, u64 option) outcome" where
  "is_within_range_before_activation a current rng =
     (if \<not> is_active a current
      then obind (padd current rng) (\<lambda>s. if daa_score_of a < s
        then obind (psub (daa_score_of a) current) (\<lambda>r. Ok (Some r)) else Ok None)
      else Ok None)"

record 'a forked_param =
  fp_pre :: 'a
  fp_post :: 'a
  fp_activation :: fork_activation

definition new_const :: "'a \<Rightarrow> 'a forked_param" where
  "new_const v = \<lparr>fp_pre = v, fp_post = v, fp_activation = fork_never\<rparr>"

definition fp_get :: "'a forked_param \<Rightarrow> u64 \<Rightarrow> 'a" where
  "fp_get p daa = (if is_active (fp_activation p) daa then fp_post p else fp_pre p)"

definition fp_before :: "'a forked_param \<Rightarrow> 'a" where
  "fp_before p = (if daa_score_of (fp_activation p) = 0 then fp_post p else fp_pre p)"

definition fp_after :: "'a forked_param \<Rightarrow> 'a" where
  "fp_after p = (if daa_score_of (fp_activation p) = - 1 then fp_pre p else fp_post p)"

definition fp_map :: "('a \<Rightarrow> 'b) \<Rightarrow> 'a forked_param \<Rightarrow> 'b forked_param" where
  "fp_map f p = \<lparr>fp_pre = f (fp_pre p), fp_post = f (fp_post p), fp_activation = fp_activation p\<rparr>"

definition fp_lower_bound :: "'a::linorder forked_param \<Rightarrow> 'a" where
  "fp_lower_bound p =
     (if daa_score_of (fp_activation p) = - 1 then fp_pre p
      else if daa_score_of (fp_activation p) = 0 then fp_post p else min (fp_pre p) (fp_post p))"

definition fp_upper_bound :: "'a::linorder forked_param \<Rightarrow> 'a" where
  "fp_upper_bound p =
     (if daa_score_of (fp_activation p) = - 1 then fp_pre p
      else if daa_score_of (fp_activation p) = 0 then fp_post p else max (fp_pre p) (fp_post p))"

lemma fp_get_bounds:
  assumes "daa \<noteq> - 1"
  shows "fp_lower_bound p \<le> fp_get p daa \<and> fp_get p daa \<le> fp_upper_bound p"
  using assms by (auto simp: fp_lower_bound_def fp_upper_bound_def fp_get_def is_active_def word_order.extremum_unique)

section \<open>Block-rate constants\<close>

definition PAST_MEDIAN_TIME_SAMPLE_INTERVAL :: u64 where "PAST_MEDIAN_TIME_SAMPLE_INTERVAL = 10"
definition DIFFICULTY_WINDOW_DURATION :: u64 where "DIFFICULTY_WINDOW_DURATION = 2641"
definition DIFFICULTY_WINDOW_SAMPLE_INTERVAL :: u64 where "DIFFICULTY_WINDOW_SAMPLE_INTERVAL = 4"
definition MIN_DIFFICULTY_WINDOW_SIZE :: nat where "MIN_DIFFICULTY_WINDOW_SIZE = 150"
definition TIMESTAMP_DEVIATION_TOLERANCE :: u64 where "TIMESTAMP_DEVIATION_TOLERANCE = 132"
definition FINALITY_DURATION :: u64 where "FINALITY_DURATION = 43200"
definition PRUNING_DURATION :: u64 where "PRUNING_DURATION = 108000"
definition MERGE_DEPTH_DURATION :: u64 where "MERGE_DEPTH_DURATION = 3600"
definition COINBASE_MATURITY_SECONDS :: u64 where "COINBASE_MATURITY_SECONDS = 100"

text \<open>The table of \<open>Bps::ghostdag_k\<close>, for rates 1 to 32.\<close>

definition ghostdag_k_table :: "nat list" where
  "ghostdag_k_table =
    [18, 31, 43, 55, 67, 79, 90, 102, 113, 124, 135, 146, 157, 168, 179, 190, 201, 212, 223, 234,
     244, 255, 266, 277, 288, 298, 309, 320, 330, 341, 352, 362]"

definition bps_ghostdag_k :: "u64 \<Rightarrow> ('e, u16) outcome" where
  "bps_ghostdag_k BPS =
     (if 1 \<le> BPS \<and> BPS \<le> 32 then Ok (of_nat (ghostdag_k_table ! (unat BPS - 1))) else Panic)"

definition bps_target_time_per_block :: "u64 \<Rightarrow> ('e, u64) outcome" where
  "bps_target_time_per_block BPS = (if BPS = 0 \<or> 1000 mod BPS \<noteq> 0 then Panic else Ok (1000 div BPS))"

definition bps_max_block_parents :: "u64 \<Rightarrow> ('e, u8) outcome" where
  "bps_max_block_parents BPS = obind (bps_ghostdag_k BPS) (\<lambda>k.
     let val = (ucast (k div 2) :: u8) in Ok (if val < 10 then 10 else if val > 16 then 16 else val))"

definition bps_mergeset_size_limit :: "u64 \<Rightarrow> ('e, u64) outcome" where
  "bps_mergeset_size_limit BPS = obind (bps_ghostdag_k BPS) (\<lambda>k.
     obind (pmul (ucast k) 2) (\<lambda>val. Ok (if val < 180 then 180 else if val > 512 then 512 else val)))"

definition bps_merge_depth_bound :: "u64 \<Rightarrow> ('e, u64) outcome" where
  "bps_merge_depth_bound BPS = pmul BPS MERGE_DEPTH_DURATION"

definition bps_finality_depth :: "u64 \<Rightarrow> ('e, u64) outcome" where
  "bps_finality_depth BPS = pmul BPS FINALITY_DURATION"

definition bps_pruning_depth :: "u64 \<Rightarrow> ('e, u64) outcome" where
  "bps_pruning_depth BPS =
     obind (bps_finality_depth BPS) (\<lambda>fin.
     obind (bps_merge_depth_bound BPS) (\<lambda>md. obind (pmul md 2) (\<lambda>md2. obind (padd fin md2) (\<lambda>s1.
     obind (bps_mergeset_size_limit BPS) (\<lambda>ms. obind (pmul 4 ms) (\<lambda>ms4.
     obind (bps_ghostdag_k BPS) (\<lambda>k. obind (pmul ms4 (ucast k)) (\<lambda>msk. obind (padd s1 msk) (\<lambda>s2.
     obind (pmul 2 (ucast k)) (\<lambda>k2. obind (padd s2 k2) (\<lambda>s3. obind (padd s3 2) (\<lambda>lower_bound.
     obind (pmul BPS PRUNING_DURATION) (\<lambda>pd. Ok (if lower_bound > pd then lower_bound else pd))))))))))))))"

definition bps_past_median_time_sample_rate :: "u64 \<Rightarrow> ('e, u64) outcome" where
  "bps_past_median_time_sample_rate BPS = pmul BPS PAST_MEDIAN_TIME_SAMPLE_INTERVAL"

definition bps_difficulty_adjustment_sample_rate :: "u64 \<Rightarrow> ('e, u64) outcome" where
  "bps_difficulty_adjustment_sample_rate BPS = pmul BPS DIFFICULTY_WINDOW_SAMPLE_INTERVAL"

definition bps_coinbase_maturity :: "u64 \<Rightarrow> ('e, u64) outcome" where
  "bps_coinbase_maturity BPS = pmul BPS COINBASE_MATURITY_SECONDS"

definition bps_deflationary_phase_daa_score :: "u64 \<Rightarrow> ('e, u64) outcome" where
  "bps_deflationary_phase_daa_score BPS = obind (psub 15778800 259200) (pmul BPS)"

definition bps_pre_deflationary_phase_base_subsidy :: "u64 \<Rightarrow> ('e, u64) outcome" where
  "bps_pre_deflationary_phase_base_subsidy BPS = pdiv 370027857 BPS"

section \<open>Parameter structures\<close>

record blockrate_params =
  target_time_per_block :: u64
  ghostdag_k :: u16
  past_median_time_sample_rate :: u64
  difficulty_sample_rate :: u64
  max_block_parents :: u8
  mergeset_size_limit :: u64
  merge_depth :: u64
  finality_depth :: u64
  pruning_depth :: u64
  coinbase_maturity :: u64

definition blockrate_new :: "u64 \<Rightarrow> ('e, blockrate_params) outcome" where
  "blockrate_new BPS =
     obind (bps_target_time_per_block BPS) (\<lambda>tt. obind (bps_ghostdag_k BPS) (\<lambda>k.
     obind (bps_past_median_time_sample_rate BPS) (\<lambda>pm. obind (bps_difficulty_adjustment_sample_rate BPS) (\<lambda>ds.
     obind (bps_max_block_parents BPS) (\<lambda>mp. obind (bps_mergeset_size_limit BPS) (\<lambda>ms.
     obind (bps_merge_depth_bound BPS) (\<lambda>md. obind (bps_finality_depth BPS) (\<lambda>fd.
     obind (bps_pruning_depth BPS) (\<lambda>pd. obind (bps_coinbase_maturity BPS) (\<lambda>cm.
     Ok \<lparr>target_time_per_block = tt, ghostdag_k = k, past_median_time_sample_rate = pm,
         difficulty_sample_rate = ds, max_block_parents = mp, mergeset_size_limit = ms, merge_depth = md,
         finality_depth = fd, pruning_depth = pd, coinbase_maturity = cm\<rparr>))))))))))"

record params =
  p_timestamp_deviation_tolerance :: u64
  p_past_median_time_window_size :: nat
  p_difficulty_window_size :: nat
  p_min_difficulty_window_size :: nat
  p_coinbase_payload_script_public_key_max_len :: u8
  p_max_coinbase_payload_len :: nat
  p_max_tx_inputs :: nat
  p_max_tx_outputs :: nat
  p_max_signature_script_len :: nat
  p_max_script_public_key_len :: nat
  p_mass_per_tx_byte :: u64
  p_mass_per_script_pub_key_byte :: u64
  p_mass_per_sig_op :: u64
  p_max_block_mass :: u64
  p_storage_mass_parameter :: u64
  p_deflationary_phase_daa_score :: u64
  p_pre_deflationary_phase_base_subsidy :: u64
  p_blockrate :: blockrate_params
  p_pre_crescendo_target_time_per_block :: u64
  p_crescendo_activation :: fork_activation

definition bps_history :: "params \<Rightarrow> ('e, u64 forked_param) outcome" where
  "bps_history p =
     obind (pdiv 1000 (p_pre_crescendo_target_time_per_block p)) (\<lambda>pre.
     obind (pdiv 1000 (target_time_per_block (p_blockrate p))) (\<lambda>post.
     Ok \<lparr>fp_pre = pre, fp_post = post, fp_activation = p_crescendo_activation p\<rparr>))"

definition anticone_finalization_depth :: "params \<Rightarrow> ('e, u64) outcome" where
  "anticone_finalization_depth p =
     (let b = p_blockrate p; k = (ucast (ghostdag_k b) :: u64) in
      obind (padd (finality_depth b) (merge_depth b)) (\<lambda>s1.
      obind (pmul 4 (mergeset_size_limit b)) (\<lambda>m4. obind (pmul m4 k) (\<lambda>mk. obind (padd s1 mk) (\<lambda>s2.
      obind (pmul 2 k) (\<lambda>k2. obind (padd s2 k2) (\<lambda>s3. obind (padd s3 2) (\<lambda>d.
      Ok (min (pruning_depth b) d)))))))))"

definition MEDIAN_TIME_SAMPLED_WINDOW_SIZE :: "('e, u64) outcome" where
  "MEDIAN_TIME_SAMPLED_WINDOW_SIZE =
     obind (pmul 2 TIMESTAMP_DEVIATION_TOLERANCE) (\<lambda>t. obind (psub t 1) (\<lambda>t'.
       div_ceil t' PAST_MEDIAN_TIME_SAMPLE_INTERVAL))"

definition DIFFICULTY_SAMPLED_WINDOW_SIZE :: "('e, u64) outcome" where
  "DIFFICULTY_SAMPLED_WINDOW_SIZE = div_ceil DIFFICULTY_WINDOW_DURATION DIFFICULTY_WINDOW_SAMPLE_INTERVAL"

definition MAINNET_PARAMS :: "('e, params) outcome" where
  "MAINNET_PARAMS =
     obind MEDIAN_TIME_SAMPLED_WINDOW_SIZE (\<lambda>mt. obind DIFFICULTY_SAMPLED_WINDOW_SIZE (\<lambda>ds.
     obind (bps_deflationary_phase_daa_score 10) (\<lambda>defl.
     obind (bps_pre_deflationary_phase_base_subsidy 10) (\<lambda>pre.
     obind (blockrate_new 10) (\<lambda>br. obind (bps_target_time_per_block 10) (\<lambda>tt.
     Ok \<lparr>p_timestamp_deviation_tolerance = TIMESTAMP_DEVIATION_TOLERANCE,
         p_past_median_time_window_size = unat mt, p_difficulty_window_size = unat ds,
         p_min_difficulty_window_size = MIN_DIFFICULTY_WINDOW_SIZE,
         p_coinbase_payload_script_public_key_max_len = 150, p_max_coinbase_payload_len = 204,
         p_max_tx_inputs = 1000, p_max_tx_outputs = 1000, p_max_signature_script_len = 10000,
         p_max_script_public_key_len = 10000, p_mass_per_tx_byte = 1, p_mass_per_script_pub_key_byte = 10,
         p_mass_per_sig_op = 1000, p_max_block_mass = 500000, p_storage_mass_parameter = STORAGE_MASS_PARAMETER,
         p_deflationary_phase_daa_score = defl, p_pre_deflationary_phase_base_subsidy = pre, p_blockrate = br,
         p_pre_crescendo_target_time_per_block = tt, p_crescendo_activation = fork_always\<rparr>))))))"

lemmas plain_eval = padd_def psub_def pmul_def pdiv_def div_ceil_def checked_add_def checked_sub_def
  checked_mul_def checked_div_def

lemmas bps_defs = bps_target_time_per_block_def bps_ghostdag_k_def bps_past_median_time_sample_rate_def
  bps_difficulty_adjustment_sample_rate_def bps_max_block_parents_def bps_mergeset_size_limit_def
  bps_merge_depth_bound_def bps_finality_depth_def bps_pruning_depth_def bps_coinbase_maturity_def
  bps_deflationary_phase_daa_score_def bps_pre_deflationary_phase_base_subsidy_def ghostdag_k_table_def
  PAST_MEDIAN_TIME_SAMPLE_INTERVAL_def DIFFICULTY_WINDOW_DURATION_def DIFFICULTY_WINDOW_SAMPLE_INTERVAL_def
  FINALITY_DURATION_def PRUNING_DURATION_def MERGE_DEPTH_DURATION_def COINBASE_MATURITY_SECONDS_def
  TIMESTAMP_DEVIATION_TOLERANCE_def MEDIAN_TIME_SAMPLED_WINDOW_SIZE_def DIFFICULTY_SAMPLED_WINDOW_SIZE_def

lemma blockrate_new_10:
  "blockrate_new 10 = Ok \<lparr>target_time_per_block = 100, ghostdag_k = 124, past_median_time_sample_rate = 100,
     difficulty_sample_rate = 40, max_block_parents = 16, mergeset_size_limit = 248, merge_depth = 36000,
     finality_depth = 432000, pruning_depth = 1080000, coinbase_maturity = 1000\<rparr>"
  by (simp add: blockrate_new_def bps_defs plain_eval)

lemma bps_10_values:
  "MEDIAN_TIME_SAMPLED_WINDOW_SIZE = Ok 27"
  "DIFFICULTY_SAMPLED_WINDOW_SIZE = Ok 661"
  "bps_deflationary_phase_daa_score 10 = Ok 155196000"
  "bps_pre_deflationary_phase_base_subsidy 10 = Ok 37002785"
  "bps_target_time_per_block 10 = Ok 100"
  by (simp_all add: bps_defs plain_eval)

lemma MAINNET_PARAMS_eq:
  "MAINNET_PARAMS = Ok \<lparr>p_timestamp_deviation_tolerance = 132,
     p_past_median_time_window_size = 27, p_difficulty_window_size = 661, p_min_difficulty_window_size = 150,
     p_coinbase_payload_script_public_key_max_len = 150, p_max_coinbase_payload_len = 204,
     p_max_tx_inputs = 1000, p_max_tx_outputs = 1000, p_max_signature_script_len = 10000,
     p_max_script_public_key_len = 10000, p_mass_per_tx_byte = 1, p_mass_per_script_pub_key_byte = 10,
     p_mass_per_sig_op = 1000, p_max_block_mass = 500000, p_storage_mass_parameter = 1000000000000,
     p_deflationary_phase_daa_score = 155196000, p_pre_deflationary_phase_base_subsidy = 37002785,
     p_blockrate = \<lparr>target_time_per_block = 100, ghostdag_k = 124, past_median_time_sample_rate = 100,
       difficulty_sample_rate = 40, max_block_parents = 16, mergeset_size_limit = 248, merge_depth = 36000,
       finality_depth = 432000, pruning_depth = 1080000, coinbase_maturity = 1000\<rparr>,
     p_pre_crescendo_target_time_per_block = 100, p_crescendo_activation = fork_always\<rparr>"
  by (simp add: MAINNET_PARAMS_def blockrate_new_10 bps_10_values TIMESTAMP_DEVIATION_TOLERANCE_def
      MIN_DIFFICULTY_WINDOW_SIZE_def STORAGE_MASS_PARAMETER_def SOMPI_PER_SOPHIS_def)

lemma unat_ucast_u16_u64 [simp]: "unat (ucast (k :: u16) :: u64) = unat k"
  by (rule unat_ucast_up) simp

lemma bps_pruning_depth_bound:
  assumes "bps_pruning_depth BPS = (Ok pd :: ('e, u64) outcome)" and "bps_finality_depth BPS = (Ok fin :: ('e, u64) outcome)"
    and "bps_merge_depth_bound BPS = (Ok md :: ('e, u64) outcome)" and "bps_mergeset_size_limit BPS = (Ok ms :: ('e, u64) outcome)" and "bps_ghostdag_k BPS = (Ok k :: ('e, u16) outcome)"
  shows "unat fin + 2 * unat md + 4 * unat ms * unat k + 2 * unat k + 2 \<le> unat pd"
  using assms by (auto simp: bps_pruning_depth_def obind_eq_Ok padd_eq_Ok pmul_eq_Ok word_less_nat_alt split: if_splits)

lemma bps_merge_depth_pos:
  assumes "bps_merge_depth_bound BPS = (Ok md :: ('e, u64) outcome)" and "bps_ghostdag_k BPS = (Ok k :: ('e, u16) outcome)"
  shows "0 < unat md"
  using assms by (auto simp: bps_merge_depth_bound_def pmul_eq_Ok bps_ghostdag_k_def MERGE_DEPTH_DURATION_def
      word_le_nat_alt split: if_splits)

text \<open>Finalization precedes pruning at every supported block rate: with the block-rate parameters that
  \<open>BlockrateParams::new\<close> computes, \<open>anticone_finalization_depth\<close> does not overflow, is the depth
  of the prunality formula, and is smaller than the pruning depth, so the \<open>min\<close> never takes effect.
\<close>

theorem anticone_finalization_before_pruning:
  assumes "blockrate_new BPS = (Ok b :: ('e, blockrate_params) outcome)" and "p_blockrate p = b"
  shows "returns (\<lambda>d. d < pruning_depth b \<and>
    unat d = unat (finality_depth b) + unat (merge_depth b)
      + 4 * unat (mergeset_size_limit b) * unat (ghostdag_k b) + 2 * unat (ghostdag_k b) + 2)
    (anticone_finalization_depth p)"
proof -
  have b: "bps_pruning_depth BPS = (Ok (pruning_depth b) :: ('e, u64) outcome)"
    "bps_finality_depth BPS = (Ok (finality_depth b) :: ('e, u64) outcome)"
    "bps_merge_depth_bound BPS = (Ok (merge_depth b) :: ('e, u64) outcome)"
    "bps_mergeset_size_limit BPS = (Ok (mergeset_size_limit b) :: ('e, u64) outcome)"
    "bps_ghostdag_k BPS = (Ok (ghostdag_k b) :: ('e, u16) outcome)"
    using assms(1) by (auto simp: blockrate_new_def obind_eq_Ok)
  note pd = bps_pruning_depth_bound [OF b] bps_merge_depth_pos [OF b(3,5)] unat_less_exp [of "pruning_depth b"]
  have "unat (mergeset_size_limit b) \<le> 512"
    using b(4) by (auto simp: bps_mergeset_size_limit_def obind_eq_Ok word_less_nat_alt split: if_splits)
  with pd show ?thesis
    by (auto simp: anticone_finalization_depth_def Let_def assms(2) returns_simps min_def word_less_nat_alt word_le_nat_alt)
qed

definition ex_params :: params where
  "ex_params = (case (MAINNET_PARAMS :: (unit, params) outcome) of Ok p \<Rightarrow> p)"

theorem anticone_finalization_before_pruning_witness:
  "returns (\<lambda>d. d < pruning_depth (p_blockrate ex_params) \<and> unat d = 432000 + 36000 + 4 * 248 * 124 + 2 * 124 + 2)
    (anticone_finalization_depth ex_params)"
  using anticone_finalization_before_pruning [OF blockrate_new_10, of ex_params]
  by (simp add: ex_params_def MAINNET_PARAMS_eq)

end
