(* ===== verification/Ghostdag_Data.thy ===== *)
theory Ghostdag_Data
  imports Tx Hash_Map
begin

text \<open>
  The GHOSTDAG data of a block (src/consensus/src/model/stores/ghostdag.rs), the special block hashes of
  src/consensus/core/src/blockhash.rs and the total order of blocks by blue work and hash
  (src/consensus/src/processes/ghostdag/ordering.rs). \<open>KType\<close> is \<open>u16\<close> and
  \<open>BlueWorkType\<close> is a 192-bit unsigned integer.
\<close>

type_synonym k_type = u16
type_synonym blue_work_type = "192 word"

definition ORIGIN :: hash where
  "ORIGIN = Hash (replicate HASH_SIZE 0xfe)"

definition is_origin :: "hash \<Rightarrow> bool" where
  "is_origin h \<longleftrightarrow> h = ORIGIN"

section \<open>Block data\<close>

record ghostdag_data =
  blue_score :: u64
  blue_work :: blue_work_type
  selected_parent :: hash
  mergeset_blues :: "hash list"
  mergeset_reds :: "hash list"
  blues_anticone_sizes :: "(hash, k_type) hmap"

definition genesis_ghostdag_data :: ghostdag_data where
  "genesis_ghostdag_data = \<lparr>blue_score = 0, blue_work = 0, selected_parent = ORIGIN, mergeset_blues = [],
     mergeset_reds = [], blues_anticone_sizes = []\<rparr>"

definition origin_ghostdag_data :: ghostdag_data where
  "origin_ghostdag_data = \<lparr>blue_score = 0, blue_work = 0, selected_parent = from_u64_word 0,
     mergeset_blues = [], mergeset_reds = [], blues_anticone_sizes = []\<rparr>"

text \<open>The capacity hint \<open>(k + 1) as usize\<close> is a checked addition.\<close>

definition new_with_selected_parent :: "hash \<Rightarrow> k_type \<Rightarrow> ('e, ghostdag_data) outcome" where
  "new_with_selected_parent sp k = obind (padd k 1) (\<lambda>_.
     Ok \<lparr>blue_score = 0, blue_work = 0, selected_parent = sp, mergeset_blues = [sp], mergeset_reds = [],
         blues_anticone_sizes = hm_insert sp 0 []\<rparr>)"

definition mergeset_size :: "ghostdag_data \<Rightarrow> nat" where
  "mergeset_size d = length (mergeset_blues d) + length (mergeset_reds d)"

definition unordered_mergeset :: "ghostdag_data \<Rightarrow> hash list" where
  "unordered_mergeset d = mergeset_blues d @ mergeset_reds d"

definition data_unordered_mergeset_without_selected_parent :: "ghostdag_data \<Rightarrow> hash list" where
  "data_unordered_mergeset_without_selected_parent d = drop 1 (mergeset_blues d) @ mergeset_reds d"

definition add_blue :: "hash \<Rightarrow> k_type \<Rightarrow> (hash, k_type) hmap \<Rightarrow> ghostdag_data \<Rightarrow> ('e, ghostdag_data) outcome" where
  "add_blue block blue_anticone_size block_blues_anticone_sizes d =
     obind (ofold (\<lambda>(blue, size) sizes. obind (padd size 1) (\<lambda>s. Ok (hm_insert blue s sizes)))
              block_blues_anticone_sizes (hm_insert block blue_anticone_size (blues_anticone_sizes d)))
       (\<lambda>sizes. Ok (d\<lparr>mergeset_blues := mergeset_blues d @ [block], blues_anticone_sizes := sizes\<rparr>))"

definition add_red :: "hash \<Rightarrow> ghostdag_data \<Rightarrow> ghostdag_data" where
  "add_red block d = d\<lparr>mergeset_reds := mergeset_reds d @ [block]\<rparr>"

definition finalize_score_and_work :: "u64 \<Rightarrow> blue_work_type \<Rightarrow> ghostdag_data \<Rightarrow> ghostdag_data" where
  "finalize_score_and_work score work d = d\<lparr>blue_score := score, blue_work := work\<rparr>"

section \<open>The order of blocks\<close>

text \<open>\<open>Ord for SortableBlock\<close>: blue work first, then the hash. \<open>PartialEq\<close> compares hashes only.\<close>

datatype sortable_block = SortableBlock (sb_hash: hash) (sb_blue_work: blue_work_type)

definition sortable_block_eq :: "sortable_block \<Rightarrow> sortable_block \<Rightarrow> bool" where
  "sortable_block_eq a b \<longleftrightarrow> sb_hash a = sb_hash b"

definition sortable_block_cmp_le :: "sortable_block \<Rightarrow> sortable_block \<Rightarrow> bool" where
  "sortable_block_cmp_le a b \<longleftrightarrow>
     sb_blue_work a < sb_blue_work b \<or> sb_blue_work a = sb_blue_work b \<and> sb_hash a \<le> sb_hash b"

instantiation sortable_block :: linorder
begin

definition less_eq_sortable_block :: "sortable_block \<Rightarrow> sortable_block \<Rightarrow> bool" where
  "less_eq_sortable_block a b \<longleftrightarrow> sortable_block_cmp_le a b"

definition less_sortable_block :: "sortable_block \<Rightarrow> sortable_block \<Rightarrow> bool" where
  "less_sortable_block a b \<longleftrightarrow> sortable_block_cmp_le a b \<and> \<not> sortable_block_cmp_le b a"

instance
  by standard (auto simp: less_eq_sortable_block_def less_sortable_block_def sortable_block_cmp_le_def
      intro: sortable_block.expand)

end

end
