(* ===== verification/Subsidy_Table.thy ===== *)
theory Subsidy_Table
  imports Prelude
begin

text \<open>
  \<open>SUBSIDY_BY_MONTH_TABLE\<close> of src/consensus/src/processes/coinbase.rs: the reward per second for each
  month of the deflationary phase, in chunks of a hundred months, and the facts the emission schedule
  rests on: its length, that it never increases, and its sums at one and at ten blocks per second.
\<close>

definition SUBSIDY_BY_MONTH_TABLE_SIZE :: nat where
  "SUBSIDY_BY_MONTH_TABLE_SIZE = 1902"

definition subsidy_values_0 :: "int list" where
  "subsidy_values_0 =
    [54089972, 53585684, 53086098, 52591170, 52100856, 51615114, 51133900, 50657172, 50184889, 49717009, 49253492, 48794295, 48339380, 47888706, 47442234, 46999924, 46561738, 46127638, 45697584, 45271540,
     44849468, 44431331, 44017092, 43606715, 43200165, 42797404, 42398399, 42003113, 41611513, 41223564, 40839232, 40458483, 40081283, 39707601, 39337402, 38970654, 38607326, 38247385, 37890800, 37537540,
     37187573, 36840869, 36497397, 36157127, 35820030, 35486075, 35155234, 34827478, 34502777, 34181103, 33862429, 33546725, 33233965, 32924121, 32617165, 32313071, 32011813, 31713363, 31417695, 31124784,
     30834604, 30547129, 30262335, 29980195, 29700686, 29423783, 29149462, 28877698, 28608467, 28341747, 28077514, 27815743, 27556414, 27299502, 27044986, 26792842, 26543049, 26295585, 26050428, 25807557,
     25566950, 25328586, 25092444, 24858504, 24626746, 24397147, 24169690, 23944353, 23721117, 23499962, 23280869, 23063819, 22848792, 22635770, 22424734, 22215665, 22008546, 21803357, 21600082, 21398702]"

definition subsidy_values_1 :: "int list" where
  "subsidy_values_1 =
    [21199199, 21001556, 20805756, 20611782, 20419616, 20229241, 20040641, 19853800, 19668701, 19485327, 19303663, 19123692, 18945400, 18768770, 18593786, 18420434, 18248698, 18078563, 17910015, 17743037,
     17577617, 17413739, 17251388, 17090551, 16931214, 16773362, 16616982, 16462060, 16308582, 16156535, 16005906, 15856681, 15708847, 15562392, 15417302, 15273564, 15131167, 14990097, 14850343, 14711891,
     14574731, 14438849, 14304233, 14170873, 14038757, 13907871, 13778207, 13649751, 13522493, 13396421, 13271524, 13147792, 13025214, 12903778, 12783475, 12664293, 12546222, 12429252, 12313373, 12198573,
     12084845, 11972176, 11860558, 11749981, 11640434, 11531909, 11424396, 11317885, 11212367, 11107832, 11004273, 10901678, 10800041, 10699351, 10599599, 10500778, 10402878, 10305891, 10209808, 10114620,
     10020320, 9926900, 9834350, 9742663, 9651831, 9561846, 9472700, 9384385, 9296893, 9210217, 9124349, 9039281, 8955007, 8871518, 8788808, 8706869, 8625694, 8545275, 8465607, 8386681]"

definition subsidy_values_2 :: "int list" where
  "subsidy_values_2 =
    [8308491, 8231030, 8154291, 8078267, 8002953, 7928340, 7854423, 7781196, 7708651, 7636782, 7565583, 7495048, 7425171, 7355945, 7287365, 7219424, 7152116, 7085436, 7019378, 6953935,
     6889103, 6824875, 6761246, 6698210, 6635762, 6573896, 6512607, 6451889, 6391737, 6332146, 6273111, 6214626, 6156686, 6099286, 6042422, 5986088, 5930279, 5874990, 5820217, 5765954,
     5712198, 5658942, 5606183, 5553916, 5502136, 5450839, 5400020, 5349675, 5299799, 5250389, 5201439, 5152945, 5104904, 5057310, 5010160, 4963450, 4917175, 4871331, 4825915, 4780923,
     4736350, 4692192, 4648446, 4605108, 4562174, 4519640, 4477503, 4435759, 4394404, 4353434, 4312847, 4272637, 4232803, 4193340, 4154245, 4115515, 4077145, 4039133, 4001476, 3964170,
     3927211, 3890598, 3854325, 3818391, 3782791, 3747524, 3712585, 3677972, 3643682, 3609712, 3576058, 3542718, 3509689, 3476967, 3444551, 3412437, 3380623, 3349105, 3317881, 3286948]"

definition subsidy_values_3 :: "int list" where
  "subsidy_values_3 =
    [3256303, 3225944, 3195868, 3166073, 3136555, 3107313, 3078343, 3049643, 3021211, 2993044, 2965139, 2937495, 2910108, 2882977, 2856099, 2829471, 2803091, 2776958, 2751068, 2725419,
     2700010, 2674837, 2649899, 2625194, 2600719, 2576472, 2552452, 2528655, 2505080, 2481725, 2458587, 2435665, 2412957, 2390461, 2368175, 2346096, 2324223, 2302554, 2281087, 2259820,
     2238751, 2217879, 2197202, 2176717, 2156423, 2136318, 2116401, 2096670, 2077122, 2057757, 2038572, 2019566, 2000738, 1982085, 1963605, 1945299, 1927162, 1909195, 1891395, 1873762,
     1856292, 1838986, 1821841, 1804856, 1788029, 1771359, 1754844, 1738483, 1722275, 1706218, 1690311, 1674552, 1658940, 1643474, 1628151, 1612972, 1597934, 1583036, 1568277, 1553656,
     1539171, 1524821, 1510605, 1496522, 1482569, 1468747, 1455054, 1441488, 1428049, 1414735, 1401545, 1388479, 1375534, 1362709, 1350005, 1337418, 1324949, 1312597, 1300359, 1288236]"

definition subsidy_values_4 :: "int list" where
  "subsidy_values_4 =
    [1276226, 1264327, 1252540, 1240862, 1229293, 1217832, 1206478, 1195230, 1184087, 1173048, 1162111, 1151277, 1140543, 1129910, 1119375, 1108939, 1098601, 1088358, 1078211, 1068159,
     1058200, 1048335, 1038561, 1028878, 1019286, 1009783, 1000369, 991042, 981802, 972649, 963581, 954597, 945697, 936881, 928146, 919493, 910920, 902428, 894014, 885679,
     877422, 869241, 861137, 853109, 845155, 837276, 829470, 821737, 814075, 806486, 798967, 791518, 784138, 776828, 769585, 762410, 755302, 748261, 741284, 734373,
     727527, 720744, 714024, 707367, 700772, 694239, 687767, 681354, 675002, 668709, 662474, 656298, 650179, 644118, 638113, 632163, 626270, 620431, 614646, 608916,
     603239, 597615, 592043, 586524, 581055, 575638, 570271, 564955, 559687, 554469, 549300, 544179, 539105, 534079, 529100, 524167, 519280, 514439, 509643, 504891]"

definition subsidy_values_5 :: "int list" where
  "subsidy_values_5 =
    [500184, 495521, 490901, 486324, 481790, 477298, 472848, 468440, 464073, 459746, 455460, 451214, 447007, 442839, 438711, 434620, 430568, 426554, 422577, 418638,
     414735, 410868, 407037, 403243, 399483, 395759, 392069, 388414, 384792, 381205, 377651, 374130, 370642, 367186, 363763, 360372, 357012, 353683, 350386, 347119,
     343883, 340677, 337501, 334354, 331237, 328149, 325089, 322059, 319056, 316081, 313135, 310215, 307323, 304458, 301619, 298807, 296021, 293262, 290527, 287819,
     285135, 282477, 279843, 277234, 274650, 272089, 269552, 267039, 264550, 262083, 259640, 257219, 254821, 252445, 250092, 247760, 245450, 243162, 240895, 238649,
     236424, 234220, 232036, 229873, 227730, 225607, 223503, 221419, 219355, 217310, 215284, 213277, 211288, 209319, 207367, 205434, 203518, 201621, 199741, 197879]"

definition subsidy_values_6 :: "int list" where
  "subsidy_values_6 =
    [196034, 194207, 192396, 190602, 188825, 187065, 185321, 183593, 181881, 180186, 178506, 176841, 175193, 173559, 171941, 170338, 168750, 167177, 165618, 164074,
     162544, 161029, 159528, 158040, 156567, 155107, 153661, 152229, 150809, 149403, 148010, 146631, 145263, 143909, 142567, 141238, 139921, 138617, 137325, 136044,
     134776, 133519, 132275, 131041, 129820, 128609, 127410, 126222, 125046, 123880, 122725, 121581, 120447, 119324, 118212, 117110, 116018, 114936, 113865, 112803,
     111751, 110709, 109677, 108655, 107642, 106638, 105644, 104659, 103683, 102717, 101759, 100810, 99870, 98939, 98017, 97103, 96198, 95301, 94412, 93532,
     92660, 91796, 90940, 90093, 89253, 88420, 87596, 86779, 85970, 85169, 84375, 83588, 82809, 82037, 81272, 80514, 79764, 79020, 78283, 77553]"

definition subsidy_values_7 :: "int list" where
  "subsidy_values_7 =
    [76830, 76114, 75404, 74701, 74005, 73315, 72631, 71954, 71283, 70619, 69960, 69308, 68662, 68022, 67388, 66759, 66137, 65520, 64910, 64304,
     63705, 63111, 62523, 61940, 61362, 60790, 60223, 59662, 59106, 58555, 58009, 57468, 56932, 56401, 55875, 55354, 54838, 54327, 53821, 53319,
     52822, 52329, 51841, 51358, 50879, 50405, 49935, 49469, 49008, 48551, 48099, 47650, 47206, 46766, 46330, 45898, 45470, 45046, 44626, 44210,
     43798, 43389, 42985, 42584, 42187, 41794, 41404, 41018, 40636, 40257, 39882, 39510, 39141, 38776, 38415, 38057, 37702, 37350, 37002, 36657,
     36315, 35977, 35641, 35309, 34980, 34654, 34331, 34011, 33694, 33379, 33068, 32760, 32455, 32152, 31852, 31555, 31261, 30970, 30681, 30395]"

definition subsidy_values_8 :: "int list" where
  "subsidy_values_8 =
    [30111, 29831, 29553, 29277, 29004, 28734, 28466, 28200, 27937, 27677, 27419, 27163, 26910, 26659, 26411, 26164, 25920, 25679, 25439, 25202,
     24967, 24734, 24504, 24275, 24049, 23825, 23603, 23383, 23165, 22949, 22735, 22523, 22313, 22105, 21899, 21694, 21492, 21292, 21093, 20897,
     20702, 20509, 20318, 20128, 19941, 19755, 19570, 19388, 19207, 19028, 18851, 18675, 18501, 18328, 18157, 17988, 17820, 17654, 17490, 17327,
     17165, 17005, 16847, 16689, 16534, 16380, 16227, 16076, 15926, 15777, 15630, 15485, 15340, 15197, 15055, 14915, 14776, 14638, 14502, 14367,
     14233, 14100, 13968, 13838, 13709, 13581, 13455, 13329, 13205, 13082, 12960, 12839, 12719, 12601, 12483, 12367, 12252, 12137, 12024, 11912]"

definition subsidy_values_9 :: "int list" where
  "subsidy_values_9 =
    [11801, 11691, 11582, 11474, 11367, 11261, 11156, 11052, 10949, 10847, 10746, 10646, 10546, 10448, 10351, 10254, 10159, 10064, 9970, 9877,
     9785, 9694, 9603, 9514, 9425, 9337, 9250, 9164, 9078, 8994, 8910, 8827, 8745, 8663, 8582, 8502, 8423, 8344, 8267, 8190,
     8113, 8038, 7963, 7888, 7815, 7742, 7670, 7598, 7527, 7457, 7388, 7319, 7251, 7183, 7116, 7050, 6984, 6919, 6854, 6790,
     6727, 6664, 6602, 6541, 6480, 6419, 6359, 6300, 6241, 6183, 6126, 6068, 6012, 5956, 5900, 5845, 5791, 5737, 5683, 5630,
     5578, 5526, 5474, 5423, 5373, 5323, 5273, 5224, 5175, 5127, 5079, 5032, 4985, 4938, 4892, 4847, 4801, 4757, 4712, 4668]"

definition subsidy_values_10 :: "int list" where
  "subsidy_values_10 =
    [4625, 4582, 4539, 4497, 4455, 4413, 4372, 4331, 4291, 4251, 4211, 4172, 4133, 4095, 4056, 4019, 3981, 3944, 3907, 3871,
     3835, 3799, 3763, 3728, 3694, 3659, 3625, 3591, 3558, 3525, 3492, 3459, 3427, 3395, 3363, 3332, 3301, 3270, 3240, 3209,
     3179, 3150, 3120, 3091, 3063, 3034, 3006, 2978, 2950, 2922, 2895, 2868, 2841, 2815, 2789, 2763, 2737, 2711, 2686, 2661,
     2636, 2612, 2587, 2563, 2539, 2516, 2492, 2469, 2446, 2423, 2400, 2378, 2356, 2334, 2312, 2291, 2269, 2248, 2227, 2206,
     2186, 2165, 2145, 2125, 2105, 2086, 2066, 2047, 2028, 2009, 1990, 1972, 1953, 1935, 1917, 1899, 1881, 1864, 1847, 1829]"

definition subsidy_values_11 :: "int list" where
  "subsidy_values_11 =
    [1812, 1795, 1779, 1762, 1746, 1729, 1713, 1697, 1681, 1666, 1650, 1635, 1620, 1604, 1589, 1575, 1560, 1545, 1531, 1517,
     1503, 1489, 1475, 1461, 1447, 1434, 1420, 1407, 1394, 1381, 1368, 1355, 1343, 1330, 1318, 1306, 1293, 1281, 1269, 1258,
     1246, 1234, 1223, 1211, 1200, 1189, 1178, 1167, 1156, 1145, 1134, 1124, 1113, 1103, 1093, 1082, 1072, 1062, 1052, 1043,
     1033, 1023, 1014, 1004, 995, 986, 976, 967, 958, 949, 940, 932, 923, 914, 906, 897, 889, 881, 873, 864,
     856, 848, 840, 833, 825, 817, 810, 802, 794, 787, 780, 772, 765, 758, 751, 744, 737, 730, 723, 717]"

definition subsidy_values_12 :: "int list" where
  "subsidy_values_12 =
    [710, 703, 697, 690, 684, 677, 671, 665, 659, 653, 646, 640, 634, 629, 623, 617, 611, 605, 600, 594,
     589, 583, 578, 572, 567, 562, 556, 551, 546, 541, 536, 531, 526, 521, 516, 511, 507, 502, 497, 493,
     488, 483, 479, 474, 470, 466, 461, 457, 453, 448, 444, 440, 436, 432, 428, 424, 420, 416, 412, 408,
     405, 401, 397, 393, 390, 386, 382, 379, 375, 372, 368, 365, 361, 358, 355, 351, 348, 345, 342, 338,
     335, 332, 329, 326, 323, 320, 317, 314, 311, 308, 305, 302, 300, 297, 294, 291, 289, 286, 283, 281]"

definition subsidy_values_13 :: "int list" where
  "subsidy_values_13 =
    [278, 275, 273, 270, 268, 265, 263, 260, 258, 255, 253, 251, 248, 246, 244, 241, 239, 237, 235, 233,
     230, 228, 226, 224, 222, 220, 218, 216, 214, 212, 210, 208, 206, 204, 202, 200, 198, 196, 195, 193,
     191, 189, 187, 186, 184, 182, 180, 179, 177, 175, 174, 172, 171, 169, 167, 166, 164, 163, 161, 160,
     158, 157, 155, 154, 152, 151, 150, 148, 147, 145, 144, 143, 141, 140, 139, 137, 136, 135, 134, 132,
     131, 130, 129, 127, 126, 125, 124, 123, 122, 120, 119, 118, 117, 116, 115, 114, 113, 112, 111, 110]"

definition subsidy_values_14 :: "int list" where
  "subsidy_values_14 =
    [109, 108, 107, 106, 105, 104, 103, 102, 101, 100, 99, 98, 97, 96, 95, 94, 93, 93, 92, 91,
     90, 89, 88, 87, 87, 86, 85, 84, 83, 83, 82, 81, 80, 80, 79, 78, 77, 77, 76, 75,
     75, 74, 73, 72, 72, 71, 70, 70, 69, 68, 68, 67, 67, 66, 65, 65, 64, 63, 63, 62,
     62, 61, 61, 60, 59, 59, 58, 58, 57, 57, 56, 56, 55, 55, 54, 54, 53, 53, 52, 52,
     51, 51, 50, 50, 49, 49, 48, 48, 47, 47, 46, 46, 46, 45, 45, 44, 44, 43, 43, 43]"

definition subsidy_values_15 :: "int list" where
  "subsidy_values_15 =
    [42, 42, 41, 41, 41, 40, 40, 40, 39, 39, 38, 38, 38, 37, 37, 37, 36, 36, 36, 35,
     35, 35, 34, 34, 34, 33, 33, 33, 32, 32, 32, 31, 31, 31, 31, 30, 30, 30, 29, 29,
     29, 29, 28, 28, 28, 28, 27, 27, 27, 27, 26, 26, 26, 26, 25, 25, 25, 25, 24, 24,
     24, 24, 23, 23, 23, 23, 23, 22, 22, 22, 22, 21, 21, 21, 21, 21, 20, 20, 20, 20,
     20, 20, 19, 19, 19, 19, 19, 18, 18, 18, 18, 18, 18, 17, 17, 17, 17, 17, 17, 16]"

definition subsidy_values_16 :: "int list" where
  "subsidy_values_16 =
    [16, 16, 16, 16, 16, 15, 15, 15, 15, 15, 15, 15, 14, 14, 14, 14, 14, 14, 14, 14,
     13, 13, 13, 13, 13, 13, 13, 13, 12, 12, 12, 12, 12, 12, 12, 12, 11, 11, 11, 11,
     11, 11, 11, 11, 11, 10, 10, 10, 10, 10, 10, 10, 10, 10, 10, 10, 9, 9, 9, 9,
     9, 9, 9, 9, 9, 9, 9, 8, 8, 8, 8, 8, 8, 8, 8, 8, 8, 8, 8, 7,
     7, 7, 7, 7, 7, 7, 7, 7, 7, 7, 7, 7, 7, 7, 6, 6, 6, 6, 6, 6]"

definition subsidy_values_17 :: "int list" where
  "subsidy_values_17 =
    [6, 6, 6, 6, 6, 6, 6, 6, 6, 6, 5, 5, 5, 5, 5, 5, 5, 5, 5, 5,
     5, 5, 5, 5, 5, 5, 5, 5, 5, 5, 4, 4, 4, 4, 4, 4, 4, 4, 4, 4,
     4, 4, 4, 4, 4, 4, 4, 4, 4, 4, 4, 4, 4, 3, 3, 3, 3, 3, 3, 3,
     3, 3, 3, 3, 3, 3, 3, 3, 3, 3, 3, 3, 3, 3, 3, 3, 3, 3, 3, 3,
     3, 3, 3, 3, 2, 2, 2, 2, 2, 2, 2, 2, 2, 2, 2, 2, 2, 2, 2, 2]"

definition subsidy_values_18 :: "int list" where
  "subsidy_values_18 =
    [2, 2, 2, 2, 2, 2, 2, 2, 2, 2, 2, 2, 2, 2, 2, 2, 2, 2, 2, 2,
     2, 2, 2, 2, 2, 2, 2, 1, 1, 1, 1, 1, 1, 1, 1, 1, 1, 1, 1, 1,
     1, 1, 1, 1, 1, 1, 1, 1, 1, 1, 1, 1, 1, 1, 1, 1, 1, 1, 1, 1,
     1, 1, 1, 1, 1, 1, 1, 1, 1, 1, 1, 1, 1, 1, 1, 1, 1, 1, 1, 1,
     1, 1, 1, 1, 1, 1, 1, 1, 1, 1, 1, 1, 1, 1, 1, 1, 1, 1, 1, 1]"

definition subsidy_values_19 :: "int list" where
  "subsidy_values_19 =
    [1, 0]"

definition subsidy_values :: "int list" where
  "subsidy_values =
     subsidy_values_0 @ subsidy_values_1 @ subsidy_values_2 @ subsidy_values_3 @ subsidy_values_4 @
     subsidy_values_5 @ subsidy_values_6 @ subsidy_values_7 @ subsidy_values_8 @ subsidy_values_9 @
     subsidy_values_10 @ subsidy_values_11 @ subsidy_values_12 @ subsidy_values_13 @ subsidy_values_14 @
     subsidy_values_15 @ subsidy_values_16 @ subsidy_values_17 @ subsidy_values_18 @ subsidy_values_19"

definition SUBSIDY_BY_MONTH_TABLE :: "u64 list" where
  "SUBSIDY_BY_MONTH_TABLE = map of_int subsidy_values"

lemmas subsidy_chunk_defs =
  subsidy_values_0_def subsidy_values_1_def subsidy_values_2_def subsidy_values_3_def
  subsidy_values_4_def subsidy_values_5_def subsidy_values_6_def subsidy_values_7_def
  subsidy_values_8_def subsidy_values_9_def subsidy_values_10_def subsidy_values_11_def
  subsidy_values_12_def subsidy_values_13_def subsidy_values_14_def subsidy_values_15_def
  subsidy_values_16_def subsidy_values_17_def subsidy_values_18_def subsidy_values_19_def

fun descending :: "int list \<Rightarrow> bool" where
  "descending (x # y # zs) \<longleftrightarrow> y \<le> x \<and> descending (y # zs)"
| "descending _ \<longleftrightarrow> True"

lemma length_subsidy_values: "length subsidy_values = 1902"
  by (simp add: subsidy_values_def subsidy_chunk_defs)

lemma descending_subsidy_values: "descending subsidy_values"
  by (simp add: subsidy_values_def subsidy_chunk_defs)

lemma sum_subsidy_values: "sum_list subsidy_values = 5801700858"
  by (simp add: subsidy_values_def subsidy_chunk_defs)

lemma sum_subsidy_values_10: "sum_list (map (\<lambda>x. (x + 9) div 10) subsidy_values) = 580170990"
  by (simp add: subsidy_values_def subsidy_chunk_defs)

lemma descending_mono:
  "descending xs \<Longrightarrow> i \<le> j \<Longrightarrow> j < length xs \<Longrightarrow> xs ! j \<le> xs ! i"
proof (induction xs arbitrary: i j rule: descending.induct)
  case (1 x y zs)
  show ?case
  proof (cases i)
    case 0
    show ?thesis
    proof (cases j)
      case (Suc j')
      then have "(y # zs) ! j' \<le> (y # zs) ! 0" using "1.IH" [of 0 j'] "1.prems" by simp
      then show ?thesis using "1.prems" 0 Suc by simp
    qed (simp add: 0)
  next
    case (Suc i')
    then show ?thesis using "1.IH" [of i' "j - 1"] "1.prems" by (cases j) simp_all
  qed
qed (auto simp: less_Suc_eq)

lemma subsidy_values_last: "subsidy_values ! 1901 = 0" and subsidy_values_first: "subsidy_values ! 0 = 54089972"
  by (simp_all add: subsidy_values_def subsidy_chunk_defs nth_append)

lemma subsidy_values_bounds:
  assumes "i < 1902"
  shows "0 \<le> subsidy_values ! i \<and> subsidy_values ! i \<le> 54089972"
  using descending_mono [OF descending_subsidy_values, of i 1901]
    descending_mono [OF descending_subsidy_values, of 0 i] assms
  by (simp add: length_subsidy_values subsidy_values_last subsidy_values_first)

lemma length_SUBSIDY_BY_MONTH_TABLE [simp]: "length SUBSIDY_BY_MONTH_TABLE = 1902"
  by (simp add: SUBSIDY_BY_MONTH_TABLE_def length_subsidy_values)

lemma unat_SUBSIDY_BY_MONTH_TABLE:
  assumes "i < 1902"
  shows "unat (SUBSIDY_BY_MONTH_TABLE ! i) = nat (subsidy_values ! i)"
proof -
  have "unat (word_of_int (subsidy_values ! i) :: u64) = nat (take_bit 64 (subsidy_values ! i))"
    by (simp add: unsigned_of_int nat_take_bit_eq)
  also have "take_bit 64 (subsidy_values ! i) = subsidy_values ! i"
    using subsidy_values_bounds [OF assms] by (simp add: take_bit_int_eq_self)
  finally show ?thesis using assms by (simp add: SUBSIDY_BY_MONTH_TABLE_def length_subsidy_values)
qed

lemma SUBSIDY_BY_MONTH_TABLE_antimono:
  assumes "i \<le> j" and "j < 1902"
  shows "unat (SUBSIDY_BY_MONTH_TABLE ! j) \<le> unat (SUBSIDY_BY_MONTH_TABLE ! i)"
  using descending_mono [OF descending_subsidy_values assms(1)] assms
  by (simp add: unat_SUBSIDY_BY_MONTH_TABLE length_subsidy_values nat_mono)

end
