(* ===== verification/Coinbase.thy ===== *)
theory Coinbase
  imports Params Ghostdag_Data Subsidy_Table
begin

text \<open>
  The coinbase manager: src/consensus/src/processes/coinbase.rs with the data of
  src/consensus/core/src/coinbase.rs and errors/coinbase.rs. Covers the emission schedule, the coinbase
  payload codec and the coinbase transaction a block must carry.
\<close>

section \<open>Data\<close>

record miner_data =
  md_script_public_key :: script_public_key
  md_extra_data :: bytes

record coinbase_data =
  cd_blue_score :: u64
  cd_subsidy :: u64
  cd_miner_data :: miner_data

record block_reward_data =
  rd_subsidy :: u64
  rd_total_fees :: u64
  rd_script_public_key :: script_public_key

record coinbase_template =
  ct_tx :: transaction
  ct_has_red_reward :: bool

datatype coinbase_error =
    PayloadLenBelowMin nat nat
  | PayloadLenAboveMax nat nat
  | PayloadScriptPublicKeyLenAboveMax nat u8
  | PayloadCantContainScriptPublicKey nat nat

type_synonym 'a coinbase_result = "(coinbase_error, 'a) outcome"

definition LENGTH_OF_BLUE_SCORE :: nat where "LENGTH_OF_BLUE_SCORE = 8"
definition LENGTH_OF_SUBSIDY :: nat where "LENGTH_OF_SUBSIDY = 8"
definition LENGTH_OF_SCRIPT_PUB_KEY_VERSION :: nat where "LENGTH_OF_SCRIPT_PUB_KEY_VERSION = 2"
definition LENGTH_OF_SCRIPT_PUB_KEY_LENGTH :: nat where "LENGTH_OF_SCRIPT_PUB_KEY_LENGTH = 1"

definition MIN_PAYLOAD_LENGTH :: nat where
  "MIN_PAYLOAD_LENGTH = LENGTH_OF_BLUE_SCORE + LENGTH_OF_SUBSIDY + LENGTH_OF_SCRIPT_PUB_KEY_VERSION
     + LENGTH_OF_SCRIPT_PUB_KEY_LENGTH"

definition SECONDS_PER_MONTH :: u64 where "SECONDS_PER_MONTH = 2629800"

record coinbase_manager =
  cm_script_public_key_max_len :: u8
  cm_max_coinbase_payload_len :: nat
  cm_deflationary_phase_daa_score :: u64
  cm_pre_deflationary_phase_base_subsidy :: u64
  cm_bps_history :: "u64 forked_param"
  cm_table_before :: "u64 list"
  cm_table_after :: "u64 list"
  cm_crescendo_activation_daa_score :: u64

definition coinbase_manager_new ::
  "u8 \<Rightarrow> nat \<Rightarrow> u64 \<Rightarrow> u64 \<Rightarrow> u64 forked_param \<Rightarrow> ('e, coinbase_manager) outcome" where
  "coinbase_manager_new spk_max_len max_payload_len deflationary pre_subsidy bps_hist =
     obind (omap (\<lambda>x. div_ceil x (fp_before bps_hist)) SUBSIDY_BY_MONTH_TABLE) (\<lambda>before.
     obind (omap (\<lambda>x. div_ceil x (fp_after bps_hist)) SUBSIDY_BY_MONTH_TABLE) (\<lambda>after.
     Ok \<lparr>cm_script_public_key_max_len = spk_max_len, cm_max_coinbase_payload_len = max_payload_len,
         cm_deflationary_phase_daa_score = deflationary, cm_pre_deflationary_phase_base_subsidy = pre_subsidy,
         cm_bps_history = bps_hist, cm_table_before = before, cm_table_after = after,
         cm_crescendo_activation_daa_score = daa_score_of (fp_activation bps_hist)\<rparr>))"

section \<open>The emission schedule\<close>

definition subsidy_month :: "coinbase_manager \<Rightarrow> u64 \<Rightarrow> ('e, u64) outcome" where
  "subsidy_month m daa =
     obind
      (if cm_crescendo_activation_daa_score m < cm_deflationary_phase_daa_score m
       then obind (psub daa (cm_deflationary_phase_daa_score m)) (\<lambda>d. pdiv d (fp_after (cm_bps_history m)))
       else if daa < cm_crescendo_activation_daa_score m
       then obind (psub daa (cm_deflationary_phase_daa_score m)) (\<lambda>d. pdiv d (fp_before (cm_bps_history m)))
       else obind (psub (cm_crescendo_activation_daa_score m) (cm_deflationary_phase_daa_score m)) (\<lambda>d1.
            obind (pdiv d1 (fp_before (cm_bps_history m))) (\<lambda>s1.
            obind (psub daa (cm_crescendo_activation_daa_score m)) (\<lambda>d2.
            obind (pdiv d2 (fp_after (cm_bps_history m))) (\<lambda>s2. padd s1 s2)))))
      (\<lambda>seconds. pdiv seconds SECONDS_PER_MONTH)"

definition calc_block_subsidy :: "coinbase_manager \<Rightarrow> u64 \<Rightarrow> ('e, u64) outcome" where
  "calc_block_subsidy m daa =
     (if daa < cm_deflationary_phase_daa_score m then Ok (cm_pre_deflationary_phase_base_subsidy m)
      else obind (subsidy_month m daa) (\<lambda>month.
        let table = (if is_active (fp_activation (cm_bps_history m)) daa then cm_table_after m else cm_table_before m);
            i = min (unat month) (length table - 1)
        in if i < length table then Ok (table ! i) else Panic))"

section \<open>The payload codec\<close>

text \<open>\<open>PayloadParser::take\<close>: \<open>split_at\<close> panics past the end.\<close>

definition payload_take :: "nat \<Rightarrow> bytes \<Rightarrow> ('e, bytes \<times> bytes) outcome" where
  "payload_take n remaining = (if n \<le> length remaining then Ok (take n remaining, drop n remaining) else Panic)"

definition serialize_coinbase_payload :: "coinbase_manager \<Rightarrow> coinbase_data \<Rightarrow> bytes coinbase_result" where
  "serialize_coinbase_payload m data =
     (let spk = md_script_public_key (cd_miner_data data); script_pub_key_len = length (spk_script spk) in
      if unat (cm_script_public_key_max_len m) < script_pub_key_len
      then Err (PayloadScriptPublicKeyLenAboveMax script_pub_key_len (cm_script_public_key_max_len m))
      else Ok (to_le_bytes 8 (cd_blue_score data) @ to_le_bytes 8 (cd_subsidy data)
               @ to_le_bytes 2 (spk_version spk) @ to_le_bytes 1 (of_nat script_pub_key_len :: u8)
               @ spk_script spk @ md_extra_data (cd_miner_data data)))"

definition modify_coinbase_payload :: "coinbase_manager \<Rightarrow> bytes \<Rightarrow> miner_data \<Rightarrow> bytes coinbase_result" where
  "modify_coinbase_payload m payload miner =
     (let spk = md_script_public_key miner; script_pub_key_len = length (spk_script spk) in
      if unat (cm_script_public_key_max_len m) < script_pub_key_len
      then Err (PayloadScriptPublicKeyLenAboveMax script_pub_key_len (cm_script_public_key_max_len m))
      else Ok (take (LENGTH_OF_BLUE_SCORE + LENGTH_OF_SUBSIDY) payload
               @ to_le_bytes 2 (spk_version spk) @ to_le_bytes 1 (of_nat script_pub_key_len :: u8)
               @ spk_script spk @ md_extra_data miner))"

definition deserialize_coinbase_payload :: "coinbase_manager \<Rightarrow> bytes \<Rightarrow> coinbase_data coinbase_result" where
  "deserialize_coinbase_payload m payload =
     (if length payload < MIN_PAYLOAD_LENGTH then Err (PayloadLenBelowMin (length payload) MIN_PAYLOAD_LENGTH)
      else if cm_max_coinbase_payload_len m < length payload
      then Err (PayloadLenAboveMax (length payload) (cm_max_coinbase_payload_len m))
      else
        obind (payload_take LENGTH_OF_BLUE_SCORE payload) (\<lambda>(b1, r1).
        obind (payload_take LENGTH_OF_SUBSIDY r1) (\<lambda>(b2, r2).
        obind (payload_take LENGTH_OF_SCRIPT_PUB_KEY_VERSION r2) (\<lambda>(b3, r3).
        obind (payload_take LENGTH_OF_SCRIPT_PUB_KEY_LENGTH r3) (\<lambda>(b4, r4).
        let script_pub_key_len = (from_le_bytes b4 :: u8) in
        if cm_script_public_key_max_len m < script_pub_key_len
        then Err (PayloadScriptPublicKeyLenAboveMax (unat script_pub_key_len) (cm_script_public_key_max_len m))
        else if length r4 < unat script_pub_key_len
        then Err (PayloadCantContainScriptPublicKey (length payload) (MIN_PAYLOAD_LENGTH + unat script_pub_key_len))
        else obind (payload_take (unat script_pub_key_len) r4) (\<lambda>(script, extra).
          Ok \<lparr>cd_blue_score = from_le_bytes b1, cd_subsidy = from_le_bytes b2,
              cd_miner_data = \<lparr>md_script_public_key = \<lparr>spk_version = from_le_bytes b3, spk_script = script\<rparr>,
                               md_extra_data = extra\<rparr>\<rparr>))))))"

section \<open>The expected coinbase transaction\<close>

definition blue_output_step ::
  "(hash, block_reward_data) hmap \<Rightarrow> hash \<Rightarrow> transaction_output list \<Rightarrow> ('e, transaction_output list) outcome" where
  "blue_output_step rewards blue outs =
     obind (unwrap (hm_get rewards blue)) (\<lambda>rd.
     obind (padd (rd_subsidy rd) (rd_total_fees rd)) (\<lambda>reward.
     Ok (if 0 < reward then outs @ [\<lparr>out_value = reward, out_spk = rd_script_public_key rd\<rparr>] else outs)))"

definition blue_outputs ::
  "(hash, block_reward_data) hmap \<Rightarrow> hash set \<Rightarrow> hash list \<Rightarrow> ('e, transaction_output list) outcome" where
  "blue_outputs rewards non_daa blues = ofold (blue_output_step rewards) (filter (\<lambda>h. h \<notin> non_daa) blues) []"

definition red_reward_step ::
  "(hash, block_reward_data) hmap \<Rightarrow> hash set \<Rightarrow> hash \<Rightarrow> u64 \<Rightarrow> ('e, u64) outcome" where
  "red_reward_step rewards non_daa red red_reward =
     obind (unwrap (hm_get rewards red)) (\<lambda>rd.
     if red \<in> non_daa then padd red_reward (rd_total_fees rd)
     else obind (padd (rd_subsidy rd) (rd_total_fees rd)) (padd red_reward))"

definition red_reward_sum ::
  "(hash, block_reward_data) hmap \<Rightarrow> hash set \<Rightarrow> hash list \<Rightarrow> ('e, u64) outcome" where
  "red_reward_sum rewards non_daa reds = ofold (red_reward_step rewards non_daa) reds 0"

definition expected_coinbase_transaction ::
  "(transaction \<Rightarrow> hash) \<Rightarrow> coinbase_manager \<Rightarrow> u64 \<Rightarrow> miner_data \<Rightarrow> ghostdag_data
     \<Rightarrow> (hash, block_reward_data) hmap \<Rightarrow> hash set \<Rightarrow> coinbase_template coinbase_result" where
  "expected_coinbase_transaction hash_tx m daa miner gd rewards non_daa =
     obind (blue_outputs rewards non_daa (mergeset_blues gd)) (\<lambda>outputs.
     obind (red_reward_sum rewards non_daa (mergeset_reds gd)) (\<lambda>red_reward.
     let outputs = (if 0 < red_reward
                    then outputs @ [\<lparr>out_value = red_reward, out_spk = md_script_public_key miner\<rparr>] else outputs) in
     obind (calc_block_subsidy m daa) (\<lambda>subsidy.
     obind (serialize_coinbase_payload m \<lparr>cd_blue_score = blue_score gd, cd_subsidy = subsidy, cd_miner_data = miner\<rparr>)
       (\<lambda>payload.
     Ok \<lparr>ct_tx = transaction_new hash_tx TX_VERSION [] outputs 0 SUBNETWORK_ID_COINBASE 0 payload,
         ct_has_red_reward = (0 < red_reward)\<rparr>))))"

section \<open>The payload codec is a bijection\<close>

lemmas payload_lengths = MIN_PAYLOAD_LENGTH_def LENGTH_OF_BLUE_SCORE_def LENGTH_OF_SUBSIDY_def
  LENGTH_OF_SCRIPT_PUB_KEY_VERSION_def LENGTH_OF_SCRIPT_PUB_KEY_LENGTH_def

lemma payload_take_eq_Ok: "payload_take n r = Ok (b, r') \<longleftrightarrow> r = b @ r' \<and> length b = n"
  by (auto simp: payload_take_def min_def)

lemma unat_of_nat_u8: "n \<le> unat (k :: u8) \<Longrightarrow> unat (of_nat n :: u8) = n"
  using unat_less_exp [of k] by (simp add: unat_of_nat take_bit_nat_eq_self)

lemma payload_take_append: "length b = n \<Longrightarrow> payload_take n (b @ r) = Ok (b, r)"
  by (simp add: payload_take_eq_Ok)

lemma serialize_coinbase_payload_eq_Ok:
  "serialize_coinbase_payload m d = Ok p \<longleftrightarrow>
    (let spk = md_script_public_key (cd_miner_data d) in
     length (spk_script spk) \<le> unat (cm_script_public_key_max_len m) \<and>
     p = to_le_bytes 8 (cd_blue_score d) @ to_le_bytes 8 (cd_subsidy d) @ to_le_bytes 2 (spk_version spk)
         @ to_le_bytes 1 (of_nat (length (spk_script spk)) :: u8) @ spk_script spk @ md_extra_data (cd_miner_data d))"
  by (auto simp: serialize_coinbase_payload_def Let_def)

lemma deserialize_serialize:
  assumes "serialize_coinbase_payload m d = Ok p" and "length p \<le> cm_max_coinbase_payload_len m"
  shows "deserialize_coinbase_payload m p = Ok d"
proof -
  obtain bs sub v script extra where d: "d = \<lparr>cd_blue_score = bs, cd_subsidy = sub,
    cd_miner_data = \<lparr>md_script_public_key = \<lparr>spk_version = v, spk_script = script\<rparr>, md_extra_data = extra\<rparr>\<rparr>"
    by (metis (full_types) coinbase_data.surjective miner_data.surjective script_public_key.surjective unit.exhaust)
  define lb where "lb = to_le_bytes 1 (of_nat (length script) :: u8)"
  have l: "length script \<le> unat (cm_script_public_key_max_len m)"
    and p: "p = to_le_bytes 8 bs @ to_le_bytes 8 sub @ to_le_bytes 2 v @ lb @ script @ extra"
    using assms(1) by (simp_all add: serialize_coinbase_payload_eq_Ok d lb_def)
  have lb: "length lb = 1" "unat (from_le_bytes lb :: u8) = length script"
    unfolding lb_def by (simp_all add: unat_of_nat_u8 [OF l] del: One_nat_def)
  then show ?thesis using assms(2) l
    by (simp add: deserialize_coinbase_payload_def p d payload_lengths payload_take_append word_less_nat_alt)
qed

lemma single_byte: "length bs = Suc 0 \<Longrightarrow> bs = [from_le_bytes bs]" for bs :: bytes
  using to_from_le_bytes [of bs 1, where 'a = 8] by simp

lemma serialize_deserialize:
  assumes "deserialize_coinbase_payload m p = Ok d"
  shows "serialize_coinbase_payload m d = Ok p \<and> length p \<le> cm_max_coinbase_payload_len m"
  using assms
  by (auto simp: deserialize_coinbase_payload_def obind_eq_Ok payload_take_eq_Ok payload_lengths Let_def
      serialize_coinbase_payload_eq_Ok word_le_nat_alt word_less_nat_alt split: if_splits intro: single_byte)

section \<open>The schedule\<close>

text \<open>The tables of a constructed manager, and the seconds since the deflationary phase started.\<close>

definition ceil_div :: "nat \<Rightarrow> nat \<Rightarrow> nat" where
  "ceil_div a b = (a + b - 1) div b"

lemma ceil_div_mono: "a \<le> a' \<Longrightarrow> ceil_div a b \<le> ceil_div a' b"
  by (simp add: ceil_div_def div_le_mono diff_le_mono)

lemma ceil_div_antimono:
  assumes "0 < b" and "b \<le> b'"
  shows "ceil_div a b' \<le> ceil_div a b"
proof (cases "a = 0")
  case True
  then show ?thesis using assms by (simp add: ceil_div_def)
next
  case False
  have eq: "ceil_div a c = (a - 1) div c + 1" if "0 < c" for c
  proof -
    have "a + c - 1 = (a - 1) + c" using False by simp
    then have "ceil_div a c = ((a - 1) + c) div c" unfolding ceil_div_def by (rule arg_cong)
    also have "\<dots> = (a - 1) div c + 1" using that by (intro div_add_self2) simp
    finally show ?thesis .
  qed
  show ?thesis using assms by (simp add: eq div_le_mono2)
qed

lemma coinbase_manager_new_tables:
  assumes "coinbase_manager_new l n D pre h = Ok m"
  shows "0 < unat (fp_before h)" "0 < unat (fp_after h)" "length (cm_table_before m) = 1902"
    "length (cm_table_after m) = 1902" "cm_deflationary_phase_daa_score m = D" "cm_bps_history m = h"
    "cm_pre_deflationary_phase_base_subsidy m = pre"
    "cm_crescendo_activation_daa_score m = daa_score_of (fp_activation h)"
    "i < 1902 \<Longrightarrow> unat (cm_table_before m ! i) = ceil_div (unat (SUBSIDY_BY_MONTH_TABLE ! i)) (unat (fp_before h))"
    "i < 1902 \<Longrightarrow> unat (cm_table_after m ! i) = ceil_div (unat (SUBSIDY_BY_MONTH_TABLE ! i)) (unat (fp_after h))"
proof -
  from assms obtain bt at where t: "omap (\<lambda>x. div_ceil x (fp_before h)) SUBSIDY_BY_MONTH_TABLE = (Ok bt :: ('a, u64 list) outcome)"
    "omap (\<lambda>x. div_ceil x (fp_after h)) SUBSIDY_BY_MONTH_TABLE = (Ok at :: ('a, u64 list) outcome)"
    and m: "m = \<lparr>cm_script_public_key_max_len = l, cm_max_coinbase_payload_len = n,
         cm_deflationary_phase_daa_score = D, cm_pre_deflationary_phase_base_subsidy = pre,
         cm_bps_history = h, cm_table_before = bt, cm_table_after = at,
         cm_crescendo_activation_daa_score = daa_score_of (fp_activation h)\<rparr>"
    by (auto simp: coinbase_manager_new_def obind_eq_Ok)
  from t have len: "length bt = 1902" "length at = 1902"
    and nth: "\<And>i. i < 1902 \<Longrightarrow> div_ceil (SUBSIDY_BY_MONTH_TABLE ! i) (fp_before h) = (Ok (bt ! i) :: ('a, u64) outcome)"
      "\<And>i. i < 1902 \<Longrightarrow> div_ceil (SUBSIDY_BY_MONTH_TABLE ! i) (fp_after h) = (Ok (at ! i) :: ('a, u64) outcome)"
    by (auto simp: omap_eq_Ok list_all2_conv_all_nth)
  show "0 < unat (fp_before h)" "0 < unat (fp_after h)" using nth [of 0] by (simp_all only: div_ceil_eq_Ok) auto
  show "length (cm_table_before m) = 1902" "length (cm_table_after m) = 1902" "cm_deflationary_phase_daa_score m = D"
    "cm_bps_history m = h" "cm_pre_deflationary_phase_base_subsidy m = pre"
    "cm_crescendo_activation_daa_score m = daa_score_of (fp_activation h)" by (simp_all add: m len)
  show "i < 1902 \<Longrightarrow> unat (cm_table_before m ! i) = ceil_div (unat (SUBSIDY_BY_MONTH_TABLE ! i)) (unat (fp_before h))"
    "i < 1902 \<Longrightarrow> unat (cm_table_after m ! i) = ceil_div (unat (SUBSIDY_BY_MONTH_TABLE ! i)) (unat (fp_after h))"
    using nth [of i] by (simp_all add: m ceil_div_def div_ceil_eq_Ok)
qed

definition seconds_since :: "nat \<Rightarrow> nat \<Rightarrow> nat \<Rightarrow> nat \<Rightarrow> nat \<Rightarrow> nat" where
  "seconds_since c D b a d =
     (if c < D then (d - D) div a else if d < c then (d - D) div b else (c - D) div b + (d - c) div a)"

lemma seconds_since_mono:
  assumes "d \<le> d'"
  shows "seconds_since c D b a d \<le> seconds_since c D b a d'"
proof -
  have "d < c \<Longrightarrow> (d - D) div b \<le> (c - D) div b" by (simp add: div_le_mono)
  then show ?thesis using assms by (auto simp: seconds_since_def div_le_mono intro: trans_le_add1)
qed

lemma subsidy_month_returns:
  assumes "0 < unat (fp_before (cm_bps_history m))" and "0 < unat (fp_after (cm_bps_history m))"
    and "unat (cm_deflationary_phase_daa_score m) \<le> unat daa"
  shows "returns (\<lambda>mo. unat mo = seconds_since (unat (cm_crescendo_activation_daa_score m))
      (unat (cm_deflationary_phase_daa_score m)) (unat (fp_before (cm_bps_history m)))
      (unat (fp_after (cm_bps_history m))) (unat daa) div 2629800) (subsidy_month m daa)"
proof -
  have "(c - D) div b + (d - c) div a < 2 ^ 64" if "d < 2 ^ 64" "D \<le> c" "c \<le> d" for c D b a d :: nat
    using that div_le_dividend [of "c - D" b] div_le_dividend [of "d - c" a] by linarith
  then show ?thesis using assms unat_less_exp [of daa]
    by (auto simp: subsidy_month_def returns_simps seconds_since_def word_less_nat_alt SECONDS_PER_MONTH_def)
qed


text \<open>The subsidy of a block in the deflationary phase is the table entry of its month, rounded up per block.\<close>

lemma calc_block_subsidy_deflationary:
  assumes "coinbase_manager_new l n D pre h = (Ok m :: ('e, coinbase_manager) outcome)" and "unat D \<le> unat daa"
  shows "returns (\<lambda>s. unat s = ceil_div (unat (SUBSIDY_BY_MONTH_TABLE !
      min (seconds_since (unat (daa_score_of (fp_activation h))) (unat D) (unat (fp_before h)) (unat (fp_after h))
        (unat daa) div 2629800) 1901))
      (unat (if is_active (fp_activation h) daa then fp_after h else fp_before h)))
    (calc_block_subsidy m daa :: ('f, u64) outcome)"
proof -
  note t = coinbase_manager_new_tables [OF assms(1)]
  have "returns (\<lambda>mo. unat mo = seconds_since (unat (daa_score_of (fp_activation h))) (unat D) (unat (fp_before h))
      (unat (fp_after h)) (unat daa) div 2629800) (subsidy_month m daa :: ('f, u64) outcome)"
    using subsidy_month_returns [of m daa] assms(2) by (simp add: t)
  then show ?thesis
    unfolding calc_block_subsidy_def using assms(2)
    by (auto simp: t returns_obind word_less_nat_alt Let_def min_def elim!: returns_mono)
qed

lemma omap_succeeds: "\<forall>x\<in>set xs. \<exists>y. f x = Ok y \<Longrightarrow> \<exists>ys. omap f xs = Ok ys"
  by (induction xs) (auto simp: obind_eq_Ok)

lemma div_ceil_succeeds: "unat b \<noteq> 0 \<Longrightarrow> \<exists>c. div_ceil a b = (Ok c :: ('e, 'a word) outcome)" for a b :: "'a::len word"
  using div_ceil_neq_Panic [of b a, where 'b = 'e]
  by (cases "div_ceil a b :: ('e, 'a word) outcome") (auto simp: div_ceil_def split: if_splits)

lemma coinbase_manager_new_succeeds:
  assumes "0 < unat (fp_before h)" and "0 < unat (fp_after h)"
  shows "\<exists>m. coinbase_manager_new l n D pre h = (Ok m :: ('e, coinbase_manager) outcome)"
proof -
  have "\<exists>t. omap (\<lambda>x. div_ceil x b) SUBSIDY_BY_MONTH_TABLE = (Ok t :: ('e, u64 list) outcome)" if "0 < unat b" for b
    using that by (intro omap_succeeds ballI div_ceil_succeeds) simp
  from this [OF assms(1)] this [OF assms(2)] show ?thesis by (auto simp: coinbase_manager_new_def)
qed

text \<open>The manager of the main network, built from its parameters as \<open>ConsensusServices\<close> does.\<close>

definition MAINNET_COINBASE_MANAGER :: "('e, coinbase_manager) outcome" where
  "MAINNET_COINBASE_MANAGER = obind MAINNET_PARAMS (\<lambda>p. obind (bps_history p) (\<lambda>h.
     coinbase_manager_new (p_coinbase_payload_script_public_key_max_len p) (p_max_coinbase_payload_len p)
       (p_deflationary_phase_daa_score p) (p_pre_deflationary_phase_base_subsidy p) h))"

definition mainnet_history :: "u64 forked_param" where
  "mainnet_history = \<lparr>fp_pre = 10, fp_post = 10, fp_activation = fork_always\<rparr>"

lemma mainnet_history_simps [simp]:
  "fp_before mainnet_history = 10" "fp_after mainnet_history = 10"
  "daa_score_of (fp_activation mainnet_history) = 0" "is_active (fp_activation mainnet_history) d"
  by (simp_all add: mainnet_history_def fp_before_def fp_after_def fork_always_def is_active_def)

lemma MAINNET_COINBASE_MANAGER_eq:
  "MAINNET_COINBASE_MANAGER = coinbase_manager_new 150 204 155196000 37002785 mainnet_history"
  by (simp add: MAINNET_COINBASE_MANAGER_def MAINNET_PARAMS_eq bps_history_def plain_eval mainnet_history_def)

text \<open>The subsidy of the block at a given DAA score of the main network, in sompi.\<close>

definition mainnet_subsidy :: "nat \<Rightarrow> nat" where
  "mainnet_subsidy d =
     (case obind MAINNET_COINBASE_MANAGER (\<lambda>m. calc_block_subsidy m (of_nat d)) :: (unit, u64) outcome of
        Ok s \<Rightarrow> unat s | _ \<Rightarrow> 0)"

lemma mainnet_subsidy_eq:
  assumes "d < 2 ^ 64"
  shows "mainnet_subsidy d = (if d < 155196000 then 37002785
    else ceil_div (nat (subsidy_values ! min ((d - 155196000) div 26298000) 1901)) 10)"
proof -
  obtain m where m: "coinbase_manager_new 150 204 155196000 37002785 mainnet_history = (Ok m :: (unit, _) outcome)"
    using coinbase_manager_new_succeeds [of mainnet_history 150 204 155196000 37002785, where 'e = unit] by auto
  have d: "unat (of_nat d :: u64) = d" using assms by (simp add: unat_of_nat take_bit_nat_eq_self)
  have "returns (\<lambda>s. unat s = (if d < 155196000 then 37002785
    else ceil_div (nat (subsidy_values ! min ((d - 155196000) div 26298000) 1901)) 10))
    (calc_block_subsidy m (of_nat d) :: (unit, u64) outcome)"
  proof (cases "d < 155196000")
    case True
    then show ?thesis
      by (simp add: calc_block_subsidy_def coinbase_manager_new_tables [OF m] word_less_nat_alt d)
  next
    case False
    then show ?thesis
      using calc_block_subsidy_deflationary [OF m, of "of_nat d"]
      by (simp add: d seconds_since_def unat_SUBSIDY_BY_MONTH_TABLE div_mult2_eq [symmetric])
  qed
  then show ?thesis by (auto simp: mainnet_subsidy_def MAINNET_COINBASE_MANAGER_eq m returns_def)
qed

section \<open>Total emission\<close>

lemma sum_split_at: "(\<Sum>d<a + b. f d) = (\<Sum>d<a. f d) + (\<Sum>x<b. f (a + x))" for f :: "nat \<Rightarrow> nat" and a b :: nat
  by (induction b) simp_all

lemma sum_by_blocks:
  fixes g :: "nat \<Rightarrow> nat"
  assumes "0 < k"
  shows "(\<Sum>x<n * k. g (x div k)) = k * (\<Sum>i<n. g i)"
proof -
  have "(\<Sum>x<n * k. g (x div k)) = (\<Sum>m<n. \<Sum>x\<in>{m * k..<m * k + k}. g (x div k))"
    by (rule sum.nat_group [symmetric])
  also have "\<dots> = (\<Sum>m<n. \<Sum>x\<in>{m * k..<m * k + k}. g m)"
    using assms by (intro sum.cong refl arg_cong [of _ _ g]) (auto intro!: div_nat_eqI simp: algebra_simps)
  also have "\<dots> = k * (\<Sum>i<n. g i)" by (simp add: sum_distrib_left)
  finally show ?thesis .
qed

lemma sum_subsidy_per_block: "(\<Sum>i<1902. ceil_div (nat (subsidy_values ! i)) 10) = 580170990"
proof -
  have "int (ceil_div (nat (subsidy_values ! i)) 10) = (subsidy_values ! i + 9) div 10" if "i < 1902" for i
    using subsidy_values_bounds [OF that] by (simp add: ceil_div_def zdiv_int)
  then have "int (\<Sum>i<1902. ceil_div (nat (subsidy_values ! i)) 10) = (\<Sum>i<1902. (subsidy_values ! i + 9) div 10)"
    by simp
  also have "\<dots> = sum_list (map (\<lambda>x. (x + 9) div 10) subsidy_values)"
    by (simp add: sum_list_sum_nth length_subsidy_values atLeast0LessThan)
  finally have "int (\<Sum>i<1902. ceil_div (nat (subsidy_values ! i)) 10) = int 580170990"
    by (simp only: sum_subsidy_values_10 of_nat_numeral)
  then show ?thesis by (rule inj_onD [OF inj_of_nat]) simp_all
qed

lemma mainnet_emission_total: "(\<Sum>d<155196000 + 1902 * 26298000. mainnet_subsidy d) = 21000020915880000"
proof -
  let ?g = "\<lambda>i. ceil_div (nat (subsidy_values ! min i 1901)) 10"
  have "(\<Sum>d<155196000 + 1902 * 26298000. mainnet_subsidy d) =
    (\<Sum>d<155196000. mainnet_subsidy d) + (\<Sum>x<1902 * 26298000. mainnet_subsidy (155196000 + x))"
    by (rule sum_split_at)
  also have "(\<Sum>d<155196000. mainnet_subsidy d) = (\<Sum>d\<in>{..<155196000 :: nat}. 37002785)"
    by (rule sum.cong) (simp_all add: mainnet_subsidy_eq)
  also have "(\<Sum>x<1902 * 26298000. mainnet_subsidy (155196000 + x)) = (\<Sum>x<1902 * 26298000. ?g (x div 26298000))"
    by (rule sum.cong) (simp_all add: mainnet_subsidy_eq)
  also have "\<dots> = 26298000 * (\<Sum>i<1902. ?g i)" by (rule sum_by_blocks) simp
  also have "(\<Sum>i<1902. ?g i) = (\<Sum>i<1902. ceil_div (nat (subsidy_values ! i)) 10)"
    by (rule sum.cong) (simp_all add: min_def)
  finally show ?thesis by (simp add: sum_subsidy_per_block)
qed

lemma mainnet_subsidy_tail: "155196000 + 1901 * 26298000 \<le> d \<Longrightarrow> d < 2 ^ 64 \<Longrightarrow> mainnet_subsidy d = 0"
proof -
  assume d: "155196000 + 1901 * 26298000 \<le> d" "d < 2 ^ 64"
  then have "1901 * 26298000 \<le> d - 155196000" by simp
  from div_le_mono [OF this, of 26298000] have "min ((d - 155196000) div 26298000) 1901 = 1901" by simp
  then show ?thesis using d by (simp add: mainnet_subsidy_eq subsidy_values_last ceil_div_def)
qed

lemma mainnet_emission_bound:
  assumes "n \<le> 2 ^ 64"
  shows "(\<Sum>d<n. mainnet_subsidy d) \<le> 21000020915880000"
proof -
  let ?N = "155196000 + 1902 * 26298000 :: nat"
  have "(\<Sum>d<n. mainnet_subsidy d) \<le> (\<Sum>d<max n ?N. mainnet_subsidy d)" by (rule sum_mono2) auto
  also have "\<dots> = (\<Sum>d<?N. mainnet_subsidy d)"
    using assms by (intro sum.mono_neutral_right) (auto simp: mainnet_subsidy_tail)
  finally show ?thesis by (simp only: mainnet_emission_total)
qed

section \<open>Rewards\<close>

definition reward_of :: "(hash, block_reward_data) hmap \<Rightarrow> hash \<Rightarrow> nat" where
  "reward_of rewards h =
     (case hm_get rewards h of Some rd \<Rightarrow> unat (rd_subsidy rd) + unat (rd_total_fees rd) | None \<Rightarrow> 0)"

definition red_reward_of :: "(hash, block_reward_data) hmap \<Rightarrow> hash set \<Rightarrow> hash \<Rightarrow> nat" where
  "red_reward_of rewards non_daa h =
     (case hm_get rewards h of
        Some rd \<Rightarrow> (if h \<in> non_daa then 0 else unat (rd_subsidy rd)) + unat (rd_total_fees rd)
      | None \<Rightarrow> 0)"

definition payee_of :: "(hash, block_reward_data) hmap \<Rightarrow> hash \<Rightarrow> script_public_key" where
  "payee_of rewards h = rd_script_public_key (the (hm_get rewards h))"

definition payment :: "transaction_output \<Rightarrow> nat \<times> script_public_key" where
  "payment out = (unat (out_value out), out_spk out)"

lemma blue_output_step_returns:
  assumes "hm_get rewards h \<noteq> None" and "reward_of rewards h < 2 ^ 64"
  shows "returns (\<lambda>outs'. map payment outs' = map payment outs @
      (if 0 < reward_of rewards h then [(reward_of rewards h, payee_of rewards h)] else []))
    (blue_output_step rewards h outs)"
  using assms by (auto simp: blue_output_step_def returns_simps reward_of_def payee_of_def payment_def word_less_nat_alt)

lemma blue_outputs_fold:
  assumes "\<forall>h\<in>set hs. hm_get rewards h \<noteq> None \<and> reward_of rewards h < 2 ^ 64"
  shows "returns (\<lambda>outs. map payment outs =
      map (\<lambda>h. (reward_of rewards h, payee_of rewards h)) (filter (\<lambda>h. 0 < reward_of rewards h) hs))
    (ofold (blue_output_step rewards) hs [])"
proof (rule returns_ofold)
  show "returns (\<lambda>outs. map payment outs =
      map (\<lambda>h. (reward_of rewards h, payee_of rewards h)) (filter (\<lambda>h. 0 < reward_of rewards h) (ys @ [y])))
    (blue_output_step rewards y outs)"
    if "hs = ys @ y # zs" "map payment outs =
      map (\<lambda>h. (reward_of rewards h, payee_of rewards h)) (filter (\<lambda>h. 0 < reward_of rewards h) ys)" for ys y zs outs
    using that assms by (intro returns_mono [OF blue_output_step_returns]) auto
qed simp

lemma red_reward_step_returns:
  assumes "hm_get rewards h \<noteq> None" and "unat acc + red_reward_of rewards nd h < 2 ^ 64"
  shows "returns (\<lambda>acc'. unat acc' = unat acc + red_reward_of rewards nd h) (red_reward_step rewards nd h acc)"
  using assms by (auto simp: red_reward_step_def returns_simps red_reward_of_def)

lemma red_reward_fold:
  assumes "\<forall>h\<in>set hs. hm_get rewards h \<noteq> None" and "sum_list (map (red_reward_of rewards nd) hs) < 2 ^ 64"
  shows "returns (\<lambda>s. unat s = sum_list (map (red_reward_of rewards nd) hs)) (ofold (red_reward_step rewards nd) hs 0)"
proof (rule returns_ofold)
  show "returns (\<lambda>s. unat s = sum_list (map (red_reward_of rewards nd) (ys @ [y]))) (red_reward_step rewards nd y acc)"
    if "hs = ys @ y # zs" "unat acc = sum_list (map (red_reward_of rewards nd) ys)" for ys y zs acc
    using that assms by (intro returns_mono [OF red_reward_step_returns]) auto
qed simp

text \<open>The blues that are paid, and the total the transaction pays out.\<close>

definition paid_blues :: "(hash, block_reward_data) hmap \<Rightarrow> hash set \<Rightarrow> ghostdag_data \<Rightarrow> hash list" where
  "paid_blues rewards nd gd = filter (\<lambda>h. h \<notin> nd \<and> 0 < reward_of rewards h) (mergeset_blues gd)"

definition red_total :: "(hash, block_reward_data) hmap \<Rightarrow> hash set \<Rightarrow> ghostdag_data \<Rightarrow> nat" where
  "red_total rewards nd gd = sum_list (map (red_reward_of rewards nd) (mergeset_reds gd))"

definition rewards_bounded :: "(hash, block_reward_data) hmap \<Rightarrow> hash set \<Rightarrow> ghostdag_data \<Rightarrow> bool" where
  "rewards_bounded rewards nd gd \<longleftrightarrow>
     (\<forall>h\<in>set (mergeset_blues gd) \<union> set (mergeset_reds gd). hm_get rewards h \<noteq> None) \<and>
     (\<forall>h\<in>set (mergeset_blues gd). reward_of rewards h < 2 ^ 64) \<and> red_total rewards nd gd < 2 ^ 64"

lemma blue_outputs_returns:
  assumes "rewards_bounded rewards nd gd"
  shows "returns (\<lambda>outs. map payment outs = map (\<lambda>h. (reward_of rewards h, payee_of rewards h)) (paid_blues rewards nd gd))
    (blue_outputs rewards nd (mergeset_blues gd) :: ('b, _) outcome)"
  using assms blue_outputs_fold [of "filter (\<lambda>h. h \<notin> nd) (mergeset_blues gd)" rewards]
  by (simp add: blue_outputs_def paid_blues_def rewards_bounded_def filter_filter conj_commute)

lemma red_reward_returns:
  assumes "rewards_bounded rewards nd gd"
  shows "returns (\<lambda>s. unat s = red_total rewards nd gd) (red_reward_sum rewards nd (mergeset_reds gd) :: ('b, _) outcome)"
  using assms red_reward_fold [of "mergeset_reds gd" rewards nd]
  by (simp add: red_reward_sum_def red_total_def rewards_bounded_def)

lemma calc_block_subsidy_total:
  assumes "coinbase_manager_new l n D pre h = (Ok m :: ('e, coinbase_manager) outcome)"
  shows "\<exists>s. calc_block_subsidy m daa = (Ok s :: ('f, u64) outcome)"
proof (cases "daa < D")
  case True
  then show ?thesis by (simp add: calc_block_subsidy_def coinbase_manager_new_tables [OF assms])
next
  case False
  then show ?thesis
    using calc_block_subsidy_deflationary [OF assms, of daa, where 'f = 'f]
    by (auto simp: returns_def word_less_nat_alt)
qed

lemma sum_payments:
  assumes "map payment outs = map (\<lambda>h. (reward_of rewards h, payee_of rewards h)) (paid_blues rewards nd gd) @ rest"
  shows "sum_list (map (\<lambda>out. unat (out_value out)) outs) =
    sum_list (map (reward_of rewards) (filter (\<lambda>h. h \<notin> nd) (mergeset_blues gd))) + sum_list (map fst rest)"
proof -
  have "map (\<lambda>out. unat (out_value out)) outs = map fst (map payment outs)" by (simp add: payment_def)
  also have "\<dots> = map (reward_of rewards) (paid_blues rewards nd gd) @ map fst rest" by (simp add: assms comp_def)
  also have "paid_blues rewards nd gd = filter (\<lambda>h. 0 < reward_of rewards h) (filter (\<lambda>h. h \<notin> nd) (mergeset_blues gd))"
    by (simp add: paid_blues_def conj_commute)
  finally have "sum_list (map (\<lambda>out. unat (out_value out)) outs) = sum_list (map (reward_of rewards)
      (filter (\<lambda>h. 0 < reward_of rewards h) (filter (\<lambda>h. h \<notin> nd) (mergeset_blues gd)))) + sum_list (map fst rest)"
    by (simp only: sum_list_append)
  then show ?thesis by (subst (asm) sum_list_map_filter) simp_all
qed

section \<open>Properties\<close>

text \<open>
  C5: The coinbase payload codec is a bijection between the payloads of legal length and the coinbase data
  whose script fits: a payload parses to some data exactly when serializing that data gives the payload
  back and the payload is not too long. Parsing never panics.
\<close>

theorem coinbase_payload_codec:
  "(deserialize_coinbase_payload m p = Ok d \<longleftrightarrow>
      serialize_coinbase_payload m d = Ok p \<and> length p \<le> cm_max_coinbase_payload_len m)
    \<and> deserialize_coinbase_payload m p \<noteq> Panic"
proof -
  have "deserialize_coinbase_payload m p \<noteq> Panic"
    by (auto simp: deserialize_coinbase_payload_def payload_take_def payload_lengths Let_def)
  then show ?thesis using serialize_deserialize deserialize_serialize by blast
qed

text \<open>\<open>modify_coinbase_payload\<close> rewrites only the miner data: applied to the payload of some coinbase data
  it gives the payload (or the error) of the same blue score and subsidy with the new miner data.
\<close>

theorem modify_coinbase_payload_serialize:
  assumes "serialize_coinbase_payload m d = Ok p"
  shows "modify_coinbase_payload m p miner = serialize_coinbase_payload m (d\<lparr>cd_miner_data := miner\<rparr>)"
  using assms
  by (auto simp: serialize_coinbase_payload_def modify_coinbase_payload_def Let_def payload_lengths split: if_splits)

definition ex_manager :: coinbase_manager where
  "ex_manager = \<lparr>cm_script_public_key_max_len = 150, cm_max_coinbase_payload_len = 204,
     cm_deflationary_phase_daa_score = 0, cm_pre_deflationary_phase_base_subsidy = 0,
     cm_bps_history = mainnet_history, cm_table_before = [], cm_table_after = [],
     cm_crescendo_activation_daa_score = 0\<rparr>"

definition ex_miner :: miner_data where
  "ex_miner = \<lparr>md_script_public_key = \<lparr>spk_version = 0, spk_script = [1, 2, 3]\<rparr>, md_extra_data = [9]\<rparr>"

theorem modify_coinbase_payload_serialize_witness:
  "\<exists>p. serialize_coinbase_payload ex_manager \<lparr>cd_blue_score = 5, cd_subsidy = 7, cd_miner_data = ex_miner\<rparr> = Ok p \<and>
    modify_coinbase_payload ex_manager p (ex_miner\<lparr>md_extra_data := []\<rparr>) =
    serialize_coinbase_payload ex_manager
      (\<lparr>cd_blue_score = 5, cd_subsidy = 7, cd_miner_data = ex_miner\<rparr>\<lparr>cd_miner_data := ex_miner\<lparr>md_extra_data := []\<rparr>\<rparr>)"
proof -
  obtain p where p: "serialize_coinbase_payload ex_manager \<lparr>cd_blue_score = 5, cd_subsidy = 7, cd_miner_data = ex_miner\<rparr> = Ok p"
    by (simp add: serialize_coinbase_payload_def ex_manager_def ex_miner_def)
  then show ?thesis using modify_coinbase_payload_serialize [OF p] by blast
qed

text \<open>
  C4: The coinbase transaction conserves the rewards of the merge set. Every blue block of the DAA window with
  a positive reward is paid its subsidy and fees at its own script, in merge-set order; the red rewards go
  to the merging miner in one last output; the outputs sum to the total of all these rewards; and the
  payload carries the blue score, the subsidy of the schedule and the miner data.
\<close>

theorem expected_coinbase_pays:
  assumes "coinbase_manager_new l n D pre h = (Ok m :: ('e, coinbase_manager) outcome)"
    and "rewards_bounded rewards nd gd"
    and "length (spk_script (md_script_public_key miner)) \<le> unat (cm_script_public_key_max_len m)"
  shows "\<exists>t s. expected_coinbase_transaction hash_tx m daa miner gd rewards nd = Ok t \<and>
    calc_block_subsidy m daa = (Ok s :: (coinbase_error, u64) outcome) \<and>
    map payment (tx_outputs (ct_tx t)) =
      map (\<lambda>h. (reward_of rewards h, payee_of rewards h)) (paid_blues rewards nd gd) @
      (if 0 < red_total rewards nd gd then [(red_total rewards nd gd, md_script_public_key miner)] else []) \<and>
    sum_list (map (\<lambda>out. unat (out_value out)) (tx_outputs (ct_tx t))) =
      sum_list (map (reward_of rewards) (filter (\<lambda>h. h \<notin> nd) (mergeset_blues gd))) + red_total rewards nd gd \<and>
    is_coinbase (ct_tx t) \<and> tx_inputs (ct_tx t) = [] \<and>
    serialize_coinbase_payload m \<lparr>cd_blue_score = blue_score gd, cd_subsidy = s, cd_miner_data = miner\<rparr>
      = Ok (tx_payload (ct_tx t))"
proof -
  obtain s where s: "calc_block_subsidy m daa = (Ok s :: (coinbase_error, u64) outcome)"
    using calc_block_subsidy_total [OF assms(1)] by blast
  obtain outs where o: "blue_outputs rewards nd (mergeset_blues gd) = (Ok outs :: (coinbase_error, _) outcome)"
    "map payment outs = map (\<lambda>h. (reward_of rewards h, payee_of rewards h)) (paid_blues rewards nd gd)"
    using blue_outputs_returns [OF assms(2), where 'b = coinbase_error] by (auto simp: returns_def)
  obtain r where r: "red_reward_sum rewards nd (mergeset_reds gd) = (Ok r :: (coinbase_error, _) outcome)"
    "unat r = red_total rewards nd gd"
    using red_reward_returns [OF assms(2), where 'b = coinbase_error] by (auto simp: returns_def)
  obtain p where p: "serialize_coinbase_payload m \<lparr>cd_blue_score = blue_score gd, cd_subsidy = s, cd_miner_data = miner\<rparr> = Ok p"
    using assms(3) by (auto simp: serialize_coinbase_payload_def Let_def)
  define outs' where "outs' = (if 0 < r then outs @ [\<lparr>out_value = r, out_spk = md_script_public_key miner\<rparr>] else outs)"
  have outs': "map payment outs' = map (\<lambda>h. (reward_of rewards h, payee_of rewards h)) (paid_blues rewards nd gd) @
      (if 0 < red_total rewards nd gd then [(red_total rewards nd gd, md_script_public_key miner)] else [])"
    using o(2) r(2) by (simp add: outs'_def payment_def word_less_nat_alt)
  note facts = s p outs' sum_payments [OF outs']
  then show ?thesis
    by (simp add: expected_coinbase_transaction_def o(1) r(1) Let_def outs'_def [symmetric] transaction_new_def
        finalize_def transaction_new_non_finalized_def is_coinbase_def)
qed

definition ex_rewards :: "(hash, block_reward_data) hmap" where
  "ex_rewards = [(Hash [1], \<lparr>rd_subsidy = 50, rd_total_fees = 3, rd_script_public_key = \<lparr>spk_version = 0, spk_script = [7]\<rparr>\<rparr>),
     (Hash [2], \<lparr>rd_subsidy = 40, rd_total_fees = 2, rd_script_public_key = \<lparr>spk_version = 0, spk_script = [8]\<rparr>\<rparr>)]"

definition ex_gd :: ghostdag_data where
  "ex_gd = \<lparr>blue_score = 11, blue_work = 0, selected_parent = Hash [1], mergeset_blues = [Hash [1]],
     mergeset_reds = [Hash [2]], blues_anticone_sizes = []\<rparr>"

theorem expected_coinbase_pays_witness:
  "\<exists>m t. coinbase_manager_new 150 204 155196000 37002785 mainnet_history = (Ok m :: (unit, _) outcome) \<and>
    expected_coinbase_transaction (\<lambda>_. Hash []) m 5 ex_miner ex_gd ex_rewards {} = Ok t \<and>
    map payment (tx_outputs (ct_tx t)) =
      [(53, \<lparr>spk_version = 0, spk_script = [7]\<rparr>), (42, \<lparr>spk_version = 0, spk_script = [1, 2, 3]\<rparr>)]"
proof -
  obtain m where m: "coinbase_manager_new 150 204 155196000 37002785 mainnet_history = (Ok m :: (unit, _) outcome)"
    using coinbase_manager_new_succeeds [of mainnet_history 150 204 155196000 37002785, where 'e = unit] by auto
  have b: "rewards_bounded ex_rewards {} ex_gd"
    by (simp add: rewards_bounded_def ex_rewards_def ex_gd_def reward_of_def red_total_def red_reward_of_def hm_get_def)
  have l: "length (spk_script (md_script_public_key ex_miner)) \<le> unat (cm_script_public_key_max_len m)"
    using m by (auto simp: coinbase_manager_new_def obind_eq_Ok ex_miner_def)
  show ?thesis
    using expected_coinbase_pays [OF m b l, of "\<lambda>_. Hash []" 5] m
    by (auto simp: paid_blues_def red_total_def red_reward_of_def reward_of_def payee_of_def ex_rewards_def ex_gd_def
        hm_get_def ex_miner_def)
qed

text \<open>The block subsidy never increases during the deflationary phase, across months and across the change
  of block rate, as long as the block rate does not go down; the computation never overflows.
\<close>

theorem calc_block_subsidy_antimono:
  assumes "coinbase_manager_new l n D pre h = (Ok m :: ('e, coinbase_manager) outcome)"
    and "fp_before h \<le> fp_after h" and "D \<le> d1" and "d1 \<le> d2"
  shows "\<exists>s1 s2. calc_block_subsidy m d1 = (Ok s1 :: ('e, u64) outcome) \<and>
    calc_block_subsidy m d2 = (Ok s2 :: ('e, u64) outcome) \<and> s2 \<le> s1"
proof -
  let ?month = "\<lambda>d. min (seconds_since (unat (daa_score_of (fp_activation h))) (unat D) (unat (fp_before h))
    (unat (fp_after h)) (unat d) div 2629800) 1901"
  let ?rate = "\<lambda>d. unat (if is_active (fp_activation h) d then fp_after h else fp_before h)"
  note le = assms(3,4) [unfolded word_le_nat_alt]
  have D: "unat D \<le> unat d1" "unat D \<le> unat d2" using le by simp_all
  have month: "?month d1 \<le> ?month d2"
    using div_le_mono [OF seconds_since_mono [OF le(2)]] by (simp add: min.coboundedI1 min.mono)
  have rate: "0 < ?rate d1" "?rate d1 \<le> ?rate d2"
    using coinbase_manager_new_tables(1,2) [OF assms(1)] assms(2,4)
    by (auto simp: is_active_def word_le_nat_alt)
  have "ceil_div (unat (SUBSIDY_BY_MONTH_TABLE ! ?month d2)) (?rate d2) \<le>
    ceil_div (unat (SUBSIDY_BY_MONTH_TABLE ! ?month d1)) (?rate d1)"
    by (rule order_trans [OF ceil_div_antimono [OF rate] ceil_div_mono [OF SUBSIDY_BY_MONTH_TABLE_antimono [OF month]]]) simp
  then show ?thesis
    using calc_block_subsidy_deflationary [OF assms(1) D(1), where 'f = 'e]
      calc_block_subsidy_deflationary [OF assms(1) D(2), where 'f = 'e]
    unfolding returns_def word_le_nat_alt by fastforce
qed

theorem calc_block_subsidy_antimono_witness:
  "\<exists>m s1 s2. coinbase_manager_new 150 204 155196000 37002785 mainnet_history = (Ok m :: (unit, _) outcome) \<and>
    calc_block_subsidy m 155196000 = (Ok s1 :: (unit, u64) outcome) \<and>
    calc_block_subsidy m 255196000 = (Ok s2 :: (unit, u64) outcome) \<and> s2 \<le> s1"
proof -
  obtain m where m: "coinbase_manager_new 150 204 155196000 37002785 mainnet_history = (Ok m :: (unit, _) outcome)"
    using coinbase_manager_new_succeeds [of mainnet_history 150 204 155196000 37002785, where 'e = unit] by auto
  have "fp_before mainnet_history \<le> fp_after mainnet_history" "155196000 \<le> (155196000 :: u64)"
    "155196000 \<le> (255196000 :: u64)" by simp_all
  from calc_block_subsidy_antimono [OF m this] m show ?thesis by blast
qed

text \<open>
  C6: The total emission of the main network. The subsidies of all blocks, over every DAA score below
  2 to the 64, sum to at most 21000020915880000 sompi, the schedule emits exactly that amount, and the amount
  exceeds \<open>MAX_SOMPI\<close>.
\<close>

theorem mainnet_emission:
  "(\<Sum>d<min n (2 ^ 64). mainnet_subsidy d) \<le> 21000020915880000 \<and>
   (\<Sum>d<155196000 + 1902 * 26298000. mainnet_subsidy d) = 21000020915880000 \<and>
   unat MAX_SOMPI < 21000020915880000"
  using mainnet_emission_bound [of "min n (2 ^ 64)"] mainnet_emission_total
  by (simp add: unat_MAX_SOMPI del: sum.lessThan_Suc)

end
