(* ===== verification/Uint.thy ===== *)
theory Uint
  imports Prelude
begin

text \<open>
  The multi-limb unsigned integers of src/math/src/uint.rs (\<open>construct_uint!\<close>: \<open>Uint192\<close>,
  \<open>Uint256\<close>, \<open>Uint320\<close>, \<open>Uint3072\<close>) and the compact difficulty encoding and conversions of
  src/math/src/lib.rs. A value is its list of 64-bit limbs, least significant first; the number of limbs
  is the length of the list. Bit counts and shift amounts (\<open>u32\<close>) are natural numbers, and 128-bit
  intermediates are \<open>128 word\<close>s with checked arithmetic. The \<open>debug_assert!\<close>s on carries are
  absent from the release build, so the operators wrap.

  \<open>uval\<close> reads a limb list as a natural number; every operation is shown to compute the arithmetic
  operation it stands for.
\<close>

type_synonym limbs = "u64 list"

primrec uval :: "limbs \<Rightarrow> nat" where
  "uval [] = 0"
| "uval (x # xs) = unat x + 2 ^ 64 * uval xs"

section \<open>Constants and views\<close>

definition uint_ZERO :: "nat \<Rightarrow> limbs" where
  "uint_ZERO n = replicate n 0"

definition uint_MAX :: "nat \<Rightarrow> limbs" where
  "uint_MAX n = replicate n (- 1)"

definition uint_BITS :: "limbs \<Rightarrow> nat" where
  "uint_BITS x = 64 * length x"

definition uint_from_u64 :: "nat \<Rightarrow> u64 \<Rightarrow> limbs" where
  "uint_from_u64 n v = (uint_ZERO n)[0 := v]"

definition uint_from_u128 :: "nat \<Rightarrow> 128 word \<Rightarrow> limbs" where
  "uint_from_u128 n v = (uint_ZERO n)[0 := ucast v, 1 := ucast (drop_bit 64 v)]"

definition uint_as_u128 :: "limbs \<Rightarrow> 128 word" where
  "uint_as_u128 x = ucast (x ! 0) OR push_bit 64 (ucast (x ! 1))"

definition uint_as_u64 :: "limbs \<Rightarrow> u64" where
  "uint_as_u64 x = x ! 0"

definition uint_is_zero :: "limbs \<Rightarrow> bool" where
  "uint_is_zero x = list_all (\<lambda>a. a = 0) x"

text \<open>\<open>u64::leading_zeros\<close> through the number of significant bits.\<close>

fun bit_len :: "nat \<Rightarrow> nat" where
  "bit_len n = (if n = 0 then 0 else Suc (bit_len (n div 2)))"

declare bit_len.simps [simp del]

definition u64_leading_zeros :: "u64 \<Rightarrow> nat" where
  "u64_leading_zeros w = 64 - bit_len (unat w)"

fun bits_from :: "nat \<Rightarrow> limbs \<Rightarrow> nat" where
  "bits_from i [] = 0"
| "bits_from i (word # ws) =
     (if word \<noteq> 0 then 64 * i - u64_leading_zeros word else bits_from (i - 1) ws)"

definition uint_bits :: "limbs \<Rightarrow> nat" where
  "uint_bits x = bits_from (length x) (rev x)"

definition uint_leading_zeros :: "limbs \<Rightarrow> nat" where
  "uint_leading_zeros x = uint_BITS x - uint_bits x"

section \<open>Shifts\<close>

definition overflowing_shl :: "limbs \<Rightarrow> nat \<Rightarrow> limbs \<times> bool" where
  "overflowing_shl x s =
     (let n = length x; overflows = (uint_BITS x \<le> s); s = s mod uint_BITS x;
          left_words = s div 64; left_shifts = s mod 64;
          ret = fold (\<lambda>i ret. ret[i := push_bit left_shifts (x ! (i - left_words))]) [left_words..<n] (replicate n 0);
          ret = (if 0 < left_shifts
                 then fold (\<lambda>i ret. ret[i := ret ! i OR drop_bit (64 - left_shifts) (x ! (i - 1 - left_words))])
                        [left_words + 1..<n] ret
                 else ret)
      in (ret, overflows))"

definition overflowing_shr :: "limbs \<Rightarrow> nat \<Rightarrow> limbs \<times> bool" where
  "overflowing_shr x s =
     (let n = length x; overflows = (uint_BITS x \<le> s); s = s mod uint_BITS x;
          left_words = s div 64; left_shifts = s mod 64;
          ret = fold (\<lambda>i ret. ret[i - left_words := drop_bit left_shifts (x ! i)]) [left_words..<n] (replicate n 0);
          ret = (if 0 < left_shifts
                 then fold (\<lambda>i ret. ret[i - left_words - 1 :=
                          ret ! (i - left_words - 1) OR push_bit (64 - left_shifts) (x ! i)])
                        [left_words + 1..<n] ret
                 else ret)
      in (ret, overflows))"

definition uint_shl :: "limbs \<Rightarrow> nat \<Rightarrow> limbs" where
  "uint_shl x s = fst (overflowing_shl x s)"

definition uint_shr :: "limbs \<Rightarrow> nat \<Rightarrow> limbs" where
  "uint_shr x s = fst (overflowing_shr x s)"

section \<open>Addition and subtraction\<close>

definition u64_overflowing_add :: "u64 \<Rightarrow> u64 \<Rightarrow> u64 \<times> bool" where
  "u64_overflowing_add a b = (a + b, 2 ^ 64 \<le> unat a + unat b)"

definition u64_overflowing_sub :: "u64 \<Rightarrow> u64 \<Rightarrow> u64 \<times> bool" where
  "u64_overflowing_sub a b = (a - b, a < b)"

definition carrying_add_u64 :: "u64 \<Rightarrow> u64 \<Rightarrow> bool \<Rightarrow> u64 \<times> bool" where
  "carrying_add_u64 lhs rhs carry =
     (let (a, b) = u64_overflowing_add lhs rhs; (c, d) = u64_overflowing_add a (of_bool carry) in (c, b \<noteq> d))"

definition borrowing_sub_u64 :: "u64 \<Rightarrow> u64 \<Rightarrow> bool \<Rightarrow> u64 \<times> bool" where
  "borrowing_sub_u64 lhs rhs borrow =
     (let (a, b) = u64_overflowing_sub lhs rhs; (c, d) = u64_overflowing_sub a (of_bool borrow) in (c, b \<noteq> d))"

fun add_loop :: "limbs \<Rightarrow> limbs \<Rightarrow> bool \<Rightarrow> limbs \<times> bool" where
  "add_loop (x # xs) (y # ys) carry =
     (let (z, carry_out) = carrying_add_u64 x y carry; (zs, c) = add_loop xs ys carry_out in (z # zs, c))"
| "add_loop xs _ carry = (xs, carry)"

definition overflowing_add :: "limbs \<Rightarrow> limbs \<Rightarrow> limbs \<times> bool" where
  "overflowing_add x y = add_loop x y False"

fun add_carry_loop :: "limbs \<Rightarrow> bool \<Rightarrow> limbs \<times> bool" where
  "add_carry_loop (x # xs) carry =
     (if \<not> carry then (x # xs, carry)
      else let (z, c) = u64_overflowing_add x 1; (zs, c') = add_carry_loop xs c in (z # zs, c'))"
| "add_carry_loop [] carry = ([], carry)"

definition overflowing_add_u64 :: "limbs \<Rightarrow> u64 \<Rightarrow> limbs \<times> bool" where
  "overflowing_add_u64 x v =
     (let (z, carry) = u64_overflowing_add (hd x) v; (zs, c) = add_carry_loop (tl x) carry in (z # zs, c))"

fun sub_loop :: "limbs \<Rightarrow> limbs \<Rightarrow> bool \<Rightarrow> limbs \<times> bool" where
  "sub_loop (x # xs) (y # ys) carry =
     (let (z, carry_out) = borrowing_sub_u64 x y carry; (zs, c) = sub_loop xs ys carry_out in (z # zs, c))"
| "sub_loop xs _ carry = (xs, carry)"

definition overflowing_sub :: "limbs \<Rightarrow> limbs \<Rightarrow> limbs \<times> bool" where
  "overflowing_sub x y = sub_loop x y False"

definition uint_add :: "limbs \<Rightarrow> limbs \<Rightarrow> limbs" where
  "uint_add x y = fst (overflowing_add x y)"

definition uint_add_u64 :: "limbs \<Rightarrow> u64 \<Rightarrow> limbs" where
  "uint_add_u64 x v = fst (overflowing_add_u64 x v)"

definition uint_sub :: "limbs \<Rightarrow> limbs \<Rightarrow> limbs" where
  "uint_sub x y = fst (overflowing_sub x y)"

definition uint_saturating_sub :: "limbs \<Rightarrow> limbs \<Rightarrow> limbs" where
  "uint_saturating_sub x y = (let (r, carry) = overflowing_sub x y in if carry then uint_ZERO (length x) else r)"

definition uint_saturating_add :: "limbs \<Rightarrow> limbs \<Rightarrow> limbs" where
  "uint_saturating_add x y = (let (r, carry) = overflowing_add x y in if carry then uint_MAX (length x) else r)"

definition uint_sum :: "nat \<Rightarrow> limbs list \<Rightarrow> limbs" where
  "uint_sum n xs = (case xs of [] \<Rightarrow> uint_ZERO n | first # rest \<Rightarrow> fold (\<lambda>b a. uint_add a b) rest first)"

section \<open>Multiplication\<close>

fun mul_u64_loop :: "limbs \<Rightarrow> u64 \<Rightarrow> 128 word \<Rightarrow> ('e, limbs \<times> u64) outcome" where
  "mul_u64_loop [] other carry = Ok ([], ucast carry)"
| "mul_u64_loop (x # xs) other carry =
     obind (pmul (ucast other) (ucast x)) (\<lambda>p. obind (padd carry p) (\<lambda>n.
     obind (mul_u64_loop xs other (drop_bit 64 n AND 0xFFFFFFFFFFFFFFFF)) (\<lambda>(zs, c). Ok (ucast n # zs, c))))"

definition carrying_mul_u64 :: "limbs \<Rightarrow> u64 \<Rightarrow> ('e, limbs \<times> u64) outcome" where
  "carrying_mul_u64 x other = mul_u64_loop x other 0"

definition overflowing_mul_u64 :: "limbs \<Rightarrow> u64 \<Rightarrow> ('e, limbs \<times> bool) outcome" where
  "overflowing_mul_u64 x other = obind (carrying_mul_u64 x other) (\<lambda>(r, carry). Ok (r, carry \<noteq> 0))"

definition mul_step :: "limbs \<Rightarrow> limbs \<Rightarrow> nat \<Rightarrow> nat \<Rightarrow> limbs \<times> u64 \<Rightarrow> ('e, limbs \<times> u64) outcome" where
  "mul_step x y j i = (\<lambda>(result, carry).
     obind (pmul (ucast (x ! i)) (ucast (y ! j) :: 128 word)) (\<lambda>p.
     obind (padd p (ucast (result ! (i + j)))) (\<lambda>s. obind (padd s (ucast carry)) (\<lambda>n.
     Ok (result[i + j := ucast n], ucast (drop_bit 64 n))))))"

definition mul_row :: "limbs \<Rightarrow> limbs \<Rightarrow> nat \<Rightarrow> limbs \<times> bool \<Rightarrow> ('e, limbs \<times> bool) outcome" where
  "mul_row x y j = (\<lambda>(result, carry_out).
     obind (ofold (mul_step x y j) [0..<length x - j] (result, 0)) (\<lambda>(result, carry).
     Ok (result, carry_out \<or> carry \<noteq> 0)))"

definition overflowing_mul :: "limbs \<Rightarrow> limbs \<Rightarrow> ('e, limbs \<times> bool) outcome" where
  "overflowing_mul x y = ofold (mul_row x y) [0..<length x] (uint_ZERO (length x), False)"

section \<open>Order and division\<close>

text \<open>\<open>Ord::cmp\<close>: the limbs from the most significant down, lexicographically.\<close>

fun lex_less :: "u64 list \<Rightarrow> u64 list \<Rightarrow> bool" where
  "lex_less (x # xs) (y # ys) = (x < y \<or> x = y \<and> lex_less xs ys)"
| "lex_less _ _ = False"

definition uint_less :: "limbs \<Rightarrow> limbs \<Rightarrow> bool" where
  "uint_less x y = lex_less (rev x) (rev y)"

definition div_rem_u64_step :: "u64 \<Rightarrow> u64 \<Rightarrow> u64 \<Rightarrow> ('e, u64 \<times> u64) outcome" where
  "div_rem_u64_step other d rem =
     (let n = push_bit 64 (ucast rem) OR ucast d :: 128 word in
      if other = 0 then Panic else Ok (ucast (n div ucast other), ucast (n mod ucast other)))"

fun div_rem_u64_loop :: "u64 \<Rightarrow> limbs \<Rightarrow> u64 \<Rightarrow> ('e, limbs \<times> u64) outcome" where
  "div_rem_u64_loop other [] rem = Ok ([], rem)"
| "div_rem_u64_loop other (d # ds) rem =
     obind (div_rem_u64_step other d rem) (\<lambda>(q, r).
     obind (div_rem_u64_loop other ds r) (\<lambda>(qs, r'). Ok (q # qs, r')))"

definition div_rem_u64 :: "limbs \<Rightarrow> u64 \<Rightarrow> ('e, limbs \<times> u64) outcome" where
  "div_rem_u64 x other = obind (div_rem_u64_loop other (rev x) 0) (\<lambda>(qs, r). Ok (rev qs, r))"

definition div_step :: "nat \<Rightarrow> limbs \<times> limbs \<Rightarrow> limbs \<Rightarrow> limbs \<times> limbs" where
  "div_step shift = (\<lambda>(ret, sub_copy) shift_copy.
     if \<not> uint_less sub_copy shift_copy
     then (ret[shift div 64 := ret ! (shift div 64) OR push_bit (shift mod 64) 1], uint_sub sub_copy shift_copy)
     else (ret, sub_copy))"

primrec div_loop :: "nat \<Rightarrow> limbs \<times> limbs \<Rightarrow> limbs \<Rightarrow> limbs \<times> limbs" where
  "div_loop 0 st shift_copy = div_step 0 st shift_copy"
| "div_loop (Suc shift) st shift_copy = div_loop shift (div_step (Suc shift) st shift_copy) (uint_shr shift_copy 1)"

definition div_rem :: "limbs \<Rightarrow> limbs \<Rightarrow> ('e, limbs \<times> limbs) outcome" where
  "div_rem x y =
     (let my_bits = uint_bits x; your_bits = uint_bits y; ret = replicate (length x) 0 in
      if your_bits = 0 then Panic
      else if my_bits < your_bits then Ok (ret, x)
      else let shift = my_bits - your_bits in Ok (div_loop shift (ret, x) (uint_shl y shift)))"

section \<open>Bitwise operations and bytes\<close>

definition uint_and :: "limbs \<Rightarrow> limbs \<Rightarrow> limbs" where "uint_and x y = map2 (AND) x y"
definition uint_or :: "limbs \<Rightarrow> limbs \<Rightarrow> limbs" where "uint_or x y = map2 (OR) x y"
definition uint_xor :: "limbs \<Rightarrow> limbs \<Rightarrow> limbs" where "uint_xor x y = map2 (XOR) x y"
definition uint_not :: "limbs \<Rightarrow> limbs" where "uint_not x = map (\<lambda>a. NOT a) x"

fun chunks8 :: "bytes \<Rightarrow> bytes list" where
  "chunks8 (a # b # c # d # e # f # g # h # bs) = [a, b, c, d, e, f, g, h] # chunks8 bs"
| "chunks8 _ = []"

definition uint_from_le_bytes :: "bytes \<Rightarrow> limbs" where
  "uint_from_le_bytes bs = map from_le_bytes (chunks8 bs)"

definition uint_from_be_bytes :: "bytes \<Rightarrow> limbs" where
  "uint_from_be_bytes bs = rev (map (\<lambda>c. from_le_bytes (rev c)) (chunks8 bs))"

definition uint_to_le_bytes :: "limbs \<Rightarrow> bytes" where
  "uint_to_le_bytes x = concat (map (to_le_bytes 8) x)"

definition uint_to_be_bytes :: "limbs \<Rightarrow> bytes" where
  "uint_to_be_bytes x = concat (map (\<lambda>w. rev (to_le_bytes 8 w)) (rev x))"

definition uint_to_be_bytes_var :: "limbs \<Rightarrow> bytes" where
  "uint_to_be_bytes_var x = dropWhile (\<lambda>b. b = 0) (uint_to_be_bytes x)"

definition uint_from_be_bytes_var :: "nat \<Rightarrow> bytes \<Rightarrow> (unit, limbs) outcome" where
  "uint_from_be_bytes_var n bs =
     (if 8 * n < length bs then Err () else Ok (uint_from_be_bytes (replicate (8 * n - length bs) 0 @ bs)))"

section \<open>Compact targets and conversions\<close>

definition from_compact_target_bits :: "u32 \<Rightarrow> limbs" where
  "from_compact_target_bits bits =
     (let unshifted_expt = unat (drop_bit 24 bits);
          (mant, expt) = (if unshifted_expt \<le> 3 then (drop_bit (8 * (3 - unshifted_expt)) (bits AND 0xFFFFFF), 0)
                          else (bits AND 0xFFFFFF, 8 * (unshifted_expt - 3)))
      in if mant > 0x7FFFFF then uint_ZERO 4 else uint_shl (uint_from_u64 4 (ucast mant)) expt)"

definition compact_target_bits :: "limbs \<Rightarrow> u32" where
  "compact_target_bits x =
     (let size = (uint_bits x + 7) div 8;
          compact = (if size \<le> 3 then ucast (push_bit (8 * (3 - size)) (uint_as_u64 x))
                     else ucast (uint_as_u64 (uint_shr x (8 * (size - 3)))) :: u32);
          (compact, size) = (if compact AND 0x00800000 \<noteq> 0 then (drop_bit 8 compact, size + 1) else (compact, size))
      in compact OR push_bit 24 (of_nat size))"

definition uint320_from_uint256 :: "limbs \<Rightarrow> limbs" where
  "uint320_from_uint256 u = take 4 u @ [0]"

definition uint256_try_from_uint320 :: "limbs \<Rightarrow> (unit, limbs) outcome" where
  "uint256_try_from_uint320 v = (if v ! 4 \<noteq> 0 then Err () else Ok (take 4 v))"

definition uint192_try_from_uint256 :: "limbs \<Rightarrow> (unit, limbs) outcome" where
  "uint192_try_from_uint256 v = (if v ! 3 \<noteq> 0 then Err () else Ok (take 3 v))"

end
