(* ===== verification/Uint_Arith.thy ===== *)
theory Uint_Arith
  imports Uint
begin

text \<open>
  Correctness of the limb arithmetic of theory \<open>Uint\<close>: each operation computes, on the numbers its
  limbs denote, the arithmetic operation modulo the width, with the carry it reports.
\<close>

section \<open>Limbs and bits\<close>

lemma uval_bound: "uval x < 2 ^ (64 * length x)"
proof (induction x)
  case (Cons a x)
  have "unat a + 2 ^ 64 * uval x < 2 ^ 64 * (uval x + 1)" using unat_less_exp [of a] by simp
  also have "\<dots> \<le> 2 ^ 64 * 2 ^ (64 * length x)" using Cons.IH by (intro mult_le_mono) simp_all
  finally show ?case by (simp add: power_add)
qed simp

lemma uval_append: "uval (x @ y) = uval x + 2 ^ (64 * length x) * uval y"
  by (induction x) (simp_all add: power_add algebra_simps)

lemma uval_replicate_0 [simp]: "uval (replicate n 0) = 0"
  by (induction n) simp_all

lemma uval_replicate_max: "uval (replicate n (- 1)) + 1 = 2 ^ (64 * n)"
proof (induction n)
  case (Suc n)
  have "uval (replicate (Suc n) (- 1)) + 1 = 2 ^ 64 * (uval (replicate n (- 1)) + 1)"
    by (simp add: unat_max_word)
  then show ?case unfolding Suc.IH by (simp add: power_add)
qed simp

lemma digit_unique:
  fixes a b m p q :: nat
  assumes "a < m" and "b < m" and "a + m * p = b + m * q"
  shows "a = b \<and> p = q"
proof -
  have "(a + m * p) mod m = a" "(b + m * q) mod m = b" using assms(1,2) by simp_all
  then have "a = b" unfolding assms(3) by simp
  then show ?thesis using assms by simp
qed

lemma uval_inject:
  assumes "length x = length y" and "uval x = uval y"
  shows "x = y"
  using assms
proof (induction x y rule: list_induct2)
  case (Cons a x b y)
  then show ?case
    using digit_unique [OF unat_less_exp [of a] unat_less_exp [of b], of "uval x" "uval y"] by (simp add: word_unat_eq_iff)
qed simp

lemma uval_update:
  "i < length x \<Longrightarrow> uval (x[i := v]) + unat (x ! i) * 2 ^ (64 * i) = uval x + unat v * 2 ^ (64 * i)"
proof (induction x arbitrary: i)
  case (Cons a x)
  show ?case
  proof (cases i)
    case (Suc j)
    then have "2 ^ 64 * (uval (x[j := v]) + unat (x ! j) * 2 ^ (64 * j)) = 2 ^ 64 * (uval x + unat v * 2 ^ (64 * j))"
      using Cons.IH [of j] Cons.prems by simp
    then show ?thesis using Suc by (simp add: power_add algebra_simps)
  qed simp
qed simp

lemma bit_add_high: "a < 2 ^ n \<Longrightarrow> bit (a + 2 ^ n * b) k = (if k < n then bit a k else bit b (k - n))" for a b :: nat
proof -
  assume a: "a < 2 ^ n"
  show ?thesis
  proof (cases "k < n")
    case True
    then have "a + 2 ^ n * b = a + 2 ^ k * (2 ^ (n - k) * b)" by (simp add: power_add [symmetric])
    then have "(a + 2 ^ n * b) div 2 ^ k = (a + 2 ^ k * (2 ^ (n - k) * b)) div 2 ^ k" by (rule arg_cong)
    also have "\<dots> = 2 ^ (n - k) * b + a div 2 ^ k" by simp
    finally have "(a + 2 ^ n * b) div 2 ^ k = 2 ^ (n - k) * b + a div 2 ^ k" .
    then show ?thesis using True by (simp add: bit_iff_odd)
  next
    case False
    then have "(2 :: nat) ^ k = 2 ^ n * 2 ^ (k - n)" by (simp add: power_add [symmetric])
    then have "(a + 2 ^ n * b) div 2 ^ k = (a + 2 ^ n * b) div 2 ^ n div 2 ^ (k - n)" by (simp add: div_mult2_eq)
    also have "\<dots> = b div 2 ^ (k - n)" using a by simp
    finally show ?thesis using False by (simp add: bit_iff_odd)
  qed
qed

lemma bit_unat: "bit (unat w) k = bit w k" for w :: "'a::len word"
  by (simp add: bit_unsigned_iff bit_imp_le_length)

lemma bit_uval: "bit (uval x) k \<longleftrightarrow> k < 64 * length x \<and> bit (x ! (k div 64)) (k mod 64)"
proof (induction x arbitrary: k)
  case (Cons a x)
  have "bit (uval (a # x)) k = (if k < 64 then bit a k else bit (uval x) (k - 64))"
    using bit_add_high [of "unat a" 64 "uval x" k] unat_less_exp [of a] by (simp add: bit_unat)
  moreover have "k div 64 = Suc ((k - 64) div 64)" "k mod 64 = (k - 64) mod 64" if "\<not> k < 64"
    using that by (simp_all add: le_div_geq le_mod_geq)
  ultimately show ?case using Cons.IH [of "k - 64"] by auto
qed simp

section \<open>Addition and subtraction\<close>

lemma mod_carry: "s < 2 * m \<Longrightarrow> s mod m + m * of_bool (m \<le> s) = s" for s m :: nat
  by (auto simp: le_mod_geq not_less)

lemma unat_overflowing_add:
  assumes "u64_overflowing_add a b = (c, o')"
  shows "unat c + 2 ^ 64 * of_bool o' = unat a + unat b"
proof -
  have "unat (a + b) = (unat a + unat b) mod 2 ^ 64" by (simp add: unat_word_ariths)
  then show ?thesis
    using assms mod_carry [of "unat a + unat b" "2 ^ 64"] unat_less_exp [of a] unat_less_exp [of b]
    by (auto simp: u64_overflowing_add_def)
qed

lemma unat_overflowing_sub:
  assumes "u64_overflowing_sub a b = (c, o')"
  shows "unat a + 2 ^ 64 * of_bool o' = unat b + unat c"
proof -
  have "u64_overflowing_add b (a - b) = (a, 2 ^ 64 \<le> unat b + unat (a - b))"
    by (simp add: u64_overflowing_add_def)
  from unat_overflowing_add [OF this]
  have *: "unat a + 2 ^ 64 * of_bool (2 ^ 64 \<le> unat b + unat (a - b)) = unat b + unat (a - b)" .
  then have "2 ^ 64 \<le> unat b + unat (a - b) \<longleftrightarrow> a < b"
    using unat_less_exp [of "a - b"] unat_less_exp [of a]
    by (cases "2 ^ 64 \<le> unat b + unat (a - b)") (simp_all add: word_less_nat_alt)
  then show ?thesis using * assms by (simp add: u64_overflowing_sub_def)
qed

lemma carrying_add_u64_correct:
  assumes "carrying_add_u64 x y c = (z, c')"
  shows "unat z + 2 ^ 64 * of_bool c' = unat x + unat y + of_bool c"
proof -
  obtain a b where ab: "u64_overflowing_add x y = (a, b)" by force
  obtain d where d: "u64_overflowing_add a (of_bool c) = (z, d)" "c' = (b \<noteq> d)"
    using assms ab by (auto simp: carrying_add_u64_def split: prod.splits)
  have "unat (of_bool c :: u64) = of_bool c" by simp
  then show ?thesis
    using unat_overflowing_add [OF ab] unat_overflowing_add [OF d(1)] d(2) unat_less_exp [of x] unat_less_exp [of y]
      unat_less_exp [of z]
    by (cases b; cases d; cases c) simp_all
qed

lemma borrowing_sub_u64_correct:
  assumes "borrowing_sub_u64 x y c = (z, c')"
  shows "unat x + 2 ^ 64 * of_bool c' = unat y + unat z + of_bool c"
proof -
  obtain a b where ab: "u64_overflowing_sub x y = (a, b)" by force
  obtain d where d: "u64_overflowing_sub a (of_bool c) = (z, d)" "c' = (b \<noteq> d)"
    using assms ab by (auto simp: borrowing_sub_u64_def split: prod.splits)
  have "unat (of_bool c :: u64) = of_bool c" by simp
  then show ?thesis
    using unat_overflowing_sub [OF ab] unat_overflowing_sub [OF d(1)] d(2) unat_less_exp [of x] unat_less_exp [of y]
      unat_less_exp [of z]
    by (cases b; cases d; cases c) simp_all
qed

lemma add_loop_correct:
  assumes "length x = length y" and "add_loop x y c = (z, c')"
  shows "length z = length x \<and> uval z + 2 ^ (64 * length x) * of_bool c' = uval x + uval y + of_bool c"
  using assms
proof (induction x y arbitrary: c z rule: list_induct2)
  case (Cons a x b y)
  obtain d c1 where d: "carrying_add_u64 a b c = (d, c1)" by force
  obtain zs where zs: "add_loop x y c1 = (zs, c')" "z = d # zs"
    using Cons.prems d by (auto split: prod.splits)
  have IH: "length zs = length x" "uval zs + 2 ^ (64 * length x) * of_bool c' = uval x + uval y + of_bool c1"
    using Cons.IH [OF zs(1)] by auto
  have "uval z + 2 ^ (64 * length (a # x)) * of_bool c' = unat d + 2 ^ 64 * (uval zs + 2 ^ (64 * length x) * of_bool c')"
    by (simp add: zs(2) power_add algebra_simps)
  then show ?case unfolding IH(2) using carrying_add_u64_correct [OF d] IH(1) by (simp add: zs(2) algebra_simps)
qed auto

lemma sub_loop_correct:
  assumes "length x = length y" and "sub_loop x y c = (z, c')"
  shows "length z = length x \<and> uval x + 2 ^ (64 * length x) * of_bool c' = uval y + uval z + of_bool c"
  using assms
proof (induction x y arbitrary: c z rule: list_induct2)
  case (Cons a x b y)
  obtain d c1 where d: "borrowing_sub_u64 a b c = (d, c1)" by force
  obtain zs where zs: "sub_loop x y c1 = (zs, c')" "z = d # zs"
    using Cons.prems d by (auto split: prod.splits)
  have IH: "length zs = length x" "uval x + 2 ^ (64 * length x) * of_bool c' = uval y + uval zs + of_bool c1"
    using Cons.IH [OF zs(1)] by auto
  have "uval (a # x) + 2 ^ (64 * length (a # x)) * of_bool c' = unat a + 2 ^ 64 * (uval x + 2 ^ (64 * length x) * of_bool c')"
    by (simp add: power_add algebra_simps)
  then show ?case unfolding IH(2) using borrowing_sub_u64_correct [OF d] IH(1) by (simp add: zs(2) algebra_simps)
qed auto

lemma overflowing_add_uval:
  assumes "length x = length y" and "overflowing_add x y = (z, c)"
  shows "length z = length x" "uval z + 2 ^ (64 * length x) * of_bool c = uval x + uval y"
  using add_loop_correct [of x y False z c] assms by (simp_all add: overflowing_add_def)

lemma overflowing_sub_uval:
  assumes "length x = length y" and "overflowing_sub x y = (z, c)"
  shows "length z = length x" "uval x + 2 ^ (64 * length x) * of_bool c = uval y + uval z"
  using sub_loop_correct [of x y False z c] assms by (simp_all add: overflowing_sub_def)

lemma add_carry_loop_correct:
  "add_carry_loop x c = (z, c') \<Longrightarrow> length z = length x \<and> uval z + 2 ^ (64 * length x) * of_bool c' = uval x + of_bool c"
proof (induction x arbitrary: c z)
  case (Cons a x)
  show ?case
  proof (cases c)
    case True
    obtain d c1 where d: "u64_overflowing_add a 1 = (d, c1)" by force
    obtain zs where zs: "add_carry_loop x c1 = (zs, c')" "z = d # zs"
      using Cons.prems d True by (auto split: prod.splits)
    have IH: "length zs = length x" "uval zs + 2 ^ (64 * length x) * of_bool c' = uval x + of_bool c1"
      using Cons.IH [OF zs(1)] by auto
    have "uval z + 2 ^ (64 * length (a # x)) * of_bool c' = unat d + 2 ^ 64 * (uval zs + 2 ^ (64 * length x) * of_bool c')"
      by (simp add: zs(2) power_add algebra_simps)
    then show ?thesis unfolding IH(2) using unat_overflowing_add [OF d] IH(1) True by (simp add: zs(2) algebra_simps)
  qed (use Cons.prems in auto)
qed auto

lemma overflowing_add_u64_uval:
  assumes "x \<noteq> []" and "overflowing_add_u64 x v = (z, c)"
  shows "length z = length x" "uval z + 2 ^ (64 * length x) * of_bool c = uval x + unat v"
proof -
  obtain a xs where x: "x = a # xs" using assms(1) by (cases x) auto
  obtain d c1 where d: "u64_overflowing_add a v = (d, c1)" by force
  obtain zs where zs: "add_carry_loop xs c1 = (zs, c)" "z = d # zs"
    using assms(2) d x by (auto simp: overflowing_add_u64_def split: prod.splits)
  have IH: "length zs = length xs" "uval zs + 2 ^ (64 * length xs) * of_bool c = uval xs + of_bool c1"
    using add_carry_loop_correct [OF zs(1)] by auto
  show "length z = length x" by (simp add: zs x IH)
  have "uval z + 2 ^ (64 * length x) * of_bool c = unat d + 2 ^ 64 * (uval zs + 2 ^ (64 * length xs) * of_bool c)"
    by (simp add: zs(2) x power_add algebra_simps)
  then show "uval z + 2 ^ (64 * length x) * of_bool c = uval x + unat v"
    unfolding IH(2) using unat_overflowing_add [OF d] by (simp add: x algebra_simps)
qed

lemma carry_unique:
  fixes a b m :: nat
  assumes "a < m" and "a + m * of_bool c = b"
  shows "a = b mod m" "b < 2 * m \<Longrightarrow> c \<longleftrightarrow> m \<le> b"
  using assms by (auto simp: of_bool_def split: if_splits)

lemma uval_uint_sub:
  assumes "length x = length y" and "uval y \<le> uval x"
  shows "length (uint_sub x y) = length x" "uval (uint_sub x y) = uval x - uval y"
proof -
  obtain z c where z: "overflowing_sub x y = (z, c)" by force
  note zc = overflowing_sub_uval [OF assms(1) z]
  show "length (uint_sub x y) = length x" by (simp add: uint_sub_def z zc(1))
  have "\<not> c" using zc(2) assms(2) uval_bound [of z] zc(1) by (cases c) simp_all
  then show "uval (uint_sub x y) = uval x - uval y" using zc(2) by (simp add: uint_sub_def z)
qed

section \<open>Order\<close>

lemma lex_less_uval:
  "length x = length y \<Longrightarrow> lex_less x y \<longleftrightarrow> uval (rev x) < uval (rev y)"
proof (induction x y rule: list_induct2)
  case (Cons a x b y)
  let ?m = "2 ^ (64 * length x) :: nat"
  have l: "uval (rev x) < ?m" "uval (rev y) < ?m"
    using uval_bound [of "rev x"] uval_bound [of "rev y"] Cons.hyps by simp_all
  have e: "uval (rev (a # x)) = uval (rev x) + ?m * unat a" "uval (rev (b # y)) = uval (rev y) + ?m * unat b"
    using Cons.hyps by (simp_all add: uval_append)
  have "u + ?m * p < v + ?m * q" if "p < q" "u < ?m" for u v p q :: nat
  proof -
    have "u + ?m * p < ?m * Suc p" using that by simp
    also have "\<dots> \<le> ?m * q" using that by (intro mult_le_mono2) simp
    finally show ?thesis by simp
  qed
  note lt = this [OF _ l(1), of "unat a" "unat b" "uval (rev y)"] and gt = this [OF _ l(2), of "unat b" "unat a" "uval (rev x)"]
  have ab: "lex_less (a # x) (b # y) \<longleftrightarrow> unat a < unat b \<or> unat a = unat b \<and> lex_less x y"
    by (simp add: word_less_nat_alt word_unat_eq_iff)
  consider "unat a < unat b" | "unat a = unat b" | "unat b < unat a" by linarith
  then show ?case unfolding ab e using lt gt Cons.IH by cases simp_all
qed simp

lemma uint_less_uval: "length x = length y \<Longrightarrow> uint_less x y \<longleftrightarrow> uval x < uval y"
  by (simp add: uint_less_def lex_less_uval)

section \<open>Shifts\<close>

text \<open>A loop that writes each index once.\<close>

lemma length_fold_same: "(\<And>i r. length (f i r) = length r) \<Longrightarrow> length (fold f is r) = length r"
  by (induction "is" arbitrary: r) simp_all

lemma fold_update_nth:
  assumes "distinct (map g is)" and "\<forall>i\<in>set is. g i < length r"
  shows "(\<forall>k. k \<notin> g ` set is \<longrightarrow> fold (\<lambda>i r. r[g i := f i (r ! g i)]) is r ! k = r ! k) \<and>
    (\<forall>i\<in>set is. fold (\<lambda>i r. r[g i := f i (r ! g i)]) is r ! g i = f i (r ! g i))"
  using assms
proof (induction "is" arbitrary: r)
  case (Cons j "is")
  let ?r = "r[g j := f j (r ! g j)]"
  have IH: "\<forall>k. k \<notin> g ` set is \<longrightarrow> fold (\<lambda>i r. r[g i := f i (r ! g i)]) is ?r ! k = ?r ! k"
    "\<forall>i\<in>set is. fold (\<lambda>i r. r[g i := f i (r ! g i)]) is ?r ! g i = f i (?r ! g i)"
    using Cons.IH [of ?r] Cons.prems by auto
  have "g i \<noteq> g j" if "i \<in> set is" for i
    using Cons.prems(1) imageI [OF that, of g] by auto
  then show ?case using IH Cons.prems by (auto simp: nth_list_update)
qed simp

lemmas fold_update_other = fold_update_nth [THEN conjunct1, THEN spec, THEN mp]
lemmas fold_update_at = fold_update_nth [THEN conjunct2, THEN bspec]

lemma shl_nth:
  assumes "s < 64 * length x" and "i < length x"
  shows "uint_shl x s ! i = (if i < s div 64 then 0 else push_bit (s mod 64) (x ! (i - s div 64)) OR
    (if s div 64 < i \<and> 0 < s mod 64 then drop_bit (64 - s mod 64) (x ! (i - 1 - s div 64)) else 0))"
proof -
  let ?n = "length x" and ?lw = "s div 64" and ?ls = "s mod 64"
  let ?r1 = "fold (\<lambda>i ret. ret[i := push_bit ?ls (x ! (i - ?lw))]) [?lw..<?n] (replicate ?n 0)"
  have r1: "?r1 ! i = (if i < ?lw then 0 else push_bit ?ls (x ! (i - ?lw)))"
    using fold_update_nth [of "\<lambda>i. i" "[?lw..<?n]" "replicate ?n 0" "\<lambda>i _. push_bit ?ls (x ! (i - ?lw))"] assms(2)
    by (cases "i < ?lw") auto
  have l1: "length ?r1 = ?n" by (simp add: length_fold_same)
  have r2: "fold (\<lambda>i ret. ret[i := ret ! i OR drop_bit (64 - ?ls) (x ! (i - 1 - ?lw))]) [?lw + 1..<?n] ?r1 ! i =
    (if ?lw < i then ?r1 ! i OR drop_bit (64 - ?ls) (x ! (i - 1 - ?lw)) else ?r1 ! i)"
    using fold_update_nth [of "\<lambda>i. i" "[?lw + 1..<?n]" ?r1 "\<lambda>i v. v OR drop_bit (64 - ?ls) (x ! (i - 1 - ?lw))"] assms(2) l1
    by (cases "?lw < i") auto
  show ?thesis
    unfolding uint_shl_def overflowing_shl_def Let_def uint_BITS_def using assms(1) r1 r2 by auto
qed

lemma length_uint_shl [simp]: "length (uint_shl x s) = length x"
  by (simp add: uint_shl_def overflowing_shl_def Let_def length_fold_same)

lemma div_mod_64: "m = 64 * q + r \<Longrightarrow> r < 64 \<Longrightarrow> m div 64 = q \<and> m mod 64 = r" for m q r :: nat
  by simp

lemma div_mod_diff:
  fixes k s :: nat
  assumes "s \<le> k"
  shows "(k - s) div 64 = (if s mod 64 \<le> k mod 64 then k div 64 - s div 64 else k div 64 - s div 64 - 1)"
    "(k - s) mod 64 = (if s mod 64 \<le> k mod 64 then k mod 64 - s mod 64 else 64 + k mod 64 - s mod 64)"
    "s mod 64 > k mod 64 \<Longrightarrow> s div 64 < k div 64"
proof -
  define q r a b where "q = k div 64" "r = k mod 64" "a = s div 64" "b = s mod 64"
  have k: "k = 64 * q + r" "r < 64" and s: "s = 64 * a + b" "b < 64" by (simp_all add: q_r_a_b_def)
  show "s mod 64 > k mod 64 \<Longrightarrow> s div 64 < k div 64" using assms k s by (simp flip: q_r_a_b_def)
  have "(k - s) div 64 = (if b \<le> r then q - a else q - a - 1) \<and> (k - s) mod 64 = (if b \<le> r then r - b else 64 + r - b)"
  proof (cases "b \<le> r")
    case True
    then have "k - s = 64 * (q - a) + (r - b)" using assms k s by (auto simp: diff_mult_distrib2)
    from div_mod_64 [OF this] show ?thesis using True k(2) by simp
  next
    case False
    then have "a < q" using assms k s by simp
    then obtain d where "q = Suc (a + d)" using less_iff_Suc_add by auto
    then have "k - s = 64 * (q - a - 1) + (64 + r - b)" using False assms k s by simp
    from div_mod_64 [OF this] show ?thesis using False k(2) s(2) by simp
  qed
  then show "(k - s) div 64 = (if s mod 64 \<le> k mod 64 then k div 64 - s div 64 else k div 64 - s div 64 - 1)"
    "(k - s) mod 64 = (if s mod 64 \<le> k mod 64 then k mod 64 - s mod 64 else 64 + k mod 64 - s mod 64)"
    by (simp_all flip: q_r_a_b_def)
qed

lemma div_lex: "64 * q + r < 64 * a + b \<Longrightarrow> r < 64 \<Longrightarrow> b < 64 \<Longrightarrow> q < a \<or> q = a \<and> r < b" for q r a b :: nat
  by linarith

lemma bit_uint_shl:
  assumes "s < 64 * length x"
  shows "bit (uval (uint_shl x s)) k \<longleftrightarrow> k < 64 * length x \<and> s \<le> k \<and> bit (uval x) (k - s)"
proof (cases "k < 64 * length x")
  case True
  let ?i = "k div 64" and ?b = "k mod 64" and ?lw = "s div 64" and ?ls = "s mod 64"
  have i: "?i < length x" using True by (simp add: div_less_iff_less_mult)
  have nth: "bit (uval (uint_shl x s)) k \<longleftrightarrow> bit (uint_shl x s ! ?i) ?b" by (simp add: bit_uval True)
  show ?thesis
  proof (cases "s \<le> k")
    case False
    then have "k < s" by simp
    then have "?i < ?lw \<or> ?i = ?lw \<and> ?b < ?ls" using div_lex [of ?i ?b ?lw ?ls] by simp
    then show ?thesis unfolding nth shl_nth [OF assms i] using False by (auto simp: bit_simps)
  next
    case sk: True
    then have le: "?lw \<le> ?i" by (rule div_le_mono)
    note dm = div_mod_diff [OF sk]
    have "k - s < 64 * length x" using True by simp
    then have x: "bit (uval x) (k - s) \<longleftrightarrow> bit (x ! ((k - s) div 64)) ((k - s) mod 64)" by (simp add: bit_uval)
    have "\<not> bit (w :: u64) (64 + ?b - ?ls)" if "?ls \<le> ?b" for w using that bit_imp_le_length [of w "64 + ?b - ?ls"] by auto
    then show ?thesis unfolding nth shl_nth [OF assms i] x using le sk True dm(3)
      by (auto simp: bit_simps dm(1,2))
  qed
qed (simp add: bit_uval)

lemma uval_uint_shl:
  assumes "s < 64 * length x"
  shows "uval (uint_shl x s) = uval x * 2 ^ s mod 2 ^ (64 * length x)"
proof -
  have "uval (uint_shl x s) = take_bit (64 * length x) (push_bit s (uval x))"
    by (rule bit_eqI) (auto simp: bit_uint_shl [OF assms] bit_simps)
  then show ?thesis by (simp add: take_bit_eq_mod push_bit_eq_mult)
qed

lemma shr_nth:
  assumes "s < 64 * length x" and "i < length x"
  shows "uint_shr x s ! i = (if length x \<le> i + s div 64 then 0 else drop_bit (s mod 64) (x ! (i + s div 64)) OR
    (if i + s div 64 + 1 < length x \<and> 0 < s mod 64 then push_bit (64 - s mod 64) (x ! (i + s div 64 + 1)) else 0))"
proof -
  let ?n = "length x" and ?lw = "s div 64" and ?ls = "s mod 64"
  let ?r1 = "fold (\<lambda>i ret. ret[i - ?lw := drop_bit ?ls (x ! i)]) [?lw..<?n] (replicate ?n 0)"
  have d1: "distinct (map (\<lambda>i. i - ?lw) [?lw..<?n])" and d2: "distinct (map (\<lambda>i. i - ?lw - 1) [?lw + 1..<?n])"
    by (auto simp: distinct_map inj_on_def)
  have b1: "\<forall>i\<in>set [?lw..<?n]. i - ?lw < length (replicate ?n (0 :: u64))" by auto
  have r1: "?r1 ! i = (if ?n \<le> i + ?lw then 0 else drop_bit ?ls (x ! (i + ?lw)))"
  proof (cases "?n \<le> i + ?lw")
    case True
    then have "i \<notin> (\<lambda>i. i - ?lw) ` set [?lw..<?n]" by auto
    from fold_update_other [OF d1 b1 this, of "\<lambda>i _. drop_bit ?ls (x ! i)"] show ?thesis using True assms(2) by simp
  next
    case False
    then have "i + ?lw \<in> set [?lw..<?n]" by auto
    from fold_update_at [OF d1 b1 this, of "\<lambda>i _. drop_bit ?ls (x ! i)"] show ?thesis using False by simp
  qed
  have l1: "length ?r1 = ?n" by (simp add: length_fold_same)
  have b2: "\<forall>i\<in>set [?lw + 1..<?n]. i - ?lw - 1 < length ?r1" unfolding l1 by auto
  have r2: "fold (\<lambda>i ret. ret[i - ?lw - 1 := ret ! (i - ?lw - 1) OR push_bit (64 - ?ls) (x ! i)]) [?lw + 1..<?n] ?r1 ! i =
    (if i + ?lw + 1 < ?n then ?r1 ! i OR push_bit (64 - ?ls) (x ! (i + ?lw + 1)) else ?r1 ! i)"
  proof (cases "i + ?lw + 1 < ?n")
    case True
    then have "i + ?lw + 1 \<in> set [?lw + 1..<?n]" by auto
    from fold_update_at [OF d2 b2 this, of "\<lambda>i v. v OR push_bit (64 - ?ls) (x ! i)"] show ?thesis using True by simp
  next
    case False
    then have "i \<notin> (\<lambda>i. i - ?lw - 1) ` set [?lw + 1..<?n]" by auto
    from fold_update_other [OF d2 b2 this, of "\<lambda>i v. v OR push_bit (64 - ?ls) (x ! i)"] show ?thesis using False by simp
  qed
  show ?thesis
    unfolding uint_shr_def overflowing_shr_def Let_def uint_BITS_def using assms(1) r1 r2 by auto
qed

lemma length_uint_shr [simp]: "length (uint_shr x s) = length x"
  by (simp add: uint_shr_def overflowing_shr_def Let_def length_fold_same)

lemma div_mod_add:
  fixes k s :: nat
  shows "(k + s) div 64 = k div 64 + s div 64 + (if k mod 64 + s mod 64 < 64 then 0 else 1)"
    "(k + s) mod 64 = (if k mod 64 + s mod 64 < 64 then k mod 64 + s mod 64 else k mod 64 + s mod 64 - 64)"
proof -
  define q r a b where "q = k div 64" "r = k mod 64" "a = s div 64" "b = s mod 64"
  have k: "k = 64 * q + r" "r < 64" and s: "s = 64 * a + b" "b < 64" by (simp_all add: q_r_a_b_def)
  have "(k + s) div 64 = q + a + (if r + b < 64 then 0 else 1) \<and> (k + s) mod 64 = (if r + b < 64 then r + b else r + b - 64)"
    by (rule div_mod_64) (use k s in auto)
  then show "(k + s) div 64 = k div 64 + s div 64 + (if k mod 64 + s mod 64 < 64 then 0 else 1)"
    "(k + s) mod 64 = (if k mod 64 + s mod 64 < 64 then k mod 64 + s mod 64 else k mod 64 + s mod 64 - 64)"
    by (simp_all flip: q_r_a_b_def)
qed

lemma less_64_mult: "k < 64 * n \<longleftrightarrow> k div 64 < n" for k n :: nat
  by (simp add: div_less_iff_less_mult mult.commute)

lemma bit_uint_shr:
  assumes "s < 64 * length x"
  shows "bit (uval (uint_shr x s)) k \<longleftrightarrow> bit (uval x) (k + s)"
proof (cases "k < 64 * length x")
  case True
  let ?i = "k div 64" and ?b = "k mod 64" and ?lw = "s div 64" and ?ls = "s mod 64"
  have i: "?i < length x" using True by (simp add: less_64_mult)
  have nth: "bit (uval (uint_shr x s)) k \<longleftrightarrow> bit (uint_shr x s ! ?i) ?b" by (simp add: bit_uval True)
  have w: "\<not> bit (w :: u64) (?b + ?ls)" "\<not> bit w (?ls + ?b)" if "64 \<le> ?b + ?ls" for w
    using that bit_imp_le_length [of w "?b + ?ls"] by (auto simp: add.commute)
  show ?thesis unfolding nth shr_nth [OF assms i] bit_uval less_64_mult div_mod_add using w
    by (auto simp: bit_simps add.commute add.left_commute)
next
  case False
  then show ?thesis by (simp add: bit_uval)
qed

lemma uval_uint_shr:
  assumes "s < 64 * length x"
  shows "uval (uint_shr x s) = uval x div 2 ^ s"
proof -
  have "uval (uint_shr x s) = drop_bit s (uval x)"
    by (rule bit_eqI) (simp add: bit_uint_shr [OF assms] bit_simps add.commute)
  then show ?thesis by (simp add: drop_bit_eq_div)
qed

section \<open>Bit lengths\<close>

lemma bit_len_0 [simp]: "bit_len 0 = 0" and bit_len_pos: "n \<noteq> 0 \<Longrightarrow> bit_len n = Suc (bit_len (n div 2))"
  by (simp_all add: bit_len.simps [of n] bit_len.simps [of 0])

lemma bit_len_upper: "n < 2 ^ bit_len n"
proof (induction n rule: bit_len.induct)
  case (1 n)
  show ?case
  proof (cases "n = 0")
    case False
    then have "n div 2 + 1 \<le> 2 ^ bit_len (n div 2)" using 1 by simp
    then have "n < 2 * 2 ^ bit_len (n div 2)" by linarith
    then show ?thesis using False by (simp add: bit_len_pos)
  qed simp
qed

lemma bit_len_lower: "n \<noteq> 0 \<Longrightarrow> 2 ^ (bit_len n - 1) \<le> n"
proof (induction n rule: bit_len.induct)
  case (1 n)
  show ?case
  proof (cases "n div 2 = 0")
    case True
    then show ?thesis using 1 by (simp add: bit_len_pos)
  next
    case False
    then have "2 ^ (bit_len (n div 2) - 1) \<le> n div 2" using 1 by simp
    moreover have "bit_len (n div 2) = Suc (bit_len (n div 2) - 1)" using False by (simp add: bit_len_pos)
    ultimately have "2 ^ bit_len (n div 2) \<le> 2 * (n div 2)" by (metis mult_le_mono2 power_Suc)
    then show ?thesis using 1 by (simp add: bit_len_pos)
  qed
qed

lemma bit_len_le: "n < 2 ^ k \<Longrightarrow> bit_len n \<le> k"
proof (cases "n = 0")
  case False
  assume "n < 2 ^ k"
  then have "(2 :: nat) ^ (bit_len n - 1) < 2 ^ k" by (rule le_less_trans [OF bit_len_lower [OF False]])
  then have "bit_len n - 1 < k" by (rule power_less_imp_less_exp [rotated]) simp
  then show ?thesis by simp
qed simp

lemma bit_len_unique: "2 ^ k \<le> n \<Longrightarrow> n < 2 ^ Suc k \<Longrightarrow> bit_len n = Suc k"
proof -
  assume n: "2 ^ k \<le> n" "n < 2 ^ Suc k"
  then have "(2 :: nat) ^ k < 2 ^ bit_len n" by (intro le_less_trans [OF _ bit_len_upper])
  then have "k < bit_len n" by (rule power_less_imp_less_exp [rotated]) simp
  then show ?thesis using bit_len_le [OF n(2)] by simp
qed

lemma bit_len_add_high:
  assumes "u < 2 ^ m" and "v \<noteq> 0"
  shows "bit_len (u + 2 ^ m * v) = m + bit_len v"
proof -
  obtain k where k: "bit_len v = Suc k" using assms(2) by (simp add: bit_len_pos)
  have v: "2 ^ k \<le> v" "v < 2 ^ Suc k" using bit_len_lower [OF assms(2)] bit_len_upper [of v] k by simp_all
  have "u + 2 ^ m * v < 2 ^ m * (v + 1)" using assms(1) by simp
  also have "\<dots> \<le> 2 ^ m * 2 ^ Suc k" using v(2) by (intro mult_le_mono2) simp
  finally have "u + 2 ^ m * v < 2 ^ Suc (m + k)" by (simp add: power_add)
  moreover have "2 ^ (m + k) \<le> u + 2 ^ m * v" unfolding power_add by (rule trans_le_add2 [OF mult_le_mono2 [OF v(1)]])
  ultimately have "bit_len (u + 2 ^ m * v) = Suc (m + k)" by (intro bit_len_unique)
  then show ?thesis using k by simp
qed

lemma bits_from_uval: "bits_from (length ws) ws = bit_len (uval (rev ws))"
proof (induction ws)
  case (Cons a ws)
  have u: "uval (rev (a # ws)) = uval (rev ws) + 2 ^ (64 * length ws) * unat a" by (simp add: uval_append)
  show ?case
  proof (cases "a = 0")
    case True
    then show ?thesis using Cons unfolding u by simp
  next
    case False
    have "bit_len (unat a) \<le> 64" using bit_len_le [OF unat_less_exp [of a]] by simp
    then have "64 * length (a # ws) - u64_leading_zeros a = 64 * length ws + bit_len (unat a)"
      by (simp add: u64_leading_zeros_def)
    then show ?thesis unfolding u using False bit_len_add_high [of "uval (rev ws)" "64 * length ws" "unat a"]
        uval_bound [of "rev ws"] by (simp add: unat_eq_zero)
  qed
qed simp

lemma uint_bits_uval: "uint_bits x = bit_len (uval x)"
  using bits_from_uval [of "rev x"] by (simp add: uint_bits_def)

section \<open>Division\<close>

lemma uval_set_bit:
  assumes "s < 64 * length ret" and "\<not> bit (uval ret) s"
  shows "uval (ret[s div 64 := ret ! (s div 64) OR push_bit (s mod 64) 1]) = uval ret + 2 ^ s"
proof -
  let ?i = "s div 64" and ?b = "s mod 64"
  have i: "?i < length ret" using assms(1) by (simp add: less_64_mult)
  have nb: "\<not> bit (ret ! ?i) ?b" using assms by (simp add: bit_uval)
  have "unat (push_bit ?b 1 :: u64) = push_bit ?b 1" by (rule bit_eqI) (auto simp: bit_simps bit_unat)
  then have "unat (ret ! ?i OR push_bit ?b 1) = unat (ret ! ?i) OR push_bit ?b 1" by (simp add: unsigned_or_eq)
  also have "\<dots> = unat (ret ! ?i) + push_bit ?b 1"
  proof (rule disjunctive_add_eq_or [symmetric])
    show "unat (ret ! ?i) AND push_bit ?b 1 = 0" using nb by (intro bit_eqI) (auto simp: bit_simps bit_unat)
  qed
  finally have "unat (ret ! ?i OR push_bit ?b 1) = unat (ret ! ?i) + 2 ^ ?b" by (simp add: push_bit_eq_mult)
  moreover have "2 ^ ?b * 2 ^ (64 * ?i) = (2 :: nat) ^ s" by (simp add: power_add [symmetric])
  ultimately show ?thesis using uval_update [OF i, of "ret ! ?i OR push_bit ?b 1"] by (simp add: algebra_simps)
qed

end
