(* ===== verification/Uint_Div.thy ===== *)
theory Uint_Div
  imports Uint_Arith
begin

text \<open>
  Multiplication, division, byte encodings and compact targets of the limb integers: the schoolbook
  product and its overflow flag, bitwise long division, division by a single limb, the byte codecs, and
  the compact difficulty encoding of src/math/src/lib.rs.
\<close>

section \<open>Long division\<close>

lemma div_step_correct:
  assumes "div_step s (ret, sub) sc = (ret', sub')"
    and "length sub = n" and "length sc = n" and "length ret = n" and "s < 64 * n"
    and "uval sc = b * 2 ^ s" and "uval sub < b * 2 ^ Suc s" and "2 ^ Suc s dvd uval ret"
  shows "length sub' = n \<and> length ret' = n \<and> uval sub' < b * 2 ^ s \<and> 2 ^ s dvd uval ret' \<and>
    uval ret' * b + uval sub' = uval ret * b + uval sub"
proof -
  have nb: "\<not> bit (uval ret) s"
    using assms(8) by (auto simp: bit_iff_odd dvd_def)
  have dvd: "2 ^ s dvd uval ret" using assms(8) by (rule dvd_trans [rotated]) (simp add: le_imp_power_dvd)
  show ?thesis
  proof (cases "uval sub < uval sc")
    case True
    then have "ret' = ret" "sub' = sub" using assms(1,2,3) by (simp_all add: div_step_def uint_less_uval)
    then show ?thesis using True assms dvd by simp
  next
    case False
    then have "ret' = ret[s div 64 := ret ! (s div 64) OR push_bit (s mod 64) 1]" "sub' = uint_sub sub sc"
      using assms(1,2,3) by (simp_all add: div_step_def uint_less_uval)
    moreover have "uval (uint_sub sub sc) = uval sub - uval sc" "length (uint_sub sub sc) = n"
      using uval_uint_sub [of sub sc] False assms(2,3) by simp_all
    moreover have "uval (ret[s div 64 := ret ! (s div 64) OR push_bit (s mod 64) 1]) = uval ret + 2 ^ s"
      using uval_set_bit [OF _ nb] assms(4,5) by simp
    ultimately show ?thesis using False assms(4,6,7) dvd by (simp add: algebra_simps)
  qed
qed

lemma div_loop_correct:
  assumes "div_loop s (ret, sub) sc = (q, r)"
    and "length sub = n" and "length sc = n" and "length ret = n" and "s < 64 * n"
    and "uval sc = b * 2 ^ s" and "uval sub < b * 2 ^ Suc s" and "2 ^ Suc s dvd uval ret"
  shows "length q = n \<and> length r = n \<and> uval r < b \<and> uval q * b + uval r = uval ret * b + uval sub"
  using assms
proof (induction s arbitrary: ret sub sc)
  case 0
  then show ?case using div_step_correct [of 0 ret sub sc q r n b] by simp
next
  case (Suc s)
  obtain ret' sub' where st: "div_step (Suc s) (ret, sub) sc = (ret', sub')" by force
  note c = div_step_correct [OF st Suc.prems(2-8)]
  have "uval (uint_shr sc 1) = b * 2 ^ s" using uval_uint_shr [of 1 sc] Suc.prems(3,5,6) by simp
  then show ?case using Suc.IH [of ret' sub' "uint_shr sc 1"] Suc.prems(1,3,5) st c by simp
qed

lemma div_rem_correct:
  assumes "length x = length y" and "uval y \<noteq> 0"
  shows "\<exists>q r. div_rem x y = Ok (q, r) \<and> length q = length x \<and> length r = length x \<and>
    uval q = uval x div uval y \<and> uval r = uval x mod uval y"
proof (cases "uint_bits x < uint_bits y")
  case True
  have "uval x < uval y"
  proof -
    have "uval x < 2 ^ bit_len (uval x)" by (rule bit_len_upper)
    also have "\<dots> \<le> 2 ^ (bit_len (uval y) - 1)" using True by (intro power_increasing) (simp_all add: uint_bits_uval)
    also have "\<dots> \<le> uval y" using assms(2) by (rule bit_len_lower)
    finally show ?thesis .
  qed
  then show ?thesis using True assms(2)
    by (simp add: div_rem_def uint_bits_uval bit_len_pos)
next
  case False
  define s where "s = uint_bits x - uint_bits y"
  have yb: "uint_bits y \<noteq> 0" using assms(2) by (simp add: uint_bits_uval bit_len_pos)
  have xb: "uint_bits x \<le> 64 * length x" using bit_len_le [OF uval_bound [of x]] by (simp add: uint_bits_uval)
  have s: "s < 64 * length y" using xb yb False assms(1) by (simp add: s_def)
  have e: "bit_len (uval y) + s = bit_len (uval x)" using False by (simp add: s_def uint_bits_uval)
  have "uval y * 2 ^ s < 2 ^ bit_len (uval y) * 2 ^ s" using bit_len_upper [of "uval y"] by simp
  also have "\<dots> = 2 ^ bit_len (uval x)" unfolding power_add [symmetric] e ..
  also have "\<dots> \<le> 2 ^ (64 * length y)" using xb assms(1) by (intro power_increasing) (simp_all add: uint_bits_uval)
  finally have shl: "uval (uint_shl y s) = uval y * 2 ^ s" using uval_uint_shl [OF s] by simp
  have "uval x < 2 ^ (bit_len (uval y) - 1 + Suc s)" using bit_len_upper [of "uval x"] yb e by (simp add: uint_bits_uval)
  also have "\<dots> \<le> uval y * 2 ^ Suc s" unfolding power_add using bit_len_lower [OF assms(2)] by (rule mult_le_mono1)
  finally have x: "uval x < uval y * 2 ^ Suc s" .
  obtain q r where qr: "div_loop s (replicate (length x) 0, x) (uint_shl y s) = (q, r)" by force
  have "length q = length x \<and> length r = length x \<and> uval r < uval y \<and> uval q * uval y + uval r = uval x"
    using div_loop_correct [OF qr, of "length x" "uval y"] s shl x assms(1) by simp
  moreover have "div_rem x y = Ok (q, r)" using False yb qr by (simp add: div_rem_def s_def)
  moreover have "uval x div uval y = uval q \<and> uval x mod uval y = uval r"
    if "uval r < uval y" "uval q * uval y + uval r = uval x"
    using that assms(2) by (metis add.commute add_0 div_less div_mult_self1 mod_less mod_mult_self1)
  ultimately show ?thesis by auto
qed

section \<open>Multiplication\<close>

lemma unat_ucast_u64_u128 [simp]: "unat (ucast (w :: u64) :: 128 word) = unat w"
  by (rule unat_ucast_up) simp

lemma unat_low_limb: "unat (ucast (n :: 128 word) :: u64) = unat n mod 2 ^ 64"
  by (simp add: unsigned_ucast_eq take_bit_eq_mod)

lemma unat_high_limb: "unat (ucast (drop_bit 64 n) :: u64) = unat n div 2 ^ 64" for n :: "128 word"
proof -
  have "unat (drop_bit 64 n) = unat n div 2 ^ 64" by (simp add: drop_bit_eq_div unat_div)
  moreover have "unat n div 2 ^ 64 < 2 ^ 64" using unat_less_exp [of n] by (simp add: less_mult_imp_div_less)
  ultimately show ?thesis by (simp add: unat_low_limb)
qed

lemma limb_split: "unat (ucast n :: u64) + 2 ^ 64 * unat (ucast (drop_bit 64 n) :: u64) = unat n" for n :: "128 word"
  by (simp only: unat_high_limb unat_low_limb [of n] mod_mult_div_eq)

lemma limb_product_bound:
  fixes a b c d :: u64
  shows "unat a * unat b + unat c + unat d < 2 ^ 128"
proof -
  have m: "unat w \<le> 2 ^ 64 - 1" for w :: u64 using unat_less_exp [of w] by simp
  have "unat a * unat b \<le> (2 ^ 64 - 1) * (2 ^ 64 - 1)" using m by (intro mult_le_mono)
  then have "unat a * unat b + unat c + unat d \<le> (2 ^ 64 - 1) * (2 ^ 64 - 1) + (2 ^ 64 - 1) + (2 ^ 64 - 1)"
    using m [of c] m [of d] by linarith
  also have "\<dots> < 2 ^ 128" by simp
  finally show ?thesis .
qed

lemma mul_step_returns:
  "returns (\<lambda>(res', c'). \<exists>l. res' = res[i + j := l] \<and>
      unat l + 2 ^ 64 * unat c' = unat (x ! i) * unat (y ! j) + unat (res ! (i + j)) + unat c)
    (mul_step x y j i (res, c))"
  using limb_product_bound [of "x ! i" "y ! j" "res ! (i + j)" c]
  by (auto simp: mul_step_def returns_simps limb_split [unfolded power_numeral, simplified] intro!: exI conjI [OF refl])

lemma upt_prefix: "[0..<m] = ys @ y # zs \<Longrightarrow> y = length ys \<and> y < m"
proof -
  assume a: "[0..<m] = ys @ y # zs"
  then have l: "length ys < m" by (metis diff_zero length_append length_upt less_add_same_cancel1 list.size(4) zero_less_Suc add_gr_0)
  have "y = [0..<m] ! length ys" by (simp add: a)
  then show ?thesis using l by simp
qed

lemma uval_take_Suc: "i < length x \<Longrightarrow> uval (take (Suc i) x) = uval (take i x) + 2 ^ (64 * i) * unat (x ! i)"
  by (simp add: take_Suc_conv_app_nth uval_append min_def)

lemma mul_inner_returns:
  assumes "length res0 = length x" and "length y = length x" and "j < length x"
  shows "returns (\<lambda>(res, c). length res = length x \<and>
      uval res + unat c * 2 ^ (64 * length x) = uval res0 + uval (take (length x - j) x) * unat (y ! j) * 2 ^ (64 * j))
    (ofold (mul_step x y j) [0..<length x - j] (res0, 0))"
proof -
  let ?I = "\<lambda>ys (res, c). length res = length x \<and>
    uval res + unat c * 2 ^ (64 * (length ys + j)) = uval res0 + uval (take (length ys) x) * unat (y ! j) * 2 ^ (64 * j)"
  have "returns (?I [0..<length x - j]) (ofold (mul_step x y j) [0..<length x - j] (res0, 0))"
  proof (rule returns_ofold)
    show "?I [] (res0, 0)" using assms(1) by simp
    fix ys i zs and st :: "limbs \<times> u64"
    assume p: "[0..<length x - j] = ys @ i # zs" and I: "?I ys st"
    obtain res c where st: "st = (res, c)" by force
    have i: "i = length ys" "i + j < length x" using upt_prefix [OF p] by linarith+
    show "returns (?I (ys @ [i])) (mul_step x y j i st)"
      unfolding st
    proof (rule returns_mono [OF mul_step_returns], clarify)
      fix res' and c' l :: u64
      assume l: "unat l + 2 ^ 64 * unat c' = unat (x ! i) * unat (y ! j) + unat (res ! (i + j)) + unat c"
      let ?B = "2 ^ (64 * (i + j)) :: nat"
      have len: "length res = length x"
        and eq: "uval res + unat c * ?B = uval res0 + uval (take i x) * unat (y ! j) * 2 ^ (64 * j)"
        using I st i(1) by auto
      have u: "uval (res[i + j := l]) + unat (res ! (i + j)) * ?B = uval res + unat l * ?B"
        using uval_update [of "i + j" res l] i len by simp
      have "uval (res[i + j := l]) + unat c' * 2 ^ (64 * (Suc i + j)) + unat (res ! (i + j)) * ?B =
        uval res + (unat l + 2 ^ 64 * unat c') * ?B"
        using u by (simp add: power_add algebra_simps)
      also have "\<dots> = uval res + unat c * ?B + unat (x ! i) * unat (y ! j) * ?B + unat (res ! (i + j)) * ?B"
        unfolding l by (simp add: algebra_simps)
      finally have "uval (res[i + j := l]) + unat c' * 2 ^ (64 * (Suc i + j)) =
        uval res0 + (uval (take i x) + 2 ^ (64 * i) * unat (x ! i)) * unat (y ! j) * 2 ^ (64 * j)"
        unfolding eq by (simp add: power_add algebra_simps)
      moreover have "uval (take (Suc i) x) = uval (take i x) + 2 ^ (64 * i) * unat (x ! i)"
        using i(2) by (intro uval_take_Suc) simp
      ultimately show "length (res[i + j := l]) = length x \<and>
        uval (res[i + j := l]) + unat c' * 2 ^ (64 * (length (ys @ [i]) + j)) =
        uval res0 + uval (take (length (ys @ [i])) x) * unat (y ! j) * 2 ^ (64 * j)"
        using len i(1) by simp
    qed
  qed
  then show ?thesis using assms(3) by (simp add: case_prod_unfold)
qed

lemma mul_row_returns:
  assumes "length res = length x" and "length y = length x" and "j < length x"
    and "uval res = P mod 2 ^ (64 * length x)" and "co \<longrightarrow> 2 ^ (64 * length x) \<le> P"
  shows "returns (\<lambda>(res', co'). length res' = length x \<and>
      uval res' = (P + uval x * (2 ^ (64 * j) * unat (y ! j))) mod 2 ^ (64 * length x) \<and>
      (co' \<longrightarrow> 2 ^ (64 * length x) \<le> P + uval x * (2 ^ (64 * j) * unat (y ! j))))
    (mul_row x y j (res, co))"
proof -
  let ?M = "2 ^ (64 * length x) :: nat" and ?T = "uval (take (length x - j) x)" and ?D = "uval (drop (length x - j) x)"
  let ?Q = "?T * unat (y ! j) * 2 ^ (64 * j)"
  have "uval x = uval (take (length x - j) x @ drop (length x - j) x)" by simp
  also have "\<dots> = ?T + 2 ^ (64 * (length x - j)) * ?D" unfolding uval_append by simp
  finally have x: "uval x = ?T + 2 ^ (64 * (length x - j)) * ?D" .
  have "2 ^ (64 * (length x - j)) * 2 ^ (64 * j) = ?M"
    using assms(3) by (simp add: power_add [symmetric] algebra_simps flip: add_mult_distrib2)
  then have xq: "uval x * (2 ^ (64 * j) * unat (y ! j)) = ?Q + ?M * (?D * unat (y ! j))"
    unfolding x by (simp add: algebra_simps)
  have out: "length res' = length x \<and> uval res' = (P + uval x * (2 ^ (64 * j) * unat (y ! j))) mod ?M \<and>
      ((co \<or> c \<noteq> 0) \<longrightarrow> ?M \<le> P + uval x * (2 ^ (64 * j) * unat (y ! j)))"
    if "length res' = length x" "uval res' + unat c * ?M = uval res + ?Q" for res' and c :: u64
  proof -
    have "uval res' = (uval res' + unat c * ?M) mod ?M" using uval_bound [of res'] that(1) by simp
    also have "\<dots> = (P mod ?M + ?Q) mod ?M" unfolding that(2) assms(4) ..
    also have "\<dots> = (P + uval x * (2 ^ (64 * j) * unat (y ! j))) mod ?M" unfolding xq
      by (simp add: mod_add_left_eq add.assoc [symmetric])
    finally have r: "uval res' = (P + uval x * (2 ^ (64 * j) * unat (y ! j))) mod ?M" .
    have "?M \<le> P + uval x * (2 ^ (64 * j) * unat (y ! j))" if "c \<noteq> 0"
    proof -
      have "?M \<le> unat c * ?M" using that by (simp add: unat_eq_zero Suc_leI unat_gt_0)
      also have "\<dots> \<le> P mod ?M + ?Q" using \<open>uval res' + unat c * ?M = uval res + ?Q\<close> assms(4) by linarith
      also have "\<dots> \<le> P + uval x * (2 ^ (64 * j) * unat (y ! j))"
        unfolding xq by (simp add: add_mono trans_le_add1)
      finally show ?thesis .
    qed
    then show ?thesis using r that(1) assms(5) by (auto intro: trans_le_add1)
  qed
  show ?thesis unfolding mul_row_def
    using mul_inner_returns [OF assms(1-3)] out by (fastforce simp: returns_obind elim!: returns_mono)
qed

lemma overflowing_mul_returns:
  assumes "length y = length x"
  shows "returns (\<lambda>(z, c). length z = length x \<and> uval z = uval x * uval y mod 2 ^ (64 * length x) \<and>
      (c \<longrightarrow> 2 ^ (64 * length x) \<le> uval x * uval y)) (overflowing_mul x y)"
proof -
  let ?M = "2 ^ (64 * length x) :: nat"
  let ?I = "\<lambda>ys (res, c). length res = length x \<and> uval res = uval x * uval (take (length ys) y) mod ?M \<and>
    (c \<longrightarrow> ?M \<le> uval x * uval (take (length ys) y))"
  have "returns (?I [0..<length x]) (ofold (mul_row x y) [0..<length x] (uint_ZERO (length x), False))"
  proof (rule returns_ofold)
    show "?I [] (uint_ZERO (length x), False)" by (simp add: uint_ZERO_def)
    fix ys j zs and st :: "limbs \<times> bool"
    assume p: "[0..<length x] = ys @ j # zs" and I: "?I ys st"
    obtain res co where st: "st = (res, co)" by force
    have j: "j = length ys" "j < length x" using upt_prefix [OF p] by linarith+
    have "uval (take (length (ys @ [j])) y) = uval (take j y) + 2 ^ (64 * j) * unat (y ! j)"
      using j assms uval_take_Suc [of j y] by simp
    then have e: "uval x * uval (take (length (ys @ [j])) y) = uval x * uval (take j y) + uval x * (2 ^ (64 * j) * unat (y ! j))"
      by (simp add: add_mult_distrib2)
    show "returns (?I (ys @ [j])) (mul_row x y j st)"
      using mul_row_returns [of res x y j "uval x * uval (take j y)" co] I st j assms unfolding e by simp
  qed
  then show ?thesis using assms by (simp add: overflowing_mul_def)
qed

lemma mul_u64_loop_returns:
  assumes "unat carry < 2 ^ 64"
  shows "returns (\<lambda>(z, c). length z = length x \<and> uval z + 2 ^ (64 * length x) * unat c = unat v * uval x + unat carry)
    (mul_u64_loop x v carry :: ('e, limbs \<times> u64) outcome)"
  using assms
proof (induction x arbitrary: carry)
  case Nil
  then show ?case by (simp add: unat_low_limb)
next
  case (Cons a x)
  define cw :: u64 where "cw = ucast carry"
  have cw: "unat cw = unat carry" using Cons.prems by (simp add: cw_def unat_low_limb)
  have b: "unat v * unat a + unat carry < 2 ^ 128"
    using limb_product_bound [of v a cw 0] cw by simp
  define n where "n = carry + ucast v * ucast a"
  have pm: "pmul (ucast v) (ucast a) = Ok (ucast v * ucast a :: 128 word)"
    using b by (simp add: pmul_def checked_mul_def)
  have uva: "unat (ucast v * ucast a :: 128 word) = unat v * unat a"
    using pm [THEN pmul_eq_Ok [THEN iffD1]] by simp
  have pa: "padd carry (ucast v * ucast a) = Ok n" using b by (simp add: n_def padd_eq uva)
  have un: "unat n = unat carry + unat v * unat a" using pa [THEN padd_eq_Ok [THEN iffD1]] uva by simp
  define c1 where "c1 = drop_bit 64 n AND 0xFFFFFFFFFFFFFFFF"
  have d: "unat (drop_bit 64 n) = unat n div 2 ^ 64" by (simp add: drop_bit_eq_div unat_div)
  have dl: "unat n div 2 ^ 64 < 2 ^ 64" using unat_less_exp [of n] by (simp add: less_mult_imp_div_less)
  have "c1 = take_bit 64 (drop_bit 64 n)" by (simp add: c1_def take_bit_eq_mask mask_eq_exp_minus_1)
  then have c1: "unat c1 = unat n div 2 ^ 64" using d dl by (simp add: unsigned_take_bit_eq take_bit_nat_eq_self)
  have "returns (\<lambda>(z, c). length z = length x \<and> uval z + 2 ^ (64 * length x) * unat c = unat v * uval x + unat n div 2 ^ 64)
    (mul_u64_loop x v c1 :: ('e, limbs \<times> u64) outcome)"
    using Cons.IH [of c1] dl unfolding c1 by simp
  then have "returns (\<lambda>(z, c). length z = length x \<and>
      unat n mod 2 ^ 64 + 2 ^ 64 * (uval z + 2 ^ (64 * length x) * unat c) = unat v * uval (a # x) + unat carry)
    (mul_u64_loop x v c1 :: ('e, limbs \<times> u64) outcome)"
  proof (rule returns_mono, clarify)
    fix z and c :: u64
    assume A: "uval z + 2 ^ (64 * length x) * unat c = unat v * uval x + unat n div 2 ^ 64"
    have "unat n mod 2 ^ 64 + 2 ^ 64 * (unat v * uval x + unat n div 2 ^ 64) =
      (unat n mod 2 ^ 64 + 2 ^ 64 * (unat n div 2 ^ 64)) + 2 ^ 64 * (unat v * uval x)"
      by (simp only: add_mult_distrib2 add.assoc add.commute add.left_commute)
    also have "\<dots> = unat v * uval (a # x) + unat carry" unfolding mod_mult_div_eq un by (simp add: algebra_simps)
    finally show "unat n mod 2 ^ 64 + 2 ^ 64 * (uval z + 2 ^ (64 * length x) * unat c) = unat v * uval (a # x) + unat carry"
      unfolding A .
  qed
  note rest = this
  have body: "mul_u64_loop (a # x) v carry = obind (mul_u64_loop x v c1) (\<lambda>(zs, c). Ok (ucast n # zs, c))"
    by (simp add: pm pa c1_def)
  show ?case unfolding body returns_obind
  proof (rule returns_mono [OF rest], clarify)
    fix z and c :: u64
    assume "unat n mod 2 ^ 64 + 2 ^ 64 * (uval z + 2 ^ (64 * length x) * unat c) = unat v * uval (a # x) + unat carry"
    then have "uval (ucast n # z) + 2 ^ (64 * length (a # x)) * unat c = unat v * uval (a # x) + unat carry"
      by (simp add: unat_low_limb power_add algebra_simps)
    then show "length z = length x \<Longrightarrow> returns (\<lambda>(z, c). length z = length (a # x) \<and>
      uval z + 2 ^ (64 * length (a # x)) * unat c = unat v * uval (a # x) + unat carry) (Ok (ucast n # z, c))" by simp
  qed
qed

lemma carrying_mul_u64_returns:
  "returns (\<lambda>(z, c). length z = length x \<and> uval z + 2 ^ (64 * length x) * unat c = unat v * uval x) (carrying_mul_u64 x v)"
  using mul_u64_loop_returns [of 0 x v] by (simp add: carrying_mul_u64_def)

section \<open>Division by a limb\<close>

lemma unat_limb_pair: "unat (push_bit 64 (ucast h) OR ucast l :: 128 word) = unat h * 2 ^ 64 + unat l" for h l :: u64
proof -
  have "bit (unat (push_bit 64 (ucast h) OR ucast l :: 128 word)) k = bit (unat l + 2 ^ 64 * unat h) k" for k
    using bit_imp_le_length [of h "k - 64"] bit_imp_le_length [of l k] bit_add_high [of "unat l" 64 "unat h" k]
      unat_less_exp [of l] by (auto simp: bit_unat bit_simps)
  then have "unat (push_bit 64 (ucast h) OR ucast l :: 128 word) = unat l + 2 ^ 64 * unat h" by (intro bit_eqI) blast
  then show ?thesis by simp
qed

lemma div_rem_u64_step_returns:
  assumes "unat rem < unat other"
  shows "returns (\<lambda>(q, r). unat r < unat other \<and> unat rem * 2 ^ 64 + unat d = unat q * unat other + unat r)
    (div_rem_u64_step other d rem)"
proof -
  let ?n = "push_bit 64 (ucast rem) OR ucast d :: 128 word"
  have o: "other \<noteq> 0" using assms by auto
  have "unat rem * 2 ^ 64 + unat d < unat other * 2 ^ 64"
  proof -
    have "unat rem * 2 ^ 64 + unat d < (unat rem + 1) * 2 ^ 64" using unat_less_exp [of d] by simp
    also have "\<dots> \<le> unat other * 2 ^ 64" using assms by (intro mult_le_mono1) simp
    finally show ?thesis .
  qed
  then have "unat ?n div unat other < 2 ^ 64" unfolding unat_limb_pair by (simp add: less_mult_imp_div_less mult.commute)
  then have q: "unat (ucast (?n div ucast other) :: u64) = unat ?n div unat other"
    by (simp add: unat_low_limb unat_div)
  have "unat ?n mod unat other < 2 ^ 64" using assms unat_less_exp [of other]
    by (intro less_trans [OF mod_less_divisor]) simp_all
  then have r: "unat (ucast (?n mod ucast other) :: u64) = unat ?n mod unat other"
    by (simp add: unat_low_limb unat_mod)
  show ?thesis unfolding div_rem_u64_step_def Let_def
    using o q r assms by (simp add: unat_limb_pair div_mult_mod_eq)
qed

lemma div_rem_u64_loop_returns:
  assumes "unat rem < unat other"
  shows "returns (\<lambda>(qs, r). length qs = length ds \<and> unat r < unat other \<and>
      unat rem * 2 ^ (64 * length ds) + uval (rev ds) = uval (rev qs) * unat other + unat r)
    (div_rem_u64_loop other ds rem :: ('e, _) outcome)"
  using assms
proof (induction ds arbitrary: rem)
  case (Cons d ds)
  have IH: "returns (\<lambda>(qs, r'). length qs = length ds \<and> unat r' < unat other \<and>
      unat r * 2 ^ (64 * length ds) + uval (rev ds) = uval (rev qs) * unat other + unat r')
    (div_rem_u64_loop other ds r :: ('e, _) outcome)" if "unat r < unat other" for r using Cons.IH [OF that] .
  have "returns (\<lambda>(qs, r'). length qs = Suc (length ds) \<and> unat r' < unat other \<and>
      unat rem * 2 ^ (64 * Suc (length ds)) + uval (rev (d # ds)) = uval (rev qs) * unat other + unat r')
    (obind (div_rem_u64_loop other ds r) (\<lambda>(qs, r'). Ok (q # qs, r')) :: ('e, _) outcome)"
    if r: "unat r < unat other" and e: "unat rem * 2 ^ 64 + unat d = unat q * unat other + unat r" for q r
    unfolding returns_obind
  proof (rule returns_mono [OF IH [OF r]], clarsimp)
    fix qs r'
    assume l: "length qs = length ds"
      and eq: "unat r * 2 ^ (64 * length ds) + uval (rev ds) = uval (rev qs) * unat other + unat r'"
    let ?B = "2 ^ (64 * length ds) :: nat"
    have "unat rem * 2 ^ (64 + 64 * length ds) + uval (rev ds @ [d]) = (unat rem * 2 ^ 64 + unat d) * ?B + uval (rev ds)"
      by (simp add: uval_append power_add algebra_simps)
    also have "\<dots> = unat q * unat other * ?B + (unat r * ?B + uval (rev ds))" unfolding e by (simp add: algebra_simps)
    also have "\<dots> = uval (rev qs @ [q]) * unat other + unat r'" unfolding eq by (simp add: uval_append l algebra_simps)
    finally show "unat rem * 2 ^ (64 + 64 * length ds) + uval (rev ds @ [d]) = uval (rev qs @ [q]) * unat other + unat r'" .
  qed
  then show ?case
    by (auto simp: returns_obind intro!: returns_mono [OF div_rem_u64_step_returns [OF Cons.prems]])
qed simp

lemma div_rem_u64_correct:
  assumes "other \<noteq> 0"
  shows "\<exists>q r. div_rem_u64 x other = (Ok (q, r) :: ('e, _) outcome) \<and> length q = length x \<and>
    uval q = uval x div unat other \<and> unat r = uval x mod unat other"
proof -
  obtain qs r where qr: "div_rem_u64_loop other (rev x) 0 = (Ok (qs, r) :: ('e, _) outcome)" "length qs = length x"
    "unat r < unat other" "uval x = uval (rev qs) * unat other + unat r"
    using div_rem_u64_loop_returns [of 0 other "rev x", where 'e = 'e] assms by (auto simp: returns_def unat_gt_0)
  then have "uval (rev qs) = uval x div unat other \<and> unat r = uval x mod unat other" by simp
  then show ?thesis using qr by (simp add: div_rem_u64_def)
qed

lemma div_rem_u64_zero: "x \<noteq> [] \<Longrightarrow> div_rem_u64 x 0 = Panic"
  by (cases "rev x") (simp_all add: div_rem_u64_def div_rem_u64_step_def)

end
