(* ===== verification/Uint_Codec.thy ===== *)
theory Uint_Codec
  imports Uint_Div
begin

text \<open>
  Byte codecs and the compact difficulty encoding of the limb integers, and the properties of the whole
  integer library.
\<close>

section \<open>Bytes\<close>

lemma chunks8_concat: "\<forall>c\<in>set cs. length c = 8 \<Longrightarrow> chunks8 (concat cs) = cs"
proof (induction cs)
  case (Cons c cs)
  then obtain a1 a2 a3 a4 a5 a6 a7 a8 where "c = [a1, a2, a3, a4, a5, a6, a7, a8]"
    by (auto simp: numeral_eq_Suc length_Suc_conv)
  then show ?case using Cons by simp
qed simp

lemma concat_chunks8: "length bs = 8 * n \<Longrightarrow> concat (chunks8 bs) = bs \<and> length (chunks8 bs) = n \<and> (\<forall>c\<in>set (chunks8 bs). length c = 8)"
proof (induction n arbitrary: bs)
  case (Suc n)
  obtain c r where c: "bs = c @ r" "length c = 8" "length r = 8 * n"
  proof
    show "bs = take 8 bs @ drop 8 bs" "length (take 8 bs) = 8" "length (drop 8 bs) = 8 * n" using Suc.prems by simp_all
  qed
  obtain a1 a2 a3 a4 a5 a6 a7 a8 where "c = [a1, a2, a3, a4, a5, a6, a7, a8]"
    using c(2) by (auto simp: numeral_eq_Suc length_Suc_conv)
  then show ?case using Suc.IH [OF c(3)] c(1) by simp
qed simp

lemma uint_le_bytes_roundtrip: "uint_from_le_bytes (uint_to_le_bytes x) = x"
  by (simp add: uint_from_le_bytes_def uint_to_le_bytes_def chunks8_concat comp_def)

lemma uint_be_bytes_roundtrip: "uint_from_be_bytes (uint_to_be_bytes x) = x"
  by (simp add: uint_from_be_bytes_def uint_to_be_bytes_def chunks8_concat comp_def)

lemma uint_to_from_le_bytes: "length bs = 8 * n \<Longrightarrow> uint_to_le_bytes (uint_from_le_bytes bs) = bs"
proof -
  assume "length bs = 8 * n"
  note c = concat_chunks8 [OF this]
  have "map (to_le_bytes 8 \<circ> (from_le_bytes :: bytes \<Rightarrow> u64)) (chunks8 bs) = chunks8 bs"
    using c by (intro map_idI) simp
  then show ?thesis using c by (simp add: uint_from_le_bytes_def uint_to_le_bytes_def)
qed

lemma uint_to_from_be_bytes: "length bs = 8 * n \<Longrightarrow> uint_to_be_bytes (uint_from_be_bytes bs) = bs"
proof -
  assume "length bs = 8 * n"
  note c = concat_chunks8 [OF this]
  have "map ((\<lambda>w. rev (to_le_bytes 8 w)) \<circ> (\<lambda>c. from_le_bytes (rev c) :: u64)) (chunks8 bs) = chunks8 bs"
    using c by (intro map_idI) simp
  then show ?thesis using c by (simp add: uint_from_be_bytes_def uint_to_be_bytes_def)
qed

section \<open>Compact targets\<close>

lemma uval_low_limb:
  assumes "x \<noteq> []"
  shows "unat (x ! 0) = uval x mod 2 ^ 64"
proof -
  obtain a y where "x = a # y" using assms by (cases x) auto
  then show ?thesis using unat_less_exp [of a] by simp
qed

lemma uval_from_u64: "0 < n \<Longrightarrow> uval (uint_from_u64 n v) = unat v"
  by (cases n) (simp_all add: uint_from_u64_def uint_ZERO_def)

text \<open>The size in bytes and the 24-bit mantissa before normalisation.\<close>

definition compact_size :: "limbs \<Rightarrow> nat" where
  "compact_size x = (uint_bits x + 7) div 8"

definition mantissa :: "limbs \<Rightarrow> nat" where
  "mantissa x = (if compact_size x \<le> 3 then uval x * 2 ^ (8 * (3 - compact_size x))
     else uval x div 2 ^ (8 * (compact_size x - 3)))"

lemma compact_size_bounds:
  assumes "length x = 4"
  shows "compact_size x \<le> 32" "uval x < 2 ^ (8 * compact_size x)" "uint_bits x \<le> 8 * compact_size x"
    "8 * compact_size x < uint_bits x + 8"
proof -
  have "uint_bits x \<le> 256" using bit_len_le [OF uval_bound [of x]] assms by (simp add: uint_bits_uval)
  then show "compact_size x \<le> 32" by (simp add: compact_size_def)
  show b: "uint_bits x \<le> 8 * compact_size x" "8 * compact_size x < uint_bits x + 8" by (simp_all add: compact_size_def)
  have "uval x < 2 ^ uint_bits x" unfolding uint_bits_uval by (rule bit_len_upper)
  also have "\<dots> \<le> 2 ^ (8 * compact_size x)" using b(1) by (intro power_increasing) simp_all
  finally show "uval x < 2 ^ (8 * compact_size x)" .
qed

lemma mantissa_bound: "length x = 4 \<Longrightarrow> mantissa x < 2 ^ 24"
proof -
  assume x: "length x = 4"
  note u = compact_size_bounds(2) [OF x]
  show ?thesis
  proof (cases "compact_size x \<le> 3")
    case True
    have "uval x * 2 ^ (8 * (3 - compact_size x)) < 2 ^ (8 * compact_size x) * 2 ^ (8 * (3 - compact_size x))" using u by simp
    also have "\<dots> = 2 ^ 24" using True unfolding power_add [symmetric] by (simp flip: add_mult_distrib2)
    finally show ?thesis using True by (simp add: mantissa_def)
  next
    case False
    then have "8 * compact_size x = 24 + 8 * (compact_size x - 3)" by simp
    then have "uval x < 2 ^ 24 * 2 ^ (8 * (compact_size x - 3))" using u by (metis power_add)
    then show ?thesis using False by (simp add: mantissa_def less_mult_imp_div_less)
  qed
qed

lemma compact_mantissa:
  assumes "length x = 4"
  shows "unat (if compact_size x \<le> 3 then ucast (push_bit (8 * (3 - compact_size x)) (uint_as_u64 x))
      else ucast (uint_as_u64 (uint_shr x (8 * (compact_size x - 3)))) :: u32) = mantissa x"
proof -
  have ne: "x \<noteq> []" using assms by auto
  note m = mantissa_bound [OF assms] and c = compact_size_bounds [OF assms]
  show ?thesis
  proof (cases "compact_size x \<le> 3")
    case True
    have "uval x \<le> mantissa x" using True by (simp add: mantissa_def)
    then have "unat (x ! 0) = uval x" using m uval_low_limb [OF ne] by simp
    then have "unat (push_bit (8 * (3 - compact_size x)) (x ! 0)) = mantissa x"
      using True m unfolding unsigned_push_bit_eq by (simp add: mantissa_def push_bit_eq_mult take_bit_eq_mod)
    then show ?thesis using True m by (simp add: uint_as_u64_def unsigned_ucast_eq take_bit_eq_mod)
  next
    case False
    have "8 * (compact_size x - 3) < 64 * length x" using c(1) assms by simp
    then have "uval (uint_shr x (8 * (compact_size x - 3))) = mantissa x" using False by (simp add: mantissa_def uval_uint_shr)
    moreover have "uint_shr x (8 * (compact_size x - 3)) \<noteq> []" using ne length_uint_shr by (metis length_0_conv)
    ultimately have "unat (uint_shr x (8 * (compact_size x - 3)) ! 0) = mantissa x" using uval_low_limb m by simp
    then show ?thesis using False m by (simp add: uint_as_u64_def unsigned_ucast_eq take_bit_eq_mod)
  qed
qed

text \<open>Normalisation: a mantissa with its sign bit set is shifted by a byte.\<close>

lemma odd_below_two: "n < 2 \<Longrightarrow> odd n \<longleftrightarrow> n \<noteq> 0" for n :: nat
  by (auto simp: less_2_cases_iff)

lemma u32_bit_23: "unat c < 2 ^ 24 \<Longrightarrow> c AND 0x00800000 \<noteq> 0 \<longleftrightarrow> 2 ^ 23 \<le> unat c" for c :: u32
proof -
  assume c: "unat c < 2 ^ 24"
  have e: "(0x00800000 :: u32) = 2 ^ 23" by simp
  have "c AND 2 ^ 23 \<noteq> 0 \<longleftrightarrow> bit c 23" by (simp only: and_exp_eq_0_iff_not_bit not_not)
  also have "bit c 23 \<longleftrightarrow> odd (unat c div 2 ^ 23)" by (simp add: bit_unat [symmetric] bit_iff_odd)
  also have "\<dots> \<longleftrightarrow> 2 ^ 23 \<le> unat c"
  proof -
    have "unat c div 2 ^ 23 < 2" using c by (simp add: less_mult_imp_div_less)
    then have "odd (unat c div 2 ^ 23) \<longleftrightarrow> unat c div 2 ^ 23 \<noteq> 0" by (rule odd_below_two)
    then show ?thesis by (simp add: div_eq_0_iff not_less)
  qed
  finally show ?thesis unfolding e .
qed

lemma unat_compose:
  assumes "unat c < 2 ^ 24" and "n < 256"
  shows "unat (c OR push_bit 24 (of_nat n) :: u32) = unat c + 2 ^ 24 * n"
proof -
  have "bit (unat (c OR push_bit 24 (of_nat n) :: u32)) k = bit (unat c + 2 ^ 24 * n) k" for k
  proof -
    have n: "n < 2 ^ 8" using assms(2) by simp
    have "bit n j \<Longrightarrow> j < 8" for j using n by (metis bit_take_bit_iff take_bit_nat_eq_self)
    from this [of "k - 24"] have "bit n (k - 24) \<Longrightarrow> 24 \<le> k \<Longrightarrow> k < 32" by linarith
    moreover have "bit c k \<Longrightarrow> k < 24" using assms(1) by (metis bit_unat bit_take_bit_iff take_bit_nat_eq_self)
    ultimately show ?thesis using bit_add_high [OF assms(1), of n k] by (auto simp: bit_unat bit_simps)
  qed
  then show ?thesis by (intro bit_eqI) blast
qed

lemma unat_drop_bit_div: "unat (drop_bit n w) = unat w div 2 ^ n" for w :: "'a::len word"
  by (simp only: unsigned_drop_bit_eq take_bit_nat_eq_self [OF unsigned_less]) (rule drop_bit_eq_div)

text \<open>The two fields of the compact word that is finally produced.\<close>

definition compact_exponent :: "limbs \<Rightarrow> nat" where
  "compact_exponent x = (if 2 ^ 23 \<le> mantissa x then compact_size x + 1 else compact_size x)"

definition compact_coefficient :: "limbs \<Rightarrow> nat" where
  "compact_coefficient x = (if 2 ^ 23 \<le> mantissa x then mantissa x div 2 ^ 8 else mantissa x)"

lemma compact_coefficient_bound: "length x = 4 \<Longrightarrow> compact_coefficient x < 2 ^ 23"
  using mantissa_bound [of x] by (simp add: compact_coefficient_def less_mult_imp_div_less)

lemma unat_compact_target_bits:
  assumes "length x = 4"
  shows "unat (compact_target_bits x) = compact_coefficient x + 2 ^ 24 * compact_exponent x"
proof -
  define c where "c = (if compact_size x \<le> 3 then ucast (push_bit (8 * (3 - compact_size x)) (uint_as_u64 x))
      else ucast (uint_as_u64 (uint_shr x (8 * (compact_size x - 3)))) :: u32)"
  have c: "unat c = mantissa x" unfolding c_def by (rule compact_mantissa [OF assms])
  have b: "c AND 0x00800000 \<noteq> 0 \<longleftrightarrow> 2 ^ 23 \<le> mantissa x" using u32_bit_23 [of c] mantissa_bound [OF assms] c by simp
  have d: "unat (drop_bit 8 c) = mantissa x div 2 ^ 8" unfolding unat_drop_bit_div c ..
  have "compact_target_bits x = (if c AND 0x00800000 \<noteq> 0 then drop_bit 8 c else c)
      OR push_bit 24 (of_nat (if c AND 0x00800000 \<noteq> 0 then compact_size x + 1 else compact_size x))"
    unfolding compact_target_bits_def Let_def compact_size_def [symmetric] c_def [symmetric] by simp
  then have e: "compact_target_bits x = (if 2 ^ 23 \<le> mantissa x then drop_bit 8 c else c) OR push_bit 24 (of_nat (compact_exponent x))"
    unfolding b compact_exponent_def .
  have u: "unat (if 2 ^ 23 \<le> mantissa x then drop_bit 8 c else c) = compact_coefficient x"
    by (simp only: compact_coefficient_def d c split: if_split) simp
  have "compact_coefficient x < 2 ^ 24" using compact_coefficient_bound [OF assms] by simp
  moreover have "compact_exponent x < 256" using compact_size_bounds(1) [OF assms] by (simp add: compact_exponent_def)
  ultimately show ?thesis unfolding e using u by (simp only: unat_compose)
qed

text \<open>Reading a compact word whose coefficient has no sign bit.\<close>

lemma from_compact_target_bits_uval:
  assumes "unat w = m + 2 ^ 24 * e" and "m < 2 ^ 23" and "e \<le> 34"
  shows "uval (from_compact_target_bits w) = (if e \<le> 3 then m div 2 ^ (8 * (3 - e)) else m * 2 ^ (8 * (e - 3)) mod 2 ^ 256)"
    and "length (from_compact_target_bits w) = 4"
proof -
  have "m < 2 ^ 24" using assms(2) by simp
  then have e: "unat (drop_bit 24 w) = e" unfolding unat_drop_bit_div assms(1) by simp
  have m: "unat (w AND 0xFFFFFF) = m"
  proof -
    have "(0xFFFFFF :: u32) = mask 24" by (simp add: mask_eq_exp_minus_1)
    then show ?thesis using \<open>m < 2 ^ 24\<close> by (simp only: unsigned_take_bit_eq flip: take_bit_eq_mask) (simp add: take_bit_eq_mod assms(1))
  qed
  define v where "v = (if e \<le> 3 then drop_bit (8 * (3 - e)) (w AND 0xFFFFFF) else w AND 0xFFFFFF)"
  have v: "unat v = (if e \<le> 3 then m div 2 ^ (8 * (3 - e)) else m)" by (simp only: v_def unat_drop_bit_div m split: if_split) simp
  have "m div 2 ^ (8 * (3 - e)) \<le> m" by simp
  then have "unat v < 2 ^ 23" using v assms(2) by (auto simp only: split: if_split)
  then have g: "\<not> v > 0x7FFFFF" by (simp add: word_less_nat_alt)
  have f: "from_compact_target_bits w = uint_shl (uint_from_u64 4 (ucast v)) (if e \<le> 3 then 0 else 8 * (e - 3))"
    using g by (simp add: from_compact_target_bits_def e v_def Let_def split: if_splits)
  have l: "length (uint_from_u64 4 (ucast v)) = 4" by (simp add: uint_from_u64_def uint_ZERO_def)
  then show "length (from_compact_target_bits w) = 4" by (simp add: f)
  have u: "uval (uint_from_u64 4 (ucast v)) = unat v" by (simp add: uval_from_u64 unat_ucast_up)
  have "(if e \<le> 3 then 0 else 8 * (e - 3)) < 64 * length (uint_from_u64 4 (ucast v))" using l assms(3) by auto
  from uval_uint_shl [OF this] have "uval (from_compact_target_bits w) = unat v * 2 ^ (if e \<le> 3 then 0 else 8 * (e - 3)) mod 2 ^ 256"
    unfolding f u l by simp
  moreover have "unat v < 2 ^ 256" using \<open>unat v < 2 ^ 23\<close> by simp
  ultimately show "uval (from_compact_target_bits w) = (if e \<le> 3 then m div 2 ^ (8 * (3 - e)) else m * 2 ^ (8 * (e - 3)) mod 2 ^ 256)"
    using v by (simp split: if_splits)
qed

text \<open>The exponent is determined by the bit length, and the coefficient is the leading part of the value.\<close>

lemma mantissa_sign:
  assumes "length x = 4" and "uval x \<noteq> 0"
  shows "2 ^ 23 \<le> mantissa x \<longleftrightarrow> 8 * compact_size x = uint_bits x"
proof -
  define b where "b = uint_bits x"
  define s where "s = compact_size x"
  have l: "2 ^ (b - 1) \<le> uval x" and u: "uval x < 2 ^ b" and b0: "0 < b"
    using bit_len_lower [OF assms(2)] bit_len_upper [of "uval x"] assms(2) by (auto simp: b_def uint_bits_uval bit_len_pos)
  note s = compact_size_bounds(3,4) [OF assms(1), folded b_def s_def]
  show ?thesis unfolding b_def [symmetric] s_def [symmetric]
  proof (cases "s \<le> 3")
    case True
    then have m: "mantissa x = uval x * 2 ^ (8 * (3 - s))" by (simp add: mantissa_def s_def)
    have "2 ^ 23 \<le> mantissa x" if "8 * s = b"
    proof -
      have "(2 :: nat) ^ 23 = 2 ^ (b - 1) * 2 ^ (8 * (3 - s))" unfolding power_add [symmetric]
        using that True b0 by (intro arg_cong [of _ _ "\<lambda>k. 2 ^ k"]) auto
      then show ?thesis unfolding m using l by (metis mult_le_mono1)
    qed
    moreover have "mantissa x < 2 ^ 23" if "8 * s \<noteq> b"
    proof -
      have "uval x * 2 ^ (8 * (3 - s)) < 2 ^ b * 2 ^ (8 * (3 - s))" using u by simp
      also have "\<dots> \<le> 2 ^ 23" unfolding power_add [symmetric] using that s True by (intro power_increasing) auto
      finally show ?thesis using m by simp
    qed
    ultimately show "2 ^ 23 \<le> mantissa x \<longleftrightarrow> 8 * s = b" by (metis not_le)
  next
    case False
    then have m: "mantissa x = uval x div 2 ^ (8 * (s - 3))" by (simp add: mantissa_def s_def)
    have "2 ^ 23 \<le> mantissa x \<longleftrightarrow> 2 ^ 23 * 2 ^ (8 * (s - 3)) \<le> uval x" unfolding m by (rule less_eq_div_iff_mult_less_eq) simp
    also have "(2 :: nat) ^ 23 * 2 ^ (8 * (s - 3)) = 2 ^ (8 * s - 1)" unfolding power_add [symmetric]
      using False by (intro arg_cong [of _ _ "\<lambda>k. 2 ^ k"]) auto
    also have "2 ^ (8 * s - 1) \<le> uval x \<longleftrightarrow> 8 * s = b"
    proof
      assume "2 ^ (8 * s - 1) \<le> uval x"
      then have "(2 :: nat) ^ (8 * s - 1) < 2 ^ b" using u by (rule le_less_trans)
      then have "8 * s - 1 < b" by (rule power_less_imp_less_exp [rotated]) simp
      then show "8 * s = b" using s by simp
    qed (use l in simp)
    finally show "2 ^ 23 \<le> mantissa x \<longleftrightarrow> 8 * s = b" .
  qed
qed

lemma compact_exponent_bits:
  assumes "length x = 4"
  shows "compact_exponent x - 3 = uint_bits x div 8 - 2"
proof (cases "uval x = 0")
  case True
  then show ?thesis by (simp add: compact_exponent_def compact_size_def mantissa_def uint_bits_uval)
next
  case False
  show ?thesis using compact_size_bounds(3,4) [OF assms] unfolding compact_exponent_def mantissa_sign [OF assms False] by auto
qed

lemma compact_decoded:
  assumes "length x = 4" and e: "e = compact_exponent x" and m: "m = compact_coefficient x"
  shows "(if e \<le> 3 then m div 2 ^ (8 * (3 - e)) else m * 2 ^ (8 * (e - 3))) = uval x div 2 ^ (8 * (e - 3)) * 2 ^ (8 * (e - 3))"
proof -
  define s where "s = compact_size x"
  consider (a) "s \<le> 3" "\<not> 2 ^ 23 \<le> mantissa x" | (b) "s \<le> 2" "2 ^ 23 \<le> mantissa x" | (c) "s = 3" "2 ^ 23 \<le> mantissa x"
    | (d) "3 < s" "\<not> 2 ^ 23 \<le> mantissa x" | (f) "3 < s" "2 ^ 23 \<le> mantissa x" by linarith
  then show ?thesis
  proof cases
    case a
    then show ?thesis by (simp add: e m s_def compact_exponent_def compact_coefficient_def mantissa_def)
  next
    case b
    then have "8 * (3 - s) = 8 + 8 * (2 - s)" by simp
    then have "mantissa x = 2 ^ 8 * (uval x * 2 ^ (8 * (2 - s)))" using b by (simp add: mantissa_def s_def power_add)
    then have "mantissa x div 2 ^ 8 = uval x * 2 ^ (8 * (2 - s))" by simp
    then have "m = uval x * 2 ^ (8 * (2 - s))" and "e = s + 1" using b by (simp_all add: e m s_def compact_exponent_def compact_coefficient_def)
    then show ?thesis using b by simp
  next
    case c
    then have "mantissa x = uval x" by (simp add: mantissa_def s_def)
    then show ?thesis using c by (simp add: e m s_def compact_exponent_def compact_coefficient_def)
  next
    case d
    then show ?thesis by (simp add: e m s_def compact_exponent_def compact_coefficient_def mantissa_def)
  next
    case f
    then have "mantissa x div 2 ^ 8 = uval x div 2 ^ (8 * (s - 3) + 8)" by (simp add: mantissa_def s_def power_add div_mult2_eq)
    moreover have "8 * (s - 3) + 8 = 8 * (s + 1 - 3)" using f by simp
    ultimately have "m = uval x div 2 ^ (8 * (s + 1 - 3))" and "e = s + 1" using f
      by (simp_all add: e m s_def compact_exponent_def compact_coefficient_def)
    then show ?thesis using f by simp
  qed
qed

lemma compact_truncates:
  assumes "length x = 4"
  shows "uval (from_compact_target_bits (compact_target_bits x)) =
      uval x div 2 ^ (8 * (uint_bits x div 8 - 2)) * 2 ^ (8 * (uint_bits x div 8 - 2))" (is "_ = ?t")
    and "length (from_compact_target_bits (compact_target_bits x)) = 4"
proof -
  define e where "e = compact_exponent x"
  define m where "m = compact_coefficient x"
  have "e \<le> 34" using compact_size_bounds(1) [OF assms] by (simp add: e_def compact_exponent_def)
  note r = from_compact_target_bits_uval [OF unat_compact_target_bits [OF assms, folded e_def m_def]
      compact_coefficient_bound [OF assms, folded m_def] this]
  show "length (from_compact_target_bits (compact_target_bits x)) = 4" by (rule r(2))
  have t: "?t = uval x div 2 ^ (8 * (e - 3)) * 2 ^ (8 * (e - 3))" by (simp only: compact_exponent_bits [OF assms] e_def)
  have "uval x < 2 ^ 256" using uval_bound [of x] assms by simp
  with div_times_less_eq_dividend have "?t < 2 ^ 256" by (rule le_less_trans)
  then show "uval (from_compact_target_bits (compact_target_bits x)) = ?t"
    unfolding r(1) t compact_decoded [OF assms e_def m_def, symmetric] by (simp split: if_splits)
qed

text \<open>A compact word survives one more round: decoding and encoding again is the identity on the values it can hold.\<close>

lemma compact_idempotent:
  assumes "length x = 4"
  shows "from_compact_target_bits (compact_target_bits (from_compact_target_bits (compact_target_bits x)))
      = from_compact_target_bits (compact_target_bits x)"
proof -
  define y where "y = from_compact_target_bits (compact_target_bits x)"
  have y: "length y = 4" "uval y = uval x div 2 ^ (8 * (uint_bits x div 8 - 2)) * 2 ^ (8 * (uint_bits x div 8 - 2))"
    unfolding y_def using compact_truncates [OF assms] by simp_all
  define k where "k = 8 * (uint_bits x div 8 - 2)"
  have "uint_bits y \<le> uint_bits x" unfolding uint_bits_uval
    by (rule bit_len_le, rule le_less_trans [OF _ bit_len_upper]) (simp add: y(2) div_times_less_eq_dividend)
  then have "8 * (uint_bits y div 8 - 2) \<le> k" unfolding k_def by (intro mult_le_mono diff_le_mono div_le_mono) simp_all
  then have "2 ^ (8 * (uint_bits y div 8 - 2)) dvd (2 ^ k :: nat)" by (rule le_imp_power_dvd)
  then have "2 ^ (8 * (uint_bits y div 8 - 2)) dvd uval y" unfolding y(2) k_def [symmetric] by (rule dvd_mult)
  then have "uval (from_compact_target_bits (compact_target_bits y)) = uval y" using compact_truncates(1) [OF y(1)] by simp
  then show ?thesis unfolding y_def [symmetric] using uval_inject compact_truncates(2) [OF y(1)] y(1) by metis
qed

end
