(* ===== verification/Uint_Properties.thy ===== *)
theory Uint_Properties
  imports Uint_Codec
begin

text \<open>
  What the fixed-width integers of src/math/src/uint.rs promise, as statements on the values that the limbs
  denote (\<open>uval\<close>): exact sums and differences with their carries, products modulo the width,
  quotients and remainders, and the byte and compact-target encodings.
\<close>

text \<open>Limb addition, subtraction and comparison are those of the numbers the limbs denote: the sum and the
  difference are exact modulo the width of the type, the carry is set exactly when the sum does not fit and the
  borrow exactly when the subtrahend is larger, and \<open>Ord::cmp\<close> orders the values.
\<close>

theorem overflowing_add_sub_exact:
  assumes "length x = length y"
  shows "uval (fst (overflowing_add x y)) = (uval x + uval y) mod 2 ^ (64 * length x) \<and>
    snd (overflowing_add x y) = (2 ^ (64 * length x) \<le> uval x + uval y) \<and>
    uval (fst (overflowing_sub x y)) = (uval x + 2 ^ (64 * length x) - uval y) mod 2 ^ (64 * length x) \<and>
    snd (overflowing_sub x y) = (uval x < uval y) \<and>
    uint_less x y = (uval x < uval y)"
proof -
  let ?M = "2 ^ (64 * length x) :: nat"
  note b = uval_bound [of x] uval_bound [of y, folded assms]
  obtain z c where z: "overflowing_add x y = (z, c)" by force
  note zc = overflowing_add_uval [OF assms z]
  have zb: "uval z < ?M" using uval_bound [of z] zc(1) by simp
  note u = carry_unique [OF zb zc(2)]
  obtain w d where w: "overflowing_sub x y = (w, d)" by force
  note wd = overflowing_sub_uval [OF assms w]
  have wb: "uval w < ?M" using uval_bound [of w] wd(1) by simp
  have "d = (uval x < uval y)" using wd(2) wb b by (cases d) simp_all
  moreover have "uval w = (uval x + ?M - uval y) mod ?M"
  proof (cases d)
    case True
    then have "uval x + ?M - uval y = uval w" using wd(2) by simp
    then show ?thesis using wb by simp
  next
    case False
    then have "uval x + ?M - uval y = uval w + ?M" using wd(2) by simp
    then show ?thesis using wb by simp
  qed
  ultimately show ?thesis using u b uint_less_uval [OF assms] by (simp add: z w)
qed

theorem overflowing_add_sub_exact_witness:
  "overflowing_add [0xFFFFFFFFFFFFFFFF, 5] [1, 2] = ([0, 8], False) \<and>
    uval [0, 8] = (uval [0xFFFFFFFFFFFFFFFF, 5] + uval [1, 2]) mod 2 ^ 128 \<and>
    overflowing_sub [0, 1] [1, 1] = ([0xFFFFFFFFFFFFFFFF, 0xFFFFFFFFFFFFFFFF], True)"
proof -
  have a: "overflowing_add [0xFFFFFFFFFFFFFFFF, 5] [1, 2] = ([0, 8], False)"
    by (simp add: overflowing_add_def carrying_add_u64_def u64_overflowing_add_def)
  moreover have "overflowing_sub [0, 1] [1, 1] = ([0xFFFFFFFFFFFFFFFF, 0xFFFFFFFFFFFFFFFF], True)"
    by (simp add: overflowing_sub_def borrowing_sub_u64_def u64_overflowing_sub_def)
  moreover have "uval [0, 8] = (uval [0xFFFFFFFFFFFFFFFF, 5] + uval [1, 2]) mod 2 ^ 128"
    using overflowing_add_sub_exact [of "[0xFFFFFFFFFFFFFFFF, 5]" "[1, 2]"] unfolding a by simp
  ultimately show ?thesis by blast
qed

text \<open>
  C7: Multiplication never panics on its 128-bit intermediates and its result is the product modulo the width of
  the type; a raised overflow flag is right. The converse fails: the partial products that fall wholly outside
  the type are never computed, so a product of two to the power 256 in the 192-bit type gives zero without the flag.
\<close>

theorem overflowing_mul_exact:
  "(length y = length x \<longrightarrow> (\<exists>z c. overflowing_mul x y = (Ok (z, c) :: (unit, _) outcome) \<and> length z = length x \<and>
      uval z = uval x * uval y mod 2 ^ (64 * length x) \<and> (c \<longrightarrow> 2 ^ (64 * length x) \<le> uval x * uval y))) \<and>
    overflowing_mul [0, 0, 1] [0, 0, 1] = (Ok ([0, 0, 0], False) :: (unit, _) outcome) \<and> uval [0, 0, 1] * uval [0, 0, 1] = 2 ^ 256"
proof -
  have "\<exists>z c. overflowing_mul x y = (Ok (z, c) :: (unit, _) outcome) \<and> length z = length x \<and>
      uval z = uval x * uval y mod 2 ^ (64 * length x) \<and> (c \<longrightarrow> 2 ^ (64 * length x) \<le> uval x * uval y)" if "length y = length x"
    using overflowing_mul_returns [OF that, where 'a = unit] by (auto simp: returns_def)
  moreover have "overflowing_mul [0, 0, 1] [0, 0, 1] = (Ok ([0, 0, 0], False) :: (unit, _) outcome)"
    by (simp add: overflowing_mul_def mul_row_def mul_step_def uint_ZERO_def padd_def pmul_def checked_add_def checked_mul_def)
  ultimately show ?thesis by simp
qed

theorem overflowing_mul_exact_witness:
  "\<exists>z c. overflowing_mul [3, 5] [7, 11] = (Ok (z, c) :: (unit, _) outcome) \<and> uval z = uval [3, 5] * uval [7, 11] mod 2 ^ 128"
  using overflowing_mul_exact [of "[7, 11]" "[3, 5]"] by auto

text \<open>
  C8: Division is Euclidean division: for a nonzero divisor both the long division by limbs and the division by a
  single limb return, without panicking, the quotient and the remainder of the values; with a zero divisor both panic. An integer has
  at least one limb.
\<close>

theorem div_rem_exact:
  "(length x = length y \<longrightarrow> (if uval y = 0 then div_rem x y = (Panic :: (unit, _) outcome) else
      (\<exists>q r. div_rem x y = (Ok (q, r) :: (unit, _) outcome) \<and> length q = length x \<and> length r = length x \<and>
        uval q = uval x div uval y \<and> uval r = uval x mod uval y))) \<and>
    (if v = 0 then x \<noteq> [] \<longrightarrow> div_rem_u64 x v = (Panic :: (unit, _) outcome) else
      (\<exists>q r. div_rem_u64 x v = (Ok (q, r) :: (unit, _) outcome) \<and> length q = length x \<and>
        uval q = uval x div unat v \<and> unat r = uval x mod unat v))"
  using div_rem_correct [of x y, where 'a = unit] div_rem_u64_correct [of v x, where 'e = unit] div_rem_u64_zero [of x]
  by (auto simp: div_rem_def uint_bits_uval)

theorem div_rem_exact_witness:
  "(\<exists>q r. div_rem [7, 9] [0, 2] = (Ok (q, r) :: (unit, _) outcome) \<and> uval q = uval [7, 9] div uval [0, 2]) \<and>
    (\<exists>q r. div_rem_u64 [7, 9] 10 = (Ok (q, r) :: (unit, _) outcome) \<and> unat r = uval [7, 9] mod 10) \<and>
    div_rem [7, 9] [0, 0] = (Panic :: (unit, _) outcome) \<and> div_rem_u64 [7, 9] 0 = (Panic :: (unit, _) outcome)"
  using div_rem_exact [of "[7, 9]" "[0, 2]" 10] div_rem_exact [of "[7, 9]" "[0, 0]" 0] by auto

text \<open>The byte encodings of the integers are inverse to each other in both directions: limbs to bytes to limbs,
  and bytes of a whole number of limbs to limbs to bytes, little- and big-endian.
\<close>

theorem uint_bytes_roundtrip:
  "uint_from_le_bytes (uint_to_le_bytes x) = x \<and> uint_from_be_bytes (uint_to_be_bytes x) = x \<and>
    (length bs = 8 * n \<longrightarrow> uint_to_le_bytes (uint_from_le_bytes bs) = bs \<and> uint_to_be_bytes (uint_from_be_bytes bs) = bs)"
  by (simp add: uint_le_bytes_roundtrip uint_be_bytes_roundtrip uint_to_from_le_bytes uint_to_from_be_bytes)

theorem uint_bytes_roundtrip_witness:
  "uint_to_le_bytes (uint_from_le_bytes [1, 2, 3, 4, 5, 6, 7, 8]) = [1, 2, 3, 4, 5, 6, 7, 8]"
  using uint_bytes_roundtrip [of "[]" "[1, 2, 3, 4, 5, 6, 7, 8]" 1] by simp

text \<open>
  C9: The compact form of a 256-bit target keeps its leading bytes: decoding the encoding gives the target with
  all but its two or three leading bytes cleared, so it never raises a target, and encoding what was decoded is
  stable from then on.
\<close>

theorem compact_target_truncates:
  assumes "length x = 4"
  shows "uval (from_compact_target_bits (compact_target_bits x)) =
      uval x div 2 ^ (8 * (uint_bits x div 8 - 2)) * 2 ^ (8 * (uint_bits x div 8 - 2)) \<and>
    uval (from_compact_target_bits (compact_target_bits x)) \<le> uval x \<and>
    from_compact_target_bits (compact_target_bits (from_compact_target_bits (compact_target_bits x))) =
      from_compact_target_bits (compact_target_bits x)"
  using compact_truncates(1) [OF assms] compact_idempotent [OF assms] by (simp add: div_times_less_eq_dividend)

theorem compact_target_truncates_witness:
  "compact_target_bits [0x123456789A, 0, 0, 0] = 0x05123456 \<and>
    uval (from_compact_target_bits 0x05123456) = 0x1234560000"
proof -
  have b: "uint_bits [0x123456789A, 0, 0, 0] = 37" by (simp add: uint_bits_def u64_leading_zeros_def bit_len_pos)
  have a: "compact_target_bits [0x123456789A, 0, 0, 0] = 0x05123456"
    by (simp add: compact_target_bits_def b uint_shr_def overflowing_shr_def uint_as_u64_def uint_BITS_def)
  show ?thesis using compact_target_truncates [of "[0x123456789A, 0, 0, 0]"] unfolding a b by simp
qed

end
