(* ===== verification/Script_Num.thy ===== *)
theory Script_Num
  imports Prelude
begin

text \<open>
  The data stack of the script engine (src/crypto/txscript/src/data_stack.rs) and its errors
  (src/crypto/txscript/errors/src/lib.rs).

  A stack is a \<open>Vec<Vec<u8>>\<close> with its top at the end. Numbers on the stack are little-endian
  sign-magnitude byte strings: \<open>serialize_i64\<close> and \<open>deserialize_i64\<close> are modelled on \<^typ>\<open>int\<close> with the
  64-bit range written out, and shown to be inverse bijections between the numbers of at most 63 magnitude
  bits and the minimal encodings of at most eight bytes. The diagnostic text carried by some errors is
  left out; the numbers they carry are kept.
\<close>

section \<open>Errors\<close>

datatype serialization_error = NumberTooLong int

datatype tx_script_error =
    MalformedPushSize bytes | MalformedPush nat nat | InvalidInputIndex int nat | StackSizeExceeded nat nat
  | InvalidOpcode u8 | OpcodeReserved u8 | OpcodeDisabled u8 | EmptyStack | CleanStack nat | EvalFalse | EarlyReturn
  | VerifyError | InvalidState | SigcacheSignatureInvalid | TooManyOperations nat | NotATransactionInput
  | ElementTooBig nat nat | NotMinimalData | InvalidSource | UnsatisfiedLockTime | NumberTooBig | NullFail
  | InvalidSignatureCount | InvalidPubKeyCount | InvalidSigHashType u8 | PubKeyFormat | SigLength nat | NoScripts
  | SignatureScriptNotPushOnly | ErrUnbalancedConditional | InvalidStackOperation nat nat | ScriptSize nat nat
  | InvalidOutputIndex int nat | Serialization serialization_error | ExceededSigOpLimit u8

type_synonym 'a script_result = "(tx_script_error, 'a) outcome"
type_synonym stack = "bytes list"

section \<open>Numbers\<close>

definition I64_MIN :: int where "I64_MIN = - (2 ^ 63)"
definition I64_MAX :: int where "I64_MAX = 2 ^ 63 - 1"

definition check_minimal_data_encoding :: "bytes \<Rightarrow> unit script_result" where
  "check_minimal_data_encoding v =
     (if v = [] then Ok ()
      else if last v AND 0x7f = 0 \<and> (length v = 1 \<or> v ! (length v - 2) AND 0x80 = 0) then Err NotMinimalData
      else Ok ())"

text \<open>The byte iterator of \<open>serialize_i64\<close>: the state is the rest of the magnitude and whether the last byte
  had its high bit set.\<close>

function number_bytes :: "nat \<Rightarrow> bool \<Rightarrow> bytes" where
  "number_bytes positive last_saturated =
     (if positive = 0 then (if last_saturated then [0] else [])
      else let val = of_nat (positive mod 256) :: u8
           in val # number_bytes (positive div 256) (val AND 0x80 \<noteq> 0))"
  by pat_completeness auto
termination by (relation "measure fst") auto

declare number_bytes.simps [simp del]

definition serialize_i64 :: "int \<Rightarrow> ('e, bytes) outcome" where
  "serialize_i64 from =
     (let number_vec = number_bytes (nat \<bar>from\<bar>) False in
      if from < 0 then (if number_vec = [] then Panic else Ok (butlast number_vec @ [last number_vec OR 0x80]))
      else Ok number_vec)"

definition deserialize_i64 :: "bytes \<Rightarrow> int script_result" where
  "deserialize_i64 v =
     (if 8 < length v then Err NotMinimalData
      else if v = [] then Ok 0
      else then_do (check_minimal_data_encoding v)
        (let msb = last v; sign = 1 - 2 * uint (drop_bit 7 msb); first_byte = uint (msb AND 0x7f) in
         Ok (fold (\<lambda>item accum. accum * 256 + uint item) (rev (butlast v)) first_byte * sign)))"

text \<open>\<open>SizedEncodeInt<LEN>\<close> and the implementations of \<open>OpcodeData\<close> on it, \<open>i64\<close>, \<open>i32\<close> and \<open>bool\<close>.\<close>

definition sized_deserialize :: "nat \<Rightarrow> bytes \<Rightarrow> int script_result" where
  "sized_deserialize len v = (if len < length v then Err NumberTooBig else deserialize_i64 v)"

definition sized_serialize :: "nat \<Rightarrow> int \<Rightarrow> (serialization_error, bytes) outcome" where
  "sized_serialize len from =
     obind (serialize_i64 from) (\<lambda>bytes. if len < length bytes then Err (NumberTooLong from) else Ok bytes)"

definition i64_deserialize :: "bytes \<Rightarrow> int script_result" where
  "i64_deserialize = sized_deserialize 8"

definition i64_serialize :: "int \<Rightarrow> (serialization_error, bytes) outcome" where
  "i64_serialize = sized_serialize 8"

definition i32_deserialize :: "bytes \<Rightarrow> int script_result" where
  "i32_deserialize v =
     obind (sized_deserialize 4 v) (\<lambda>n. if - (2 ^ 31) \<le> n \<and> n < 2 ^ 31 then Ok n else Panic)"

definition bool_deserialize :: "bytes \<Rightarrow> bool script_result" where
  "bool_deserialize v =
     (if v = [] then Ok False else Ok (last v AND 0x7f \<noteq> 0 \<or> list_ex (\<lambda>b. b \<noteq> 0) (butlast v)))"

definition bool_serialize :: "bool \<Rightarrow> bytes" where
  "bool_serialize b = (if b then [1] else [])"

section \<open>Stack operations\<close>

definition pop_raw :: "nat \<Rightarrow> stack \<Rightarrow> (bytes list \<times> stack) script_result" where
  "pop_raw n s =
     (if length s < n then Err (InvalidStackOperation n (length s))
      else Ok (drop (length s - n) s, take (length s - n) s))"

definition peek_raw :: "nat \<Rightarrow> stack \<Rightarrow> bytes list script_result" where
  "peek_raw n s =
     (if length s < n then Err (InvalidStackOperation n (length s)) else Ok (drop (length s - n) s))"

definition pop_items :: "(bytes \<Rightarrow> 'a script_result) \<Rightarrow> nat \<Rightarrow> stack \<Rightarrow> ('a list \<times> stack) script_result" where
  "pop_items deserialize n s =
     (if length s < n then Err (InvalidStackOperation n (length s))
      else obind (omap deserialize (drop (length s - n) s)) (\<lambda>items. Ok (items, take (length s - n) s)))"

definition peek_items :: "(bytes \<Rightarrow> 'a script_result) \<Rightarrow> nat \<Rightarrow> stack \<Rightarrow> 'a list script_result" where
  "peek_items deserialize n s =
     (if length s < n then Err (InvalidStackOperation n (length s))
      else omap deserialize (drop (length s - n) s))"

definition push_item :: "(serialization_error, bytes) outcome \<Rightarrow> stack \<Rightarrow> stack script_result" where
  "push_item item s = obind (map_err Serialization item) (\<lambda>v. Ok (s @ [v]))"

definition drop_items :: "nat \<Rightarrow> stack \<Rightarrow> stack script_result" where
  "drop_items n s =
     (if n \<le> length s then Ok (take (length s - n) s) else Err (InvalidStackOperation n (length s)))"

definition dup_items :: "nat \<Rightarrow> stack \<Rightarrow> stack script_result" where
  "dup_items n s =
     (if n \<le> length s then Ok (s @ drop (length s - n) s) else Err (InvalidStackOperation n (length s)))"

definition over_items :: "nat \<Rightarrow> stack \<Rightarrow> stack script_result" where
  "over_items n s =
     (if 2 * n \<le> length s then Ok (s @ take n (drop (length s - 2 * n) s))
      else Err (InvalidStackOperation (2 * n) (length s)))"

definition drain_to_top :: "nat \<Rightarrow> nat \<Rightarrow> stack \<Rightarrow> stack" where
  "drain_to_top i j s = take i s @ drop j s @ take (j - i) (drop i s)"

definition rot_items :: "nat \<Rightarrow> stack \<Rightarrow> stack script_result" where
  "rot_items n s =
     (if 3 * n \<le> length s then Ok (drain_to_top (length s - 3 * n) (length s - 2 * n) s)
      else Err (InvalidStackOperation (3 * n) (length s)))"

definition swap_items :: "nat \<Rightarrow> stack \<Rightarrow> stack script_result" where
  "swap_items n s =
     (if 2 * n \<le> length s then Ok (drain_to_top (length s - 2 * n) (length s - n) s)
      else Err (InvalidStackOperation (2 * n) (length s)))"

section \<open>Bytes of a number\<close>

primrec le_val :: "bytes \<Rightarrow> nat" where
  "le_val [] = 0"
| "le_val (b # bs) = unat b + 256 * le_val bs"

lemma le_val_append [simp]: "le_val (xs @ ys) = le_val xs + 256 ^ length xs * le_val ys"
  by (induction xs) (simp_all add: algebra_simps)

lemma le_val_bound: "le_val bs < 256 ^ length bs"
proof (induction bs)
  case (Cons b bs)
  have "unat b < 256" using unat_less_exp [of b] by simp
  then show ?case using Cons by simp
qed simp

lemma u8_mask7: "unat (b AND 0x7f) = unat b mod 128" for b :: u8
proof -
  have "(0x7f :: u8) = mask 7" by (simp add: mask_eq_exp_minus_1)
  then show ?thesis by (simp only: unsigned_take_bit_eq flip: take_bit_eq_mask) (simp add: take_bit_eq_mod)
qed

lemma unat_drop_bit_nat: "unat (drop_bit n b) = drop_bit n (unat b)" for b :: u8
  by (simp only: unsigned_drop_bit_eq take_bit_nat_eq_self [OF unsigned_less])

lemma bit_unat_iff: "bit b n \<longleftrightarrow> bit (unat b) n" for b :: u8
  by (simp add: bit_unsigned_iff)

lemma u8_high: "unat (drop_bit 7 b) = (if 128 \<le> unat b then 1 else 0)" for b :: u8
proof -
  have "unat b < 256" using unat_less_exp [of b] by simp
  then have "unat b div 128 = (if 128 \<le> unat b then 1 else 0)" by (auto simp: div_eq_0_iff intro: div_nat_eqI)
  then show ?thesis unfolding unat_drop_bit_nat by (simp add: drop_bit_eq_div)
qed

lemma u8_bit7: "b AND 0x80 = 0 \<longleftrightarrow> unat b < 128" for b :: u8
proof -
  have "(0x80 :: u8) = 2 ^ 7" by simp
  then have "b AND 0x80 = 0 \<longleftrightarrow> \<not> bit b 7" by (simp only: and_exp_eq_0_iff_not_bit)
  also have "bit b 7 \<longleftrightarrow> odd (unat (drop_bit 7 b))" by (simp only: bit_unat_iff bit_iff_odd_drop_bit unat_drop_bit_nat)
  finally show ?thesis by (simp add: u8_high)
qed

lemma u8_set_high: "unat b < 128 \<Longrightarrow> unat (b OR 0x80) = unat b + 128" for b :: u8
proof -
  assume "unat b < 128"
  then have "b AND 0x80 = 0" by (simp add: u8_bit7)
  then have "b OR 0x80 = b + 0x80" by (simp add: disjunctive_add_eq_or)
  moreover have "unat (b + 0x80) = unat b + 128" using \<open>unat b < 128\<close> by (simp add: unat_add_lem [THEN iffD1])
  ultimately show ?thesis by simp
qed

text \<open>The canonical magnitudes: a top byte below 128 that is needed.\<close>

definition canonical :: "bytes \<Rightarrow> u8 \<Rightarrow> bool" where
  "canonical bs m \<longleftrightarrow> unat m < 128 \<and> (m \<noteq> 0 \<or> bs \<noteq> [] \<and> 128 \<le> unat (last bs))"

lemma number_bytes_canonical:
  "0 < p \<Longrightarrow> \<exists>bs m. number_bytes p s = bs @ [m] \<and> canonical bs m \<and> le_val (bs @ [m]) = p"
proof (induction p s rule: number_bytes.induct)
  case (1 p s)
  define b where "b = (of_nat (p mod 256) :: u8)"
  have b: "unat b = p mod 256" by (simp add: b_def unat_of_nat take_bit_eq_mod)
  have n: "number_bytes p s = b # number_bytes (p div 256) (b AND 0x80 \<noteq> 0)"
    using 1(2) by (subst number_bytes.simps) (simp add: b_def Let_def)
  show ?case
  proof (cases "p div 256 = 0")
    case True
    then have p: "unat b = p" using b by (simp add: div_eq_0_iff)
    show ?thesis
    proof (cases "128 \<le> unat b")
      case True
      then have "number_bytes p s = [b] @ [0]" using n \<open>p div 256 = 0\<close> u8_bit7 [of b] by (simp add: number_bytes.simps)
      then show ?thesis using True p by (intro exI [of _ "[b]"] exI [of _ 0]) (simp add: canonical_def)
    next
      case False
      then have "number_bytes p s = [] @ [b]" using n \<open>p div 256 = 0\<close> u8_bit7 [of b] by (simp add: number_bytes.simps)
      moreover have "b \<noteq> 0" using p 1(2) by auto
      ultimately show ?thesis using False p by (intro exI [of _ "[]"] exI [of _ b]) (simp add: canonical_def)
    qed
  next
    case False
    with 1 b_def obtain bs m where h: "number_bytes (p div 256) (b AND 0x80 \<noteq> 0) = bs @ [m]" "canonical bs m"
      "le_val (bs @ [m]) = p div 256" by auto
    have "number_bytes p s = (b # bs) @ [m]" using n h by simp
    moreover have "canonical (b # bs) m" using h(2) by (auto simp: canonical_def)
    moreover have "le_val ((b # bs) @ [m]) = p" using h(3) b by simp
    ultimately show ?thesis by blast
  qed
qed

lemma number_bytes_le_val: "canonical bs m \<Longrightarrow> number_bytes (le_val (bs @ [m])) s = bs @ [m]"
proof (induction bs arbitrary: s)
  case Nil
  then have "0 < unat m" "unat m < 128" by (auto simp: canonical_def unat_gt_0)
  then show ?case using u8_bit7 [of m] by (simp add: number_bytes.simps [of "unat m"] number_bytes.simps [of 0])
next
  case (Cons b bs)
  define r where "r = le_val (bs @ [m])"
  have b: "unat b < 256" using unat_less_exp [of b] by simp
  have e: "le_val ((b # bs) @ [m]) = unat b + 256 * r" by (simp add: r_def)
  have tail: "number_bytes r (b AND 0x80 \<noteq> 0) = bs @ [m]"
  proof (cases "bs = [] \<and> m = 0")
    case True
    then have "128 \<le> unat b" using Cons(2) by (auto simp: canonical_def)
    then show ?thesis using True u8_bit7 [of b] by (simp add: r_def number_bytes.simps)
  next
    case False
    then have "canonical bs m" using Cons(2) by (auto simp: canonical_def)
    then show ?thesis unfolding r_def by (rule Cons.IH)
  qed
  have "unat b + 256 * r \<noteq> 0"
  proof
    assume "unat b + 256 * r = 0"
    then have "r = 0" "unat b = 0" by simp_all
    with tail u8_bit7 [of b] show False by (simp add: number_bytes.simps)
  qed
  then show ?case unfolding e using tail b by (subst number_bytes.simps) (simp add: Let_def)
qed

lemma canonical_large: "canonical bs m \<Longrightarrow> 8 \<le> length bs \<Longrightarrow> 2 ^ 63 \<le> le_val (bs @ [m])"
proof -
  assume c: "canonical bs m" "8 \<le> length bs"
  then obtain cs l where bs: "bs = cs @ [l]" and cs: "7 \<le> length cs" by (cases bs rule: rev_cases) auto
  have pw: "(256 :: nat) ^ 7 \<le> 256 ^ length cs" using cs by (intro power_increasing) simp_all
  have v: "le_val (bs @ [m]) = le_val cs + 256 ^ length cs * (unat l + 256 * unat m)" by (simp add: bs algebra_simps)
  have "128 \<le> unat l + 256 * unat m" using c(1) by (auto simp: canonical_def bs simp flip: unat_gt_0)
  then have "256 ^ 7 * 128 \<le> 256 ^ length cs * (unat l + 256 * unat m)" using pw by (intro mult_le_mono) simp_all
  then show ?thesis unfolding v by simp
qed

lemma canonical_small: "length bs < 8 \<Longrightarrow> unat m < 128 \<Longrightarrow> le_val (bs @ [m]) < 2 ^ 63"
proof -
  assume l: "length bs < 8" and m: "unat m < 128"
  have "le_val (bs @ [m]) < 256 ^ length bs * (unat m + 1)" using le_val_bound [of bs] by simp
  also have "\<dots> \<le> 256 ^ 7 * 128" using l m by (intro mult_le_mono power_increasing) simp_all
  finally show ?thesis by simp
qed

section \<open>Deserialization\<close>

lemma fold_magnitude: "fold (\<lambda>item accum. accum * 256 + uint item) (rev bs) a = int (le_val bs) + 256 ^ length bs * a"
  by (induction bs) (simp_all add: algebra_simps)

lemma check_minimal_snoc:
  "check_minimal_data_encoding (bs @ [m]) = Ok () \<longleftrightarrow> unat m mod 128 \<noteq> 0 \<or> bs \<noteq> [] \<and> 128 \<le> unat (last bs)"
proof -
  have m: "m AND 0x7f = 0 \<longleftrightarrow> unat m mod 128 = 0" using u8_mask7 [of m] by (metis unsigned_0 unsigned_eq_0_iff)
  have "bs \<noteq> [] \<Longrightarrow> (bs @ [m]) ! (length (bs @ [m]) - 2) = last bs"
    by (simp add: nth_append last_conv_nth)
  then show ?thesis by (auto simp: check_minimal_data_encoding_def m u8_bit7 not_less)
qed

lemma deserialize_snoc:
  assumes "length bs < 8"
  shows "deserialize_i64 (bs @ [m]) = (if unat m mod 128 \<noteq> 0 \<or> bs \<noteq> [] \<and> 128 \<le> unat (last bs)
      then Ok (int (le_val (bs @ [of_nat (unat m mod 128)])) * (if 128 \<le> unat m then - 1 else 1)) else Err NotMinimalData)"
proof -
  have u: "uint (m AND 0x7f) = int (unat m mod 128)" "uint (drop_bit 7 m) = (if 128 \<le> unat m then 1 else 0)"
    by (simp_all add: uint_nat u8_mask7 u8_high del: unat_eq_nat_uint)
  have o: "unat (of_nat (unat m mod 128) :: u8) = unat m mod 128" by (simp add: unat_of_nat take_bit_eq_mod)
  show ?thesis
  proof (cases "check_minimal_data_encoding (bs @ [m]) = Ok ()")
    case True
    have "le_val (bs @ [of_nat (unat m mod 128)]) = le_val bs + 256 ^ length bs * (unat m mod 128)" by (simp add: o)
    then show ?thesis using assms check_minimal_snoc [of bs m] True
      unfolding deserialize_i64_def Let_def by (simp only: fold_magnitude u last_snoc butlast_snoc) simp
  next
    case False
    then have "check_minimal_data_encoding (bs @ [m]) = Err NotMinimalData"
      by (simp add: check_minimal_data_encoding_def split: if_splits)
    then show ?thesis using assms False check_minimal_snoc [of bs m] by (auto simp: deserialize_i64_def)
  qed
qed

section \<open>Round trips\<close>

lemma serialize_i64_pos: "0 < p \<Longrightarrow> \<exists>bs m. canonical bs m \<and> le_val (bs @ [m]) = p \<and>
    serialize_i64 (int p) = (Ok (bs @ [m]) :: ('e, _) outcome) \<and> serialize_i64 (- int p) = (Ok (bs @ [m OR 0x80]) :: ('e, _) outcome)"
  using number_bytes_canonical [of p False] by (force simp: serialize_i64_def)

lemma canonical_length: "canonical bs m \<Longrightarrow> length bs < 8 \<longleftrightarrow> le_val (bs @ [m]) < 2 ^ 63"
  using canonical_large [of bs m] canonical_small [of bs m] by (metis canonical_def not_le)

lemma i64_roundtrip:
  assumes "\<bar>n\<bar> < 2 ^ 63"
  shows "\<exists>v. i64_serialize n = Ok v \<and> length v \<le> 8 \<and> i64_deserialize v = Ok n"
proof (cases "n = 0")
  case True
  then show ?thesis by (simp add: i64_serialize_def i64_deserialize_def sized_serialize_def sized_deserialize_def
      serialize_i64_def deserialize_i64_def number_bytes.simps)
next
  case False
  define p where "p = nat \<bar>n\<bar>"
  then have "0 < p" and lt: "p < 2 ^ 63" using False assms by (auto simp: nat_less_iff)
  then obtain bs m where c: "canonical bs m" "le_val (bs @ [m]) = p"
    and s: "serialize_i64 (int p) = (Ok (bs @ [m]) :: (serialization_error, _) outcome)"
      "serialize_i64 (- int p) = (Ok (bs @ [m OR 0x80]) :: (serialization_error, _) outcome)"
    using serialize_i64_pos [where 'e = serialization_error] by metis
  have l: "length bs < 8" using canonical_length [OF c(1)] c(2) lt by simp
  have m: "unat m < 128" using c(1) by (simp add: canonical_def)
  then have r: "of_nat (unat m) = m" "unat (m OR 0x80) mod 128 = unat m" "128 \<le> unat (m OR 0x80)" by (simp_all add: u8_set_high)
  have min: "unat m mod 128 \<noteq> 0 \<or> bs \<noteq> [] \<and> 128 \<le> unat (last bs)" using c(1) by (auto simp: canonical_def unsigned_eq_0_iff)
  show ?thesis
  proof (cases "n < 0")
    case True
    then have "n = - int p" by (simp add: p_def)
    then show ?thesis using s(2) l r min c(2) m
      by (simp add: i64_serialize_def i64_deserialize_def sized_serialize_def sized_deserialize_def deserialize_snoc)
  next
    case False
    then have "n = int p" by (simp add: p_def)
    then show ?thesis using s(1) l r min c(2) m
      by (simp add: i64_serialize_def i64_deserialize_def sized_serialize_def sized_deserialize_def deserialize_snoc)
  qed
qed

lemma deserialize_i64_range: "deserialize_i64 v = Ok n \<Longrightarrow> v \<noteq> [] \<Longrightarrow>
    \<exists>bs m k. v = bs @ [m] \<and> length bs < 8 \<and> canonical bs k \<and> k = of_nat (unat m mod 128) \<and>
      n = int (le_val (bs @ [k])) * (if 128 \<le> unat m then - 1 else 1)"
proof -
  assume d: "deserialize_i64 v = Ok n" and "v \<noteq> []"
  then obtain bs m where v: "v = bs @ [m]" by (cases v rule: rev_cases) auto
  have l: "length bs < 8" using d v by (simp add: deserialize_i64_def split: if_splits)
  have o: "unat (of_nat (unat m mod 128) :: u8) = unat m mod 128" by (simp add: unat_of_nat take_bit_eq_mod)
  have "canonical bs (of_nat (unat m mod 128))"
    using d o unfolding v deserialize_snoc [OF l] by (auto simp: canonical_def simp flip: unsigned_eq_0_iff split: if_splits)
  then show ?thesis using d l v by (auto simp: deserialize_snoc split: if_splits)
qed

lemma deserialize_i64_bound: "deserialize_i64 v = Ok n \<Longrightarrow> \<bar>n\<bar> < 2 ^ 63"
proof (cases "v = []")
  case False
  assume "deserialize_i64 v = Ok n"
  from deserialize_i64_range [OF this False] obtain bs m k where "length bs < 8" "canonical bs k"
    "n = int (le_val (bs @ [k])) * (if 128 \<le> unat (m :: u8) then - 1 else 1)" by metis
  then have "length bs < 8" "canonical bs k" "\<bar>n\<bar> = int (le_val (bs @ [k]))" by (auto simp: abs_mult simp del: le_val_append)
  moreover from this have "le_val (bs @ [k]) < 2 ^ 63" by (intro canonical_small) (simp_all add: canonical_def)
  ultimately show ?thesis by (simp only: of_nat_less_numeral_power_cancel_iff)
qed (simp add: deserialize_i64_def)

lemma deserialize_i64_inverse: "deserialize_i64 v = Ok n \<Longrightarrow> serialize_i64 n = Ok v"
proof (cases "v = []")
  case True
  assume "deserialize_i64 v = Ok n"
  then show ?thesis using True by (simp add: deserialize_i64_def serialize_i64_def number_bytes.simps)
next
  case False
  assume "deserialize_i64 v = Ok n"
  from deserialize_i64_range [OF this False] obtain bs m k where v: "v = bs @ [m]" and c: "canonical bs k"
    and k: "k = of_nat (unat m mod 128)" and n: "n = int (le_val (bs @ [k])) * (if 128 \<le> unat m then - 1 else 1)" by blast
  have nb: "number_bytes (le_val (bs @ [k])) False = bs @ [k]" by (rule number_bytes_le_val [OF c])
  have b: "unat m < 256" using unat_less_exp [of m] by simp
  have ku: "unat k = unat m mod 128" by (simp add: k unat_of_nat take_bit_eq_mod)
  have pos: "0 < le_val (bs @ [k])" using nb by (metis append_is_Nil_conv gr0I list.distinct(1) number_bytes.simps)
  show ?thesis
  proof (cases "128 \<le> unat m")
    case True
    then have "unat m mod 128 + 128 = unat m" using b by (simp add: le_mod_geq)
    then have "unat (k OR 0x80) = unat m" using ku by (subst u8_set_high) simp_all
    then have "k OR 0x80 = m" by (simp only: word_unat_eq_iff)
    moreover have "n < 0" "nat \<bar>n\<bar> = le_val (bs @ [k])" using n True pos by (simp_all del: le_val_append)
    ultimately show ?thesis using nb by (simp add: serialize_i64_def v)
  next
    case False
    then have "k = m" using ku by (simp add: word_unat_eq_iff)
    moreover have "\<not> n < 0" "nat \<bar>n\<bar> = le_val (bs @ [k])" using n False pos by (simp_all del: le_val_append)
    ultimately show ?thesis using nb by (simp add: serialize_i64_def v)
  qed
qed

end
