(* ===== verification/Opcode.thy ===== *)
theory Opcode
  imports Script_Num
begin

text \<open>
  Script opcodes: their numbers, lengths and metadata (src/crypto/txscript/src/opcodes/mod.rs), their serialization
  (opcodes/macros.rs) and the script parser \<open>parse_script\<close> (src/crypto/txscript/src/lib.rs).

  An opcode is its number with its data, as \<open>OpCode<CODE> { data }\<close>. The parser reads from an iterator, so a
  reader returns what it read together with the bytes it left. The lemmas show that parsing inverts the
  serialization of well-formed opcodes and conversely that a script is the serialization of what it parses to.
\<close>

section \<open>Opcode numbers\<close>

abbreviation (input) OpFalse :: u8 where "OpFalse \<equiv> 0x00"
abbreviation (input) OpData32 :: u8 where "OpData32 \<equiv> 0x20"
abbreviation (input) OpData75 :: u8 where "OpData75 \<equiv> 0x4b"
abbreviation (input) OpPushData1 :: u8 where "OpPushData1 \<equiv> 0x4c"
abbreviation (input) OpPushData2 :: u8 where "OpPushData2 \<equiv> 0x4d"
abbreviation (input) OpPushData4 :: u8 where "OpPushData4 \<equiv> 0x4e"
abbreviation (input) Op1Negate :: u8 where "Op1Negate \<equiv> 0x4f"
abbreviation (input) OpReserved :: u8 where "OpReserved \<equiv> 0x50"
abbreviation (input) OpTrue :: u8 where "OpTrue \<equiv> 0x51"
abbreviation (input) Op16 :: u8 where "Op16 \<equiv> 0x60"
abbreviation (input) OpReturn :: u8 where "OpReturn \<equiv> 0x6a"
abbreviation (input) OpEqual :: u8 where "OpEqual \<equiv> 0x87"
abbreviation (input) OpReservedA9 :: u8 where "OpReservedA9 \<equiv> 0xa9"
abbreviation (input) OpBlake2b :: u8 where "OpBlake2b \<equiv> 0xaa"
abbreviation (input) OpReservedAb :: u8 where "OpReservedAb \<equiv> 0xab"
abbreviation (input) OpCheckSig :: u8 where "OpCheckSig \<equiv> 0xac"
abbreviation (input) OpCheckSigVerify :: u8 where "OpCheckSigVerify \<equiv> 0xad"
abbreviation (input) OpCheckMultiSig :: u8 where "OpCheckMultiSig \<equiv> 0xae"
abbreviation (input) OpCheckMultiSigVerify :: u8 where "OpCheckMultiSigVerify \<equiv> 0xaf"
abbreviation (input) OpCheckSigDilithium :: u8 where "OpCheckSigDilithium \<equiv> 0xc4"

definition OP_SMALL_INT_MIN_VAL :: u8 where "OP_SMALL_INT_MIN_VAL = 1"
definition OP_SMALL_INT_MAX_VAL :: u8 where "OP_SMALL_INT_MAX_VAL = 16"
definition OP_DATA_MIN_VAL :: u8 where "OP_DATA_MIN_VAL = 0x01"
definition OP_DATA_MAX_VAL :: u8 where "OP_DATA_MAX_VAL = OpData75"
definition OP_1_NEGATE_VAL :: u8 where "OP_1_NEGATE_VAL = 0x81"
definition NO_COST_OPCODE :: u8 where "NO_COST_OPCODE = 0x60"

lemmas op_vals = OP_SMALL_INT_MIN_VAL_def OP_SMALL_INT_MAX_VAL_def OP_DATA_MIN_VAL_def OP_DATA_MAX_VAL_def
  OP_1_NEGATE_VAL_def NO_COST_OPCODE_def

text \<open>The length column of the opcode list: a fixed length that includes the opcode itself, or the width of a
  length prefix.\<close>

datatype length_spec = Fixed nat | Prefix nat

definition op_length :: "u8 \<Rightarrow> length_spec" where
  "op_length c = (if 0x01 \<le> c \<and> c \<le> OpData75 then Fixed (unat c + 1) else if c = OpPushData1 then Prefix 1
     else if c = OpPushData2 then Prefix 2 else if c = OpPushData4 then Prefix 4 else Fixed 1)"

datatype opcode = OpCode (op_value: u8) (get_data: bytes)

definition op_len :: "opcode \<Rightarrow> nat" where
  "op_len op = length (get_data op)"

section \<open>Metadata\<close>

definition is_disabled :: "opcode \<Rightarrow> bool" where
  "is_disabled op \<longleftrightarrow> op_value op \<in> set [0x7e, 0x7f, 0x80, 0x81, 0x83, 0x84, 0x85, 0x86, 0x8d, 0x8e, 0x95, 0x96, 0x97, 0x98, 0x99]"

definition always_illegal :: "opcode \<Rightarrow> bool" where
  "always_illegal op \<longleftrightarrow> op_value op \<in> set [0x65, 0x66]"

definition is_push_opcode :: "opcode \<Rightarrow> bool" where
  "is_push_opcode op \<longleftrightarrow> op_value op \<le> NO_COST_OPCODE"

definition is_conditional :: "opcode \<Rightarrow> bool" where
  "is_conditional op \<longleftrightarrow> 0x63 \<le> op_value op \<and> op_value op \<le> 0x68"

definition check_minimal_data_push :: "opcode \<Rightarrow> unit script_result" where
  "check_minimal_data_push op =
     (let data_len = op_len op; opcode = op_value op; data = get_data op in
      if data_len = 0 then ensure (opcode = OpFalse) NotMinimalData
      else if data_len = 1 \<and> OP_SMALL_INT_MIN_VAL \<le> data ! 0 \<and> data ! 0 \<le> OP_SMALL_INT_MAX_VAL
        then ensure (opcode = OpTrue + data ! 0 - 1) NotMinimalData
      else if data_len = 1 \<and> data ! 0 = OP_1_NEGATE_VAL then ensure (opcode = Op1Negate) NotMinimalData
      else if data_len \<le> unat OP_DATA_MAX_VAL then ensure (unat opcode = data_len) NotMinimalData
      else if data_len \<le> 255 then ensure (opcode = OpPushData1) NotMinimalData
      else if data_len < 65535 \<and> opcode \<noteq> OpPushData2 then Err NotMinimalData
      else Ok ())"

section \<open>Serialization\<close>

definition opcode_new :: "u8 \<Rightarrow> bytes \<Rightarrow> opcode script_result" where
  "opcode_new c data = (case op_length c of
     Fixed len \<Rightarrow> if length data \<noteq> len - 1 then Err (MalformedPush (len - 1) (length data)) else Ok (OpCode c data)
   | Prefix n \<Rightarrow> if 256 ^ n - 1 < length data then Err (MalformedPush (256 ^ n - 1) (length data)) else Ok (OpCode c data))"

definition opcode_serialize :: "opcode \<Rightarrow> bytes" where
  "opcode_serialize op = (case op_length (op_value op) of
     Fixed _ \<Rightarrow> op_value op # get_data op
   | Prefix n \<Rightarrow> op_value op # to_le_bytes n (of_nat (length (get_data op)) :: u32) @ get_data op)"

definition opcode_deserialize :: "u8 \<Rightarrow> bytes \<Rightarrow> opcode script_result \<times> bytes" where
  "opcode_deserialize c it = (case op_length c of
     Fixed len \<Rightarrow> (opcode_new c (take (len - 1) it), drop (len - 1) it)
   | Prefix n \<Rightarrow> (let vec = take n it; it = drop n it in
       if length vec \<noteq> n then (Err (MalformedPushSize vec), it)
       else let len = unat (from_le_bytes vec :: u32); data = take len it; it = drop len it in
         if length data \<noteq> len then (Err (MalformedPush len (length data)), it) else (Ok (OpCode c data), it)))"

definition deserialize_next_opcode :: "bytes \<Rightarrow> (opcode script_result \<times> bytes) option" where
  "deserialize_next_opcode it = (case it of [] \<Rightarrow> None | opcode_num # it \<Rightarrow> Some (opcode_deserialize opcode_num it))"

lemma deserialize_next_shorter: "deserialize_next_opcode it = Some (r, rest) \<Longrightarrow> length rest < length it"
  by (auto simp: deserialize_next_opcode_def opcode_deserialize_def Let_def split: list.splits length_spec.splits if_splits)

function parse_script :: "bytes \<Rightarrow> opcode script_result list" where
  "parse_script script = (case deserialize_next_opcode script of None \<Rightarrow> [] | Some (r, rest) \<Rightarrow> r # parse_script rest)"
  by pat_completeness auto
termination by (relation "measure length") (auto dest: deserialize_next_shorter [OF sym] simp: deserialize_next_shorter)

declare parse_script.simps [simp del]

section \<open>Parsing inverts serialization\<close>

definition opcode_wf :: "opcode \<Rightarrow> bool" where
  "opcode_wf op \<longleftrightarrow> (case op_length (op_value op) of
     Fixed len \<Rightarrow> op_len op = len - 1 | Prefix n \<Rightarrow> op_len op < 256 ^ n)"

lemma parse_script_Nil [simp]: "parse_script [] = []"
  by (simp add: parse_script.simps deserialize_next_opcode_def)

lemma op_length_cases:
  obtains (fixed) len where "op_length c = Fixed (Suc len)" | (prefix) n where "op_length c = Prefix n" "n \<in> {1, 2, 4}"
  by (fastforce simp: op_length_def split: if_splits)

lemma from_to_le_bytes_small:
  fixes w :: "'a::len word"
  assumes "unat w < 256 ^ n"
  shows "from_le_bytes (to_le_bytes n w) = w"
proof (rule bit_word_eqI)
  fix i assume i: "i < LENGTH('a)"
  have "take_bit (8 * n) (unat w) = unat w" using assms by (intro take_bit_nat_eq_self) (simp add: power_mult)
  then have "bit (unat w) i \<Longrightarrow> i < 8 * n" by (metis bit_take_bit_iff)
  then have w: "bit w i \<Longrightarrow> i < 8 * n" using i by (simp add: bit_unsigned_iff)
  have "8 * (i div 8) + i mod 8 = i" by simp
  then show "bit (from_le_bytes (to_le_bytes n w) :: 'a word) i = bit w i"
    using i w by (auto simp: bit_from_le_bytes nth_to_le_bytes bit_ucast_iff bit_drop_bit_eq less_mult_imp_div_less mult.commute)
qed

lemma prefix_length_roundtrip:
  assumes "n \<in> {1, 2, 4}" and "k < 256 ^ n"
  shows "unat (from_le_bytes (to_le_bytes n (of_nat k :: u32)) :: u32) = k"
proof -
  have "unat (of_nat k :: u32) = k" using assms by (auto simp: unat_of_nat take_bit_nat_eq_self)
  then show ?thesis using assms(2) by (simp add: from_to_le_bytes_small)
qed

lemma opcode_deserialize_serialize:
  assumes "opcode_wf op"
  shows "deserialize_next_opcode (opcode_serialize op @ rest) = Some (Ok op, rest)"
proof (cases "op_value op" rule: op_length_cases)
  case (fixed len)
  then show ?thesis using assms by (simp add: deserialize_next_opcode_def opcode_serialize_def opcode_deserialize_def
      opcode_new_def opcode_wf_def op_len_def)
next
  case (prefix n)
  then have "unat (from_le_bytes (to_le_bytes n (of_nat (length (get_data op)) :: u32)) :: u32) = length (get_data op)"
    using assms by (intro prefix_length_roundtrip) (simp_all add: opcode_wf_def op_len_def)
  then show ?thesis using prefix by (simp add: deserialize_next_opcode_def opcode_serialize_def opcode_deserialize_def Let_def)
qed

lemma parse_script_serialize: "opcode_wf op \<Longrightarrow> parse_script (opcode_serialize op @ rest) = Ok op # parse_script rest"
  by (subst parse_script.simps) (simp add: opcode_deserialize_serialize)

lemma parse_script_serialize_all:
  "list_all opcode_wf ops \<Longrightarrow> parse_script (concat (map opcode_serialize ops)) = map Ok ops"
  by (induction ops) (simp_all add: parse_script_serialize)

text \<open>The other direction: what was read is well formed, and its serialization is what was consumed.\<close>

lemma deserialize_next_Ok:
  assumes "deserialize_next_opcode it = Some (Ok op, rest)"
  shows "opcode_wf op \<and> it = opcode_serialize op @ rest"
proof -
  obtain c it' where it: "it = c # it'" and d: "opcode_deserialize c it' = (Ok op, rest)"
    using assms by (auto simp: deserialize_next_opcode_def split: list.splits)
  show ?thesis
  proof (cases c rule: op_length_cases)
    case (fixed len)
    then show ?thesis using d it
      by (auto simp: opcode_deserialize_def opcode_new_def opcode_wf_def opcode_serialize_def op_len_def split: if_splits)
  next
    case (prefix n)
    define vec where "vec = take n it'"
    define len where "len = unat (from_le_bytes vec :: u32)"
    have l: "length vec = n" and op: "op = OpCode c (take len (drop n it'))" and r: "rest = drop len (drop n it')"
      and dl: "length (take len (drop n it')) = len"
      using d prefix by (auto simp: opcode_deserialize_def Let_def vec_def len_def split: if_splits)
    have b: "to_le_bytes n (from_le_bytes vec :: u32) = vec" using l prefix(2) by (intro to_from_le_bytes) auto
    have "len < 256 ^ n"
    proof -
      have "bit (from_le_bytes vec :: u32) i \<Longrightarrow> i < 8 * n" for i using l by (auto simp: bit_from_le_bytes less_mult_imp_div_less)
      then have "take_bit (8 * n) (from_le_bytes vec :: u32) = from_le_bytes vec" by (auto intro!: bit_word_eqI simp: bit_take_bit_iff)
      then have "unat (take_bit (8 * n) (from_le_bytes vec :: u32)) = len" by (simp add: len_def)
      then have "take_bit (8 * n) len = len" by (simp add: len_def unsigned_take_bit_eq)
      then have "len < 2 ^ (8 * n)" by (metis take_bit_nat_less_exp)
      then show ?thesis by (simp add: power_mult)
    qed
    moreover have "to_le_bytes n (of_nat len :: u32) = vec" using b by (simp add: len_def)
    moreover have "it' = vec @ take len (drop n it') @ rest" unfolding vec_def r by (simp only: append_take_drop_id)
    ultimately show ?thesis using prefix op it dl by (simp add: opcode_wf_def op_len_def opcode_serialize_def)
  qed
qed

end
