(* ===== verification/Sighash.thy ===== *)
theory Sighash
  imports Tx
begin

text \<open>
  Transaction hashing: the hasher extensions of src/consensus/core/src/hashing/mod.rs, the transaction encodings
  of hashing/tx.rs and the signature hash of hashing/sighash.rs with its hash types (sighash_type.rs).

  A hasher absorbs bytes and is finalized once, so a writer is modelled by the bytes it feeds, and the
  domain-separated Blake2b functions of the hashes crate (\<open>TransactionSigningHash\<close>, \<open>TransactionHash\<close>,
  \<open>TransactionID\<close>) are parameters from the absorbed bytes to the hash. The values that the signature hashes
  of one transaction share are a record of optional hashes that the functions thread.
\<close>

section \<open>Hasher extensions\<close>

definition write_len :: "nat \<Rightarrow> bytes" where
  "write_len len = to_le_bytes 8 (of_nat len :: u64)"

definition write_bool :: "bool \<Rightarrow> bytes" where
  "write_bool element = (if element then [1] else [0])"

definition write_u8 :: "u8 \<Rightarrow> bytes" where
  "write_u8 element = to_le_bytes 1 element"

definition write_u16 :: "u16 \<Rightarrow> bytes" where
  "write_u16 element = to_le_bytes 2 element"

definition write_u32 :: "u32 \<Rightarrow> bytes" where
  "write_u32 element = to_le_bytes 4 element"

definition write_u64 :: "u64 \<Rightarrow> bytes" where
  "write_u64 element = to_le_bytes 8 element"

definition write_var_bytes :: "bytes \<Rightarrow> bytes" where
  "write_var_bytes bs = write_len (length bs) @ bs"

definition write_var_array :: "bytes list \<Rightarrow> bytes" where
  "write_var_array arr = write_len (length arr) @ concat arr"

definition ZERO_HASH :: hash where
  "ZERO_HASH = Hash (replicate HASH_SIZE 0)"

primrec subnetwork_bytes :: "subnetwork_id_t \<Rightarrow> bytes" where
  "subnetwork_bytes (SubnetworkId bs) = bs"

section \<open>Transaction hash and id\<close>

definition EXCLUDE_SIGNATURE_SCRIPT :: u8 where "EXCLUDE_SIGNATURE_SCRIPT = 1"
definition EXCLUDE_MASS_COMMIT :: u8 where "EXCLUDE_MASS_COMMIT = 2"

definition flags_contain :: "u8 \<Rightarrow> u8 \<Rightarrow> bool" where
  "flags_contain flags f \<longleftrightarrow> flags AND f = f"

definition write_outpoint :: "transaction_outpoint \<Rightarrow> bytes" where
  "write_outpoint outpoint = as_bytes (transaction_id outpoint) @ to_le_bytes 4 (outpoint_index outpoint)"

definition write_input :: "u8 \<Rightarrow> transaction_input \<Rightarrow> bytes" where
  "write_input flags input =
     write_outpoint (previous_outpoint input) @
     (if \<not> flags_contain flags EXCLUDE_SIGNATURE_SCRIPT
      then write_var_bytes (signature_script input) @ [sig_op_count input] else write_var_bytes []) @
     to_le_bytes 8 (sequence input)"

definition write_output :: "transaction_output \<Rightarrow> bytes" where
  "write_output output =
     to_le_bytes 8 (out_value output) @ to_le_bytes 2 (spk_version (out_spk output)) @
     write_var_bytes (spk_script (out_spk output))"

definition write_transaction :: "u8 \<Rightarrow> transaction \<Rightarrow> bytes" where
  "write_transaction flags tx =
     to_le_bytes 2 (tx_version tx) @ write_len (length (tx_inputs tx)) @ concat (map (write_input flags) (tx_inputs tx)) @
     write_len (length (tx_outputs tx)) @ concat (map write_output (tx_outputs tx)) @
     to_le_bytes 8 (lock_time tx) @ subnetwork_bytes (subnetwork_id tx) @ to_le_bytes 8 (tx_gas tx) @
     write_var_bytes (tx_payload tx) @
     (if \<not> flags_contain flags EXCLUDE_MASS_COMMIT \<and> 0 < tx_mass tx then to_le_bytes 8 (tx_mass tx) else [])"

definition tx_hash :: "(bytes \<Rightarrow> hash) \<Rightarrow> transaction \<Rightarrow> hash" where
  "tx_hash TransactionHash tx = TransactionHash (write_transaction 0 tx)"

definition hash_pre_crescendo :: "(bytes \<Rightarrow> hash) \<Rightarrow> transaction \<Rightarrow> hash" where
  "hash_pre_crescendo TransactionHash tx = TransactionHash (write_transaction EXCLUDE_MASS_COMMIT tx)"

definition calc_tx_id :: "(bytes \<Rightarrow> hash) \<Rightarrow> transaction \<Rightarrow> hash" where
  "calc_tx_id TransactionID tx =
     (let encoding_flags = (if is_coinbase tx then 0 else EXCLUDE_SIGNATURE_SCRIPT OR EXCLUDE_MASS_COMMIT)
      in TransactionID (write_transaction encoding_flags tx))"

section \<open>Signature hash types\<close>

datatype sig_hash_type = SigHashType (to_u8: u8)

definition SIG_HASH_ALL :: sig_hash_type where "SIG_HASH_ALL = SigHashType 1"
definition SIG_HASH_NONE :: sig_hash_type where "SIG_HASH_NONE = SigHashType 2"
definition SIG_HASH_SINGLE :: sig_hash_type where "SIG_HASH_SINGLE = SigHashType 4"
definition SIG_HASH_ANY_ONE_CAN_PAY :: sig_hash_type where "SIG_HASH_ANY_ONE_CAN_PAY = SigHashType 0x80"
definition SIG_HASH_MASK :: u8 where "SIG_HASH_MASK = 7"

definition ALLOWED_SIG_HASH_TYPES_VALUES :: "u8 list" where
  "ALLOWED_SIG_HASH_TYPES_VALUES =
     [to_u8 SIG_HASH_ALL, to_u8 SIG_HASH_NONE, to_u8 SIG_HASH_SINGLE,
      to_u8 SIG_HASH_ALL OR to_u8 SIG_HASH_ANY_ONE_CAN_PAY, to_u8 SIG_HASH_NONE OR to_u8 SIG_HASH_ANY_ONE_CAN_PAY,
      to_u8 SIG_HASH_SINGLE OR to_u8 SIG_HASH_ANY_ONE_CAN_PAY]"

definition is_sighash_all :: "sig_hash_type \<Rightarrow> bool" where
  "is_sighash_all t \<longleftrightarrow> to_u8 t AND SIG_HASH_MASK = to_u8 SIG_HASH_ALL"

definition is_sighash_none :: "sig_hash_type \<Rightarrow> bool" where
  "is_sighash_none t \<longleftrightarrow> to_u8 t AND SIG_HASH_MASK = to_u8 SIG_HASH_NONE"

definition is_sighash_single :: "sig_hash_type \<Rightarrow> bool" where
  "is_sighash_single t \<longleftrightarrow> to_u8 t AND SIG_HASH_MASK = to_u8 SIG_HASH_SINGLE"

definition is_sighash_anyone_can_pay :: "sig_hash_type \<Rightarrow> bool" where
  "is_sighash_anyone_can_pay t \<longleftrightarrow> to_u8 t AND to_u8 SIG_HASH_ANY_ONE_CAN_PAY = to_u8 SIG_HASH_ANY_ONE_CAN_PAY"

definition sig_hash_type_from_u8 :: "u8 \<Rightarrow> sig_hash_type option" where
  "sig_hash_type_from_u8 val = (if val \<in> set ALLOWED_SIG_HASH_TYPES_VALUES then Some (SigHashType val) else None)"

section \<open>Signature hash\<close>

record sig_hash_reused_values =
  rv_previous_outputs_hash :: "hash option"
  rv_sequences_hash :: "hash option"
  rv_sig_op_counts_hash :: "hash option"
  rv_outputs_hash :: "hash option"
  rv_payload_hash :: "hash option"

definition reused_values_new :: sig_hash_reused_values where
  "reused_values_new = \<lparr>rv_previous_outputs_hash = None, rv_sequences_hash = None, rv_sig_op_counts_hash = None,
     rv_outputs_hash = None, rv_payload_hash = None\<rparr>"

definition reuse_previous_outputs_hash :: "hash \<Rightarrow> sig_hash_reused_values \<Rightarrow> hash \<times> sig_hash_reused_values" where
  "reuse_previous_outputs_hash hash r = (case rv_previous_outputs_hash r of
     Some h \<Rightarrow> (h, r) | None \<Rightarrow> (hash, r\<lparr>rv_previous_outputs_hash := Some hash\<rparr>))"

definition reuse_sequences_hash :: "hash \<Rightarrow> sig_hash_reused_values \<Rightarrow> hash \<times> sig_hash_reused_values" where
  "reuse_sequences_hash hash r = (case rv_sequences_hash r of
     Some h \<Rightarrow> (h, r) | None \<Rightarrow> (hash, r\<lparr>rv_sequences_hash := Some hash\<rparr>))"

definition reuse_sig_op_counts_hash :: "hash \<Rightarrow> sig_hash_reused_values \<Rightarrow> hash \<times> sig_hash_reused_values" where
  "reuse_sig_op_counts_hash hash r = (case rv_sig_op_counts_hash r of
     Some h \<Rightarrow> (h, r) | None \<Rightarrow> (hash, r\<lparr>rv_sig_op_counts_hash := Some hash\<rparr>))"

definition reuse_outputs_hash :: "hash \<Rightarrow> sig_hash_reused_values \<Rightarrow> hash \<times> sig_hash_reused_values" where
  "reuse_outputs_hash hash r = (case rv_outputs_hash r of
     Some h \<Rightarrow> (h, r) | None \<Rightarrow> (hash, r\<lparr>rv_outputs_hash := Some hash\<rparr>))"

definition reuse_payload_hash :: "hash \<Rightarrow> sig_hash_reused_values \<Rightarrow> hash \<times> sig_hash_reused_values" where
  "reuse_payload_hash hash r = (case rv_payload_hash r of
     Some h \<Rightarrow> (h, r) | None \<Rightarrow> (hash, r\<lparr>rv_payload_hash := Some hash\<rparr>))"

definition previous_outputs_hash ::
  "(bytes \<Rightarrow> hash) \<Rightarrow> transaction \<Rightarrow> sig_hash_type \<Rightarrow> sig_hash_reused_values \<Rightarrow> hash \<times> sig_hash_reused_values" where
  "previous_outputs_hash H tx hash_type r =
     (if is_sighash_anyone_can_pay hash_type then (ZERO_HASH, r)
      else reuse_previous_outputs_hash (H (concat (map (\<lambda>input. as_bytes (transaction_id (previous_outpoint input)) @
        write_u32 (outpoint_index (previous_outpoint input))) (tx_inputs tx)))) r)"

definition sequences_hash ::
  "(bytes \<Rightarrow> hash) \<Rightarrow> transaction \<Rightarrow> sig_hash_type \<Rightarrow> sig_hash_reused_values \<Rightarrow> hash \<times> sig_hash_reused_values" where
  "sequences_hash H tx hash_type r =
     (if is_sighash_single hash_type \<or> is_sighash_anyone_can_pay hash_type \<or> is_sighash_none hash_type then (ZERO_HASH, r)
      else reuse_sequences_hash (H (concat (map (\<lambda>input. write_u64 (sequence input)) (tx_inputs tx)))) r)"

definition sig_op_counts_hash ::
  "(bytes \<Rightarrow> hash) \<Rightarrow> transaction \<Rightarrow> sig_hash_type \<Rightarrow> sig_hash_reused_values \<Rightarrow> hash \<times> sig_hash_reused_values" where
  "sig_op_counts_hash H tx hash_type r =
     (if is_sighash_anyone_can_pay hash_type then (ZERO_HASH, r)
      else reuse_sig_op_counts_hash (H (concat (map (\<lambda>input. write_u8 (sig_op_count input)) (tx_inputs tx)))) r)"

definition payload_hash ::
  "(bytes \<Rightarrow> hash) \<Rightarrow> transaction \<Rightarrow> sig_hash_reused_values \<Rightarrow> hash \<times> sig_hash_reused_values" where
  "payload_hash H tx r =
     (if is_native (subnetwork_id tx) \<and> tx_payload tx = [] then (ZERO_HASH, r)
      else reuse_payload_hash (H (write_var_bytes (tx_payload tx))) r)"

definition hash_outpoint :: "transaction_outpoint \<Rightarrow> bytes" where
  "hash_outpoint outpoint = as_bytes (transaction_id outpoint) @ write_u32 (outpoint_index outpoint)"

definition hash_script_public_key :: "script_public_key \<Rightarrow> bytes" where
  "hash_script_public_key spk = write_u16 (spk_version spk) @ write_var_bytes (spk_script spk)"

definition hash_output :: "transaction_output \<Rightarrow> bytes" where
  "hash_output output = write_u64 (out_value output) @ hash_script_public_key (out_spk output)"

definition outputs_hash ::
  "(bytes \<Rightarrow> hash) \<Rightarrow> transaction \<Rightarrow> sig_hash_type \<Rightarrow> nat \<Rightarrow> sig_hash_reused_values \<Rightarrow> hash \<times> sig_hash_reused_values" where
  "outputs_hash H tx hash_type input_index r =
     (if is_sighash_none hash_type then (ZERO_HASH, r)
      else if is_sighash_single hash_type then
        (if length (tx_outputs tx) \<le> input_index then (ZERO_HASH, r) else (H (hash_output (tx_outputs tx ! input_index)), r))
      else reuse_outputs_hash (H (concat (map hash_output (tx_outputs tx)))) r)"

definition populated_input :: "populated_transaction \<Rightarrow> nat \<Rightarrow> ('e, transaction_input \<times> utxo_entry) outcome" where
  "populated_input p i =
     (if i < length (tx_inputs (ptx p)) \<and> i < length (ptx_entries p)
      then Ok (tx_inputs (ptx p) ! i, ptx_entries p ! i) else Panic)"

definition calc_signature_hash ::
  "(bytes \<Rightarrow> hash) \<Rightarrow> populated_transaction \<Rightarrow> nat \<Rightarrow> sig_hash_type \<Rightarrow> sig_hash_reused_values
     \<Rightarrow> ('e, hash \<times> sig_hash_reused_values) outcome" where
  "calc_signature_hash H verifiable_tx input_index hash_type r0 =
     obind (populated_input verifiable_tx input_index) (\<lambda>(input, entry).
       let tx = ptx verifiable_tx;
           (prev, r1) = previous_outputs_hash H tx hash_type r0;
           (seqs, r2) = sequences_hash H tx hash_type r1;
           (sigops, r3) = sig_op_counts_hash H tx hash_type r2;
           (outs, r4) = outputs_hash H tx hash_type input_index r3;
           (pl, r5) = payload_hash H tx r4
       in Ok (H (write_u16 (tx_version tx) @ as_bytes prev @ as_bytes seqs @ as_bytes sigops @
                 hash_outpoint (previous_outpoint input) @ hash_script_public_key (entry_spk entry) @
                 write_u64 (amount entry) @ write_u64 (sequence input) @ write_u8 (sig_op_count input) @
                 as_bytes outs @ write_u64 (lock_time tx) @ subnetwork_bytes (subnetwork_id tx) @
                 write_u64 (tx_gas tx) @ as_bytes pl @ write_u8 (to_u8 hash_type)), r5))"

section \<open>Prefix codes\<close>

text \<open>The contract of a writer whose output can be split off again: two values that are followed by anything
  give the same bytes only if they are equal.\<close>

locale prefix_code =
  fixes enc :: "'a \<Rightarrow> bytes" and legal :: "'a \<Rightarrow> bool"
  assumes split_off: "legal x \<Longrightarrow> legal y \<Longrightarrow> enc x @ r = enc y @ s \<Longrightarrow> x = y \<and> r = s"
begin

lemma enc_inject: "legal x \<Longrightarrow> legal y \<Longrightarrow> enc x @ r = enc y @ s \<longleftrightarrow> x = y \<and> r = s"
  using split_off by blast

lemma enc_list_inject:
  "list_all legal xs \<Longrightarrow> list_all legal ys \<Longrightarrow> length xs = length ys \<Longrightarrow>
    concat (map enc xs) @ r = concat (map enc ys) @ s \<longleftrightarrow> xs = ys \<and> r = s"
proof (induction xs arbitrary: ys)
  case (Cons x xs)
  then obtain y zs where "ys = y # zs" by (cases ys) auto
  then show ?case using Cons by (auto simp: enc_inject)
qed simp

end

locale unique_code = prefix_code +
  assumes nonempty: "enc x \<noteq> []"
begin

lemma enc_concat_inject:
  "list_all legal xs \<Longrightarrow> list_all legal ys \<Longrightarrow> concat (map enc xs) = concat (map enc ys) \<longleftrightarrow> xs = ys"
proof (induction xs arbitrary: ys)
  case Nil
  then show ?case by (cases ys) (auto simp: nonempty)
next
  case (Cons x xs)
  then show ?case by (cases ys) (auto simp: nonempty enc_inject)
qed

end

lemma to_le_bytes_eq: "LENGTH('a) \<le> 8 * n \<Longrightarrow> to_le_bytes n w = to_le_bytes n v \<longleftrightarrow> w = v" for w v :: "'a::len word"
  by (metis from_to_le_bytes)

lemma to_le_bytes_inject:
  fixes w v :: "'a::len word"
  assumes "LENGTH('a) \<le> 8 * n"
  shows "to_le_bytes n w @ r = to_le_bytes n v @ s \<longleftrightarrow> w = v \<and> r = s"
  using assms by (simp add: to_le_bytes_eq)

lemma write_len_inject: "a < 2 ^ 64 \<Longrightarrow> b < 2 ^ 64 \<Longrightarrow> write_len a @ r = write_len b @ s \<longleftrightarrow> a = b \<and> r = s"
  by (simp add: write_len_def to_le_bytes_eq word_of_nat_eq_iff take_bit_nat_eq_self)

lemma write_scalar_inject:
  "write_u8 a @ r = write_u8 b @ s \<longleftrightarrow> a = b \<and> r = s"
  "write_u16 c @ r = write_u16 d @ s \<longleftrightarrow> c = d \<and> r = s"
  "write_u32 e @ r = write_u32 f @ s \<longleftrightarrow> e = f \<and> r = s"
  "write_u64 g @ r = write_u64 h @ s \<longleftrightarrow> g = h \<and> r = s"
  by (simp_all add: write_u8_def write_u16_def write_u32_def write_u64_def to_le_bytes_eq)

interpretation var_bytes: prefix_code write_var_bytes "\<lambda>bs. length bs < 2 ^ 64"
  by unfold_locales (auto simp: write_var_bytes_def write_len_inject append_eq_append_conv)

definition hash_wf :: "hash \<Rightarrow> bool" where
  "hash_wf h \<longleftrightarrow> length (as_bytes h) = HASH_SIZE"

lemma hash_inject: "hash_wf a \<Longrightarrow> hash_wf b \<Longrightarrow> as_bytes a @ r = as_bytes b @ s \<longleftrightarrow> a = b \<and> r = s"
  by (auto simp: hash_wf_def append_eq_append_conv hash.expand)

definition outpoint_wf :: "transaction_outpoint \<Rightarrow> bool" where
  "outpoint_wf op \<longleftrightarrow> hash_wf (transaction_id op)"

definition spk_wf :: "script_public_key \<Rightarrow> bool" where
  "spk_wf spk \<longleftrightarrow> length (spk_script spk) < 2 ^ 64"

definition input_wf :: "transaction_input \<Rightarrow> bool" where
  "input_wf i \<longleftrightarrow> outpoint_wf (previous_outpoint i) \<and> length (signature_script i) < 2 ^ 64"

definition output_wf :: "transaction_output \<Rightarrow> bool" where
  "output_wf out \<longleftrightarrow> spk_wf (out_spk out)"

definition subnetwork_wf :: "subnetwork_id_t \<Rightarrow> bool" where
  "subnetwork_wf s \<longleftrightarrow> length (subnetwork_bytes s) = SUBNETWORK_ID_SIZE"

text \<open>What the types of the source guarantee: 32-byte hashes, 20-byte subnetwork ids, lengths below \<open>u64::MAX\<close>.\<close>

definition tx_wf :: "transaction \<Rightarrow> bool" where
  "tx_wf tx \<longleftrightarrow> list_all input_wf (tx_inputs tx) \<and> list_all output_wf (tx_outputs tx) \<and> length (tx_inputs tx) < 2 ^ 64 \<and>
     length (tx_outputs tx) < 2 ^ 64 \<and> length (tx_payload tx) < 2 ^ 64 \<and> subnetwork_wf (subnetwork_id tx)"

lemma subnetwork_inject:
  "subnetwork_wf a \<Longrightarrow> subnetwork_wf b \<Longrightarrow> subnetwork_bytes a @ r = subnetwork_bytes b @ s \<longleftrightarrow> a = b \<and> r = s"
  by (cases a; cases b) (auto simp: subnetwork_wf_def append_eq_append_conv)

lemma write_nonempty [simp]: "write_u8 a \<noteq> []" "write_u32 b \<noteq> []" "write_u64 c \<noteq> []"
  by (simp_all add: write_u8_def write_u32_def write_u64_def flip: length_0_conv)

interpretation outpoint_code: unique_code hash_outpoint outpoint_wf
  by unfold_locales (auto simp: hash_outpoint_def outpoint_wf_def hash_inject write_scalar_inject)

interpretation spk_code: prefix_code hash_script_public_key spk_wf
  by unfold_locales (auto simp: hash_script_public_key_def spk_wf_def write_scalar_inject var_bytes.enc_inject)

interpretation output_code: unique_code hash_output output_wf
  by unfold_locales (auto simp: hash_output_def output_wf_def spk_code.enc_inject write_scalar_inject)

interpretation u64_code: unique_code write_u64 "\<lambda>_. True"
  by unfold_locales (simp_all add: write_scalar_inject)

interpretation u8_code: unique_code write_u8 "\<lambda>_. True"
  by unfold_locales (simp_all add: write_scalar_inject)

text \<open>The writers of hashing/tx.rs and of hashing/sighash.rs agree on outpoints and outputs.\<close>

lemma write_outpoint_eq: "write_outpoint = hash_outpoint" and write_output_eq: "write_output = hash_output"
  by (auto simp: fun_eq_iff write_outpoint_def hash_outpoint_def write_u32_def write_output_def hash_output_def
      hash_script_public_key_def write_u64_def write_u16_def)

interpretation input_code: prefix_code "write_input 0" input_wf
  by unfold_locales (auto simp: write_input_def flags_contain_def EXCLUDE_SIGNATURE_SCRIPT_def input_wf_def write_outpoint_eq
      outpoint_code.enc_inject var_bytes.enc_inject to_le_bytes_eq)

section \<open>What the hash and the id of a transaction commit to\<close>

lemma flags_simps [simp]:
  "flags_contain 0 EXCLUDE_SIGNATURE_SCRIPT = False" "flags_contain 0 EXCLUDE_MASS_COMMIT = False"
  "flags_contain (EXCLUDE_SIGNATURE_SCRIPT OR EXCLUDE_MASS_COMMIT) EXCLUDE_SIGNATURE_SCRIPT = True"
  "flags_contain (EXCLUDE_SIGNATURE_SCRIPT OR EXCLUDE_MASS_COMMIT) EXCLUDE_MASS_COMMIT = True"
  by (simp_all add: flags_contain_def EXCLUDE_SIGNATURE_SCRIPT_def EXCLUDE_MASS_COMMIT_def)

definition strip_input :: "transaction_input \<Rightarrow> transaction_input" where
  "strip_input i = i\<lparr>signature_script := [], sig_op_count := 0\<rparr>"

definition strip_tx :: "transaction \<Rightarrow> transaction" where
  "strip_tx tx = tx\<lparr>tx_inputs := map strip_input (tx_inputs tx), tx_mass := 0, tx_id := ZERO_HASH\<rparr>"

abbreviation id_flags :: u8 where
  "id_flags \<equiv> EXCLUDE_SIGNATURE_SCRIPT OR EXCLUDE_MASS_COMMIT"

lemma strip_input_fixed: "strip_input i = i \<longleftrightarrow> signature_script i = [] \<and> sig_op_count i = 0"
  by (cases i) (auto simp: strip_input_def)

interpretation stripped_code: prefix_code "write_input id_flags" "\<lambda>i. input_wf i \<and> strip_input i = i"
  by unfold_locales (auto simp: write_input_def input_wf_def write_outpoint_eq strip_input_fixed
      outpoint_code.enc_inject var_bytes.enc_inject to_le_bytes_eq intro: transaction_input.equality)

lemma write_input_strip: "write_input id_flags (strip_input i) = write_input id_flags i"
  by (simp add: write_input_def strip_input_def)

lemma strip_input_idem [simp]: "strip_input (strip_input i) = strip_input i"
  by (simp add: strip_input_def)

lemma strip_input_wf: "input_wf i \<Longrightarrow> input_wf (strip_input i)"
  by (simp add: strip_input_def input_wf_def)

text \<open>The part of the encoding after the inputs, with what is known of its rest.\<close>

lemma write_tail_inject:
  assumes "tx_wf a" "tx_wf b"
  shows "write_len (length (tx_outputs a)) @ concat (map write_output (tx_outputs a)) @ to_le_bytes 8 (lock_time a) @
      subnetwork_bytes (subnetwork_id a) @ to_le_bytes 8 (tx_gas a) @ write_var_bytes (tx_payload a) @ r =
    write_len (length (tx_outputs b)) @ concat (map write_output (tx_outputs b)) @ to_le_bytes 8 (lock_time b) @
      subnetwork_bytes (subnetwork_id b) @ to_le_bytes 8 (tx_gas b) @ write_var_bytes (tx_payload b) @ s \<longleftrightarrow>
    tx_outputs a = tx_outputs b \<and> lock_time a = lock_time b \<and> subnetwork_id a = subnetwork_id b \<and> tx_gas a = tx_gas b \<and>
      tx_payload a = tx_payload b \<and> r = s"
  using assms by (auto simp: tx_wf_def write_len_inject write_output_eq output_code.enc_list_inject to_le_bytes_eq
      subnetwork_inject var_bytes.enc_inject)

lemma write_transaction_full:
  assumes "tx_wf a" "tx_wf b" and "write_transaction 0 a = write_transaction 0 b"
  shows "a\<lparr>tx_id := i\<rparr> = b\<lparr>tx_id := i\<rparr>"
proof -
  define m :: "transaction \<Rightarrow> bytes" where "m = (\<lambda>t. if 0 < tx_mass t then to_le_bytes 8 (tx_mass t) else [])"
  have w: "write_transaction 0 t = to_le_bytes 2 (tx_version t) @ write_len (length (tx_inputs t)) @
      concat (map (write_input 0) (tx_inputs t)) @ write_len (length (tx_outputs t)) @ concat (map write_output (tx_outputs t)) @
      to_le_bytes 8 (lock_time t) @ subnetwork_bytes (subnetwork_id t) @ to_le_bytes 8 (tx_gas t) @ write_var_bytes (tx_payload t) @ m t" for t
    by (simp add: write_transaction_def m_def)
  have wf: "length (tx_inputs a) < 2 ^ 64" "length (tx_inputs b) < 2 ^ 64" "list_all input_wf (tx_inputs a)" "list_all input_wf (tx_inputs b)"
    using assms(1,2) by (simp_all add: tx_wf_def)
  have e: "tx_version a = tx_version b" "tx_inputs a = tx_inputs b" "tx_outputs a = tx_outputs b" "lock_time a = lock_time b"
      "subnetwork_id a = subnetwork_id b" "tx_gas a = tx_gas b" "tx_payload a = tx_payload b" "m a = m b"
    using assms(3) wf unfolding w by (auto simp: to_le_bytes_eq write_len_inject input_code.enc_list_inject write_tail_inject [OF assms(1,2)])
  have "tx_mass a = tx_mass b"
    using e(8) by (auto simp: m_def to_le_bytes_eq word_gt_0 split: if_splits dest: arg_cong [of _ _ length])
  then show ?thesis using e by (intro transaction.equality) simp_all
qed

lemma write_transaction_id:
  assumes "tx_wf a" "tx_wf b"
  shows "write_transaction id_flags a = write_transaction id_flags b \<longleftrightarrow> strip_tx a = strip_tx b"
proof -
  define ins :: "transaction \<Rightarrow> bytes" where "ins t = concat (map (write_input id_flags) (map strip_input (tx_inputs t)))" for t
  have i: "concat (map (write_input id_flags) (tx_inputs t)) = ins t" for t by (simp add: comp_def write_input_strip ins_def)
  have legal: "list_all (\<lambda>i. input_wf i \<and> strip_input i = i) (map strip_input (tx_inputs t))" if "tx_wf t" for t
    using that by (simp add: tx_wf_def list_all_iff strip_input_wf)
  have inj: "ins a @ r = ins b @ s \<longleftrightarrow> map strip_input (tx_inputs a) = map strip_input (tx_inputs b) \<and> r = s"
    if "length (tx_inputs a) = length (tx_inputs b)" for r s
    unfolding ins_def using stripped_code.enc_list_inject [OF legal [OF assms(1)] legal [OF assms(2)]] that by simp
  have lens: "length (tx_inputs a) < 2 ^ 64" "length (tx_inputs b) < 2 ^ 64" using assms by (simp_all add: tx_wf_def)
  have w: "write_transaction id_flags t = to_le_bytes 2 (tx_version t) @ write_len (length (tx_inputs t)) @ ins t @
      write_len (length (tx_outputs t)) @ concat (map write_output (tx_outputs t)) @ to_le_bytes 8 (lock_time t) @
      subnetwork_bytes (subnetwork_id t) @ to_le_bytes 8 (tx_gas t) @ write_var_bytes (tx_payload t) @ []" for t
    by (simp add: write_transaction_def i)
  have v: "to_le_bytes 2 (tx_version a) @ r = to_le_bytes 2 (tx_version b) @ s \<longleftrightarrow> tx_version a = tx_version b \<and> r = s" for r s
    by (rule to_le_bytes_inject) simp
  let ?strip = "map strip_input (tx_inputs a) = map strip_input (tx_inputs b)"
  have "?strip \<Longrightarrow> length (tx_inputs a) = length (tx_inputs b)" by (rule map_eq_imp_length_eq)
  then have "write_transaction id_flags a = write_transaction id_flags b \<longleftrightarrow> tx_version a = tx_version b \<and>
      ?strip \<and> tx_outputs a = tx_outputs b \<and> lock_time a = lock_time b \<and>
      subnetwork_id a = subnetwork_id b \<and> tx_gas a = tx_gas b \<and> tx_payload a = tx_payload b"
    unfolding w v write_len_inject [OF lens]
    by (cases "length (tx_inputs a) = length (tx_inputs b)") (simp_all only: inj write_tail_inject [OF assms] simp_thms, blast+)
  also have "\<dots> \<longleftrightarrow> strip_tx a = strip_tx b" by (cases a; cases b) (auto simp: strip_tx_def)
  finally show ?thesis .
qed

text \<open>A coinbase transaction without inputs is encoded in full, and is told apart from every other transaction by its subnetwork.\<close>

lemma coinbase_encoding_apart:
  assumes "tx_wf a" "tx_wf b" "is_coinbase a" "\<not> is_coinbase b" "tx_inputs a = []"
  shows "write_transaction 0 a \<noteq> write_transaction id_flags b"
proof
  define m where "m = (if 0 < tx_mass a then to_le_bytes 8 (tx_mass a) else [])"
  define ins where "ins = concat (map (write_input id_flags) (tx_inputs b))"
  assume e: "write_transaction 0 a = write_transaction id_flags b"
  have lens: "length (tx_inputs a) < 2 ^ 64" "length (tx_inputs b) < 2 ^ 64" using assms(1,2) by (simp_all add: tx_wf_def)
  have a: "write_transaction 0 a = to_le_bytes 2 (tx_version a) @ write_len (length (tx_inputs a)) @
      write_len (length (tx_outputs a)) @ concat (map write_output (tx_outputs a)) @ to_le_bytes 8 (lock_time a) @
      subnetwork_bytes (subnetwork_id a) @ to_le_bytes 8 (tx_gas a) @ write_var_bytes (tx_payload a) @ m"
    using assms(5) by (simp add: write_transaction_def m_def)
  have b: "write_transaction id_flags b = to_le_bytes 2 (tx_version b) @ write_len (length (tx_inputs b)) @ ins @
      write_len (length (tx_outputs b)) @ concat (map write_output (tx_outputs b)) @ to_le_bytes 8 (lock_time b) @
      subnetwork_bytes (subnetwork_id b) @ to_le_bytes 8 (tx_gas b) @ write_var_bytes (tx_payload b) @ []"
    by (simp add: write_transaction_def ins_def)
  have "write_len (length (tx_inputs a)) @
      write_len (length (tx_outputs a)) @ concat (map write_output (tx_outputs a)) @ to_le_bytes 8 (lock_time a) @
      subnetwork_bytes (subnetwork_id a) @ to_le_bytes 8 (tx_gas a) @ write_var_bytes (tx_payload a) @ m =
    write_len (length (tx_inputs b)) @ ins @
      write_len (length (tx_outputs b)) @ concat (map write_output (tx_outputs b)) @ to_le_bytes 8 (lock_time b) @
      subnetwork_bytes (subnetwork_id b) @ to_le_bytes 8 (tx_gas b) @ write_var_bytes (tx_payload b) @ []"
    using e unfolding a b by simp
  then have t: "length (tx_inputs a) = length (tx_inputs b)"
    "write_len (length (tx_outputs a)) @ concat (map write_output (tx_outputs a)) @ to_le_bytes 8 (lock_time a) @
      subnetwork_bytes (subnetwork_id a) @ to_le_bytes 8 (tx_gas a) @ write_var_bytes (tx_payload a) @ m = ins @
      write_len (length (tx_outputs b)) @ concat (map write_output (tx_outputs b)) @ to_le_bytes 8 (lock_time b) @
      subnetwork_bytes (subnetwork_id b) @ to_le_bytes 8 (tx_gas b) @ write_var_bytes (tx_payload b) @ []"
    unfolding write_len_inject [OF lens] by blast+
  have i: "ins = []" using t(1) assms(5) by (simp add: ins_def)
  have "subnetwork_id a = subnetwork_id b" using t(2) unfolding i append_Nil write_tail_inject [OF assms(1,2)] by blast
  then show False using assms(3,4) by (simp add: is_coinbase_def)
qed

section \<open>The signature hash\<close>

text \<open>Reused values that belong to a transaction: each stored hash is the one a fresh computation stores.\<close>

definition reused_ok :: "(bytes \<Rightarrow> hash) \<Rightarrow> transaction \<Rightarrow> sig_hash_reused_values \<Rightarrow> bool" where
  "reused_ok H tx r \<longleftrightarrow>
     (\<forall>h. rv_previous_outputs_hash r = Some h \<longrightarrow> h = fst (previous_outputs_hash H tx SIG_HASH_ALL reused_values_new)) \<and>
     (\<forall>h. rv_sequences_hash r = Some h \<longrightarrow> h = fst (sequences_hash H tx SIG_HASH_ALL reused_values_new)) \<and>
     (\<forall>h. rv_sig_op_counts_hash r = Some h \<longrightarrow> h = fst (sig_op_counts_hash H tx SIG_HASH_ALL reused_values_new)) \<and>
     (\<forall>h. rv_outputs_hash r = Some h \<longrightarrow> h = fst (outputs_hash H tx SIG_HASH_ALL 0 reused_values_new)) \<and>
     (\<forall>h. rv_payload_hash r = Some h \<longrightarrow> h = H (write_var_bytes (tx_payload tx)))"

lemma sig_hash_all_simps [simp]:
  "\<not> is_sighash_anyone_can_pay SIG_HASH_ALL" "\<not> is_sighash_single SIG_HASH_ALL" "\<not> is_sighash_none SIG_HASH_ALL"
  by (simp_all add: is_sighash_anyone_can_pay_def is_sighash_single_def is_sighash_none_def SIG_HASH_ALL_def
      SIG_HASH_ANY_ONE_CAN_PAY_def SIG_HASH_MASK_def SIG_HASH_SINGLE_def SIG_HASH_NONE_def)

lemmas reuse_defs = reuse_previous_outputs_hash_def reuse_sequences_hash_def reuse_sig_op_counts_hash_def
  reuse_outputs_hash_def reuse_payload_hash_def

lemma reused_new [simp]: "reused_ok H tx reused_values_new"
  by (simp add: reused_ok_def reused_values_new_def)

lemma reuse_transparent:
  assumes "reused_ok H tx r"
  shows "fst (previous_outputs_hash H tx t r) = fst (previous_outputs_hash H tx t reused_values_new) \<and> reused_ok H tx (snd (previous_outputs_hash H tx t r))"
    "fst (sequences_hash H tx t r) = fst (sequences_hash H tx t reused_values_new) \<and> reused_ok H tx (snd (sequences_hash H tx t r))"
    "fst (sig_op_counts_hash H tx t r) = fst (sig_op_counts_hash H tx t reused_values_new) \<and> reused_ok H tx (snd (sig_op_counts_hash H tx t r))"
    "fst (outputs_hash H tx t i r) = fst (outputs_hash H tx t i reused_values_new) \<and> reused_ok H tx (snd (outputs_hash H tx t i r))"
    "fst (payload_hash H tx r) = fst (payload_hash H tx reused_values_new) \<and> reused_ok H tx (snd (payload_hash H tx r))"
  using assms by (auto simp: reused_ok_def previous_outputs_hash_def sequences_hash_def sig_op_counts_hash_def
      outputs_hash_def payload_hash_def reuse_defs reused_values_new_def split: option.splits)

text \<open>The digest as a function of the five partial hashes.\<close>

definition sighash_bytes :: "(bytes \<Rightarrow> hash) \<Rightarrow> transaction \<Rightarrow> nat \<Rightarrow> transaction_input \<Rightarrow> utxo_entry \<Rightarrow> sig_hash_type \<Rightarrow> bytes" where
  "sighash_bytes H tx i input entry t =
     write_u16 (tx_version tx) @ as_bytes (fst (previous_outputs_hash H tx t reused_values_new)) @
     as_bytes (fst (sequences_hash H tx t reused_values_new)) @ as_bytes (fst (sig_op_counts_hash H tx t reused_values_new)) @
     hash_outpoint (previous_outpoint input) @ hash_script_public_key (entry_spk entry) @
     write_u64 (amount entry) @ write_u64 (sequence input) @ write_u8 (sig_op_count input) @
     as_bytes (fst (outputs_hash H tx t i reused_values_new)) @ write_u64 (lock_time tx) @ subnetwork_bytes (subnetwork_id tx) @
     write_u64 (tx_gas tx) @ as_bytes (fst (payload_hash H tx reused_values_new)) @ write_u8 (to_u8 t)"

definition reused_after :: "(bytes \<Rightarrow> hash) \<Rightarrow> transaction \<Rightarrow> nat \<Rightarrow> sig_hash_type \<Rightarrow> sig_hash_reused_values \<Rightarrow> sig_hash_reused_values" where
  "reused_after H tx i t r = snd (payload_hash H tx (snd (outputs_hash H tx t i (snd (sig_op_counts_hash H tx t
     (snd (sequences_hash H tx t (snd (previous_outputs_hash H tx t r)))))))))"

lemma calc_signature_hash_bytes:
  assumes "reused_ok H (ptx p) r"
  shows "calc_signature_hash H p i t r = obind (populated_input p i) (\<lambda>(input, entry).
      Ok (H (sighash_bytes H (ptx p) i input entry t), reused_after H (ptx p) i t r)) \<and> reused_ok H (ptx p) (reused_after H (ptx p) i t r)"
proof -
  note r1 = reuse_transparent(1) [OF assms, of t]
  note r2 = reuse_transparent(2) [OF r1 [THEN conjunct2], of t]
  note r3 = reuse_transparent(3) [OF r2 [THEN conjunct2], of t]
  note r4 = reuse_transparent(4) [OF r3 [THEN conjunct2], of t i]
  note r5 = reuse_transparent(5) [OF r4 [THEN conjunct2]]
  show ?thesis using r1 r2 r3 r4 r5
    by (simp add: calc_signature_hash_def sighash_bytes_def reused_after_def case_prod_beta Let_def)
qed

lemma reuse_new_simps:
  "fst (reuse_previous_outputs_hash h reused_values_new) = h" "fst (reuse_sequences_hash h reused_values_new) = h"
  "fst (reuse_sig_op_counts_hash h reused_values_new) = h" "fst (reuse_outputs_hash h reused_values_new) = h"
  "fst (reuse_payload_hash h reused_values_new) = h"
  by (simp_all add: reuse_defs reused_values_new_def)

lemma hash_wf_ZERO [simp]: "hash_wf ZERO_HASH"
  by (simp add: hash_wf_def ZERO_HASH_def)

lemma partial_hash_wf:
  assumes "\<forall>x. hash_wf (H x)"
  shows "hash_wf (fst (previous_outputs_hash H tx t reused_values_new))" "hash_wf (fst (sequences_hash H tx t reused_values_new))"
    "hash_wf (fst (sig_op_counts_hash H tx t reused_values_new))" "hash_wf (fst (outputs_hash H tx t i reused_values_new))"
    "hash_wf (fst (payload_hash H tx reused_values_new))"
  using assms by (simp_all add: previous_outputs_hash_def sequences_hash_def sig_op_counts_hash_def outputs_hash_def
      payload_hash_def reuse_new_simps)

lemma sighash_bytes_inject:
  assumes "\<forall>x. hash_wf (H x)" "subnetwork_wf (subnetwork_id a)" "subnetwork_wf (subnetwork_id b)"
    and "outpoint_wf (previous_outpoint ia)" "outpoint_wf (previous_outpoint ib)" "spk_wf (entry_spk ea)" "spk_wf (entry_spk eb)"
    and "sighash_bytes H a i ia ea t = sighash_bytes H b j ib eb u"
  shows "tx_version a = tx_version b \<and> previous_outpoint ia = previous_outpoint ib \<and> entry_spk ea = entry_spk eb \<and> amount ea = amount eb \<and>
      lock_time a = lock_time b \<and> subnetwork_id a = subnetwork_id b \<and> tx_gas a = tx_gas b \<and> t = u \<and>
      fst (previous_outputs_hash H a t reused_values_new) = fst (previous_outputs_hash H b u reused_values_new) \<and>
      fst (sequences_hash H a t reused_values_new) = fst (sequences_hash H b u reused_values_new) \<and>
      fst (sig_op_counts_hash H a t reused_values_new) = fst (sig_op_counts_hash H b u reused_values_new) \<and>
      fst (outputs_hash H a t i reused_values_new) = fst (outputs_hash H b u j reused_values_new) \<and>
      fst (payload_hash H a reused_values_new) = fst (payload_hash H b reused_values_new)"
proof -
  have "write_u8 (to_u8 t) = write_u8 (to_u8 u) \<longleftrightarrow> t = u"
    using write_scalar_inject(1) [of "to_u8 t" "[]" "to_u8 u" "[]"] by (cases t; cases u) simp
  then show ?thesis using assms(8) unfolding sighash_bytes_def
    by (simp only: write_scalar_inject hash_inject partial_hash_wf [OF assms(1)] outpoint_code.enc_inject [OF assms(4,5)]
        spk_code.enc_inject [OF assms(6,7)] subnetwork_inject [OF assms(2,3)] simp_thms) blast
qed

text \<open>A failure of the hash function on given byte strings: two of them collide, or one is a preimage of the zero
  hash. Only the strings that a signature hash computes from its own arguments are considered, because a collision
  between some strings always exists.\<close>

definition hash_break :: "(bytes \<Rightarrow> hash) \<Rightarrow> bytes set \<Rightarrow> bool" where
  "hash_break H S \<longleftrightarrow> (\<exists>x\<in>S. \<exists>y\<in>S. x \<noteq> y \<and> H x = H y) \<or> (\<exists>x\<in>S. H x = ZERO_HASH)"

definition partial_strings :: "transaction \<Rightarrow> bytes set" where
  "partial_strings tx = {concat (map (\<lambda>i. hash_outpoint (previous_outpoint i)) (tx_inputs tx)),
     concat (map (\<lambda>i. write_u64 (sequence i)) (tx_inputs tx)), concat (map (\<lambda>i. write_u8 (sig_op_count i)) (tx_inputs tx)),
     concat (map hash_output (tx_outputs tx)), write_var_bytes (tx_payload tx)}"

definition sighash_strings :: "(bytes \<Rightarrow> hash) \<Rightarrow> populated_transaction \<Rightarrow> nat \<Rightarrow> sig_hash_type \<Rightarrow> bytes set" where
  "sighash_strings H p i t = insert (sighash_bytes H (ptx p) i (tx_inputs (ptx p) ! i) (ptx_entries p ! i) t) (partial_strings (ptx p))"

lemma not_hash_break:
  "\<not> hash_break H S \<Longrightarrow> x \<in> S \<Longrightarrow> y \<in> S \<Longrightarrow> H x = H y \<longleftrightarrow> x = y" "\<not> hash_break H S \<Longrightarrow> x \<in> S \<Longrightarrow> H x \<noteq> ZERO_HASH"
  by (auto simp: hash_break_def)

text \<open>Everything of a transaction but its signature scripts, its mass and its cached id.\<close>

definition sig_view :: "transaction \<Rightarrow> transaction" where
  "sig_view tx = tx\<lparr>tx_inputs := map (\<lambda>i. i\<lparr>signature_script := []\<rparr>) (tx_inputs tx), tx_mass := 0, tx_id := ZERO_HASH\<rparr>"

lemma inputs_from_lists:
  assumes "map (\<lambda>i. hash_outpoint (previous_outpoint i)) xs = map (\<lambda>i. hash_outpoint (previous_outpoint i)) ys"
    and "map sequence xs = map sequence ys" "map sig_op_count xs = map sig_op_count ys"
    and "list_all input_wf xs" "list_all input_wf ys"
  shows "map (\<lambda>i. i\<lparr>signature_script := []\<rparr>) xs = map (\<lambda>i. i\<lparr>signature_script := []\<rparr>) ys"
  using assms
proof (induction xs arbitrary: ys)
  case (Cons x xs)
  then obtain y zs where y: "ys = y # zs" by (cases ys) auto
  have "previous_outpoint x = previous_outpoint y"
    using Cons(2,5,6) outpoint_code.enc_inject [of "previous_outpoint x" "previous_outpoint y" "[]" "[]"] by (simp add: y input_wf_def)
  then show ?case using Cons by (simp add: y transaction_input.equality)
qed simp

lemma sig_view_of_hashes:
  assumes nb: "\<not> hash_break H S" and S: "partial_strings a \<subseteq> S" "partial_strings b \<subseteq> S" and wf: "tx_wf a" "tx_wf b"
    and e: "tx_version a = tx_version b" "lock_time a = lock_time b" "subnetwork_id a = subnetwork_id b" "tx_gas a = tx_gas b"
      "fst (previous_outputs_hash H a SIG_HASH_ALL reused_values_new) = fst (previous_outputs_hash H b SIG_HASH_ALL reused_values_new)"
      "fst (sequences_hash H a SIG_HASH_ALL reused_values_new) = fst (sequences_hash H b SIG_HASH_ALL reused_values_new)"
      "fst (sig_op_counts_hash H a SIG_HASH_ALL reused_values_new) = fst (sig_op_counts_hash H b SIG_HASH_ALL reused_values_new)"
      "fst (outputs_hash H a SIG_HASH_ALL i reused_values_new) = fst (outputs_hash H b SIG_HASH_ALL j reused_values_new)"
      "fst (payload_hash H a reused_values_new) = fst (payload_hash H b reused_values_new)"
  shows "sig_view a = sig_view b"
proof -
  have H: "H x = H y \<longleftrightarrow> x = y" "H x \<noteq> ZERO_HASH" "H y \<noteq> ZERO_HASH" if "x \<in> partial_strings a" "y \<in> partial_strings b" for x y
    using not_hash_break [OF nb] that S by (auto dest!: subsetD)
  note hp = H [of "write_var_bytes (tx_payload a)" "write_var_bytes (tx_payload b)"]
  note H = H(1) [unfolded partial_strings_def hash_outpoint_def]
  have l: "list_all outpoint_wf (map previous_outpoint (tx_inputs t))" "list_all input_wf (tx_inputs t)"
      "list_all output_wf (tx_outputs t)" "length (tx_payload t) < 2 ^ 64" if "tx_wf t" for t
    using that by (auto simp: tx_wf_def input_wf_def list_all_iff)
  have "concat (map hash_outpoint (map previous_outpoint (tx_inputs a))) = concat (map hash_outpoint (map previous_outpoint (tx_inputs b)))"
    using e(5) by (simp add: previous_outputs_hash_def reuse_new_simps H hash_outpoint_def comp_def)
  then have po: "map previous_outpoint (tx_inputs a) = map previous_outpoint (tx_inputs b)"
    using outpoint_code.enc_concat_inject l(1) [OF wf(1)] l(1) [OF wf(2)] by blast
  have "concat (map write_u64 (map sequence (tx_inputs a))) = concat (map write_u64 (map sequence (tx_inputs b)))"
    using e(6) by (simp add: sequences_hash_def reuse_new_simps H comp_def)
  then have sq: "map sequence (tx_inputs a) = map sequence (tx_inputs b)" by (subst (asm) u64_code.enc_concat_inject) (simp_all add: list_all_iff)
  have "concat (map write_u8 (map sig_op_count (tx_inputs a))) = concat (map write_u8 (map sig_op_count (tx_inputs b)))"
    using e(7) by (simp add: sig_op_counts_hash_def reuse_new_simps H comp_def)
  then have so: "map sig_op_count (tx_inputs a) = map sig_op_count (tx_inputs b)" by (subst (asm) u8_code.enc_concat_inject) (simp_all add: list_all_iff)
  have "tx_outputs a = tx_outputs b"
    using e(8) output_code.enc_concat_inject [OF l(3) [OF wf(1)] l(3) [OF wf(2)]] by (simp add: outputs_hash_def reuse_new_simps H)
  moreover have "tx_payload a = tx_payload b"
    using e(3,9) var_bytes.enc_inject [OF l(4) [OF wf(1)] l(4) [OF wf(2)], of "[]" "[]"] hp
    by (auto simp: partial_strings_def payload_hash_def reuse_new_simps split: if_splits dest: sym)
  moreover have "map (\<lambda>i. i\<lparr>signature_script := []\<rparr>) (tx_inputs a) = map (\<lambda>i. i\<lparr>signature_script := []\<rparr>) (tx_inputs b)"
    using po sq so l(2) [OF wf(1)] l(2) [OF wf(2)] by (intro inputs_from_lists) (auto dest: arg_cong [of _ _ "map hash_outpoint"] simp: comp_def)
  ultimately show ?thesis using e by (simp add: sig_view_def transaction.equality)
qed

section \<open>Properties\<close>

definition ex_input :: "bytes \<Rightarrow> transaction_input" where
  "ex_input sig = \<lparr>previous_outpoint = \<lparr>transaction_id = Hash (replicate 32 3), outpoint_index = 1\<rparr>, signature_script = sig,
     sequence = 7, sig_op_count = 1\<rparr>"

definition ex_spend :: "bytes \<Rightarrow> populated_transaction" where
  "ex_spend sig = \<lparr>ptx = transaction_new_non_finalized 0 [ex_input sig]
     [\<lparr>out_value = 90, out_spk = \<lparr>spk_version = 0, spk_script = [0x51]\<rparr>\<rparr>] 0 SUBNETWORK_ID_NATIVE 0 [],
     ptx_entries = [\<lparr>amount = 100, entry_spk = \<lparr>spk_version = 0, spk_script = [0x51]\<rparr>, block_daa_score = 5, entry_is_coinbase = False\<rparr>]\<rparr>"

definition ex_hash :: "bytes \<Rightarrow> hash" where
  "ex_hash bs = Hash (take HASH_SIZE (bs @ replicate HASH_SIZE 9))"

lemma ex_hash_wf: "hash_wf (ex_hash x)"
  by (simp add: hash_wf_def ex_hash_def)

lemma ex_spend_wf: "tx_wf (ptx (ex_spend sig)) \<longleftrightarrow> length sig < 2 ^ 64"
  by (simp add: tx_wf_def ex_spend_def transaction_new_non_finalized_def ex_input_def input_wf_def outpoint_wf_def hash_wf_def
      HASH_SIZE_def output_wf_def spk_wf_def subnetwork_wf_def SUBNETWORK_ID_NATIVE_def subnetwork_from_byte_def SUBNETWORK_ID_SIZE_def)

lemma write_transaction_tx_id: "a\<lparr>tx_id := i\<rparr> = b\<lparr>tx_id := i\<rparr> \<Longrightarrow> write_transaction f a = write_transaction f b"
  by (cases a; cases b) (simp add: write_transaction_def)

text \<open>
  C13: The transaction id of a transaction that is not a coinbase commits to exactly the transaction without its signature scripts, signature operation
  counts and mass, that of a coinbase transaction to all of it, and the transaction hash of either to all of it. If the hash function does not collide on the encodings of two
  transactions, and coinbase transactions have no inputs, as validation in isolation requires, two transactions have one id exactly when they agree on the
  committed part, a coinbase never shares its id with another kind of transaction, and they have one hash exactly when they agree on
  everything but the cached id.
\<close>

theorem tx_id_commits:
  assumes "tx_wf a" "tx_wf b" "is_coinbase a \<longrightarrow> tx_inputs a = []" "is_coinbase b \<longrightarrow> tx_inputs b = []"
    and inj: "inj_on H {write_transaction id_flags a, write_transaction id_flags b, write_transaction 0 a, write_transaction 0 b}"
  shows "(calc_tx_id H a = calc_tx_id H b \<longleftrightarrow>
      (if is_coinbase a then a\<lparr>tx_id := ZERO_HASH\<rparr> = b\<lparr>tx_id := ZERO_HASH\<rparr> else strip_tx a = strip_tx b)) \<and>
    (tx_hash H a = tx_hash H b \<longleftrightarrow> a\<lparr>tx_id := ZERO_HASH\<rparr> = b\<lparr>tx_id := ZERO_HASH\<rparr>)"
proof
  have full: "write_transaction 0 a = write_transaction 0 b \<longleftrightarrow> a\<lparr>tx_id := ZERO_HASH\<rparr> = b\<lparr>tx_id := ZERO_HASH\<rparr>"
    using write_transaction_full [OF assms(1,2), of ZERO_HASH] write_transaction_tx_id [of ZERO_HASH a b] by blast
  show "tx_hash H a = tx_hash H b \<longleftrightarrow> a\<lparr>tx_id := ZERO_HASH\<rparr> = b\<lparr>tx_id := ZERO_HASH\<rparr>"
    using inj_on_eq_iff [OF inj] full by (simp add: tx_hash_def)
  have "subnetwork_id a = subnetwork_id b" if "a\<lparr>tx_id := ZERO_HASH\<rparr> = b\<lparr>tx_id := ZERO_HASH\<rparr>"
    using arg_cong [OF that, of subnetwork_id] by simp
  moreover have "subnetwork_id a = subnetwork_id b" if "strip_tx a = strip_tx b"
    using arg_cong [OF that, of subnetwork_id] by (simp add: strip_tx_def)
  ultimately have apart: "a\<lparr>tx_id := ZERO_HASH\<rparr> \<noteq> b\<lparr>tx_id := ZERO_HASH\<rparr> \<and> strip_tx a \<noteq> strip_tx b" if "is_coinbase a \<noteq> is_coinbase b"
    using that by (auto simp: is_coinbase_def)
  show "calc_tx_id H a = calc_tx_id H b \<longleftrightarrow>
      (if is_coinbase a then a\<lparr>tx_id := ZERO_HASH\<rparr> = b\<lparr>tx_id := ZERO_HASH\<rparr> else strip_tx a = strip_tx b)"
    using inj_on_eq_iff [OF inj] full apart write_transaction_id [OF assms(1,2)] coinbase_encoding_apart [OF assms(1,2)]
      coinbase_encoding_apart [OF assms(2,1)] assms(3,4)
    by (cases "is_coinbase a"; cases "is_coinbase b") (auto simp: calc_tx_id_def)
qed

text \<open>A hash without collisions, for the witness.\<close>

definition ex_id_hash :: "bytes \<Rightarrow> hash" where
  "ex_id_hash bs = Hash bs"

definition ex_id_coinbase :: "u64 \<Rightarrow> transaction" where
  "ex_id_coinbase m = \<lparr>tx_version = 0, tx_inputs = [], tx_outputs = [], lock_time = 0, subnetwork_id = SUBNETWORK_ID_COINBASE, tx_gas = 0,
     tx_payload = [], tx_mass = m, tx_id = ZERO_HASH\<rparr>"

theorem tx_id_commits_witness:
  "calc_tx_id ex_id_hash (ptx (ex_spend [1])) = calc_tx_id ex_id_hash (ptx (ex_spend [2, 3])) \<and>
   tx_hash ex_id_hash (ptx (ex_spend [1])) \<noteq> tx_hash ex_id_hash (ptx (ex_spend [2, 3])) \<and>
   calc_tx_id ex_id_hash (ex_id_coinbase 1) \<noteq> calc_tx_id ex_id_hash (ex_id_coinbase 2)"
proof -
  have i: "inj_on ex_id_hash S" for S by (simp add: inj_on_def ex_id_hash_def)
  have s: "strip_tx (ptx (ex_spend [1])) = strip_tx (ptx (ex_spend [2, 3]))"
    by (simp add: strip_tx_def ex_spend_def transaction_new_non_finalized_def ex_input_def strip_input_def)
  have ne: "(ptx (ex_spend [1]))\<lparr>tx_id := ZERO_HASH\<rparr> \<noteq> (ptx (ex_spend [2, 3]))\<lparr>tx_id := ZERO_HASH\<rparr>"
    by (simp add: ex_spend_def transaction_new_non_finalized_def ex_input_def)
  have n: "\<not> is_coinbase (ptx (ex_spend sig))" for sig
    using coinbase_not_native [symmetric] by (simp add: ex_spend_def transaction_new_non_finalized_def is_coinbase_def)
  have wf: "tx_wf (ptx (ex_spend [1]))" "tx_wf (ptx (ex_spend [2, 3]))" by (simp_all add: ex_spend_wf)
  have c: "tx_wf (ex_id_coinbase m)" "is_coinbase (ex_id_coinbase m)" "tx_inputs (ex_id_coinbase m) = []" for m
    by (simp_all add: ex_id_coinbase_def tx_wf_def is_coinbase_def subnetwork_wf_def SUBNETWORK_ID_COINBASE_def subnetwork_from_byte_def SUBNETWORK_ID_SIZE_def)
  have "(ex_id_coinbase 1)\<lparr>tx_id := ZERO_HASH\<rparr> \<noteq> (ex_id_coinbase 2)\<lparr>tx_id := ZERO_HASH\<rparr>" by (simp add: ex_id_coinbase_def)
  then have "calc_tx_id ex_id_hash (ex_id_coinbase 1) \<noteq> calc_tx_id ex_id_hash (ex_id_coinbase 2)"
    using tx_id_commits [OF c(1) c(1) _ _ i, of 1 2] c by simp
  then show ?thesis using tx_id_commits [OF wf _ _ i] n s ne by simp
qed

text \<open>The strings that the signature hash of the example hashes differ in the bytes 0, 2 and 8 of their hashes.\<close>

definition ex_key :: "hash \<Rightarrow> u8 \<times> u8 \<times> u8" where
  "ex_key h = (as_bytes h ! 0, as_bytes h ! 2, as_bytes h ! 8)"

lemma no_break_by_key:
  assumes "inj_on (\<lambda>x. ex_key (H x)) S" and "\<And>x. x \<in> S \<Longrightarrow> ex_key (H x) \<noteq> ex_key ZERO_HASH"
  shows "\<not> hash_break H S"
  using assms by (fastforce simp: hash_break_def inj_on_def)

lemma le_bytes_8: "to_le_bytes 8 (w :: u64) = [ucast w, ucast (drop_bit 8 w), ucast (drop_bit 16 w), ucast (drop_bit 24 w),
    ucast (drop_bit 32 w), ucast (drop_bit 40 w), ucast (drop_bit 48 w), ucast (drop_bit 56 w)]"
  by (simp add: numeral_nat to_le_bytes.simps)

lemma le_bytes_2: "to_le_bytes 2 (w :: u16) = [ucast w, ucast (drop_bit 8 w)]"
  by (simp only: numeral_2_eq_2 to_le_bytes.simps)

lemma ex_strings:
  "sighash_strings ex_hash (ex_spend sig) 0 SIG_HASH_ALL = sighash_strings ex_hash (ex_spend []) 0 SIG_HASH_ALL"
  by (simp add: sighash_strings_def partial_strings_def sighash_bytes_def ex_spend_def transaction_new_non_finalized_def ex_input_def
      previous_outputs_hash_def sequences_hash_def sig_op_counts_hash_def outputs_hash_def payload_hash_def)

lemma ex_key_hash:
  "ex_key (ex_hash x) = ((x @ replicate 32 9) ! 0, (x @ replicate 32 9) ! 2, (x @ replicate 32 9) ! 8)"
  by (simp only: ex_key_def ex_hash_def HASH_SIZE_def hash.sel) (simp add: nth_take del: take_append)

lemma ex_key_zero: "ex_key ZERO_HASH = (0, 0, 0)"
  by (simp add: ex_key_def ZERO_HASH_def HASH_SIZE_def)

lemma ex_no_break: "\<not> hash_break ex_hash (sighash_strings ex_hash (ex_spend []) 0 SIG_HASH_ALL)"
proof -
  let ?tx = "ptx (ex_spend [])"
  define po where "po = concat (map (\<lambda>i. hash_outpoint (previous_outpoint i)) (tx_inputs ?tx))"
  define sq where "sq = concat (map (\<lambda>i. write_u64 (sequence i)) (tx_inputs ?tx))"
  define so where "so = concat (map (\<lambda>i. write_u8 (sig_op_count i)) (tx_inputs ?tx))"
  define os where "os = concat (map hash_output (tx_outputs ?tx))"
  define pl where "pl = write_var_bytes (tx_payload ?tx)"
  define sb where "sb = sighash_bytes ex_hash ?tx 0 (tx_inputs ?tx ! 0) (ptx_entries (ex_spend []) ! 0) SIG_HASH_ALL"
  note ex = ex_spend_def transaction_new_non_finalized_def ex_input_def
  have S: "sighash_strings ex_hash (ex_spend []) 0 SIG_HASH_ALL = {sb, po, sq, so, os, pl}"
    by (simp only: sighash_strings_def partial_strings_def sb_def po_def sq_def so_def os_def pl_def)
  have k1: "ex_key (ex_hash po) = (3, 3, 3)"
    by (simp add: ex_key_hash po_def ex hash_outpoint_def nth_append)
  have k2: "ex_key (ex_hash sq) = (7, 0, 9)"
    by (simp add: ex_key_hash sq_def ex write_u64_def le_bytes_8)
  have k3: "ex_key (ex_hash so) = (1, 9, 9)"
    by (simp add: ex_key_hash so_def ex write_u8_def)
  have k4: "ex_key (ex_hash os) = (90, 0, 0)"
    by (simp add: ex_key_hash os_def ex hash_output_def hash_script_public_key_def write_u64_def write_u16_def le_bytes_2 le_bytes_8)
  have k5: "ex_key (ex_hash pl) = (0, 0, 9)"
    by (simp add: ex_key_hash pl_def ex write_var_bytes_def write_len_def le_bytes_8)
  have "fst (previous_outputs_hash ex_hash ?tx SIG_HASH_ALL reused_values_new) = Hash (replicate 32 3)"
    by (simp add: previous_outputs_hash_def reuse_new_simps ex ex_hash_def HASH_SIZE_def)
  then obtain r where "sb = write_u16 0 @ replicate 32 3 @ r" by (simp add: sb_def sighash_bytes_def ex)
  then have k6: "ex_key (ex_hash sb) = (0, 3, 3)" by (simp add: ex_key_hash write_u16_def le_bytes_2 nth_append)
  show ?thesis unfolding S by (rule no_break_by_key) (auto simp: k1 k2 k3 k4 k5 k6 ex_key_zero)
qed

text \<open>
  C12: A signature hash of type \<open>SIG_HASH_ALL\<close> commits to the hash type, to the whole transaction but its signature
  scripts, mass and cached id, and to the outpoint, script and amount of the signed input: if another signing
  request of any type has the same digest, it agrees on all of these, unless the hash function collides on, or maps to
  the zero hash, one of the byte strings that these two requests hash.
\<close>

theorem sighash_all_commits:
  assumes "\<forall>x. hash_wf (H x)" "tx_wf (ptx p)" "tx_wf (ptx q)"
    and "list_all (\<lambda>e. spk_wf (entry_spk e)) (ptx_entries p)" "list_all (\<lambda>e. spk_wf (entry_spk e)) (ptx_entries q)"
    and "calc_signature_hash H p i SIG_HASH_ALL reused_values_new = (Ok (h, r) :: (unit, _) outcome)"
    and "calc_signature_hash H q j t reused_values_new = (Ok (h, s) :: (unit, _) outcome)"
  shows "hash_break H (sighash_strings H p i SIG_HASH_ALL \<union> sighash_strings H q j t) \<or> t = SIG_HASH_ALL \<and> sig_view (ptx p) = sig_view (ptx q) \<and>
    previous_outpoint (tx_inputs (ptx p) ! i) = previous_outpoint (tx_inputs (ptx q) ! j) \<and>
    entry_spk (ptx_entries p ! i) = entry_spk (ptx_entries q ! j) \<and> amount (ptx_entries p ! i) = amount (ptx_entries q ! j)"
proof (cases "hash_break H (sighash_strings H p i SIG_HASH_ALL \<union> sighash_strings H q j t)")
  case False
  have pi: "i < length (tx_inputs (ptx p))" "i < length (ptx_entries p)" "j < length (tx_inputs (ptx q))" "j < length (ptx_entries q)"
    using assms(6,7) by (auto simp: calc_signature_hash_def populated_input_def split: if_splits)
  have "H (sighash_bytes H (ptx p) i (tx_inputs (ptx p) ! i) (ptx_entries p ! i) SIG_HASH_ALL) =
      H (sighash_bytes H (ptx q) j (tx_inputs (ptx q) ! j) (ptx_entries q ! j) t)"
    using assms(6,7) pi by (simp add: calc_signature_hash_bytes populated_input_def)
  then have e: "sighash_bytes H (ptx p) i (tx_inputs (ptx p) ! i) (ptx_entries p ! i) SIG_HASH_ALL =
      sighash_bytes H (ptx q) j (tx_inputs (ptx q) ! j) (ptx_entries q ! j) t" by (subst (asm) not_hash_break [OF False]) (simp_all add: sighash_strings_def)
  have "subnetwork_wf (subnetwork_id (ptx p))" "subnetwork_wf (subnetwork_id (ptx q))"
      "outpoint_wf (previous_outpoint (tx_inputs (ptx p) ! i))" "outpoint_wf (previous_outpoint (tx_inputs (ptx q) ! j))"
      "spk_wf (entry_spk (ptx_entries p ! i))" "spk_wf (entry_spk (ptx_entries q ! j))"
    using assms(2-5) pi by (auto simp: tx_wf_def list_all_length input_wf_def)
  note c = sighash_bytes_inject [OF assms(1) this e]
  then have "sig_view (ptx p) = sig_view (ptx q)" by (intro sig_view_of_hashes [OF False _ _ assms(2,3)]) (auto simp: sighash_strings_def)
  then show ?thesis using c by simp
qed simp

theorem sighash_all_commits_witness:
  "\<not> hash_break ex_hash (sighash_strings ex_hash (ex_spend [1]) 0 SIG_HASH_ALL \<union> sighash_strings ex_hash (ex_spend [2, 3]) 0 SIG_HASH_ALL) \<and>
   sig_view (ptx (ex_spend [1])) = sig_view (ptx (ex_spend [2, 3]))"
proof -
  have "\<exists>h r. calc_signature_hash ex_hash (ex_spend [1]) 0 SIG_HASH_ALL reused_values_new = (Ok (h, r) :: (unit, _) outcome) \<and>
      calc_signature_hash ex_hash (ex_spend [2, 3]) 0 SIG_HASH_ALL reused_values_new = (Ok (h, r) :: (unit, _) outcome)"
    by (simp add: calc_signature_hash_def populated_input_def ex_spend_def transaction_new_non_finalized_def ex_input_def Let_def
        case_prod_beta previous_outputs_hash_def sequences_hash_def sig_op_counts_hash_def outputs_hash_def payload_hash_def)
  then obtain h r where "calc_signature_hash ex_hash (ex_spend [1]) 0 SIG_HASH_ALL reused_values_new = (Ok (h, r) :: (unit, _) outcome)"
      "calc_signature_hash ex_hash (ex_spend [2, 3]) 0 SIG_HASH_ALL reused_values_new = (Ok (h, r) :: (unit, _) outcome)" by blast
  moreover have "list_all (\<lambda>e. spk_wf (entry_spk e)) (ptx_entries (ex_spend sig))" for sig by (simp add: ex_spend_def spk_wf_def)
  ultimately show ?thesis using sighash_all_commits [of ex_hash "ex_spend [1]" "ex_spend [2, 3]" 0 h r 0 SIG_HASH_ALL r]
      ex_no_break by (auto simp: ex_hash_wf ex_spend_wf ex_strings [of "[1]"] ex_strings [of "[2, 3]"])
qed

text \<open>Reusing the partial hashes between the inputs of a transaction is transparent: with any stored values that
  earlier signature hashes of the same transaction left behind, the digest is the one computed from scratch, and the
  values stored afterwards are again valid for the transaction.
\<close>

theorem sighash_reuse_transparent:
  assumes "reused_ok H (ptx p) r" and "calc_signature_hash H p i t reused_values_new = (Ok (h, s) :: (unit, _) outcome)"
  shows "\<exists>r'. calc_signature_hash H p i t r = (Ok (h, r') :: (unit, _) outcome) \<and> reused_ok H (ptx p) r'"
  using assms(2) calc_signature_hash_bytes [OF assms(1), of i t, where 'a = unit] calc_signature_hash_bytes [OF reused_new, of H p i t, where 'a = unit]
  by (auto simp: obind_eq_Ok)

theorem sighash_reuse_transparent_witness:
  "\<exists>h s r'. calc_signature_hash ex_hash (ex_spend [1]) 0 SIG_HASH_NONE reused_values_new = (Ok (h, s) :: (unit, _) outcome) \<and>
    calc_signature_hash ex_hash (ex_spend [1]) 0 SIG_HASH_NONE s = (Ok (h, r') :: (unit, _) outcome)"
proof -
  have p: "populated_input (ex_spend [1]) 0 = (Ok (tx_inputs (ptx (ex_spend [1])) ! 0, ptx_entries (ex_spend [1]) ! 0) :: (unit, _) outcome)"
    by (simp add: populated_input_def ex_spend_def transaction_new_non_finalized_def)
  obtain h s where hs: "calc_signature_hash ex_hash (ex_spend [1]) 0 SIG_HASH_NONE reused_values_new = (Ok (h, s) :: (unit, _) outcome)"
    and ok: "reused_ok ex_hash (ptx (ex_spend [1])) s"
    using calc_signature_hash_bytes [OF reused_new, of ex_hash "ex_spend [1]" 0 SIG_HASH_NONE, where 'a = unit] p by auto
  show ?thesis using sighash_reuse_transparent [OF ok hs] hs by blast
qed

end
