(* ===== verification/Script_Engine.thy ===== *)
theory Script_Engine
  imports Opcode Sighash Hash_Map
begin

text \<open>
  The script engine (src/crypto/txscript/src/lib.rs) and the execution of every opcode
  (src/crypto/txscript/src/opcodes/mod.rs), with the signature cache (caches.rs) and the signature operation
  counter (runtime_sig_op_counter.rs).

  The engine is the record of \<open>TxScriptEngine\<close> without its log buffer; an opcode is a function from the engine to
  its successor or an error. A failing script returns its error only, so what it stored in the shared caches before
  failing is not kept. The primitives of other crates (SHA-256, Blake2b, ML-DSA-44, the random index of a cache
  eviction) are the fields of \<open>script_env\<close>.
\<close>

section \<open>Environment and caches\<close>

record script_env =
  TransactionSigningHash :: "bytes \<Rightarrow> hash"
  sha256 :: "bytes \<Rightarrow> bytes"
  blake2b_256 :: "bytes \<Rightarrow> bytes"
  ml_dsa_44_verify :: "bytes \<Rightarrow> bytes \<Rightarrow> bytes \<Rightarrow> bytes \<Rightarrow> bool"
  random_index :: "nat \<Rightarrow> nat"

text \<open>\<open>Cache\<close>: an insertion-ordered map (\<open>IndexMap\<close>) with a capacity; a full cache evicts a random entry by
  \<open>swap_remove_index\<close>.\<close>

record ('k, 'v) cache =
  cache_map :: "('k, 'v) hmap"
  cache_size :: nat

definition cache_new :: "nat \<Rightarrow> ('k, 'v) cache" where
  "cache_new size' = \<lparr>cache_map = [], cache_size = size'\<rparr>"

definition swap_remove_index :: "nat \<Rightarrow> ('k, 'v) hmap \<Rightarrow> ('k, 'v) hmap" where
  "swap_remove_index i m =
     (if i < length m then (if i = length m - 1 then butlast m else (butlast m)[i := last m]) else m)"

definition cache_get :: "('k, 'v) cache \<Rightarrow> 'k \<Rightarrow> 'v option" where
  "cache_get c k = hm_get (cache_map c) k"

definition cache_insert :: "(nat \<Rightarrow> nat) \<Rightarrow> 'k \<Rightarrow> 'v \<Rightarrow> ('k, 'v) cache \<Rightarrow> ('k, 'v) cache" where
  "cache_insert random k v c =
     (if cache_size c = 0 then c
      else let m = (if length (cache_map c) = cache_size c then swap_remove_index (random (cache_size c)) (cache_map c) else cache_map c)
           in c\<lparr>cache_map := hm_insert k v m\<rparr>)"

text \<open>\<open>SigCacheKey\<close>: the first 32 bytes of the signature and of the verification key, and the message.\<close>

record sig_cache_key =
  key_signature :: bytes
  key_pub_key :: bytes
  key_message :: bytes

section \<open>Signature operation counter\<close>

record runtime_sig_op_counter =
  sig_op_limit :: u8
  sig_op_remaining :: u8

definition counter_new :: "u8 \<Rightarrow> runtime_sig_op_counter" where
  "counter_new limit = \<lparr>sig_op_limit = limit, sig_op_remaining = limit\<rparr>"

definition consume_sig_op :: "runtime_sig_op_counter \<Rightarrow> runtime_sig_op_counter script_result" where
  "consume_sig_op c = obind (ok_or (checked_sub (sig_op_remaining c) 1) (ExceededSigOpLimit (sig_op_limit c)))
     (\<lambda>r. Ok (c\<lparr>sig_op_remaining := r\<rparr>))"

definition counter_used_sig_ops :: "runtime_sig_op_counter \<Rightarrow> ('e, u8) outcome" where
  "counter_used_sig_ops c = psub (sig_op_limit c) (sig_op_remaining c)"

section \<open>Engine\<close>

definition ENGINE_MAX_SCRIPT_PUBLIC_KEY_VERSION :: u16 where "ENGINE_MAX_SCRIPT_PUBLIC_KEY_VERSION = 0"
definition MAX_STACK_SIZE :: nat where "MAX_STACK_SIZE = 244"
definition MAX_SCRIPTS_SIZE :: nat where "MAX_SCRIPTS_SIZE = 10000"
definition MAX_SCRIPT_ELEMENT_SIZE :: nat where "MAX_SCRIPT_ELEMENT_SIZE = 4096"
definition MAX_OPS_PER_SCRIPT :: nat where "MAX_OPS_PER_SCRIPT = 201"
definition MAX_PUB_KEYS_PER_MUTLTISIG :: nat where "MAX_PUB_KEYS_PER_MUTLTISIG = 20"
definition DILITHIUM2_VK_SIZE :: nat where "DILITHIUM2_VK_SIZE = 1312"
definition DILITHIUM2_SIG_SIZE :: nat where "DILITHIUM2_SIG_SIZE = 2420"

datatype op_cond = CFalse | CTrue | CSkip

primrec cond_negate :: "op_cond \<Rightarrow> op_cond" where
  "cond_negate CTrue = CFalse"
| "cond_negate CFalse = CTrue"
| "cond_negate CSkip = CSkip"

datatype script_source =
    TxInput populated_transaction transaction_input nat utxo_entry bool
  | StandAloneScripts "bytes list"

record script_engine =
  dstack :: stack
  astack :: stack
  script_source :: script_source
  reused_values :: sig_hash_reused_values
  sig_cache :: "(sig_cache_key, bool) cache"
  cond_stack :: "op_cond list"
  num_ops :: nat
  sig_op_counter :: runtime_sig_op_counter

type_synonym op_result = "script_engine script_result"

definition is_executing :: "script_engine \<Rightarrow> bool" where
  "is_executing vm \<longleftrightarrow> cond_stack vm = [] \<or> last (cond_stack vm) = CTrue"

text \<open>The stack operations on the data stack of the engine; destructuring the fixed-size array that \<open>pop_items\<close>
  returns is a match on the list, whose other cases the source rules out with \<open>expect\<close>.\<close>

definition on_dstack :: "(stack \<Rightarrow> stack script_result) \<Rightarrow> script_engine \<Rightarrow> op_result" where
  "on_dstack f vm = obind (f (dstack vm)) (\<lambda>s. Ok (vm\<lparr>dstack := s\<rparr>))"

definition push_data :: "bytes \<Rightarrow> script_engine \<Rightarrow> op_result" where
  "push_data data vm = Ok (vm\<lparr>dstack := dstack vm @ [data]\<rparr>)"

definition push_number :: "int \<Rightarrow> script_engine \<Rightarrow> op_result" where
  "push_number n = on_dstack (push_item (i64_serialize n))"

definition pop_one :: "(bytes \<Rightarrow> 'a script_result) \<Rightarrow> script_engine \<Rightarrow> ('a \<Rightarrow> script_engine \<Rightarrow> op_result) \<Rightarrow> op_result" where
  "pop_one des vm f = obind (pop_items des 1 (dstack vm)) (\<lambda>(items, s).
     case items of [x] \<Rightarrow> f x (vm\<lparr>dstack := s\<rparr>) | _ \<Rightarrow> Panic)"

definition pop_two :: "(bytes \<Rightarrow> 'a script_result) \<Rightarrow> script_engine \<Rightarrow> ('a \<Rightarrow> 'a \<Rightarrow> script_engine \<Rightarrow> op_result) \<Rightarrow> op_result" where
  "pop_two des vm f = obind (pop_items des 2 (dstack vm)) (\<lambda>(items, s).
     case items of [x, y] \<Rightarrow> f x y (vm\<lparr>dstack := s\<rparr>) | _ \<Rightarrow> Panic)"

definition pop_three :: "(bytes \<Rightarrow> 'a script_result) \<Rightarrow> script_engine \<Rightarrow> ('a \<Rightarrow> 'a \<Rightarrow> 'a \<Rightarrow> script_engine \<Rightarrow> op_result) \<Rightarrow> op_result" where
  "pop_three des vm f = obind (pop_items des 3 (dstack vm)) (\<lambda>(items, s).
     case items of [x, y, z] \<Rightarrow> f x y z (vm\<lparr>dstack := s\<rparr>) | _ \<Rightarrow> Panic)"

text \<open>\<open>pop_raw\<close> of one and two elements: the same with the identity as deserialization.\<close>

definition pop_one_raw :: "script_engine \<Rightarrow> (bytes \<Rightarrow> script_engine \<Rightarrow> op_result) \<Rightarrow> op_result" where
  "pop_one_raw vm f = obind (pop_raw 1 (dstack vm)) (\<lambda>(items, s). case items of [x] \<Rightarrow> f x (vm\<lparr>dstack := s\<rparr>) | _ \<Rightarrow> Panic)"

definition pop_two_raw :: "script_engine \<Rightarrow> (bytes \<Rightarrow> bytes \<Rightarrow> script_engine \<Rightarrow> op_result) \<Rightarrow> op_result" where
  "pop_two_raw vm f = obind (pop_raw 2 (dstack vm)) (\<lambda>(items, s). case items of [x, y] \<Rightarrow> f x y (vm\<lparr>dstack := s\<rparr>) | _ \<Rightarrow> Panic)"

text \<open>Indexing and removal of \<open>Vec\<close>, which panic out of range.\<close>

definition vec_index :: "'a list \<Rightarrow> nat \<Rightarrow> ('e, 'a) outcome" where
  "vec_index xs i = (if i < length xs then Ok (xs ! i) else Panic)"

definition vec_remove :: "'a list \<Rightarrow> nat \<Rightarrow> ('e, 'a \<times> 'a list) outcome" where
  "vec_remove xs i = (if i < length xs then Ok (xs ! i, take i xs @ drop (Suc i) xs) else Panic)"

end
