(* ===== verification/Script_Exec.thy ===== *)
theory Script_Exec
  imports Script_Engine
begin

text \<open>
  The execution of every opcode of src/crypto/txscript/src/opcodes/mod.rs, one definition per opcode with code of
  its own and one table per section of the opcode list, and the dispatch on the opcode number.
\<close>

section \<open>Control opcodes\<close>

definition op_reserved :: "u8 \<Rightarrow> script_env \<Rightarrow> script_engine \<Rightarrow> op_result" where
  "op_reserved c E vm = Err (OpcodeReserved c)"

definition op_disabled :: "u8 \<Rightarrow> script_env \<Rightarrow> script_engine \<Rightarrow> op_result" where
  "op_disabled c E vm = Err (OpcodeDisabled c)"

definition op_invalid :: "u8 \<Rightarrow> script_env \<Rightarrow> script_engine \<Rightarrow> op_result" where
  "op_invalid c E vm = Err (InvalidOpcode c)"

definition op_nop :: "script_env \<Rightarrow> script_engine \<Rightarrow> op_result" where
  "op_nop E vm = Ok vm"

definition op_if :: "script_env \<Rightarrow> script_engine \<Rightarrow> op_result" where
  "op_if E vm =
     (if is_executing vm then
        if dstack vm = [] then Err EmptyStack
        else let cond_buf = last (dstack vm); vm = vm\<lparr>dstack := butlast (dstack vm)\<rparr> in
          if 1 < length cond_buf then Err InvalidState
          else case cond_buf of
              [] \<Rightarrow> Ok (vm\<lparr>cond_stack := cond_stack vm @ [CFalse]\<rparr>)
            | stack_cond # _ \<Rightarrow> if stack_cond = 1 then Ok (vm\<lparr>cond_stack := cond_stack vm @ [CTrue]\<rparr>) else Err InvalidState
      else Ok (vm\<lparr>cond_stack := cond_stack vm @ [CSkip]\<rparr>))"

definition op_not_if :: "script_env \<Rightarrow> script_engine \<Rightarrow> op_result" where
  "op_not_if E vm =
     (if is_executing vm then
        if dstack vm = [] then Err EmptyStack
        else let cond_buf = last (dstack vm); vm = vm\<lparr>dstack := butlast (dstack vm)\<rparr> in
          if 1 < length cond_buf then Err InvalidState
          else case cond_buf of
              [] \<Rightarrow> Ok (vm\<lparr>cond_stack := cond_stack vm @ [CTrue]\<rparr>)
            | stack_cond # _ \<Rightarrow> if stack_cond = 1 then Ok (vm\<lparr>cond_stack := cond_stack vm @ [CFalse]\<rparr>) else Err InvalidState
      else Ok (vm\<lparr>cond_stack := cond_stack vm @ [CSkip]\<rparr>))"

definition op_else :: "script_env \<Rightarrow> script_engine \<Rightarrow> op_result" where
  "op_else E vm =
     (if cond_stack vm = [] then Err InvalidState
      else Ok (vm\<lparr>cond_stack := butlast (cond_stack vm) @ [cond_negate (last (cond_stack vm))]\<rparr>))"

definition op_end_if :: "script_env \<Rightarrow> script_engine \<Rightarrow> op_result" where
  "op_end_if E vm = (if cond_stack vm = [] then Err InvalidState else Ok (vm\<lparr>cond_stack := butlast (cond_stack vm)\<rparr>))"

definition op_verify :: "script_env \<Rightarrow> script_engine \<Rightarrow> op_result" where
  "op_verify E vm = pop_one bool_deserialize vm (\<lambda>result vm. if result then Ok vm else Err VerifyError)"

definition op_return :: "script_env \<Rightarrow> script_engine \<Rightarrow> op_result" where
  "op_return E vm = Err EarlyReturn"

definition control_ops :: "(u8 \<times> (script_env \<Rightarrow> script_engine \<Rightarrow> op_result)) list" where
  "control_ops = [(0x61, op_nop), (0x62, op_reserved 0x62), (0x63, op_if), (0x64, op_not_if), (0x65, op_reserved 0x65),
     (0x66, op_reserved 0x66), (0x67, op_else), (0x68, op_end_if), (0x69, op_verify), (OpReturn, op_return)]"

section \<open>Stack opcodes\<close>

definition op_to_alt_stack :: "script_env \<Rightarrow> script_engine \<Rightarrow> op_result" where
  "op_to_alt_stack E vm = pop_one_raw vm (\<lambda>item vm. Ok (vm\<lparr>astack := astack vm @ [item]\<rparr>))"

definition op_from_alt_stack :: "script_env \<Rightarrow> script_engine \<Rightarrow> op_result" where
  "op_from_alt_stack E vm =
     (if astack vm = [] then Err EmptyStack
      else Ok (vm\<lparr>astack := butlast (astack vm), dstack := dstack vm @ [last (astack vm)]\<rparr>))"

definition op_if_dup :: "script_env \<Rightarrow> script_engine \<Rightarrow> op_result" where
  "op_if_dup E vm = obind (peek_raw 1 (dstack vm)) (\<lambda>items. case items of
     [result] \<Rightarrow> obind (bool_deserialize result) (\<lambda>b. if b then Ok (vm\<lparr>dstack := dstack vm @ [result]\<rparr>) else Ok vm)
   | _ \<Rightarrow> Panic)"

definition op_depth :: "script_env \<Rightarrow> script_engine \<Rightarrow> op_result" where
  "op_depth E vm = push_number (int (length (dstack vm))) vm"

definition op_nip :: "script_env \<Rightarrow> script_engine \<Rightarrow> op_result" where
  "op_nip E vm =
     (if 2 \<le> length (dstack vm) then
        obind (vec_remove (dstack vm) (length (dstack vm) - 2)) (\<lambda>(_, s). Ok (vm\<lparr>dstack := s\<rparr>))
      else Err (InvalidStackOperation 2 (length (dstack vm))))"

definition op_pick :: "script_env \<Rightarrow> script_engine \<Rightarrow> op_result" where
  "op_pick E vm = pop_one i32_deserialize vm (\<lambda>loc vm.
     if loc < 0 \<or> int (length (dstack vm)) \<le> loc then Err InvalidState
     else obind (vec_index (dstack vm) (length (dstack vm) - nat loc - 1)) (\<lambda>item. Ok (vm\<lparr>dstack := dstack vm @ [item]\<rparr>)))"

definition op_roll :: "script_env \<Rightarrow> script_engine \<Rightarrow> op_result" where
  "op_roll E vm = pop_one i32_deserialize vm (\<lambda>loc vm.
     if loc < 0 \<or> int (length (dstack vm)) \<le> loc then Err InvalidState
     else obind (vec_remove (dstack vm) (length (dstack vm) - nat loc - 1)) (\<lambda>(item, s). Ok (vm\<lparr>dstack := s @ [item]\<rparr>)))"

definition op_tuck :: "script_env \<Rightarrow> script_engine \<Rightarrow> op_result" where
  "op_tuck E vm =
     (if 2 \<le> length (dstack vm) then
        let n = length (dstack vm) - 2 in Ok (vm\<lparr>dstack := take n (dstack vm) @ last (dstack vm) # drop n (dstack vm)\<rparr>)
      else Err (InvalidStackOperation 2 (length (dstack vm))))"

definition stack_ops :: "(u8 \<times> (script_env \<Rightarrow> script_engine \<Rightarrow> op_result)) list" where
  "stack_ops = [(0x6b, op_to_alt_stack), (0x6c, op_from_alt_stack), (0x6d, \<lambda>E. on_dstack (drop_items 2)),
     (0x6e, \<lambda>E. on_dstack (dup_items 2)), (0x6f, \<lambda>E. on_dstack (dup_items 3)), (0x70, \<lambda>E. on_dstack (over_items 2)),
     (0x71, \<lambda>E. on_dstack (rot_items 2)), (0x72, \<lambda>E. on_dstack (swap_items 2)), (0x73, op_if_dup), (0x74, op_depth),
     (0x75, \<lambda>E. on_dstack (drop_items 1)), (0x76, \<lambda>E. on_dstack (dup_items 1)), (0x77, op_nip),
     (0x78, \<lambda>E. on_dstack (over_items 1)), (0x79, op_pick), (0x7a, op_roll), (0x7b, \<lambda>E. on_dstack (rot_items 1)),
     (0x7c, \<lambda>E. on_dstack (swap_items 1)), (0x7d, op_tuck)]"

section \<open>Splice and bitwise opcodes\<close>

definition op_size :: "script_env \<Rightarrow> script_engine \<Rightarrow> op_result" where
  "op_size E vm =
     (if dstack vm = [] then Err (InvalidStackOperation 1 0)
      else let n = int (length (last (dstack vm))) in if n \<le> I64_MAX then push_number n vm else Err NumberTooBig)"

definition op_equal :: "script_env \<Rightarrow> script_engine \<Rightarrow> op_result" where
  "op_equal E vm =
     (if 2 \<le> length (dstack vm) then
        let n = length (dstack vm) - 2; pair = drop n (dstack vm) in
        Ok (vm\<lparr>dstack := take n (dstack vm) @ [if pair ! 0 = pair ! 1 then [1] else []]\<rparr>)
      else Err (InvalidStackOperation 2 (length (dstack vm))))"

definition op_equal_verify :: "script_env \<Rightarrow> script_engine \<Rightarrow> op_result" where
  "op_equal_verify E vm =
     (if 2 \<le> length (dstack vm) then
        let n = length (dstack vm) - 2; pair = drop n (dstack vm) in
        if pair ! 0 = pair ! 1 then Ok (vm\<lparr>dstack := take n (dstack vm)\<rparr>) else Err VerifyError
      else Err (InvalidStackOperation 2 (length (dstack vm))))"

definition splice_ops :: "(u8 \<times> (script_env \<Rightarrow> script_engine \<Rightarrow> op_result)) list" where
  "splice_ops = [(0x7e, op_disabled 0x7e), (0x7f, op_disabled 0x7f), (0x80, op_disabled 0x80), (0x81, op_disabled 0x81),
     (0x82, op_size), (0x83, op_disabled 0x83), (0x84, op_disabled 0x84), (0x85, op_disabled 0x85), (0x86, op_disabled 0x86),
     (OpEqual, op_equal), (0x88, op_equal_verify), (0x89, op_reserved 0x89), (0x8a, op_reserved 0x8a)]"

section \<open>Numeric opcodes\<close>

definition i64_checked :: "int \<Rightarrow> int script_result" where
  "i64_checked n = (if I64_MIN \<le> n \<and> n \<le> I64_MAX then Ok n else Err NumberTooBig)"

definition op_unary :: "(int \<Rightarrow> int script_result) \<Rightarrow> script_env \<Rightarrow> script_engine \<Rightarrow> op_result" where
  "op_unary f E vm = pop_one i64_deserialize vm (\<lambda>x vm. obind (f x) (\<lambda>r. push_number r vm))"

definition op_binary :: "(int \<Rightarrow> int \<Rightarrow> int script_result) \<Rightarrow> script_env \<Rightarrow> script_engine \<Rightarrow> op_result" where
  "op_binary f E vm = pop_two i64_deserialize vm (\<lambda>a b vm. obind (f a b) (\<lambda>r. push_number r vm))"

definition op_1add :: "script_env \<Rightarrow> script_engine \<Rightarrow> op_result" where "op_1add = op_unary (\<lambda>x. i64_checked (x + 1))"
definition op_1sub :: "script_env \<Rightarrow> script_engine \<Rightarrow> op_result" where "op_1sub = op_unary (\<lambda>x. i64_checked (x - 1))"
definition op_negate :: "script_env \<Rightarrow> script_engine \<Rightarrow> op_result" where "op_negate = op_unary (\<lambda>x. i64_checked (- x))"
definition op_abs :: "script_env \<Rightarrow> script_engine \<Rightarrow> op_result" where "op_abs = op_unary (\<lambda>x. i64_checked \<bar>x\<bar>)"
definition op_not :: "script_env \<Rightarrow> script_engine \<Rightarrow> op_result" where "op_not = op_unary (\<lambda>m. Ok (of_bool (m = 0)))"
definition op_0not_equal :: "script_env \<Rightarrow> script_engine \<Rightarrow> op_result" where "op_0not_equal = op_unary (\<lambda>m. Ok (of_bool (m \<noteq> 0)))"
definition op_add :: "script_env \<Rightarrow> script_engine \<Rightarrow> op_result" where "op_add = op_binary (\<lambda>a b. i64_checked (a + b))"
definition op_sub :: "script_env \<Rightarrow> script_engine \<Rightarrow> op_result" where "op_sub = op_binary (\<lambda>a b. i64_checked (a - b))"
definition op_bool_and :: "script_env \<Rightarrow> script_engine \<Rightarrow> op_result" where
  "op_bool_and = op_binary (\<lambda>a b. Ok (of_bool (a \<noteq> 0 \<and> b \<noteq> 0)))"
definition op_bool_or :: "script_env \<Rightarrow> script_engine \<Rightarrow> op_result" where
  "op_bool_or = op_binary (\<lambda>a b. Ok (of_bool (a \<noteq> 0 \<or> b \<noteq> 0)))"
definition op_num_equal :: "script_env \<Rightarrow> script_engine \<Rightarrow> op_result" where "op_num_equal = op_binary (\<lambda>a b. Ok (of_bool (a = b)))"
definition op_num_equal_verify :: "script_env \<Rightarrow> script_engine \<Rightarrow> op_result" where
  "op_num_equal_verify E vm = pop_two i64_deserialize vm (\<lambda>a b vm. if a = b then Ok vm else Err VerifyError)"
definition op_num_not_equal :: "script_env \<Rightarrow> script_engine \<Rightarrow> op_result" where "op_num_not_equal = op_binary (\<lambda>a b. Ok (of_bool (a \<noteq> b)))"
definition op_less_than :: "script_env \<Rightarrow> script_engine \<Rightarrow> op_result" where "op_less_than = op_binary (\<lambda>a b. Ok (of_bool (a < b)))"
definition op_greater_than :: "script_env \<Rightarrow> script_engine \<Rightarrow> op_result" where "op_greater_than = op_binary (\<lambda>a b. Ok (of_bool (a > b)))"
definition op_less_than_or_equal :: "script_env \<Rightarrow> script_engine \<Rightarrow> op_result" where "op_less_than_or_equal = op_binary (\<lambda>a b. Ok (of_bool (a \<le> b)))"
definition op_greater_than_or_equal :: "script_env \<Rightarrow> script_engine \<Rightarrow> op_result" where "op_greater_than_or_equal = op_binary (\<lambda>a b. Ok (of_bool (a \<ge> b)))"
definition op_min :: "script_env \<Rightarrow> script_engine \<Rightarrow> op_result" where "op_min = op_binary (\<lambda>a b. Ok (min a b))"
definition op_max :: "script_env \<Rightarrow> script_engine \<Rightarrow> op_result" where "op_max = op_binary (\<lambda>a b. Ok (max a b))"
definition op_within :: "script_env \<Rightarrow> script_engine \<Rightarrow> op_result" where
  "op_within E vm = pop_three i64_deserialize vm (\<lambda>x l u vm. push_number (of_bool (x \<ge> l \<and> x < u)) vm)"

definition numeric_ops :: "(u8 \<times> (script_env \<Rightarrow> script_engine \<Rightarrow> op_result)) list" where
  "numeric_ops = [(0x8b, op_1add), (0x8c, op_1sub), (0x8d, op_disabled 0x8d), (0x8e, op_disabled 0x8e), (0x8f, op_negate),
     (0x90, op_abs), (0x91, op_not), (0x92, op_0not_equal), (0x93, op_add), (0x94, op_sub), (0x95, op_disabled 0x95),
     (0x96, op_disabled 0x96), (0x97, op_disabled 0x97), (0x98, op_disabled 0x98), (0x99, op_disabled 0x99), (0x9a, op_bool_and),
     (0x9b, op_bool_or), (0x9c, op_num_equal), (0x9d, op_num_equal_verify), (0x9e, op_num_not_equal), (0x9f, op_less_than),
     (0xa0, op_greater_than), (0xa1, op_less_than_or_equal), (0xa2, op_greater_than_or_equal), (0xa3, op_min), (0xa4, op_max),
     (0xa5, op_within)]"

section \<open>Crypto opcodes\<close>

definition op_sha256 :: "script_env \<Rightarrow> script_engine \<Rightarrow> op_result" where
  "op_sha256 E vm = pop_one_raw vm (\<lambda>last_item vm. push_data (sha256 E last_item) vm)"

definition op_blake2b :: "script_env \<Rightarrow> script_engine \<Rightarrow> op_result" where
  "op_blake2b E vm = pop_one_raw vm (\<lambda>last_item vm. push_data (blake2b_256 E last_item) vm)"

definition op_check_multisig_disabled :: "script_env \<Rightarrow> script_engine \<Rightarrow> op_result" where
  "op_check_multisig_disabled E vm = Err (OpcodeDisabled OpCheckMultiSig)"

definition op_check_multisig_verify :: "script_env \<Rightarrow> script_engine \<Rightarrow> op_result" where
  "op_check_multisig_verify E vm = obind (op_check_multisig_disabled E vm) (\<lambda>vm.
     pop_one bool_deserialize vm (\<lambda>valid vm. if valid then Ok vm else Err VerifyError))"

definition check_dilithium_signature ::
  "script_env \<Rightarrow> script_engine \<Rightarrow> sig_hash_type \<Rightarrow> bytes \<Rightarrow> bytes \<Rightarrow> (bool \<times> script_engine) script_result" where
  "check_dilithium_signature E vm hash_type key sig =
     obind (consume_sig_op (sig_op_counter vm)) (\<lambda>counter.
     let vm = vm\<lparr>sig_op_counter := counter\<rparr> in
     case script_source vm of
       TxInput tx _ idx _ _ \<Rightarrow>
         if length sig \<noteq> DILITHIUM2_SIG_SIZE then Err (SigLength (length sig))
         else if length key \<noteq> DILITHIUM2_VK_SIZE then Err PubKeyFormat
         else obind (calc_signature_hash (TransactionSigningHash E) tx idx hash_type (reused_values vm)) (\<lambda>(sig_hash, r).
           let vm = vm\<lparr>reused_values := r\<rparr>;
               message = as_bytes sig_hash;
               cache_key = \<lparr>key_signature = take 32 sig, key_pub_key = take 32 key, key_message = message\<rparr>
           in case cache_get (sig_cache vm) cache_key of
                Some cached \<Rightarrow> Ok (cached, vm)
              | None \<Rightarrow> let valid = ml_dsa_44_verify E key message [] sig
                  in Ok (valid, vm\<lparr>sig_cache := cache_insert (random_index E) cache_key valid (sig_cache vm)\<rparr>))
     | StandAloneScripts _ \<Rightarrow> Err NotATransactionInput)"

definition op_check_sig_dilithium :: "script_env \<Rightarrow> script_engine \<Rightarrow> op_result" where
  "op_check_sig_dilithium E vm = pop_two_raw vm (\<lambda>sig key vm.
     if sig = [] then push_data (bool_serialize False) vm
     else let typ = last sig; sig = butlast sig in
       obind (ok_or (sig_hash_type_from_u8 typ) (InvalidSigHashType typ)) (\<lambda>hash_type.
       obind (check_dilithium_signature E vm hash_type key sig) (\<lambda>(valid, vm). push_data (bool_serialize valid) vm)))"

definition crypto_ops :: "(u8 \<times> (script_env \<Rightarrow> script_engine \<Rightarrow> op_result)) list" where
  "crypto_ops = [(0xa6, op_invalid 0xa6), (0xa7, op_invalid 0xa7), (0xa8, op_sha256), (OpReservedA9, op_check_multisig_disabled),
     (OpBlake2b, op_blake2b), (OpReservedAb, op_disabled OpReservedAb), (OpCheckSig, op_disabled OpCheckSig),
     (OpCheckSigVerify, op_disabled OpCheckSigVerify), (OpCheckMultiSig, op_check_multisig_disabled),
     (OpCheckMultiSigVerify, op_check_multisig_verify)]"

section \<open>Lock time opcodes\<close>

definition padded_u64 :: "bytes \<Rightarrow> u64" where
  "padded_u64 bs = from_le_bytes (bs @ replicate (8 - length bs) 0)"

definition op_check_lock_time_verify :: "script_env \<Rightarrow> script_engine \<Rightarrow> op_result" where
  "op_check_lock_time_verify E vm = (case script_source vm of
     TxInput tx input _ _ _ \<Rightarrow> pop_one_raw vm (\<lambda>lock_time_bytes vm.
       if 8 < length lock_time_bytes then Err NumberTooBig
       else let stack_lock_time = padded_u64 lock_time_bytes; tx_lock_time = lock_time (ptx tx) in
         if \<not> (tx_lock_time < LOCK_TIME_THRESHOLD \<and> stack_lock_time < LOCK_TIME_THRESHOLD
               \<or> tx_lock_time \<ge> LOCK_TIME_THRESHOLD \<and> stack_lock_time \<ge> LOCK_TIME_THRESHOLD) then Err UnsatisfiedLockTime
         else if stack_lock_time > tx_lock_time then Err UnsatisfiedLockTime
         else if sequence input = MAX_TX_IN_SEQUENCE_NUM then Err UnsatisfiedLockTime
         else Ok vm)
   | StandAloneScripts _ \<Rightarrow> Err InvalidSource)"

definition op_check_sequence_verify :: "script_env \<Rightarrow> script_engine \<Rightarrow> op_result" where
  "op_check_sequence_verify E vm = (case script_source vm of
     TxInput tx input _ _ _ \<Rightarrow> pop_one_raw vm (\<lambda>sequence_bytes vm.
       if 8 < length sequence_bytes then Err NumberTooBig
       else let stack_sequence = padded_u64 sequence_bytes in
         if stack_sequence AND SEQUENCE_LOCK_TIME_DISABLED \<noteq> 0 then Ok vm
         else if sequence input AND SEQUENCE_LOCK_TIME_DISABLED \<noteq> 0 then Err UnsatisfiedLockTime
         else if stack_sequence AND SEQUENCE_LOCK_TIME_MASK > sequence input AND SEQUENCE_LOCK_TIME_MASK then Err UnsatisfiedLockTime
         else Ok vm)
   | StandAloneScripts _ \<Rightarrow> Err InvalidSource)"

section \<open>Introspection opcodes\<close>

definition op_tx_input_count :: "script_env \<Rightarrow> script_engine \<Rightarrow> op_result" where
  "op_tx_input_count E vm = (case script_source vm of
     TxInput tx _ _ _ _ \<Rightarrow> push_number (int (length (tx_inputs (ptx tx)))) vm | StandAloneScripts _ \<Rightarrow> Err InvalidSource)"

definition op_tx_output_count :: "script_env \<Rightarrow> script_engine \<Rightarrow> op_result" where
  "op_tx_output_count E vm = (case script_source vm of
     TxInput tx _ _ _ _ \<Rightarrow> push_number (int (length (tx_outputs (ptx tx)))) vm | StandAloneScripts _ \<Rightarrow> Err InvalidSource)"

definition op_tx_input_index :: "script_env \<Rightarrow> script_engine \<Rightarrow> op_result" where
  "op_tx_input_index E vm = (case script_source vm of
     TxInput _ _ idx _ _ \<Rightarrow> push_number (int idx) vm | StandAloneScripts _ \<Rightarrow> Err InvalidSource)"

text \<open>\<open>usize::try_from(idx).ok().and_then(|idx| xs.get(idx))\<close> for an \<open>i32\<close> index.\<close>

definition get_at :: "'a list \<Rightarrow> int \<Rightarrow> 'a option" where
  "get_at xs idx = (if 0 \<le> idx \<and> nat idx < length xs then Some (xs ! nat idx) else None)"

definition push_amount :: "u64 \<Rightarrow> script_engine \<Rightarrow> op_result" where
  "push_amount v vm = (if uint v \<le> I64_MAX then push_number (uint v) vm else Err NumberTooBig)"

definition spk_to_bytes :: "script_public_key \<Rightarrow> bytes" where
  "spk_to_bytes spk = rev (to_le_bytes 2 (spk_version spk)) @ spk_script spk"

definition op_tx_input_amount :: "script_env \<Rightarrow> script_engine \<Rightarrow> op_result" where
  "op_tx_input_amount E vm = (case script_source vm of
     TxInput tx _ _ _ _ \<Rightarrow> pop_one i32_deserialize vm (\<lambda>idx vm.
       obind (ok_or (get_at (ptx_entries tx) idx) (InvalidInputIndex idx (length (tx_inputs (ptx tx))))) (\<lambda>utxo.
         push_amount (amount utxo) vm))
   | StandAloneScripts _ \<Rightarrow> Err InvalidSource)"

definition op_tx_input_spk :: "script_env \<Rightarrow> script_engine \<Rightarrow> op_result" where
  "op_tx_input_spk E vm = (case script_source vm of
     TxInput tx _ _ _ _ \<Rightarrow> pop_one i32_deserialize vm (\<lambda>idx vm.
       obind (ok_or (get_at (ptx_entries tx) idx) (InvalidInputIndex idx (length (tx_inputs (ptx tx))))) (\<lambda>utxo.
         push_data (spk_to_bytes (entry_spk utxo)) vm))
   | StandAloneScripts _ \<Rightarrow> Err InvalidSource)"

definition op_tx_output_amount :: "script_env \<Rightarrow> script_engine \<Rightarrow> op_result" where
  "op_tx_output_amount E vm = (case script_source vm of
     TxInput tx _ _ _ _ \<Rightarrow> pop_one i32_deserialize vm (\<lambda>idx vm.
       obind (ok_or (get_at (tx_outputs (ptx tx)) idx) (InvalidOutputIndex idx (length (tx_inputs (ptx tx))))) (\<lambda>output.
         push_amount (out_value output) vm))
   | StandAloneScripts _ \<Rightarrow> Err InvalidSource)"

definition op_tx_output_spk :: "script_env \<Rightarrow> script_engine \<Rightarrow> op_result" where
  "op_tx_output_spk E vm = (case script_source vm of
     TxInput tx _ _ _ _ \<Rightarrow> pop_one i32_deserialize vm (\<lambda>idx vm.
       obind (ok_or (get_at (tx_outputs (ptx tx)) idx) (InvalidOutputIndex idx (length (tx_inputs (ptx tx))))) (\<lambda>output.
         push_data (spk_to_bytes (out_spk output)) vm))
   | StandAloneScripts _ \<Rightarrow> Err InvalidSource)"

definition introspection_ops :: "(u8 \<times> (script_env \<Rightarrow> script_engine \<Rightarrow> op_result)) list" where
  "introspection_ops = [(0xb0, op_check_lock_time_verify), (0xb1, op_check_sequence_verify), (0xb2, op_reserved 0xb2),
     (0xb3, op_tx_input_count), (0xb4, op_tx_output_count), (0xb5, op_reserved 0xb5), (0xb6, op_reserved 0xb6),
     (0xb7, op_reserved 0xb7), (0xb8, op_reserved 0xb8), (0xb9, op_tx_input_index), (0xba, op_reserved 0xba),
     (0xbb, op_reserved 0xbb), (0xbc, op_reserved 0xbc), (0xbd, op_reserved 0xbd), (0xbe, op_tx_input_amount),
     (0xbf, op_tx_input_spk), (0xc0, op_reserved 0xc0), (0xc1, op_reserved 0xc1), (0xc2, op_tx_output_amount),
     (0xc3, op_tx_output_spk), (OpCheckSigDilithium, op_check_sig_dilithium)]"

section \<open>Dispatch\<close>

text \<open>The push opcodes, 0x00 to 0x60.\<close>

definition execute_push :: "opcode \<Rightarrow> script_engine \<Rightarrow> op_result" where
  "execute_push op vm =
     (let c = op_value op in
      if c = OpFalse then push_data [] vm
      else if c \<le> OpPushData4 then push_data (get_data op) vm
      else if c = Op1Negate then push_number (- 1) vm
      else if c = OpReserved then Err (OpcodeReserved c)
      else push_number (uint c - 0x50) vm)"

definition opcode_table :: "(u8 \<times> (script_env \<Rightarrow> script_engine \<Rightarrow> op_result)) list" where
  "opcode_table = control_ops @ stack_ops @ splice_ops @ numeric_ops @ crypto_ops @ introspection_ops"

text \<open>Opcodes 0xc5 to 0xff are undefined.\<close>

definition execute_op :: "script_env \<Rightarrow> opcode \<Rightarrow> script_engine \<Rightarrow> op_result" where
  "execute_op E op vm =
     (if is_push_opcode op then execute_push op vm
      else case map_of opcode_table (op_value op) of Some f \<Rightarrow> f E vm | None \<Rightarrow> Err (InvalidOpcode (op_value op)))"

section \<open>Engine\<close>

definition execute_opcode :: "script_env \<Rightarrow> opcode \<Rightarrow> script_engine \<Rightarrow> op_result" where
  "execute_opcode E op vm =
     obind (if \<not> is_push_opcode op then
              let vm = vm\<lparr>num_ops := num_ops vm + 1\<rparr> in
              if MAX_OPS_PER_SCRIPT < num_ops vm then Err (TooManyOperations MAX_OPS_PER_SCRIPT) else Ok vm
            else if MAX_SCRIPT_ELEMENT_SIZE < op_len op then Err (ElementTooBig (op_len op) MAX_SCRIPT_ELEMENT_SIZE)
            else Ok vm) (\<lambda>vm.
     if is_executing vm \<or> is_conditional op then
       then_do (if 0 < op_value op \<and> op_value op \<le> 0x4e then check_minimal_data_push op else Ok ()) (execute_op E op vm)
     else Ok vm)"

definition script_step :: "script_env \<Rightarrow> bool \<Rightarrow> opcode script_result \<Rightarrow> script_engine \<Rightarrow> op_result" where
  "script_step E verify_only_push parsed vm = obind parsed (\<lambda>opcode.
     if is_disabled opcode then Err (OpcodeDisabled (op_value opcode))
     else if always_illegal opcode then Err (OpcodeReserved (op_value opcode))
     else if verify_only_push \<and> \<not> is_push_opcode opcode then Err SignatureScriptNotPushOnly
     else obind (execute_opcode E opcode vm) (\<lambda>vm.
       let combined_size = length (astack vm) + length (dstack vm) in
       if MAX_STACK_SIZE < combined_size then Err (StackSizeExceeded combined_size MAX_STACK_SIZE) else Ok vm))"

definition execute_script :: "script_env \<Rightarrow> bytes \<Rightarrow> bool \<Rightarrow> script_engine \<Rightarrow> op_result" where
  "execute_script E script verify_only_push vm =
     obind (ofold (script_step E verify_only_push) (parse_script script) vm) (\<lambda>vm.
       if cond_stack vm \<noteq> [] then Err ErrUnbalancedConditional
       else Ok (vm\<lparr>astack := [], num_ops := 0\<rparr>))"

definition check_error_condition :: "bool \<Rightarrow> script_engine \<Rightarrow> op_result" where
  "check_error_condition final_script vm =
     (if final_script \<and> 1 < length (dstack vm) then Err (CleanStack (length (dstack vm) - 1))
      else if final_script \<and> dstack vm = [] then Err EmptyStack
      else pop_one bool_deserialize vm (\<lambda>v vm. if v then Ok vm else Err EvalFalse))"

definition is_pay_to_script_hash :: "bytes \<Rightarrow> bool" where
  "is_pay_to_script_hash spk \<longleftrightarrow>
     length spk = 35 \<and> spk ! 0 = OpBlake2b \<and> spk ! 1 = OpData32 \<and> spk ! 34 = OpEqual"

definition engine_new :: "sig_hash_reused_values \<Rightarrow> (sig_cache_key, bool) cache \<Rightarrow> script_engine" where
  "engine_new r cache = \<lparr>dstack = [], astack = [], script_source = StandAloneScripts [], reused_values = r, sig_cache = cache,
     cond_stack = [], num_ops = 0, sig_op_counter = counter_new (- 1)\<rparr>"

definition from_transaction_input ::
  "populated_transaction \<Rightarrow> transaction_input \<Rightarrow> nat \<Rightarrow> utxo_entry \<Rightarrow> sig_hash_reused_values \<Rightarrow> (sig_cache_key, bool) cache
     \<Rightarrow> ('e, script_engine) outcome" where
  "from_transaction_input tx input input_idx entry r cache =
     (let is_p2sh = is_pay_to_script_hash (spk_script (entry_spk entry)) in
      if \<not> input_idx < length (tx_inputs (ptx tx)) then Panic
      else Ok \<lparr>dstack = [], astack = [], script_source = TxInput tx input input_idx entry is_p2sh, reused_values = r,
        sig_cache = cache, cond_stack = [], num_ops = 0, sig_op_counter = counter_new (sig_op_count input)\<rparr>)"

definition from_script :: "bytes \<Rightarrow> sig_hash_reused_values \<Rightarrow> (sig_cache_key, bool) cache \<Rightarrow> script_engine" where
  "from_script script r cache = (engine_new r cache)\<lparr>script_source := StandAloneScripts [script]\<rparr>"

text \<open>The loop over the non-empty scripts, with their index and the stack saved before the second one.\<close>

definition run_script :: "script_env \<Rightarrow> bool \<Rightarrow> bool \<Rightarrow> nat \<times> bytes \<Rightarrow> script_engine \<times> stack option \<Rightarrow> (script_engine \<times> stack option) script_result" where
  "run_script E is_tx_input is_p2sh = (\<lambda>(idx, s) (vm, saved_stack).
     let saved_stack = (if is_p2sh \<and> idx = 1 then Some (dstack vm) else saved_stack) in
     obind (execute_script E s (idx = 0 \<and> is_tx_input) vm) (\<lambda>vm. Ok (vm, saved_stack)))"

definition execute_scripts :: "script_env \<Rightarrow> bool \<Rightarrow> bytes list \<Rightarrow> bool \<Rightarrow> script_engine \<Rightarrow> op_result" where
  "execute_scripts E is_tx_input scripts is_p2sh vm =
     (if scripts = [] then Err NoScripts
      else if list_all (\<lambda>e. e = []) scripts then Err EvalFalse
      else case find (\<lambda>e. MAX_SCRIPTS_SIZE < length e) scripts of
          Some s \<Rightarrow> Err (ScriptSize (length s) MAX_SCRIPTS_SIZE)
        | None \<Rightarrow>
            obind (ofold (run_script E is_tx_input is_p2sh) (filter (\<lambda>(_, s). s \<noteq> []) (enumerate 0 scripts)) (vm, None)) (\<lambda>(vm, saved_stack).
            obind (if is_p2sh then
                obind (check_error_condition False vm) (\<lambda>vm.
                obind (ok_or saved_stack EmptyStack) (\<lambda>stk.
                if stk = [] then Err EmptyStack
                else execute_script E (last stk) False (vm\<lparr>dstack := butlast stk\<rparr>)))
              else Ok vm) (check_error_condition True)))"

definition execute :: "script_env \<Rightarrow> script_engine \<Rightarrow> op_result" where
  "execute E vm = (case script_source vm of
     TxInput tx input _ entry is_p2sh \<Rightarrow>
       if ENGINE_MAX_SCRIPT_PUBLIC_KEY_VERSION < spk_version (entry_spk entry) then Ok vm
       else execute_scripts E True [signature_script input, spk_script (entry_spk entry)] is_p2sh vm
   | StandAloneScripts scripts \<Rightarrow> execute_scripts E False scripts False vm)"

definition used_sig_ops :: "script_engine \<Rightarrow> ('e, u8) outcome" where
  "used_sig_ops vm = counter_used_sig_ops (sig_op_counter vm)"

definition get_sig_op_count :: "script_env \<Rightarrow> populated_transaction \<Rightarrow> nat \<Rightarrow> u8 script_result" where
  "get_sig_op_count E tx input_idx =
     obind (vec_index (tx_inputs (ptx tx)) input_idx) (\<lambda>input.
     obind (ok_or (if input_idx < length (ptx_entries tx) then Some (ptx_entries tx ! input_idx) else None)
       (InvalidInputIndex (int input_idx) (length (tx_inputs (ptx tx))))) (\<lambda>entry.
     obind (from_transaction_input tx input input_idx entry reused_values_new (cache_new 0)) (\<lambda>vm.
     obind (execute E vm) used_sig_ops)))"

section \<open>Static signature operation counting\<close>

definition to_small_int :: "opcode \<Rightarrow> ('e, u8) outcome" where
  "to_small_int op =
     (if op_value op = OpFalse then Ok 0
      else if OpTrue \<le> op_value op \<and> op_value op < Op16 then Ok (op_value op - (OpTrue - 1)) else Panic)"

fun sig_op_count_loop :: "opcode script_result option \<Rightarrow> opcode script_result list \<Rightarrow> nat \<Rightarrow> ('e, nat) outcome" where
  "sig_op_count_loop prev [] num_sigs = Ok num_sigs"
| "sig_op_count_loop prev (Ok op # ops) num_sigs =
     (if op_value op \<in> {OpCheckSig, OpCheckSigVerify, OpReservedAb} then sig_op_count_loop (Some (Ok op)) ops (num_sigs + 1)
      else if op_value op \<in> {OpCheckMultiSig, OpCheckMultiSigVerify, OpReservedA9} then
        (case prev of
           None \<Rightarrow> sig_op_count_loop (Some (Ok op)) ops (num_sigs + MAX_PUB_KEYS_PER_MUTLTISIG)
         | Some (Ok prev_opcode) \<Rightarrow>
             if OpTrue \<le> op_value prev_opcode \<and> op_value prev_opcode \<le> Op16
             then obind (to_small_int prev_opcode) (\<lambda>k. sig_op_count_loop (Some (Ok op)) ops (num_sigs + unat k))
             else sig_op_count_loop (Some (Ok op)) ops (num_sigs + MAX_PUB_KEYS_PER_MUTLTISIG)
         | _ \<Rightarrow> Panic)
      else sig_op_count_loop (Some (Ok op)) ops num_sigs)"
| "sig_op_count_loop prev (_ # ops) num_sigs = Ok num_sigs"

definition get_sig_op_count_by_opcodes :: "opcode script_result list \<Rightarrow> ('e, nat) outcome" where
  "get_sig_op_count_by_opcodes opcodes = sig_op_count_loop None opcodes 0"

definition get_sig_op_count_upper_bound :: "bytes \<Rightarrow> script_public_key \<Rightarrow> ('e, nat) outcome" where
  "get_sig_op_count_upper_bound sig_script prev_spk =
     (let is_p2sh = is_pay_to_script_hash (spk_script prev_spk); script_pub_key_ops = parse_script (spk_script prev_spk) in
      if \<not> is_p2sh then get_sig_op_count_by_opcodes script_pub_key_ops
      else let signature_script_ops = parse_script sig_script in
        if signature_script_ops = [] \<or> list_ex (\<lambda>op. case op of Ok o' \<Rightarrow> \<not> is_push_opcode o' | _ \<Rightarrow> True) signature_script_ops then Ok 0
        else case last signature_script_ops of
            Ok p2sh \<Rightarrow> get_sig_op_count_by_opcodes (parse_script (get_data p2sh))
          | _ \<Rightarrow> Panic)"

definition is_unspendable :: "bytes \<Rightarrow> bool" where
  "is_unspendable script = list_ex (\<lambda>(index, op). case op of Ok o' \<Rightarrow> index = 0 \<and> op_value o' = OpReturn | _ \<Rightarrow> True)
     (enumerate (0 :: nat) (parse_script script))"

end
