(* ===== verification/Script_Builder.thy ===== *)
theory Script_Builder
  imports Script_Exec
begin

text \<open>
  The script builder (src/crypto/txscript/src/script_builder.rs), the script classes (script_class.rs) and the standard
  scripts (standard.rs). A builder is the script built so far; a method returns the longer script or an error.
\<close>

section \<open>Builder\<close>

datatype script_builder_error =
    OpCodeRejected u8 | OpCodesRejected nat | DataRejected nat | ElementExceedsMaxSize nat | IntegerRejected int
  | BuilderSerialization serialization_error

type_synonym 'a builder_result = "(script_builder_error, 'a) outcome"

definition add_op :: "u8 \<Rightarrow> bytes \<Rightarrow> bytes builder_result" where
  "add_op opcode script = (if MAX_SCRIPTS_SIZE \<le> length script then Err (OpCodeRejected opcode) else Ok (script @ [opcode]))"

definition add_ops :: "bytes \<Rightarrow> bytes \<Rightarrow> bytes builder_result" where
  "add_ops opcodes script =
     (if MAX_SCRIPTS_SIZE < length script + length opcodes then Err (OpCodesRejected (length opcodes)) else Ok (script @ opcodes))"

definition canonical_data_size :: "bytes \<Rightarrow> nat" where
  "canonical_data_size data =
     (let data_len = length data in
      if data_len = 0 \<or> data_len = 1 \<and> (data ! 0 \<le> OP_SMALL_INT_MAX_VAL \<or> data ! 0 = OP_1_NEGATE_VAL) then 1
      else data_len + (if data_len \<le> unat OP_DATA_MAX_VAL then 1 else if data_len \<le> 255 then 2 else if data_len \<le> 65535 then 3 else 5))"

definition add_raw_data :: "bytes \<Rightarrow> bytes \<Rightarrow> bytes" where
  "add_raw_data data script =
     (let data_len = length data in
      if data_len = 0 then script @ [OpFalse]
      else if data_len = 1 \<and> data ! 0 \<ge> OP_SMALL_INT_MIN_VAL \<and> data ! 0 \<le> OP_SMALL_INT_MAX_VAL then script @ [(OpTrue - 1) + data ! 0]
      else if data_len = 1 \<and> data ! 0 = OP_1_NEGATE_VAL then script @ [Op1Negate]
      else if data_len \<le> unat OP_DATA_MAX_VAL then script @ [(OP_DATA_MIN_VAL - 1) + of_nat data_len] @ data
      else if data_len \<le> 255 then script @ [OpPushData1, of_nat data_len] @ data
      else if data_len \<le> 65535 then script @ OpPushData2 # to_le_bytes 2 (of_nat data_len :: u16) @ data
      else script @ OpPushData4 # to_le_bytes 4 (of_nat data_len :: u32) @ data)"

definition add_data :: "bytes \<Rightarrow> bytes \<Rightarrow> bytes builder_result" where
  "add_data data script =
     (let data_size = canonical_data_size data in
      if MAX_SCRIPTS_SIZE < length script + data_size then Err (DataRejected data_size)
      else if MAX_SCRIPT_ELEMENT_SIZE < length data then Err (ElementExceedsMaxSize (length data))
      else Ok (add_raw_data data script))"

definition add_i64 :: "int \<Rightarrow> bytes \<Rightarrow> bytes builder_result" where
  "add_i64 val script =
     (if MAX_SCRIPTS_SIZE < length script + 1 then Err (IntegerRejected val)
      else if val = 0 then Ok (script @ [OpFalse])
      else if val = - 1 \<or> 1 \<le> val \<and> val \<le> 16 then Ok (script @ [of_int (uint OpTrue - 1 + val)])
      else obind (map_err BuilderSerialization (i64_serialize val)) (\<lambda>bytes. add_data bytes script))"

definition add_i64_min :: "bytes \<Rightarrow> bytes builder_result" where
  "add_i64_min script = (case sized_serialize 9 I64_MIN of Ok bytes \<Rightarrow> add_data bytes script | _ \<Rightarrow> Panic)"

definition add_u64 :: "u64 \<Rightarrow> bytes \<Rightarrow> bytes builder_result" where
  "add_u64 val script =
     (let buffer = to_le_bytes 8 val; trimmed = rev (dropWhile (\<lambda>x. x = 0) (rev buffer)) in add_data trimmed script)"

definition add_lock_time :: "u64 \<Rightarrow> bytes \<Rightarrow> bytes builder_result" where
  "add_lock_time = add_u64"

definition add_sequence :: "u64 \<Rightarrow> bytes \<Rightarrow> bytes builder_result" where
  "add_sequence = add_u64"

section \<open>Standard scripts\<close>

datatype script_class = NonStandard | ScriptHash

definition class_from_script :: "script_public_key \<Rightarrow> script_class" where
  "class_from_script spk =
     (if spk_version spk = ENGINE_MAX_SCRIPT_PUBLIC_KEY_VERSION
      then if is_pay_to_script_hash (spk_script spk) then ScriptHash else NonStandard
      else NonStandard)"

primrec class_version :: "script_class \<Rightarrow> u16" where
  "class_version NonStandard = 0"
| "class_version ScriptHash = ENGINE_MAX_SCRIPT_PUBLIC_KEY_VERSION"

definition pay_to_script_hash :: "bytes \<Rightarrow> ('e, bytes) outcome" where
  "pay_to_script_hash script_hash =
     (if length script_hash \<noteq> 32 then Panic else Ok ([OpBlake2b, OpData32] @ script_hash @ [OpEqual]))"

definition dilithium_redeem_script :: "bytes \<Rightarrow> bytes" where
  "dilithium_redeem_script verification_key =
     (let len = of_nat (length verification_key) :: u16 in
      [0x4d, ucast len, ucast (drop_bit 8 len)] @ verification_key @ [OpCheckSigDilithium])"

definition pay_to_script_hash_script :: "(bytes \<Rightarrow> bytes) \<Rightarrow> bytes \<Rightarrow> ('e, script_public_key) outcome" where
  "pay_to_script_hash_script blake2b redeem_script =
     obind (pay_to_script_hash (blake2b redeem_script)) (\<lambda>script.
       Ok \<lparr>spk_version = class_version ScriptHash, spk_script = script\<rparr>)"

definition pay_to_script_hash_signature_script :: "bytes \<Rightarrow> bytes \<Rightarrow> bytes builder_result" where
  "pay_to_script_hash_signature_script redeem_script signature =
     obind (add_data redeem_script []) (\<lambda>redeem_script_as_data. Ok (signature @ redeem_script_as_data))"

end
