(* ===== verification/Script_Safety.thy ===== *)
theory Script_Safety
  imports Script_Builder
begin

text \<open>
  Safety of the script engine: no script makes it panic, no opcode changes the source of the script or gives back
  signature operations, and the stack and operation limits hold after every step. The proofs go through
  \<open>safely\<close>, the predicate transformer of a computation that may fail with an error but may not panic.
\<close>

section \<open>Numbers\<close>

lemma serialize_i64_neq_Panic: "serialize_i64 n \<noteq> Panic"
proof (cases "n < 0")
  case True
  then have "0 < nat \<bar>n\<bar>" by simp
  then show ?thesis using number_bytes_canonical [of "nat \<bar>n\<bar>" False] by (auto simp: serialize_i64_def Let_def)
qed (simp add: serialize_i64_def)

lemma i64_serialize_neq_Panic: "i64_serialize n \<noteq> Panic"
  using serialize_i64_neq_Panic by (auto simp: i64_serialize_def sized_serialize_def outcome_simps)

lemma deserialize_i64_neq_Panic: "deserialize_i64 v \<noteq> Panic"
  by (simp add: deserialize_i64_def check_minimal_data_encoding_def Let_def)

lemma i64_deserialize_neq_Panic: "i64_deserialize v \<noteq> Panic"
  by (simp add: i64_deserialize_def sized_deserialize_def deserialize_i64_neq_Panic)

lemma bool_deserialize_neq_Panic: "bool_deserialize v \<noteq> Panic"
  by (simp add: bool_deserialize_def)

lemma i32_deserialize_neq_Panic: "i32_deserialize v \<noteq> Panic"
proof (cases "sized_deserialize 4 v")
  case (Ok n)
  then have l: "length v \<le> 4" and d: "deserialize_i64 v = Ok n" by (auto simp: sized_deserialize_def split: if_splits)
  have "\<bar>n\<bar> < 2 ^ 31"
  proof (cases "v = []")
    case False
    from deserialize_i64_range [OF d False] obtain bs m k where v: "v = bs @ [m]" and "canonical bs k"
      and n: "n = int (le_val (bs @ [k])) * (if 128 \<le> unat (m :: u8) then - 1 else 1)" by metis
    have "le_val (bs @ [k]) < 256 ^ length bs * (unat k + 1)" using le_val_bound [of bs] by simp
    also have "\<dots> \<le> 256 ^ 3 * 128" using l v \<open>canonical bs k\<close> by (intro mult_le_mono power_increasing) (auto simp: canonical_def)
    also have "256 ^ 3 * 128 = (2 ^ 31 :: nat)" by simp
    finally have "int (le_val (bs @ [k])) < 2 ^ 31" by (simp only: of_nat_less_numeral_power_cancel_iff)
    moreover have "\<bar>n\<bar> = int (le_val (bs @ [k]))" using n by (simp add: abs_mult del: le_val_append)
    ultimately show ?thesis by (simp only:)
  qed (use d in \<open>simp add: deserialize_i64_def\<close>)
  then show ?thesis using Ok by (auto simp: i32_deserialize_def)
qed (use deserialize_i64_neq_Panic in \<open>auto simp: i32_deserialize_def sized_deserialize_def split: if_splits\<close>)

lemmas no_panic_rules = i64_serialize_neq_Panic i64_deserialize_neq_Panic bool_deserialize_neq_Panic i32_deserialize_neq_Panic

section \<open>Opcodes\<close>

text \<open>What an opcode keeps: the source of the script, and the signature operations it may still use.\<close>

definition engine_wf :: "script_engine \<Rightarrow> bool" where
  "engine_wf vm \<longleftrightarrow> (case script_source vm of
     TxInput tx _ idx _ _ \<Rightarrow> idx < length (tx_inputs (ptx tx)) \<and> populated_wf tx | StandAloneScripts _ \<Rightarrow> True)"

definition keeps :: "script_engine \<Rightarrow> script_engine \<Rightarrow> bool" where
  "keeps vm vm' \<longleftrightarrow> script_source vm' = script_source vm \<and>
     sig_op_limit (sig_op_counter vm') = sig_op_limit (sig_op_counter vm) \<and>
     sig_op_remaining (sig_op_counter vm') \<le> sig_op_remaining (sig_op_counter vm)"

lemma keeps_refl [simp]: "keeps vm vm"
  by (simp add: keeps_def)

lemma keeps_trans: "keeps a b \<Longrightarrow> keeps b c \<Longrightarrow> keeps a c"
  by (auto simp: keeps_def)

lemma keeps_updates [simp]:
  "keeps vm (vm'\<lparr>dstack := s\<rparr>) = keeps vm vm'" "keeps vm (vm'\<lparr>astack := s\<rparr>) = keeps vm vm'"
  "keeps vm (vm'\<lparr>cond_stack := c\<rparr>) = keeps vm vm'" "keeps vm (vm'\<lparr>num_ops := n\<rparr>) = keeps vm vm'"
  "keeps vm (vm'\<lparr>reused_values := r\<rparr>) = keeps vm vm'" "keeps vm (vm'\<lparr>sig_cache := sc\<rparr>) = keeps vm vm'"
  by (simp_all add: keeps_def)

lemma keeps_wf: "keeps vm vm' \<Longrightarrow> engine_wf vm \<Longrightarrow> engine_wf vm'"
  by (simp add: keeps_def engine_wf_def)

lemma engine_wf_updates [simp]: "engine_wf (vm\<lparr>dstack := s\<rparr>) = engine_wf vm" "engine_wf (vm\<lparr>num_ops := n\<rparr>) = engine_wf vm"
  by (simp_all add: engine_wf_def)

definition op_safe :: "(script_env \<Rightarrow> script_engine \<Rightarrow> op_result) \<Rightarrow> bool" where
  "op_safe f \<longleftrightarrow> (\<forall>E vm. engine_wf vm \<longrightarrow> safely (keeps vm) (f E vm))"

lemma safely_pop_items:
  assumes "\<And>v. des v \<noteq> Panic"
  shows "safely (\<lambda>(items, s). length items = n) (pop_items des n st)"
proof (cases "length st < n")
  case False
  then have "length (drop (length st - n) st) = n" by simp
  then show ?thesis using safely_omap [OF assms, of "drop (length st - n) st"] False
    by (auto simp: pop_items_def safely_obind intro: safely_mono)
qed (simp add: pop_items_def)

lemma safely_pop_one:
  assumes "\<And>v. des v \<noteq> Panic" and "\<And>x s. safely Q (f x (vm\<lparr>dstack := s\<rparr>))"
  shows "safely Q (pop_one des vm f)"
  using safely_pop_items [where des = des and n = 1 and st = "dstack vm", OF assms(1)] assms(2)
  by (auto simp: pop_one_def safely_obind length_Suc_conv elim!: safely_mono split: list.splits)

lemma safely_pop_two:
  assumes "\<And>v. des v \<noteq> Panic" and "\<And>x y s. safely Q (f x y (vm\<lparr>dstack := s\<rparr>))"
  shows "safely Q (pop_two des vm f)"
  using safely_pop_items [where des = des and n = 2 and st = "dstack vm", OF assms(1)] assms(2)
  by (auto simp: pop_two_def safely_obind length_Suc_conv numeral_2_eq_2 elim!: safely_mono split: list.splits)

lemma safely_pop_three:
  assumes "\<And>v. des v \<noteq> Panic" and "\<And>x y z s. safely Q (f x y z (vm\<lparr>dstack := s\<rparr>))"
  shows "safely Q (pop_three des vm f)"
  using safely_pop_items [where des = des and n = 3 and st = "dstack vm", OF assms(1)] assms(2)
  by (auto simp: pop_three_def safely_obind length_Suc_conv numeral_3_eq_3 elim!: safely_mono split: list.splits)

lemma drop_last_one: "s \<noteq> [] \<Longrightarrow> drop (length s - Suc 0) s = [last s]"
  by (cases s rule: rev_cases) simp_all

lemma safely_pop_raw: "safely (\<lambda>(items, s). length items = n) (pop_raw n st)"
  by (simp add: pop_raw_def)

lemma safely_pop_one_raw:
  assumes "\<And>x s. safely Q (f x (vm\<lparr>dstack := s\<rparr>))"
  shows "safely Q (pop_one_raw vm f)"
  using safely_pop_raw [of 1 "dstack vm"] assms
  by (auto simp: pop_one_raw_def safely_obind length_Suc_conv elim!: safely_mono split: list.splits)

lemma safely_pop_two_raw:
  assumes "\<And>x y s. safely Q (f x y (vm\<lparr>dstack := s\<rparr>))"
  shows "safely Q (pop_two_raw vm f)"
  using safely_pop_raw [of 2 "dstack vm"] assms
  by (auto simp: pop_two_raw_def safely_obind length_Suc_conv numeral_2_eq_2 elim!: safely_mono split: list.splits)

lemma safely_push_item: "i \<noteq> Panic \<Longrightarrow> (\<And>s'. Q s') \<Longrightarrow> safely Q (push_item i s)"
  by (cases i) (simp_all add: push_item_def)

lemma safely_push_number [simp]: "safely (keeps vm) (push_number n vm') \<longleftrightarrow> keeps vm vm' \<or> (\<forall>v. i64_serialize n \<noteq> Ok v)"
  using i64_serialize_neq_Panic [of n]
  by (cases "i64_serialize n") (simp_all add: push_number_def on_dstack_def push_item_def)

lemma safely_push_data [simp]: "safely (keeps vm) (push_data d vm') \<longleftrightarrow> keeps vm vm'"
  by (simp add: push_data_def)

named_theorems op_safe_rules "opcodes that are safe"

lemma op_safe_on_dstack: "(\<And>s. f s \<noteq> Panic) \<Longrightarrow> op_safe (\<lambda>E. on_dstack f)"
  by (simp add: op_safe_def on_dstack_def safely_obind safely_True)

lemma stack_items_safe [op_safe_rules]:
  "op_safe (\<lambda>E. on_dstack (drop_items n))" "op_safe (\<lambda>E. on_dstack (dup_items n))" "op_safe (\<lambda>E. on_dstack (over_items n))"
  "op_safe (\<lambda>E. on_dstack (rot_items n))" "op_safe (\<lambda>E. on_dstack (swap_items n))"
  by (simp_all add: op_safe_on_dstack drop_items_def dup_items_def over_items_def rot_items_def swap_items_def)

lemma constant_ops_safe [op_safe_rules]:
  "op_safe (op_reserved c)" "op_safe (op_disabled c)" "op_safe (op_invalid c)" "op_safe op_nop" "op_safe op_return"
  "op_safe op_check_multisig_disabled" "op_safe op_check_multisig_verify"
  by (simp_all add: op_safe_def op_reserved_def op_disabled_def op_invalid_def op_nop_def op_return_def
      op_check_multisig_disabled_def op_check_multisig_verify_def)

lemma control_safe [op_safe_rules]:
  "op_safe op_if" "op_safe op_not_if" "op_safe op_else" "op_safe op_end_if" "op_safe op_verify"
  by (auto simp: op_safe_def op_if_def op_not_if_def op_else_def op_end_if_def op_verify_def Let_def safely_if
      no_panic_rules split: list.splits intro!: safely_pop_one)

lemma stack_safe [op_safe_rules]:
  "op_safe op_to_alt_stack" "op_safe op_from_alt_stack" "op_safe op_if_dup" "op_safe op_depth" "op_safe op_nip" "op_safe op_tuck"
  by (auto simp: op_safe_def op_to_alt_stack_def op_from_alt_stack_def op_if_dup_def op_depth_def op_nip_def op_tuck_def
      peek_raw_def drop_last_one safely_obind bool_deserialize_def vec_remove_def Let_def intro!: safely_pop_one_raw)

lemma pick_roll_safe [op_safe_rules]: "op_safe op_pick" "op_safe op_roll"
  by (auto simp: op_safe_def op_pick_def op_roll_def safely_obind safely_if vec_index_def vec_remove_def no_panic_rules
      intro!: safely_pop_one)

lemma splice_safe [op_safe_rules]: "op_safe op_size" "op_safe op_equal" "op_safe op_equal_verify"
  by (simp_all add: op_safe_def op_size_def op_equal_def op_equal_verify_def Let_def safely_if)

lemma op_unary_safe: "(\<And>x. f x \<noteq> Panic) \<Longrightarrow> op_safe (op_unary f)"
  by (auto simp: op_safe_def op_unary_def safely_obind no_panic_rules safely_True intro!: safely_pop_one)

lemma op_binary_safe: "(\<And>a b. f a b \<noteq> Panic) \<Longrightarrow> op_safe (op_binary f)"
  by (auto simp: op_safe_def op_binary_def safely_obind no_panic_rules safely_True intro!: safely_pop_two)

lemma i64_checked_neq_Panic [simp]: "i64_checked n \<noteq> Panic"
  by (simp add: i64_checked_def)

lemma numeric_safe [op_safe_rules]:
  "op_safe op_1add" "op_safe op_1sub" "op_safe op_negate" "op_safe op_abs" "op_safe op_not" "op_safe op_0not_equal" "op_safe op_add"
  "op_safe op_sub" "op_safe op_bool_and" "op_safe op_bool_or" "op_safe op_num_equal" "op_safe op_num_not_equal" "op_safe op_less_than"
  "op_safe op_greater_than" "op_safe op_less_than_or_equal" "op_safe op_greater_than_or_equal" "op_safe op_min" "op_safe op_max"
  by (simp_all add: op_1add_def op_1sub_def op_negate_def op_abs_def op_not_def op_0not_equal_def op_add_def op_sub_def
      op_bool_and_def op_bool_or_def op_num_equal_def op_num_not_equal_def op_less_than_def op_greater_than_def
      op_less_than_or_equal_def op_greater_than_or_equal_def op_min_def op_max_def op_unary_safe op_binary_safe)

lemma verify_within_safe [op_safe_rules]: "op_safe op_num_equal_verify" "op_safe op_within"
  by (auto simp: op_safe_def op_num_equal_verify_def op_within_def safely_if no_panic_rules intro!: safely_pop_two safely_pop_three)

lemma hash_safe [op_safe_rules]: "op_safe op_sha256" "op_safe op_blake2b"
  by (auto simp: op_safe_def op_sha256_def op_blake2b_def intro!: safely_pop_one_raw)

lemma locktime_safe [op_safe_rules]: "op_safe op_check_lock_time_verify" "op_safe op_check_sequence_verify"
  by (auto simp: op_safe_def op_check_lock_time_verify_def op_check_sequence_verify_def Let_def safely_if
      intro!: safely_pop_one_raw split: script_source.splits)

lemma safely_push_amount: "keeps vm vm' \<Longrightarrow> safely (keeps vm) (push_amount v vm')"
  by (simp add: push_amount_def safely_if)

lemma introspection_safe [op_safe_rules]:
  "op_safe op_tx_input_count" "op_safe op_tx_output_count" "op_safe op_tx_input_index" "op_safe op_tx_input_amount"
  "op_safe op_tx_input_spk" "op_safe op_tx_output_amount" "op_safe op_tx_output_spk"
  by (auto simp: op_safe_def op_tx_input_count_def op_tx_output_count_def op_tx_input_index_def op_tx_input_amount_def
      op_tx_input_spk_def op_tx_output_amount_def op_tx_output_spk_def safely_obind safely_ok_or no_panic_rules
      intro!: safely_pop_one safely_push_amount split: script_source.splits)

text \<open>A signature check uses one signature operation.\<close>

lemma consume_sig_op_Ok: "consume_sig_op c = Ok c' \<Longrightarrow> sig_op_limit c' = sig_op_limit c \<and> unat (sig_op_remaining c) = unat (sig_op_remaining c') + 1"
  by (auto simp: consume_sig_op_def outcome_simps unat_rules)

lemma consume_sig_op_neq_Panic: "consume_sig_op c \<noteq> Panic"
  by (auto simp: consume_sig_op_def outcome_simps)

lemma check_dilithium_safe:
  assumes "engine_wf vm"
  shows "safely (\<lambda>(valid, vm'). keeps vm vm') (check_dilithium_signature E vm t key sig)"
proof (cases "consume_sig_op (sig_op_counter vm)")
  case (Ok c)
  note c = consume_sig_op_Ok [OF this]
  then have k: "keeps vm (vm\<lparr>sig_op_counter := c\<rparr>)" by (simp add: keeps_def word_le_nat_alt)
  show ?thesis
  proof (cases "script_source vm")
    case (TxInput tx i idx e p)
    define cont where "cont = (\<lambda>(sig_hash, r). let vm = vm\<lparr>sig_op_counter := c, reused_values := r\<rparr>; message = as_bytes sig_hash;
          cache_key = \<lparr>key_signature = take 32 sig, key_pub_key = take 32 key, key_message = message\<rparr>
        in case cache_get (sig_cache vm) cache_key of Some cached \<Rightarrow> Ok (cached, vm)
          | None \<Rightarrow> let valid = ml_dsa_44_verify E key message [] sig
              in (Ok (valid, vm\<lparr>sig_cache := cache_insert (random_index E) cache_key valid (sig_cache vm)\<rparr>) :: (tx_script_error, _) outcome))"
    have "safely (\<lambda>_. True) (calc_signature_hash (TransactionSigningHash E) tx idx t (reused_values vm) :: (tx_script_error, _) outcome)"
      using assms TxInput by (auto simp: engine_wf_def populated_wf_def calc_signature_hash_def populated_input_def Let_def case_prod_beta)
    then have "safely (\<lambda>x. safely (\<lambda>(valid, vm'). keeps vm vm') (cont x))
        (calc_signature_hash (TransactionSigningHash E) tx idx t (reused_values vm) :: (tx_script_error, _) outcome)"
      by (rule safely_mono) (auto simp: cont_def Let_def k split: option.split prod.split)
    then show ?thesis using Ok TxInput by (simp add: check_dilithium_signature_def Let_def safely_obind safely_if cont_def cong: option.case_cong)
  qed (use Ok in \<open>simp add: check_dilithium_signature_def\<close>)
qed (use consume_sig_op_neq_Panic in \<open>simp_all add: check_dilithium_signature_def\<close>)

lemma dilithium_safe [op_safe_rules]: "op_safe op_check_sig_dilithium"
proof (unfold op_safe_def, intro allI impI)
  fix E vm assume wf: "engine_wf vm"
  show "safely (keeps vm) (op_check_sig_dilithium E vm)"
    unfolding op_check_sig_dilithium_def
  proof (rule safely_pop_two_raw)
    fix sig key s
    have "safely (\<lambda>x. safely (keeps vm) (case x of (valid, vm) \<Rightarrow> push_data (bool_serialize valid) vm))
        (check_dilithium_signature E (vm\<lparr>dstack := s\<rparr>) t key sg)" for t sg
      by (rule safely_mono [OF check_dilithium_safe]) (auto simp: wf keeps_def)
    then show "safely (keeps vm) (if sig = [] then push_data (bool_serialize False) (vm\<lparr>dstack := s\<rparr>)
        else let typ = last sig; sig = butlast sig in obind (ok_or (sig_hash_type_from_u8 typ) (InvalidSigHashType typ)) (\<lambda>hash_type.
          obind (check_dilithium_signature E (vm\<lparr>dstack := s\<rparr>) hash_type key sig) (\<lambda>(valid, vm). push_data (bool_serialize valid) vm)))"
      by (simp add: Let_def safely_if safely_obind safely_ok_or)
  qed
qed

lemma opcode_table_safe: "(c, f) \<in> set opcode_table \<Longrightarrow> op_safe f"
  by (auto simp: opcode_table_def control_ops_def stack_ops_def splice_ops_def numeric_ops_def crypto_ops_def introspection_ops_def
      op_safe_rules)

lemma execute_op_safe: "engine_wf vm \<Longrightarrow> safely (keeps vm) (execute_op E op vm)"
proof (cases "map_of opcode_table (op_value op)")
  case (Some f)
  assume "engine_wf vm"
  moreover have "op_safe f" using Some opcode_table_safe by (metis map_of_SomeD)
  ultimately show ?thesis using Some by (simp add: execute_op_def execute_push_def Let_def safely_if op_safe_def)
qed (simp add: execute_op_def execute_push_def Let_def safely_if)

lemma check_minimal_data_push_neq_Panic: "check_minimal_data_push op \<noteq> Panic"
  by (simp add: check_minimal_data_push_def Let_def)

lemma execute_opcode_safe:
  assumes "engine_wf vm"
  shows "safely (keeps vm) (execute_opcode E op vm)"
proof -
  have "safely (keeps vm) (execute_op E op (vm\<lparr>num_ops := n\<rparr>))" for n
    using execute_op_safe [of "vm\<lparr>num_ops := n\<rparr>" E op] assms by (auto elim!: safely_mono simp: keeps_def)
  from this [of "num_ops vm + 1"] this [of "num_ops vm"] show ?thesis
    using check_minimal_data_push_neq_Panic [of op]
    by (auto simp: execute_opcode_def Let_def safely_obind safely_if safely_then_do safely_True)
qed

section \<open>Limits\<close>

text \<open>Opcodes do not count operations; only the engine does.\<close>

definition within_limits :: "script_engine \<Rightarrow> bool" where
  "within_limits vm \<longleftrightarrow> length (astack vm) + length (dstack vm) \<le> MAX_STACK_SIZE"

lemma script_step_safe:
  assumes "engine_wf vm" and "keeps v0 vm" and "p \<noteq> Panic"
  shows "safely (\<lambda>vm'. keeps v0 vm' \<and> within_limits vm') (script_step E b p vm)"
proof (cases p)
  case (Ok op)
  have "safely (keeps vm) (execute_opcode E op vm)" by (rule execute_opcode_safe [OF assms(1)])
  then have "safely (\<lambda>vm'. safely (\<lambda>vm'. keeps v0 vm' \<and> within_limits vm')
      (let combined_size = length (astack vm') + length (dstack vm') in
       if MAX_STACK_SIZE < combined_size then Err (StackSizeExceeded combined_size MAX_STACK_SIZE) else Ok vm')) (execute_opcode E op vm)"
    by (rule safely_mono) (auto simp: Let_def within_limits_def intro: keeps_trans [OF assms(2)])
  then show ?thesis using Ok by (simp add: script_step_def safely_if safely_obind)
qed (use assms(3) in \<open>simp_all add: script_step_def\<close>)

lemma parse_script_neq_Panic: "p \<in> set (parse_script s) \<Longrightarrow> p \<noteq> Panic"
proof (induction s rule: parse_script.induct)
  case (1 s)
  have "deserialize_next_opcode s = Some (r, rest) \<Longrightarrow> r \<noteq> Panic" for r rest
    by (auto simp: deserialize_next_opcode_def opcode_deserialize_def opcode_new_def Let_def split: list.splits length_spec.splits if_splits)
  note np = this
  show ?case
  proof (cases "deserialize_next_opcode s")
    case (Some a)
    then obtain r rest where d: "deserialize_next_opcode s = Some (r, rest)" by (cases a) auto
    then show ?thesis using 1(2) 1(1) [OF d refl] np [OF d] by (auto simp: parse_script.simps [of s])
  qed (use 1(2) in \<open>simp add: parse_script.simps\<close>)
qed

lemma execute_script_safe:
  assumes "engine_wf vm" and "within_limits vm"
  shows "safely (\<lambda>vm'. keeps vm vm' \<and> within_limits vm' \<and> astack vm' = [] \<and> cond_stack vm' = [] \<and> num_ops vm' = 0) (execute_script E s b vm)"
proof -
  have "safely (\<lambda>vm'. keeps vm vm' \<and> within_limits vm') (ofold (script_step E b) (parse_script s) vm)"
  proof (rule safely_ofold)
    show "keeps vm vm \<and> within_limits vm" using assms by simp
  next
    fix p vm' assume "p \<in> set (parse_script s)" "keeps vm vm' \<and> within_limits vm'"
    then show "safely (\<lambda>vm'. keeps vm vm' \<and> within_limits vm') (script_step E b p vm')"
      using keeps_wf assms(1) parse_script_neq_Panic by (blast intro: script_step_safe)
  qed
  then show ?thesis by (auto simp: execute_script_def safely_obind safely_if within_limits_def elim!: safely_mono)
qed

lemma check_error_condition_safe: "safely (\<lambda>vm'. \<exists>s. vm' = vm\<lparr>dstack := s\<rparr> \<and> length s < length (dstack vm)) (check_error_condition final vm)"
proof -
  have "safely (\<lambda>(items, s). length items = 1 \<and> length s < length (dstack vm)) (pop_items bool_deserialize 1 (dstack vm))"
    by (cases "dstack vm" rule: rev_cases) (auto simp: pop_items_def bool_deserialize_def safely_obind)
  then show ?thesis
    by (auto simp: check_error_condition_def pop_one_def safely_if safely_obind length_Suc_conv elim!: safely_mono split: list.splits)
qed

definition idle :: "script_engine \<Rightarrow> bool" where
  "idle vm \<longleftrightarrow> within_limits vm \<and> astack vm = [] \<and> cond_stack vm = [] \<and> num_ops vm = 0"

lemma run_script_safe:
  assumes "engine_wf vm" and "within_limits vm" and "\<forall>s. saved = Some s \<longrightarrow> length s \<le> MAX_STACK_SIZE"
  shows "safely (\<lambda>(vm', saved'). keeps vm vm' \<and> idle vm' \<and> (\<forall>s. saved' = Some s \<longrightarrow> length s \<le> MAX_STACK_SIZE)) (run_script E t p (idx, s) (vm, saved))"
  using execute_script_safe [OF assms(1,2)] assms(2,3)
  by (auto simp: run_script_def Let_def safely_obind idle_def within_limits_def elim!: safely_mono)

lemma idle_limits: "idle vm \<Longrightarrow> within_limits vm"
  by (simp add: idle_def)

definition runs_from :: "script_engine \<Rightarrow> script_engine \<times> stack option \<Rightarrow> bool" where
  "runs_from vm = (\<lambda>(vm', saved). keeps vm vm' \<and> idle vm' \<and> (\<forall>s. saved = Some s \<longrightarrow> length s \<le> MAX_STACK_SIZE))"

lemma run_scripts_safe:
  assumes "engine_wf vm" and "idle vm"
  shows "safely (runs_from vm) (ofold (run_script E t p) xs (vm, None))"
proof (rule safely_ofold)
  show "runs_from vm (vm, None)" using assms by (simp add: runs_from_def)
next
  fix x :: "nat \<times> bytes" and st assume "runs_from vm st"
  moreover obtain idx s vm1 saved where eq: "x = (idx, s)" "st = (vm1, saved)" by (cases x; cases st) auto
  ultimately have k: "keeps vm vm1" "engine_wf vm1" "within_limits vm1" "\<forall>s. saved = Some s \<longrightarrow> length s \<le> MAX_STACK_SIZE"
    using assms(1) keeps_wf by (auto simp: runs_from_def idle_def)
  show "safely (runs_from vm) (run_script E t p x st)"
    unfolding eq by (rule safely_mono [OF run_script_safe [OF k(2-4)]]) (auto simp: runs_from_def intro: keeps_trans [OF k(1)])
qed

lemma check_error_condition_keeps:
  "keeps v0 vm \<Longrightarrow> idle vm \<Longrightarrow> safely (\<lambda>vm'. keeps v0 vm' \<and> idle vm') (check_error_condition final vm)"
  by (rule safely_mono [OF check_error_condition_safe]) (auto simp: idle_def within_limits_def)

lemma execute_script_keeps:
  assumes "engine_wf v0" and "keeps v0 vm" and "within_limits vm"
  shows "safely (\<lambda>vm'. keeps v0 vm' \<and> idle vm') (execute_script E s b vm)"
  by (rule safely_mono [OF execute_script_safe [OF keeps_wf [OF assms(2,1)] assms(3)]])
    (auto simp: idle_def intro: keeps_trans [OF assms(2)])

text \<open>The redeem script of a pay-to-script-hash input, as \<open>execute\<close> runs it.\<close>

lemma redeem_safe:
  assumes wf: "engine_wf vm" and "runs_from vm (vm', saved)"
  shows "safely (\<lambda>vm'. keeps vm vm' \<and> idle vm') (obind (check_error_condition False vm') (\<lambda>vm.
      obind (ok_or saved EmptyStack) (\<lambda>stk. if stk = [] then Err EmptyStack
        else execute_script E (last stk) False (vm\<lparr>dstack := butlast stk\<rparr>))))"
proof -
  have k: "keeps vm vm'" "idle vm'" and sv: "\<And>s. saved = Some s \<Longrightarrow> length s \<le> MAX_STACK_SIZE"
    using assms(2) by (auto simp: runs_from_def)
  have run: "safely (\<lambda>vm'. keeps vm vm' \<and> idle vm') (execute_script E (last stk) False (v\<lparr>dstack := butlast stk\<rparr>))"
    if "keeps vm v \<and> idle v" and "saved = Some stk" for v stk
    using that sv [of stk] by (intro execute_script_keeps [OF wf]) (auto simp: idle_def within_limits_def)
  show ?thesis unfolding safely_obind
    by (rule safely_mono [OF check_error_condition_keeps [OF k]]) (use run in \<open>auto simp: safely_ok_or safely_if\<close>)
qed

lemma execute_scripts_safe:
  assumes wf: "engine_wf vm" and "idle vm"
  shows "safely (keeps vm) (execute_scripts E t scripts p vm)"
proof -
  have final: "safely (keeps vm) (obind m (check_error_condition True))"
    if "safely (\<lambda>vm'. keeps vm vm' \<and> idle vm') m" for m
    unfolding safely_obind by (rule safely_mono [OF that]) (auto intro: safely_mono [OF check_error_condition_keeps])
  define rest where "rest = (\<lambda>(vm', saved). obind (if p then obind (check_error_condition False vm') (\<lambda>vm.
      obind (ok_or saved EmptyStack) (\<lambda>stk. if stk = [] then Err EmptyStack
        else execute_script E (last stk) False (vm\<lparr>dstack := butlast stk\<rparr>))) else Ok vm') (check_error_condition True))"
  have "safely (\<lambda>x. safely (keeps vm) (rest x)) (ofold (run_script E t p) (filter (\<lambda>(_, s). s \<noteq> []) (enumerate 0 scripts)) (vm, None))"
    by (rule safely_mono [OF run_scripts_safe [OF assms]])
      (auto intro!: final final [of "Ok _", simplified] redeem_safe [OF wf] simp: runs_from_def rest_def)
  then have "safely (keeps vm) (obind (ofold (run_script E t p) (filter (\<lambda>(_, s). s \<noteq> []) (enumerate 0 scripts)) (vm, None)) rest)"
    by (simp only: safely_obind)
  then show ?thesis unfolding execute_scripts_def rest_def by (auto split: option.splits)
qed

lemma execute_safe:
  assumes "engine_wf vm" and "idle vm"
  shows "safely (keeps vm) (execute E vm)"
  using execute_scripts_safe [OF assms] by (auto simp: execute_def safely_if split: script_source.splits)

lemma from_transaction_input_idle:
  "from_transaction_input tx input i entry r c = Ok vm \<Longrightarrow> populated_wf tx \<Longrightarrow> engine_wf vm \<and> idle vm \<and>
    sig_op_counter vm = counter_new (sig_op_count input)"
  by (auto simp: from_transaction_input_def Let_def engine_wf_def idle_def within_limits_def split: if_splits)

lemma get_sig_op_count_safe:
  assumes "populated_wf tx" and "i < length (tx_inputs (ptx tx))"
  shows "safely (\<lambda>n. n \<le> sig_op_count (tx_inputs (ptx tx) ! i)) (get_sig_op_count E tx i)"
proof -
  define input where "input = tx_inputs (ptx tx) ! i"
  have "safely (\<lambda>vm. safely (\<lambda>n. n \<le> sig_op_count input) (obind (execute E vm) used_sig_ops))
      (from_transaction_input tx input i entry r c :: (tx_script_error, _) outcome)" for entry r c
  proof -
    have "safely (\<lambda>n. n \<le> sig_op_count input) (obind (execute E vm) used_sig_ops)"
      if "from_transaction_input tx input i entry r c = (Ok vm :: (tx_script_error, _) outcome)" for vm
    proof -
      note f = from_transaction_input_idle [OF that assms(1)]
      have "safely (\<lambda>n. n \<le> sig_op_count input) (used_sig_ops vm')" if "keeps vm vm'" for vm'
      proof -
        have "unat (sig_op_remaining (sig_op_counter vm')) \<le> unat (sig_op_limit (sig_op_counter vm'))" "sig_op_limit (sig_op_counter vm') = sig_op_count input"
          using that f by (auto simp: keeps_def counter_new_def word_le_nat_alt)
        then show ?thesis by (auto simp: used_sig_ops_def counter_used_sig_ops_def safely_def unat_rules word_le_nat_alt)
      qed
      then show ?thesis using execute_safe [of vm E] f by (auto simp: safely_obind elim!: safely_mono)
    qed
    moreover have "from_transaction_input tx input i entry r c \<noteq> (Panic :: (tx_script_error, _) outcome)"
      using assms(2) by (simp add: from_transaction_input_def Let_def)
    ultimately show ?thesis by (auto simp: safely_def)
  qed
  then show ?thesis using assms by (auto simp: get_sig_op_count_def vec_index_def safely_obind safely_ok_or input_def)
qed

end
