(* ===== verification/Script_Spend.thy ===== *)
theory Script_Spend
  imports Script_Safety
begin

text \<open>
  What built scripts do when they run: the opcode that the builder writes for some data pushes exactly that data and
  passes the minimality check, and the standard Dilithium pay-to-script-hash spend succeeds exactly when the signature
  verifies.
\<close>

section \<open>Data pushes\<close>

text \<open>The opcode that \<open>add_raw_data\<close> writes.\<close>

definition push_opcode :: "bytes \<Rightarrow> opcode" where
  "push_opcode data =
     (if data = [] then OpCode OpFalse []
      else if length data = 1 \<and> data ! 0 \<ge> 1 \<and> data ! 0 \<le> 16 then OpCode (0x50 + data ! 0) []
      else if length data = 1 \<and> data ! 0 = 0x81 then OpCode Op1Negate []
      else if length data \<le> 75 then OpCode (of_nat (length data)) data
      else if length data \<le> 255 then OpCode OpPushData1 data
      else if length data \<le> 65535 then OpCode OpPushData2 data
      else OpCode OpPushData4 data)"

lemma op_length_numeral [simp]:
  "op_length 0 = Fixed 1" "op_length 0x4f = Fixed 1" "op_length 0x4c = Prefix 1" "op_length 0x4d = Prefix 2" "op_length 0x4e = Prefix 4"
  "op_length 0xaa = Fixed 1" "op_length 0x87 = Fixed 1" "op_length 0xc4 = Fixed 1" "op_length 0x20 = Fixed 33"
  by (simp_all add: op_length_def)

lemma op_length_data: "0 < n \<Longrightarrow> n \<le> 75 \<Longrightarrow> op_length (of_nat n) = Fixed (n + 1)"
  by (simp add: op_length_def word_le_nat_alt unat_of_nat take_bit_nat_eq_self word_of_nat_eq_iff)

lemma op_length_small: "1 \<le> b \<Longrightarrow> b \<le> 16 \<Longrightarrow> op_length (0x50 + b) = Fixed 1"
proof -
  assume b: "1 \<le> b" "b \<le> 16"
  then have "unat (0x50 + b) = 0x50 + unat b" by (simp add: word_le_nat_alt unat_word_ariths)
  then show ?thesis using b by (auto simp: op_length_def word_le_nat_alt word_unat_eq_iff)
qed

lemma to_le_bytes_of_nat:
  assumes "8 * k \<le> LENGTH('a)" "8 * k \<le> LENGTH('b)"
  shows "to_le_bytes k (of_nat n :: 'a::len word) = to_le_bytes k (of_nat n :: 'b::len word)"
proof (rule nth_equalityI)
  fix j assume j: "j < length (to_le_bytes k (of_nat n :: 'a word))"
  show "to_le_bytes k (of_nat n :: 'a word) ! j = to_le_bytes k (of_nat n :: 'b word) ! j"
    by (rule bit_word_eqI) (use j assms in \<open>simp add: nth_to_le_bytes bit_ucast_iff bit_drop_bit_eq bit_of_nat_iff possible_bit_word\<close>)
qed simp

lemma to_le_bytes_one: "to_le_bytes 1 (of_nat n :: u8) = [of_nat n]"
  by (simp only: One_nat_def to_le_bytes.simps ucast_id)

lemma add_raw_data_opcode:
  assumes "length data < 2 ^ 32"
  shows "add_raw_data data script = script @ opcode_serialize (push_opcode data)"
proof -
  have p1: "to_le_bytes 1 (of_nat n :: u32) = [of_nat n]" for n
    using to_le_bytes_of_nat [of 1, where 'a = 32 and 'b = 8] by (simp add: to_le_bytes_one del: One_nat_def)
  have p2: "to_le_bytes 2 (of_nat n :: u32) = to_le_bytes 2 (of_nat n :: u16)" for n
    by (rule to_le_bytes_of_nat) simp_all
  show ?thesis
    by (auto simp: add_raw_data_def push_opcode_def opcode_serialize_def Let_def op_vals op_length_data op_length_small p1 p2 simp del: One_nat_def)
qed

lemma push_opcode_wf: "length data < 2 ^ 32 \<Longrightarrow> opcode_wf (push_opcode data)"
  by (auto simp: opcode_wf_def push_opcode_def op_len_def op_length_data op_length_small)

lemma parse_add_raw_data: "length data < 2 ^ 32 \<Longrightarrow> parse_script (add_raw_data data [] @ rest) = Ok (push_opcode data) # parse_script rest"
  by (simp add: add_raw_data_opcode parse_script_serialize push_opcode_wf)

lemma u8_ge_1: "1 \<le> (b :: u8) \<longleftrightarrow> b \<noteq> 0"
  by (simp add: word_le_nat_alt Suc_le_eq unat_gt_0)

lemma push_opcode_length:
  assumes "length data < 2 ^ 32"
  shows "length (opcode_serialize (push_opcode data)) = canonical_data_size data + (if data = [0] then 1 else 0)"
proof (cases "length data \<le> 1")
  case True
  then consider "data = []" | b where "data = [b]" by (cases data) auto
  then show ?thesis
  proof cases
    case 2
    then show ?thesis
      by (simp add: opcode_serialize_def push_opcode_def canonical_data_size_def op_vals op_length_small u8_ge_1 op_length_data [of 1, simplified])
  qed (simp add: opcode_serialize_def push_opcode_def canonical_data_size_def)
next
  case False
  then have "data \<noteq> []" "length data \<noteq> 1" "length data \<noteq> 0" "0 < length data" "data \<noteq> [0]" by auto
  then show ?thesis
    by (simp add: opcode_serialize_def push_opcode_def canonical_data_size_def op_vals op_length_data Let_def)
qed

lemma number_bytes_small: "0 < n \<Longrightarrow> n < 128 \<Longrightarrow> number_bytes n False = [of_nat n]"
proof -
  assume n: "0 < n" "n < 128"
  have "\<not> 128 \<le> unat (of_nat n :: u8)" using n by (simp add: unat_of_nat take_bit_nat_eq_self)
  then have "(of_nat n :: u8) AND 0x80 = 0" using u8_bit7 [of "of_nat n"] by simp
  then show ?thesis using n by (subst number_bytes.simps) (simp add: number_bytes.simps [of 0])
qed

lemma push_small: "1 \<le> b \<Longrightarrow> b \<le> 16 \<Longrightarrow> i64_serialize (uint (b :: u8)) = Ok [b]"
proof -
  assume b: "1 \<le> b" "b \<le> 16"
  then have "number_bytes (unat b) False = [b]"
    by (subst number_bytes_small) (auto simp: word_le_nat_alt)
  then show ?thesis by (simp add: i64_serialize_def sized_serialize_def serialize_i64_def)
qed

lemma push_minus_one: "i64_serialize (- 1) = Ok [0x81]"
  by (simp add: i64_serialize_def sized_serialize_def serialize_i64_def number_bytes_small [of 1, simplified])

lemma small_opcode:
  assumes "1 \<le> b" "b \<le> 16"
  shows "uint (0x50 + b :: u8) - 0x50 = uint b \<and> 0x51 \<le> 0x50 + b \<and> 0x50 + b \<le> 0x60"
proof -
  have u: "unat (0x50 + b) = 0x50 + unat b" using assms by (simp add: word_le_nat_alt unat_word_ariths)
  have "uint (0x50 + b) = 0x50 + uint b" by (simp only: uint_nat u of_nat_add of_nat_numeral)
  then show ?thesis using assms u by (simp add: word_le_nat_alt)
qed

lemma execute_push_number_op:
  "0x51 \<le> c \<Longrightarrow> execute_push (OpCode c d) vm = push_number (uint c - 0x50) vm"
  by (auto simp: execute_push_def word_le_nat_alt)

lemma execute_push_number:
  "1 \<le> b \<Longrightarrow> b \<le> 16 \<Longrightarrow> execute_push (OpCode (0x50 + b) []) vm = Ok (vm\<lparr>dstack := dstack vm @ [[b]]\<rparr>)"
  using small_opcode [of b] push_small [of b]
  by (simp add: execute_push_number_op push_number_def on_dstack_def push_item_def)

lemma data_opcode: "0 < n \<Longrightarrow> n \<le> 75 \<Longrightarrow> unat (of_nat n :: u8) = n"
  by (simp add: unat_of_nat take_bit_nat_eq_self)

text \<open>The seven forms, grouped by what they carry.\<close>

lemma push_opcode_cases:
  obtains (empty) "data = []" "push_opcode data = OpCode 0 []"
  | (small) b where "data = [b]" "1 \<le> b" "b \<le> 16" "push_opcode data = OpCode (0x50 + b) []"
  | (neg) "data = [0x81]" "push_opcode data = OpCode 0x4f []"
  | (bytes) "0 < length data" "length data \<le> 75" "\<not> (length data = 1 \<and> (1 \<le> data ! 0 \<and> data ! 0 \<le> 16 \<or> data ! 0 = 0x81))"
      "push_opcode data = OpCode (of_nat (length data)) data"
  | (push) c where "75 < length data" "push_opcode data = OpCode c data"
      "c = (if length data \<le> 255 then 0x4c else if length data \<le> 65535 then 0x4d else 0x4e)"
proof (cases "length data = 1 \<and> (1 \<le> data ! 0 \<and> data ! 0 \<le> 16 \<or> data ! 0 = 0x81)")
  case True
  then obtain b where b: "data = [b]" "1 \<le> b \<and> b \<le> 16 \<or> b = 0x81" by (cases data) auto
  then show ?thesis using small [of b] neg by (cases "1 \<le> b \<and> b \<le> 16") (auto simp: push_opcode_def)
next
  case False
  show ?thesis
  proof (cases "data = []")
    case True
    then show ?thesis using empty by (simp add: push_opcode_def)
  next
    case ne: False
    then show ?thesis using False bytes push by (cases "length data \<le> 75") (simp_all add: push_opcode_def)
  qed
qed

text \<open>Running the opcode pushes the data, whichever of the seven forms was chosen.\<close>

lemma execute_push_opcode: "execute_push (push_opcode data) vm = Ok (vm\<lparr>dstack := dstack vm @ [data]\<rparr>)"
proof (cases data rule: push_opcode_cases)
  case (small b)
  then show ?thesis by (simp add: execute_push_number)
next
  case bytes
  then have "(of_nat (length data) :: u8) \<le> 0x4e" "(of_nat (length data) :: u8) \<noteq> 0"
    using data_opcode [OF bytes(1,2)] by (auto simp: word_le_nat_alt)
  then show ?thesis using bytes by (simp add: execute_push_def push_data_def)
qed (simp_all add: execute_push_def push_data_def push_number_def on_dstack_def push_item_def push_minus_one)

lemma push_opcode_metadata: "is_push_opcode (push_opcode data) \<and> op_value (push_opcode data) \<le> 0x60"
proof (cases data rule: push_opcode_cases)
  case (small b)
  then show ?thesis using small_opcode [of b] by (simp add: is_push_opcode_def op_vals)
next
  case bytes
  then show ?thesis using data_opcode [OF bytes(1,2)] by (simp add: is_push_opcode_def op_vals word_le_nat_alt)
qed (simp_all add: is_push_opcode_def op_vals)

lemma push_opcode_minimal:
  "0 < op_value (push_opcode data) \<Longrightarrow> op_value (push_opcode data) \<le> 0x4e \<Longrightarrow> check_minimal_data_push (push_opcode data) = Ok ()"
proof (cases data rule: push_opcode_cases)
  case (small b)
  assume "op_value (push_opcode data) \<le> 0x4e"
  then show ?thesis using small small_opcode [of b] by (simp add: word_le_nat_alt)
next
  case bytes
  then show ?thesis using data_opcode [OF bytes(1,2)]
    by (auto simp: check_minimal_data_push_def op_len_def op_vals ensure_def Let_def)
next
  case (push c)
  then show ?thesis by (auto simp: check_minimal_data_push_def op_len_def op_vals ensure_def Let_def)
qed simp_all

lemma push_opcode_legal: "\<not> is_disabled (push_opcode data) \<and> \<not> always_illegal (push_opcode data)"
  using push_opcode_metadata [of data] by (auto simp: is_disabled_def always_illegal_def)

lemma push_opcode_op_len: "op_len (push_opcode data) \<le> length data"
  by (cases data rule: push_opcode_cases) (simp_all add: op_len_def)

lemma execute_opcode_push:
  assumes "is_executing vm" and "length data \<le> MAX_SCRIPT_ELEMENT_SIZE"
  shows "execute_opcode E (push_opcode data) vm = Ok (vm\<lparr>dstack := dstack vm @ [data]\<rparr>)"
  using assms push_opcode_metadata [of data] push_opcode_minimal [of data] push_opcode_op_len [of data]
  by (auto simp: execute_opcode_def execute_op_def execute_push_opcode then_do_def)

lemma script_step_push:
  assumes "is_executing vm" and "length data \<le> MAX_SCRIPT_ELEMENT_SIZE" and "length (astack vm) + length (dstack vm) < MAX_STACK_SIZE"
  shows "script_step E b (Ok (push_opcode data)) vm = Ok (vm\<lparr>dstack := dstack vm @ [data]\<rparr>)"
  using assms push_opcode_metadata [of data] push_opcode_legal [of data]
  by (simp add: script_step_def execute_opcode_push Let_def)

section \<open>The Dilithium spend\<close>

lemmas opcode_tables = opcode_table_def control_ops_def stack_ops_def splice_ops_def numeric_ops_def crypto_ops_def introspection_ops_def

lemma execute_op_table:
  "execute_op E (OpCode OpBlake2b d) vm = op_blake2b E vm" "execute_op E (OpCode OpEqual d) vm = op_equal E vm"
  "execute_op E (OpCode OpCheckSigDilithium d) vm = op_check_sig_dilithium E vm"
  by (simp_all add: execute_op_def is_push_opcode_def op_vals opcode_tables)

text \<open>An opcode of the table, run by the engine below its limits.\<close>

lemma script_step_table:
  assumes "c \<in> {OpBlake2b, OpEqual, OpCheckSigDilithium}" and "cond_stack vm = []" and "num_ops vm < MAX_OPS_PER_SCRIPT"
  shows "script_step E False (Ok (OpCode c [])) vm = obind (execute_op E (OpCode c []) (vm\<lparr>num_ops := num_ops vm + 1\<rparr>)) (\<lambda>vm.
     let combined_size = length (astack vm) + length (dstack vm) in
     if MAX_STACK_SIZE < combined_size then Err (StackSizeExceeded combined_size MAX_STACK_SIZE) else Ok vm)"
proof -
  have m: "\<not> is_disabled (OpCode c [])" "\<not> always_illegal (OpCode c [])" "\<not> is_push_opcode (OpCode c [])" "\<not> (0 < c \<and> c \<le> 0x4e)"
    using assms(1) by (auto simp: is_disabled_def always_illegal_def is_push_opcode_def op_vals)
  have e: "execute_opcode E (OpCode c []) vm = execute_op E (OpCode c []) (vm\<lparr>num_ops := num_ops vm + 1\<rparr>)"
    using m(3,4) assms(2,3) by (auto simp: execute_opcode_def is_executing_def then_do_def)
  show ?thesis unfolding script_step_def by (simp only: obind.simps m e if_False simp_thms)
qed

lemma parse_table_opcode: "op_length c = Fixed 1 \<Longrightarrow> parse_script (c # rest) = Ok (OpCode c []) # parse_script rest"
  using parse_script_serialize [of "OpCode c []" rest] by (simp add: opcode_wf_def op_len_def opcode_serialize_def)

lemma parse_p2sh:
  assumes "length h = 32"
  shows "parse_script ([OpBlake2b, OpData32] @ h @ [OpEqual]) = [Ok (OpCode OpBlake2b []), Ok (push_opcode h), Ok (OpCode OpEqual [])]"
proof -
  have "add_raw_data h [] = OpData32 # h" using assms by (auto simp: add_raw_data_def Let_def op_vals)
  then have "parse_script (OpData32 # h @ [OpEqual]) = Ok (push_opcode h) # parse_script [OpEqual]"
    using parse_add_raw_data [of h "[OpEqual]"] assms by simp
  then show ?thesis by (simp add: parse_table_opcode)
qed

lemma parse_redeem:
  assumes "length vk = DILITHIUM2_VK_SIZE"
  shows "parse_script (dilithium_redeem_script vk) = [Ok (push_opcode vk), Ok (OpCode OpCheckSigDilithium [])]"
proof -
  have "to_le_bytes 2 (1312 :: u16) = [ucast (1312 :: u16), ucast (drop_bit 8 (1312 :: u16))]" by (simp only: numeral_2_eq_2 to_le_bytes.simps)
  then have "dilithium_redeem_script vk = add_raw_data vk [] @ [OpCheckSigDilithium]"
    using assms by (auto simp: add_raw_data_def dilithium_redeem_script_def DILITHIUM2_VK_SIZE_def Let_def op_vals)
  then show ?thesis using parse_add_raw_data [of vk "[OpCheckSigDilithium]"] assms
    by (simp add: parse_table_opcode DILITHIUM2_VK_SIZE_def)
qed

text \<open>The three scripts of the spend: the signature script pushes, the script public key compares the hash, and the
  redeem script checks the signature.\<close>

lemma execute_pushes:
  assumes "idle vm" and "dstack vm = []" and "length x \<le> MAX_SCRIPT_ELEMENT_SIZE" and "length y \<le> MAX_SCRIPT_ELEMENT_SIZE"
  shows "execute_script E (add_raw_data x [] @ add_raw_data y []) b vm = Ok (vm\<lparr>dstack := [x, y]\<rparr>)"
proof -
  have "parse_script (add_raw_data x [] @ add_raw_data y []) = [Ok (push_opcode x), Ok (push_opcode y)]"
    using assms(3,4) parse_add_raw_data [of y "[]"] by (simp add: parse_add_raw_data MAX_SCRIPT_ELEMENT_SIZE_def)
  then show ?thesis using assms
    by (simp add: execute_script_def script_step_push is_executing_def idle_def MAX_STACK_SIZE_def)
qed

lemma execute_p2sh:
  assumes "idle vm" and "dstack vm = [x, y]" and "length h = 32" and "length (blake2b_256 E y) = 32"
  shows "execute_script E ([OpBlake2b, OpData32] @ h @ [OpEqual]) False vm = Ok (vm\<lparr>dstack := [x, bool_serialize (blake2b_256 E y = h)]\<rparr>)"
  using assms unfolding execute_script_def parse_p2sh [OF assms(3)]
  by (simp add: script_step_table script_step_push execute_op_table op_blake2b_def op_equal_def pop_one_raw_def pop_raw_def push_data_def
      is_executing_def idle_def MAX_STACK_SIZE_def MAX_OPS_PER_SCRIPT_def MAX_SCRIPT_ELEMENT_SIZE_def bool_serialize_def)

lemma execute_redeem:
  assumes "idle vm" and "dstack vm = [sig @ [typ]]" and "length vk = DILITHIUM2_VK_SIZE" and "sig_hash_type_from_u8 typ = Some t"
    and "check_dilithium_signature E (vm\<lparr>num_ops := 1, dstack := []\<rparr>) t vk sig = Ok (valid, vm')"
    and "dstack vm' = []" "astack vm' = []" "cond_stack vm' = []"
  shows "execute_script E (dilithium_redeem_script vk) False vm = Ok (vm'\<lparr>dstack := [bool_serialize valid], astack := [], num_ops := 0\<rparr>)"
  using assms unfolding execute_script_def parse_redeem [OF assms(3)]
  by (simp add: script_step_table script_step_push execute_op_table op_check_sig_dilithium_def pop_two_raw_def pop_raw_def push_data_def
      is_executing_def idle_def MAX_STACK_SIZE_def MAX_OPS_PER_SCRIPT_def MAX_SCRIPT_ELEMENT_SIZE_def DILITHIUM2_VK_SIZE_def ok_or_def)

lemma check_dilithium_cold:
  assumes "script_source vm = TxInput tx input i entry p" and "0 < sig_op_remaining (sig_op_counter vm)"
    and "length sig = DILITHIUM2_SIG_SIZE" and "length vk = DILITHIUM2_VK_SIZE"
    and "calc_signature_hash (TransactionSigningHash E) tx i t (reused_values vm) = (Ok (h, r) :: (tx_script_error, _) outcome)"
    and "cache_map (sig_cache vm) = []"
  obtains vm' where "check_dilithium_signature E vm t vk sig = Ok (ml_dsa_44_verify E vk (as_bytes h) [] sig, vm')"
    "dstack vm' = dstack vm" "astack vm' = astack vm" "cond_stack vm' = cond_stack vm"
proof -
  have "1 \<le> sig_op_remaining (sig_op_counter vm)" using assms(2) by (simp add: word_le_nat_alt word_less_nat_alt)
  then obtain c where "consume_sig_op (sig_op_counter vm) = Ok c" by (auto simp: consume_sig_op_def checked_sub_def ok_or_def)
  then show ?thesis using assms that by (simp add: check_dilithium_signature_def Let_def cache_get_def hm_get_def)
qed

lemma check_error_bool: "dstack vm = [bool_serialize b] \<Longrightarrow> check_error_condition True vm = (if b then Ok (vm\<lparr>dstack := []\<rparr>) else Err EvalFalse)"
  by (simp add: check_error_condition_def pop_one_def pop_items_def bool_serialize_def bool_deserialize_def)

lemma check_error_top: "dstack vm = [x, bool_serialize True] \<Longrightarrow> check_error_condition False vm = Ok (vm\<lparr>dstack := [x]\<rparr>)"
  by (simp add: check_error_condition_def pop_one_def pop_items_def bool_serialize_def bool_deserialize_def)

lemma add_raw_data_bounds: "add_raw_data data [] \<noteq> [] \<and> length (add_raw_data data []) \<le> length data + 5"
  by (simp add: add_raw_data_def Let_def)

text \<open>A pay-to-script-hash spend with one argument runs the redeem script on that argument.\<close>

lemma execute_scripts_p2sh:
  assumes "idle vm" and "dstack vm = []" and "length x \<le> MAX_SCRIPT_ELEMENT_SIZE" and "length y \<le> MAX_SCRIPT_ELEMENT_SIZE"
    and "length (blake2b_256 E y) = 32"
  shows "execute_scripts E True [add_raw_data x [] @ add_raw_data y [], [OpBlake2b, OpData32] @ blake2b_256 E y @ [OpEqual]] True vm =
    obind (execute_script E y False (vm\<lparr>dstack := [x]\<rparr>)) (check_error_condition True)"
proof -
  let ?ss = "add_raw_data x [] @ add_raw_data y []" and ?spk = "[OpBlake2b, OpData32] @ blake2b_256 E y @ [OpEqual]"
  define vm1 where "vm1 = vm\<lparr>dstack := [x, y]\<rparr>"
  define vm2 where "vm2 = vm\<lparr>dstack := [x, bool_serialize True]\<rparr>"
  have e1: "execute_script E ?ss True vm = Ok vm1" unfolding vm1_def by (rule execute_pushes [OF assms(1-4)])
  have "idle vm1" using assms(1) by (simp add: vm1_def idle_def within_limits_def MAX_STACK_SIZE_def)
  then have e2: "execute_script E ?spk False vm1 = Ok vm2"
    using execute_p2sh [of vm1 x y "blake2b_256 E y" E] assms(5) by (simp add: vm1_def vm2_def)
  have e3: "check_error_condition False vm2 = Ok (vm\<lparr>dstack := [x]\<rparr>)" using check_error_top [of vm2 x] by (simp add: vm2_def)
  have ne: "?ss \<noteq> []" "?spk \<noteq> []" and sz: "length ?ss \<le> MAX_SCRIPTS_SIZE" "length ?spk \<le> MAX_SCRIPTS_SIZE"
    using assms(3-5) add_raw_data_bounds [of x] add_raw_data_bounds [of y] by (simp_all add: MAX_SCRIPTS_SIZE_def MAX_SCRIPT_ELEMENT_SIZE_def)
  have d1: "dstack vm1 = [x, y]" by (simp add: vm1_def)
  define ss where "ss = ?ss"
  define spk where "spk = ?spk"
  have "execute_scripts E True [ss, spk] True vm = obind (execute_script E y False (vm\<lparr>dstack := [x]\<rparr>)) (check_error_condition True)"
    using e1 e2 e3 ne sz d1 unfolding ss_def [symmetric] spk_def [symmetric]
    by (simp add: execute_scripts_def run_script_def ok_or_def)
  then show ?thesis by (simp only: ss_def spk_def)
qed

end
