(* ===== verification/Script_Properties.thy ===== *)
theory Script_Properties
  imports Script_Spend
begin

text \<open>
  The properties of the script component: numbers, parsing, the builder, the safety and the limits of the engine,
  and the pay-to-script-hash spend that the Dilithium wallets make.
\<close>

section \<open>An example spend\<close>

text \<open>An environment whose signatures are valid when their last byte is one, and the transaction that spends the output
  of a given key with a given signature.\<close>

definition ex_env :: script_env where
  "ex_env = \<lparr>TransactionSigningHash = ex_hash, sha256 = (\<lambda>_. replicate 32 0), blake2b_256 = (\<lambda>_. replicate 32 5),
     ml_dsa_44_verify = (\<lambda>_ _ _ sig. last sig = 1), random_index = (\<lambda>_. 0)\<rparr>"

definition ex_vk :: bytes where "ex_vk = replicate 1312 2"

definition ex_sig :: "u8 \<Rightarrow> bytes" where "ex_sig b = replicate 2419 4 @ [b]"

definition ex_dilithium :: "u8 \<Rightarrow> populated_transaction" where
  "ex_dilithium b = (ex_spend (add_raw_data (ex_sig b @ [1]) [] @ add_raw_data (dilithium_redeem_script ex_vk) []))
     \<lparr>ptx_entries := [\<lparr>amount = 100, entry_spk = \<lparr>spk_version = 0, spk_script = [OpBlake2b, OpData32] @ replicate 32 5 @ [OpEqual]\<rparr>,
       block_daa_score = 5, entry_is_coinbase = False\<rparr>]\<rparr>"

lemma ex_dilithium_wf: "populated_wf (ex_dilithium b)" "length (tx_inputs (ptx (ex_dilithium b))) = 1"
  by (simp_all add: populated_wf_def ex_dilithium_def ex_spend_def transaction_new_non_finalized_def)

lemma calc_signature_hash_returns:
  assumes "populated_wf tx" "i < length (tx_inputs (ptx tx))"
  obtains h r' where "calc_signature_hash H tx i t r = (Ok (h, r') :: (tx_script_error, _) outcome)"
  using assms by (auto simp: calc_signature_hash_def populated_input_def populated_wf_def Let_def case_prod_beta)

lemma calc_signature_hash_reused:
  assumes "populated_wf tx" "i < length (tx_inputs (ptx tx))" "reused_ok H (ptx tx) r"
  obtains h s s' where "calc_signature_hash H tx i t reused_values_new = (Ok (h, s) :: (tx_script_error, _) outcome)"
    "calc_signature_hash H tx i t r = (Ok (h, s') :: (tx_script_error, _) outcome)"
proof -
  obtain h s where h: "calc_signature_hash H tx i t reused_values_new = (Ok (h, s) :: (tx_script_error, _) outcome)"
    by (rule calc_signature_hash_returns [OF assms(1,2)])
  then show ?thesis
    using calc_signature_hash_bytes [OF assms(3), of i t, where 'a = tx_script_error]
      calc_signature_hash_bytes [OF reused_new, of H tx i t, where 'a = tx_script_error] that by (auto simp: obind_eq_Ok)
qed

section \<open>Numbers and opcodes\<close>

text \<open>
  C14: Script numbers round-trip. Every number of absolute value below 2^63 has an encoding of at most eight bytes that
  reads back as that number, an encoding that is accepted is the only one of its number, and \<open>i64::MIN\<close> is rejected
  as too long.
\<close>

theorem script_number_roundtrip:
  "(\<bar>n\<bar> < 2 ^ 63 \<longrightarrow> (\<exists>v. i64_serialize n = Ok v \<and> length v \<le> 8 \<and> i64_deserialize v = Ok n)) \<and>
   (i64_deserialize v = Ok n \<longrightarrow> \<bar>n\<bar> < 2 ^ 63 \<and> i64_serialize n = Ok v) \<and>
   i64_serialize I64_MIN = Err (NumberTooLong I64_MIN)"
proof (intro conjI impI)
  show "\<exists>v. i64_serialize n = Ok v \<and> length v \<le> 8 \<and> i64_deserialize v = Ok n" if "\<bar>n\<bar> < 2 ^ 63"
    using i64_roundtrip [OF that] .
next
  assume "i64_deserialize v = Ok n"
  then have v: "length v \<le> 8" and d: "deserialize_i64 v = Ok n"
    by (auto simp: i64_deserialize_def sized_deserialize_def split: if_splits)
  from d show "\<bar>n\<bar> < 2 ^ 63" by (rule deserialize_i64_bound)
  have "serialize_i64 n = (Ok v :: (serialization_error, _) outcome)" by (rule deserialize_i64_inverse [OF d])
  then show "i64_serialize n = Ok v" using v by (simp add: i64_serialize_def sized_serialize_def)
next
  show "i64_serialize I64_MIN = Err (NumberTooLong I64_MIN)"
    by (simp add: i64_serialize_def sized_serialize_def serialize_i64_def I64_MIN_def number_bytes.simps)
qed

theorem script_number_roundtrip_witness:
  "(\<exists>v. i64_serialize (- 1000) = Ok v \<and> i64_deserialize v = Ok (- 1000)) \<and> i64_serialize (- 1) = Ok [0x81]"
  using script_number_roundtrip [of "- 1000"] script_number_roundtrip [of "- 1" "[0x81]"] push_minus_one by auto

text \<open>
  C15: Parsing inverts serialization: the serialization of well-formed opcodes parses to exactly these opcodes, and when
  the first opcode of a script parses, it is well formed and the script starts with its serialization.
\<close>

theorem parse_serialize_inverse:
  "(list_all opcode_wf ops \<longrightarrow> parse_script (concat (map opcode_serialize ops)) = map Ok ops) \<and>
   (deserialize_next_opcode script = Some (Ok op, rest) \<longrightarrow> opcode_wf op \<and> script = opcode_serialize op @ rest)"
  using parse_script_serialize_all deserialize_next_Ok by blast

theorem parse_serialize_inverse_witness:
  "parse_script [0x01, 0x07, 0x4c, 0x02, 0x05, 0x06, 0x87] = [Ok (OpCode 0x01 [7]), Ok (OpCode 0x4c [5, 6]), Ok (OpCode 0x87 [])]"
proof -
  have "op_length 1 = Fixed 2" by (simp add: op_length_def)
  moreover have "to_le_bytes 1 (2 :: u32) = [2]" by (simp only: One_nat_def to_le_bytes.simps) simp
  ultimately show ?thesis using parse_serialize_inverse [of "[OpCode 0x01 [7], OpCode 0x4c [5, 6], OpCode 0x87 []]"]
    by (simp add: opcode_wf_def op_len_def opcode_serialize_def)
qed

text \<open>
  C16: The builder's data push: a successful \<open>add_data\<close> appends one opcode that parses back, is a push opcode, and when
  run pushes exactly the data; the size that was checked against the script limit is the size that was written, except
  for the single byte zero, whose two bytes were counted as one.
\<close>

theorem add_data_pushes:
  assumes "add_data data script = Ok script'"
  shows "\<exists>op. script' = script @ opcode_serialize op \<and> parse_script (opcode_serialize op @ rest) = Ok op # parse_script rest \<and>
    is_push_opcode op \<and> (is_executing vm \<longrightarrow> execute_opcode E op vm = Ok (vm\<lparr>dstack := dstack vm @ [data]\<rparr>)) \<and>
    length script' = length script + canonical_data_size data + (if data = [0] then 1 else 0)"
proof -
  have l: "length data \<le> MAX_SCRIPT_ELEMENT_SIZE" and s: "script' = add_raw_data data script"
    using assms by (auto simp: add_data_def Let_def split: if_splits)
  then have "length data < 2 ^ 32" by (simp add: MAX_SCRIPT_ELEMENT_SIZE_def)
  then show ?thesis using l s push_opcode_metadata [of data]
    by (intro exI [of _ "push_opcode data"])
      (simp add: add_raw_data_opcode parse_script_serialize push_opcode_wf execute_opcode_push push_opcode_length)
qed

theorem add_data_pushes_witness:
  "\<exists>op. add_data [0] (replicate 9999 0x51) = Ok (replicate 9999 0x51 @ opcode_serialize op) \<and>
    length (replicate 9999 (0x51 :: u8) @ opcode_serialize op) = MAX_SCRIPTS_SIZE + 1"
proof -
  have c: "canonical_data_size [0] = 1" by (simp add: canonical_data_size_def op_vals)
  then obtain s where s: "add_data [0] (replicate 9999 0x51) = Ok s"
    by (simp add: add_data_def MAX_SCRIPTS_SIZE_def MAX_SCRIPT_ELEMENT_SIZE_def)
  from add_data_pushes [OF s, of "[]" "engine_new reused_values_new (cache_new 0)" ex_env] c
  obtain op where "s = replicate 9999 0x51 @ opcode_serialize op" "length s = 10001" by (elim exE conjE) simp
  then show ?thesis using s by (intro exI [of _ op]) (simp add: MAX_SCRIPTS_SIZE_def)
qed

section \<open>Safety\<close>

text \<open>
  C11: The engine cannot be made to panic. For every transaction whose entries match its inputs, every input of it, every
  content of the caches and every behaviour of the cryptographic primitives, running the scripts of the input returns
  or fails with an error; when it returns, the input it ran for is unchanged and it used no more signature operations
  than the input declares.
\<close>

theorem engine_never_panics:
  assumes "populated_wf tx" "i < length (tx_inputs (ptx tx))"
    and "from_transaction_input tx (tx_inputs (ptx tx) ! i) i (ptx_entries tx ! i) r c = (Ok vm :: (tx_script_error, _) outcome)"
  shows "execute E vm \<noteq> Panic \<and> (\<forall>vm'. execute E vm = Ok vm' \<longrightarrow> script_source vm' = script_source vm \<and>
    sig_op_remaining (sig_op_counter vm') \<le> sig_op_count (tx_inputs (ptx tx) ! i) \<and>
    (\<exists>n. used_sig_ops vm' = (Ok n :: (tx_script_error, _) outcome) \<and> n \<le> sig_op_count (tx_inputs (ptx tx) ! i)))"
proof -
  note f = from_transaction_input_idle [OF assms(3,1)]
  then have s: "safely (keeps vm) (execute E vm)" by (intro execute_safe) auto
  have "used_sig_ops vm' \<noteq> (Panic :: (tx_script_error, _) outcome) \<and> (\<forall>n. used_sig_ops vm' = (Ok n :: (tx_script_error, _) outcome) \<longrightarrow> n \<le> sig_op_count (tx_inputs (ptx tx) ! i))"
    if "keeps vm vm'" for vm'
    using that f by (auto simp: keeps_def counter_new_def used_sig_ops_def counter_used_sig_ops_def psub_def unwrap_def checked_sub_def
        word_le_nat_alt unat_sub split: option.splits if_splits)
  moreover have "used_sig_ops vm' \<noteq> (Err e :: (tx_script_error, _) outcome)" for vm' e
    by (auto simp: used_sig_ops_def counter_used_sig_ops_def psub_def unwrap_def split: option.splits)
  ultimately have "\<exists>n. used_sig_ops vm' = (Ok n :: (tx_script_error, _) outcome) \<and> n \<le> sig_op_count (tx_inputs (ptx tx) ! i)" if "keeps vm vm'" for vm'
    using that by (cases "used_sig_ops vm' :: (tx_script_error, _) outcome") auto
  then show ?thesis using s f by (auto simp: safely_def keeps_def counter_new_def)
qed

theorem engine_never_panics_witness:
  "\<exists>vm. from_transaction_input (ex_dilithium 1) (tx_inputs (ptx (ex_dilithium 1)) ! 0) 0 (ptx_entries (ex_dilithium 1) ! 0)
      reused_values_new (cache_new 5) = (Ok vm :: (tx_script_error, _) outcome) \<and> execute ex_env vm \<noteq> Panic"
proof -
  obtain vm where v: "from_transaction_input (ex_dilithium 1) (tx_inputs (ptx (ex_dilithium 1)) ! 0) 0 (ptx_entries (ex_dilithium 1) ! 0)
      reused_values_new (cache_new 5) = (Ok vm :: (tx_script_error, _) outcome)"
    by (simp add: from_transaction_input_def ex_dilithium_wf)
  then show ?thesis using engine_never_panics [OF ex_dilithium_wf(1) _ v, of ex_env] by (simp add: ex_dilithium_wf)
qed

text \<open>
  Counting signature operations by execution does not panic, and its result is at most the declared count.
\<close>

theorem get_sig_op_count_bounded:
  assumes "populated_wf tx" "i < length (tx_inputs (ptx tx))"
  shows "get_sig_op_count E tx i \<noteq> Panic \<and> (\<forall>n. get_sig_op_count E tx i = Ok n \<longrightarrow> n \<le> sig_op_count (tx_inputs (ptx tx) ! i))"
  using get_sig_op_count_safe [OF assms, of E] by (simp add: safely_def)

theorem get_sig_op_count_bounded_witness:
  "get_sig_op_count ex_env (ex_dilithium 1) 0 \<noteq> Panic"
  using get_sig_op_count_bounded [OF ex_dilithium_wf(1), of 0 1 ex_env] by (simp add: ex_dilithium_wf)

text \<open>
  C17: The stack limit is an invariant: after every prefix of a script that runs without an error, the two stacks
  together hold at most \<open>MAX_STACK_SIZE\<close> elements, and no prefix panics.
\<close>

theorem stack_limit_invariant:
  assumes "engine_wf vm" "within_limits vm"
  shows "ofold (script_step E b) (take n (parse_script script)) vm \<noteq> Panic \<and>
    (\<forall>vm'. ofold (script_step E b) (take n (parse_script script)) vm = Ok vm' \<longrightarrow>
      length (astack vm') + length (dstack vm') \<le> MAX_STACK_SIZE)"
proof -
  have "safely (\<lambda>vm'. keeps vm vm' \<and> within_limits vm') (ofold (script_step E b) (take n (parse_script script)) vm)"
  proof (rule safely_ofold)
    show "keeps vm vm \<and> within_limits vm" using assms by simp
  next
    fix p vm' assume "p \<in> set (take n (parse_script script))" "keeps vm vm' \<and> within_limits vm'"
    then show "safely (\<lambda>vm'. keeps vm vm' \<and> within_limits vm') (script_step E b p vm')"
      using keeps_wf assms(1) parse_script_neq_Panic by (blast intro: script_step_safe dest: in_set_takeD)
  qed
  then show ?thesis by (simp add: safely_def within_limits_def)
qed

theorem stack_limit_invariant_witness:
  "ofold (script_step ex_env False) (take 2 (parse_script (replicate 300 0x51))) (engine_new reused_values_new (cache_new 0)) \<noteq> Panic"
  using stack_limit_invariant [of "engine_new reused_values_new (cache_new 0)" ex_env False 2 "replicate 300 0x51"]
  by (simp add: engine_wf_def engine_new_def within_limits_def)

section \<open>Spending\<close>

lemma execute_redeem_error:
  assumes "idle vm" and "dstack vm = [sig @ [typ]]" and "length vk = DILITHIUM2_VK_SIZE" and "sig_hash_type_from_u8 typ = Some t"
    and "check_dilithium_signature E (vm\<lparr>num_ops := 1, dstack := []\<rparr>) t vk sig = Err e"
  shows "execute_script E (dilithium_redeem_script vk) False vm = Err e"
  using assms unfolding execute_script_def parse_redeem [OF assms(3)]
  by (simp add: script_step_table script_step_push execute_op_table op_check_sig_dilithium_def pop_two_raw_def pop_raw_def push_data_def
      is_executing_def idle_def MAX_STACK_SIZE_def MAX_OPS_PER_SCRIPT_def MAX_SCRIPT_ELEMENT_SIZE_def DILITHIUM2_VK_SIZE_def ok_or_def)

text \<open>The signature check answers from the cache where it holds the key, and from the verifier otherwise.\<close>

lemma check_dilithium_verdict:
  assumes "script_source vm = TxInput tx input i entry p" and "0 < sig_op_remaining (sig_op_counter vm)"
    and "length sig = DILITHIUM2_SIG_SIZE" and "length vk = DILITHIUM2_VK_SIZE"
    and "calc_signature_hash (TransactionSigningHash E) tx i t (reused_values vm) = (Ok (h, r) :: (tx_script_error, _) outcome)"
  obtains vm' where "check_dilithium_signature E vm t vk sig =
      Ok (case cache_get (sig_cache vm) \<lparr>key_signature = take 32 sig, key_pub_key = take 32 vk, key_message = as_bytes h\<rparr> of
        Some cached \<Rightarrow> cached | None \<Rightarrow> ml_dsa_44_verify E vk (as_bytes h) [] sig, vm')"
    "dstack vm' = dstack vm" "astack vm' = astack vm" "cond_stack vm' = cond_stack vm"
proof -
  have "1 \<le> sig_op_remaining (sig_op_counter vm)" using assms(2) by (simp add: word_le_nat_alt word_less_nat_alt)
  then obtain c where "consume_sig_op (sig_op_counter vm) = Ok c" by (auto simp: consume_sig_op_def checked_sub_def ok_or_def)
  then show ?thesis using assms that
    by (cases "cache_get (sig_cache vm) \<lparr>key_signature = take 32 sig, key_pub_key = take 32 vk, key_message = as_bytes h\<rparr>")
      (simp_all add: check_dilithium_signature_def Let_def)
qed

text \<open>A spend of an output of a Dilithium key runs the redeem script on the signature.\<close>

lemma dilithium_setup:
  assumes "i < length (tx_inputs (ptx tx))" "\<forall>x. length (blake2b_256 E x) = 32"
    and "pay_to_script_hash_script (blake2b_256 E) redeem = (Ok (entry_spk (ptx_entries tx ! i)) :: (tx_script_error, _) outcome)"
    and "add_data (sig @ [typ]) [] = Ok sig_push"
    and "pay_to_script_hash_signature_script redeem sig_push = Ok (signature_script (tx_inputs (ptx tx) ! i))"
    and "from_transaction_input tx (tx_inputs (ptx tx) ! i) i (ptx_entries tx ! i) reused cache = (Ok vm :: (tx_script_error, _) outcome)"
  shows "script_source vm = TxInput tx (tx_inputs (ptx tx) ! i) i (ptx_entries tx ! i) True" "idle vm"
    "reused_values vm = reused" "sig_cache vm = cache" "sig_op_counter vm = counter_new (sig_op_count (tx_inputs (ptx tx) ! i))"
    "execute E vm = obind (execute_script E redeem False (vm\<lparr>dstack := [sig @ [typ]]\<rparr>)) (check_error_condition True)"
proof -
  define hsh where "hsh = blake2b_256 E redeem"
  let ?spk = "[OpBlake2b, OpData32] @ hsh @ [OpEqual]" and ?ss = "add_raw_data (sig @ [typ]) [] @ add_raw_data redeem []"
  have h32: "length hsh = 32" using assms(2) by (simp add: hsh_def)
  have spk: "entry_spk (ptx_entries tx ! i) = \<lparr>spk_version = 0, spk_script = ?spk\<rparr>"
    using assms(3) h32 by (simp add: pay_to_script_hash_script_def pay_to_script_hash_def hsh_def ENGINE_MAX_SCRIPT_PUBLIC_KEY_VERSION_def)
  have ss: "signature_script (tx_inputs (ptx tx) ! i) = ?ss" and l: "length (sig @ [typ]) \<le> MAX_SCRIPT_ELEMENT_SIZE" "length redeem \<le> MAX_SCRIPT_ELEMENT_SIZE"
    using assms(4,5) by (auto simp: pay_to_script_hash_signature_script_def add_data_def Let_def split: if_splits)
  have p: "is_pay_to_script_hash ?spk" using h32 by (simp add: is_pay_to_script_hash_def nth_append)
  show vm: "script_source vm = TxInput tx (tx_inputs (ptx tx) ! i) i (ptx_entries tx ! i) True" "idle vm"
      "reused_values vm = reused" "sig_cache vm = cache" "sig_op_counter vm = counter_new (sig_op_count (tx_inputs (ptx tx) ! i))"
    using assms(1,6) spk p by (auto simp: from_transaction_input_def idle_def within_limits_def split: if_splits)
  have "dstack vm = []" using assms(1,6) by (auto simp: from_transaction_input_def split: if_splits)
  then show "execute E vm = obind (execute_script E redeem False (vm\<lparr>dstack := [sig @ [typ]]\<rparr>)) (check_error_condition True)"
    using execute_scripts_p2sh [OF vm(2) _ l, of E] assms(2)
    by (simp add: execute_def vm(1) spk ss hsh_def ENGINE_MAX_SCRIPT_PUBLIC_KEY_VERSION_def)
qed

text \<open>
  C10: The Dilithium spend. An output that pays to the hash of the redeem script of a verification key is spent with the
  pushes of a signature with its hash type and of the redeem script. With any signature cache and any reused partial hashes that belong to
  the transaction, the spend succeeds exactly when the verdict on the signature is positive, and otherwise fails with \<open>EvalFalse\<close>. The verdict is
  the one the cache holds for the first 32 bytes of the signature, the first 32 bytes of the key and the transaction digest, and where it
  holds none, as with an empty cache, whether the signature of the digest verifies under the key. An input that declares no signature operation fails with
  \<open>ExceededSigOpLimit\<close>. The hypothesis on Blake2b is the length of its digest.
\<close>

theorem dilithium_spend:
  assumes "populated_wf tx" "i < length (tx_inputs (ptx tx))" "\<forall>x. length (blake2b_256 E x) = 32"
    and "pay_to_script_hash_script (blake2b_256 E) (dilithium_redeem_script vk) = (Ok (entry_spk (ptx_entries tx ! i)) :: (tx_script_error, _) outcome)"
    and "add_data (sig @ [typ]) [] = Ok sig_push"
    and "pay_to_script_hash_signature_script (dilithium_redeem_script vk) sig_push = Ok (signature_script (tx_inputs (ptx tx) ! i))"
    and "length sig = DILITHIUM2_SIG_SIZE" "length vk = DILITHIUM2_VK_SIZE" "sig_hash_type_from_u8 typ = Some t"
    and "reused_ok (TransactionSigningHash E) (ptx tx) reused"
    and "from_transaction_input tx (tx_inputs (ptx tx) ! i) i (ptx_entries tx ! i) reused cache = (Ok vm :: (tx_script_error, _) outcome)"
  shows "\<exists>h r. calc_signature_hash (TransactionSigningHash E) tx i t reused_values_new = (Ok (h, r) :: (tx_script_error, _) outcome) \<and>
    (if sig_op_count (tx_inputs (ptx tx) ! i) = 0 then execute E vm = Err (ExceededSigOpLimit 0)
     else if (case cache_get cache \<lparr>key_signature = take 32 sig, key_pub_key = take 32 vk, key_message = as_bytes h\<rparr> of
         Some cached \<Rightarrow> cached | None \<Rightarrow> ml_dsa_44_verify E vk (as_bytes h) [] sig)
       then \<exists>vm'. execute E vm = Ok vm' else execute E vm = Err EvalFalse)"
proof -
  let ?n = "sig_op_count (tx_inputs (ptx tx) ! i)"
  note vm = dilithium_setup [OF assms(2-6,11)]
  obtain h r r' where h: "calc_signature_hash (TransactionSigningHash E) tx i t reused_values_new = (Ok (h, r) :: (tx_script_error, _) outcome)"
      "calc_signature_hash (TransactionSigningHash E) tx i t reused = (Ok (h, r') :: (tx_script_error, _) outcome)"
    by (rule calc_signature_hash_reused [OF assms(1,2,10)])
  define vm0 where "vm0 = vm\<lparr>dstack := [sig @ [typ]]\<rparr>"
  let ?v = "case cache_get cache \<lparr>key_signature = take 32 sig, key_pub_key = take 32 vk, key_message = as_bytes h\<rparr> of
      Some cached \<Rightarrow> cached | None \<Rightarrow> ml_dsa_44_verify E vk (as_bytes h) [] sig"
  have idle: "idle vm0" using vm(2) by (simp add: vm0_def idle_def within_limits_def MAX_STACK_SIZE_def)
  show ?thesis
  proof (cases "?n = 0")
    case True
    then have "check_dilithium_signature E (vm0\<lparr>num_ops := 1, dstack := []\<rparr>) t vk sig = Err (ExceededSigOpLimit 0)"
      by (simp add: check_dilithium_signature_def vm0_def vm(5) counter_new_def consume_sig_op_def checked_sub_def ok_or_def)
    then have "execute_script E (dilithium_redeem_script vk) False vm0 = Err (ExceededSigOpLimit 0)"
      by (intro execute_redeem_error [OF idle _ assms(8,9)]) (simp_all add: vm0_def)
    then show ?thesis using h True vm(6) by (simp add: vm0_def)
  next
    case False
    obtain vm' where c: "check_dilithium_signature E (vm0\<lparr>num_ops := 1, dstack := []\<rparr>) t vk sig = Ok (?v, vm')"
        "dstack vm' = []" "astack vm' = []" "cond_stack vm' = []"
      using check_dilithium_verdict [of "vm0\<lparr>num_ops := 1, dstack := []\<rparr>" tx _ i _ _ sig vk E t h r'] vm h(2) assms(7,8) False
      by (auto simp: vm0_def counter_new_def idle_def word_gt_0)
    then have "execute_script E (dilithium_redeem_script vk) False vm0 = Ok (vm'\<lparr>dstack := [bool_serialize ?v], astack := [], num_ops := 0\<rparr>)"
      by (intro execute_redeem [OF idle _ assms(8,9) c]) (simp_all add: vm0_def)
    then show ?thesis using h(1) vm(6) False by (auto simp: check_error_bool vm0_def)
  qed
qed

lemma ex_dilithium_scripts:
  "length (ex_sig b) = DILITHIUM2_SIG_SIZE" "length ex_vk = DILITHIUM2_VK_SIZE" "last (ex_sig b) = b"
  "add_data (ex_sig b @ [1]) [] = Ok (add_raw_data (ex_sig b @ [1]) [])"
  "pay_to_script_hash_signature_script (dilithium_redeem_script ex_vk) (add_raw_data (ex_sig b @ [1]) []) =
    Ok (signature_script (tx_inputs (ptx (ex_dilithium b)) ! 0))"
  "pay_to_script_hash_script (blake2b_256 ex_env) (dilithium_redeem_script ex_vk) =
    (Ok (entry_spk (ptx_entries (ex_dilithium b) ! 0)) :: (tx_script_error, _) outcome)"
  by (simp_all add: ex_sig_def ex_vk_def DILITHIUM2_SIG_SIZE_def DILITHIUM2_VK_SIZE_def add_data_def canonical_data_size_def op_vals
      MAX_SCRIPTS_SIZE_def MAX_SCRIPT_ELEMENT_SIZE_def pay_to_script_hash_signature_script_def dilithium_redeem_script_def Let_def
      ex_dilithium_def ex_spend_def transaction_new_non_finalized_def ex_input_def pay_to_script_hash_script_def pay_to_script_hash_def
      ex_env_def ENGINE_MAX_SCRIPT_PUBLIC_KEY_VERSION_def)

definition ex_run :: "u8 \<Rightarrow> op_result" where
  "ex_run b = obind (from_transaction_input (ex_dilithium b) (tx_inputs (ptx (ex_dilithium b)) ! 0) 0 (ptx_entries (ex_dilithium b) ! 0)
     reused_values_new (cache_new 5)) (execute ex_env)"

theorem dilithium_spend_witness: "(\<exists>vm. ex_run 1 = Ok vm) \<and> ex_run 2 = Err EvalFalse"
proof -
  have run: "if b = 1 then \<exists>vm. ex_run b = Ok vm else ex_run b = Err EvalFalse" for b
  proof -
    obtain vm where v: "from_transaction_input (ex_dilithium b) (tx_inputs (ptx (ex_dilithium b)) ! 0) 0 (ptx_entries (ex_dilithium b) ! 0)
        reused_values_new (cache_new 5) = (Ok vm :: (tx_script_error, _) outcome)"
      by (simp add: from_transaction_input_def ex_dilithium_wf)
    have t: "sig_hash_type_from_u8 1 = Some SIG_HASH_ALL"
      by (simp add: sig_hash_type_from_u8_def ALLOWED_SIG_HASH_TYPES_VALUES_def SIG_HASH_ALL_def)
    have "sig_op_count (tx_inputs (ptx (ex_dilithium b)) ! 0) \<noteq> 0"
      by (simp add: ex_dilithium_def ex_spend_def transaction_new_non_finalized_def ex_input_def)
    then have "if last (ex_sig b) = 1 then \<exists>vm'. execute ex_env vm = Ok vm' else execute ex_env vm = Err EvalFalse"
      using dilithium_spend [of "ex_dilithium b" 0 ex_env, OF _ _ _ ex_dilithium_scripts(6) ex_dilithium_scripts(4,5,1,2) t _ v]
      by (auto simp: ex_dilithium_wf ex_env_def cache_get_def cache_new_def hm_get_def split: if_splits)
    moreover have "ex_run b = execute ex_env vm" by (simp only: ex_run_def v obind.simps)
    ultimately show ?thesis by (simp only: ex_dilithium_scripts)
  qed
  show ?thesis using run [of 1] run [of 2] by simp
qed

section \<open>Limits of the implementation\<close>

text \<open>The signature cache is keyed by a prefix. After a signature check with a cache of positive capacity, a second check
  of the same input, hash type and key gives the same answer for every other signature of the right length that shares
  the first 32 bytes, whatever the verification of that signature says.
\<close>

theorem sig_cache_prefix:
  assumes "script_source vm = TxInput tx input i entry p" "reused_ok (TransactionSigningHash E) (ptx tx) (reused_values vm)"
    and "check_dilithium_signature E vm t vk sig = Ok (valid, vm1)" "cache_map (sig_cache vm) = []" "0 < cache_size (sig_cache vm)"
    and "1 < sig_op_remaining (sig_op_counter vm)" "length sig' = length sig" "take 32 sig' = take 32 sig"
  shows "\<exists>vm2. check_dilithium_signature E vm1 t vk sig' = Ok (valid, vm2)"
proof -
  let ?H = "TransactionSigningHash E"
  obtain c where c: "consume_sig_op (sig_op_counter vm) = Ok c" using assms(3) by (auto simp: check_dilithium_signature_def obind_eq_Ok)
  have "1 \<le> sig_op_remaining c" using c assms(6) by (auto simp: consume_sig_op_def checked_sub_def ok_or_def word_le_nat_alt word_less_nat_alt unat_sub split: if_splits)
  then obtain c' where c': "consume_sig_op c = Ok c'" by (auto simp: consume_sig_op_def checked_sub_def ok_or_def)
  have len: "length sig = DILITHIUM2_SIG_SIZE" "length vk = DILITHIUM2_VK_SIZE"
    using assms(1,3) c by (auto simp: check_dilithium_signature_def Let_def split: if_splits)
  obtain h r where h: "calc_signature_hash ?H tx i t (reused_values vm) = (Ok (h, r) :: (tx_script_error, _) outcome)"
    using assms(1,3) c len by (auto simp: check_dilithium_signature_def Let_def obind_eq_Ok)
  have "reused_ok ?H (ptx tx) r" and h': "\<exists>r'. calc_signature_hash ?H tx i t r = (Ok (h, r') :: (tx_script_error, _) outcome)"
    using h calc_signature_hash_bytes [OF assms(2), of i t, where 'a = tx_script_error]
      calc_signature_hash_bytes [of ?H tx r i t, where 'a = tx_script_error] by (auto simp: obind_eq_Ok)
  let ?k = "\<lparr>key_signature = take 32 sig, key_pub_key = take 32 vk, key_message = as_bytes h\<rparr>"
  have vm1: "script_source vm1 = script_source vm" "sig_op_counter vm1 = c" "reused_values vm1 = r" "cache_get (sig_cache vm1) ?k = Some valid"
    using assms(1,3,4,5) c len h by (auto simp: check_dilithium_signature_def Let_def cache_get_def cache_insert_def hm_get_def hm_insert_def)
  show ?thesis using h' vm1 c' len assms(1,7,8) by (auto simp: check_dilithium_signature_def Let_def)
qed

definition ex_vm :: script_engine where
  "ex_vm = (engine_new reused_values_new (cache_new 5))
     \<lparr>script_source := TxInput (ex_dilithium 1) (tx_inputs (ptx (ex_dilithium 1)) ! 0) 0 (ptx_entries (ex_dilithium 1) ! 0) True, sig_op_counter := counter_new 2\<rparr>"

theorem sig_cache_prefix_witness:
  "\<exists>vm1 vm2. check_dilithium_signature ex_env ex_vm SIG_HASH_ALL ex_vk (ex_sig 1) = Ok (True, vm1) \<and>
     check_dilithium_signature ex_env vm1 SIG_HASH_ALL ex_vk (ex_sig 2) = Ok (True, vm2) \<and>
     (\<forall>m. \<not> ml_dsa_44_verify ex_env ex_vk m [] (ex_sig 2))"
proof -
  have s: "script_source ex_vm = TxInput (ex_dilithium 1) (tx_inputs (ptx (ex_dilithium 1)) ! 0) 0 (ptx_entries (ex_dilithium 1) ! 0) True"
    "reused_values ex_vm = reused_values_new" "cache_map (sig_cache ex_vm) = []" "0 < cache_size (sig_cache ex_vm)"
    "0 < sig_op_remaining (sig_op_counter ex_vm)" "1 < sig_op_remaining (sig_op_counter ex_vm)"
    by (simp_all add: ex_vm_def engine_new_def cache_new_def counter_new_def)
  obtain h r where h: "calc_signature_hash (TransactionSigningHash ex_env) (ex_dilithium 1) 0 SIG_HASH_ALL (reused_values ex_vm) = (Ok (h, r) :: (tx_script_error, _) outcome)"
    by (rule calc_signature_hash_returns [OF ex_dilithium_wf(1)]) (simp add: ex_dilithium_wf)
  have v: "ml_dsa_44_verify ex_env key m ctx sg \<longleftrightarrow> last sg = 1" for key m ctx sg by (simp add: ex_env_def)
  obtain vm1 where "check_dilithium_signature ex_env ex_vm SIG_HASH_ALL ex_vk (ex_sig 1) = Ok (ml_dsa_44_verify ex_env ex_vk (as_bytes h) [] (ex_sig 1), vm1)"
    by (rule check_dilithium_cold [OF s(1,5) ex_dilithium_scripts(1,2) h s(3)])
  then have c: "check_dilithium_signature ex_env ex_vm SIG_HASH_ALL ex_vk (ex_sig 1) = Ok (True, vm1)" by (simp only: v ex_dilithium_scripts simp_thms)
  have "length (ex_sig 2) = length (ex_sig 1)" "take 32 (ex_sig 2) = take 32 (ex_sig 1)" by (simp_all add: ex_sig_def)
  from sig_cache_prefix [OF s(1) _ c s(3,4,6) this] obtain vm2 where
    "check_dilithium_signature ex_env vm1 SIG_HASH_ALL ex_vk (ex_sig 2) = Ok (True, vm2)" by (auto simp: s(2))
  then show ?thesis using c ex_dilithium_scripts(3) [of 2] by (auto simp: v)
qed

text \<open>The static signature operation count is not an upper bound: it is zero for every spend of the standard Dilithium
  redeem script, although the check uses one operation, and it panics when the redeem script of a pay-to-script-hash
  input is \<open>Op16\<close> followed by \<open>OpCheckMultiSig\<close>.
\<close>

theorem sig_op_upper_bound_gaps:
  assumes "length vk = DILITHIUM2_VK_SIZE" "length h = 32" "length arg < 2 ^ 32"
  shows "get_sig_op_count_upper_bound (add_raw_data arg [] @ add_raw_data (dilithium_redeem_script vk) [])
      \<lparr>spk_version = 0, spk_script = [OpBlake2b, OpData32] @ h @ [OpEqual]\<rparr> = (Ok 0 :: (tx_script_error, _) outcome) \<and>
    get_sig_op_count_upper_bound (add_raw_data [Op16, OpCheckMultiSig] [])
      \<lparr>spk_version = 0, spk_script = [OpBlake2b, OpData32] @ h @ [OpEqual]\<rparr> = (Panic :: (tx_script_error, _) outcome)"
proof
  let ?r = "dilithium_redeem_script vk"
  have lr: "length ?r = 1316" using assms(1) by (simp add: dilithium_redeem_script_def DILITHIUM2_VK_SIZE_def Let_def)
  have r: "push_opcode ?r = OpCode OpPushData2 ?r" using lr by (auto simp: push_opcode_def)
  have v: "push_opcode vk = OpCode OpPushData2 vk" using assms(1) by (auto simp: push_opcode_def DILITHIUM2_VK_SIZE_def)
  have "is_push_opcode (OpCode OpPushData2 ?r)" using push_opcode_metadata [of ?r] by (simp add: r)
  moreover have "parse_script (add_raw_data arg [] @ add_raw_data ?r []) = [Ok (push_opcode arg), Ok (OpCode OpPushData2 ?r)]"
    using parse_add_raw_data [of ?r "[]"] lr assms(3) by (simp add: parse_add_raw_data r)
  moreover have "is_pay_to_script_hash ([OpBlake2b, OpData32] @ h @ [OpEqual])" using assms(2) by (simp add: is_pay_to_script_hash_def nth_append)
  ultimately show "get_sig_op_count_upper_bound (add_raw_data arg [] @ add_raw_data ?r [])
      \<lparr>spk_version = 0, spk_script = [OpBlake2b, OpData32] @ h @ [OpEqual]\<rparr> = (Ok 0 :: (tx_script_error, _) outcome)"
    using push_opcode_metadata [of arg] parse_redeem [OF assms(1)]
    by (simp add: get_sig_op_count_upper_bound_def get_sig_op_count_by_opcodes_def v)
next
  have "op_length 0x60 = Fixed 1" "op_length 0xae = Fixed 1" by (simp_all add: op_length_def)
  then have r: "parse_script [Op16, OpCheckMultiSig] = [Ok (OpCode Op16 []), Ok (OpCode OpCheckMultiSig [])]" by (simp add: parse_table_opcode)
  have p: "push_opcode [Op16, OpCheckMultiSig] = OpCode 2 [Op16, OpCheckMultiSig]" by (simp add: push_opcode_def)
  then have "is_push_opcode (OpCode 2 [Op16, OpCheckMultiSig])" using push_opcode_metadata [of "[Op16, OpCheckMultiSig]"] by simp
  moreover have "parse_script (add_raw_data [Op16, OpCheckMultiSig] []) = [Ok (OpCode 2 [Op16, OpCheckMultiSig])]"
    using parse_add_raw_data [of "[Op16, OpCheckMultiSig]" "[]"] p by simp
  moreover have "is_pay_to_script_hash ([OpBlake2b, OpData32] @ h @ [OpEqual])" using assms(2) by (simp add: is_pay_to_script_hash_def nth_append)
  ultimately show "get_sig_op_count_upper_bound (add_raw_data [Op16, OpCheckMultiSig] [])
      \<lparr>spk_version = 0, spk_script = [OpBlake2b, OpData32] @ h @ [OpEqual]\<rparr> = (Panic :: (tx_script_error, _) outcome)"
    using r by (simp add: get_sig_op_count_upper_bound_def get_sig_op_count_by_opcodes_def to_small_int_def)
qed

theorem sig_op_upper_bound_gaps_witness:
  "get_sig_op_count_upper_bound (add_raw_data [7] [] @ add_raw_data (dilithium_redeem_script ex_vk) [])
     \<lparr>spk_version = 0, spk_script = [OpBlake2b, OpData32] @ replicate 32 5 @ [OpEqual]\<rparr> = (Ok 0 :: (tx_script_error, _) outcome)"
  using sig_op_upper_bound_gaps [OF ex_dilithium_scripts(2), of "replicate 32 5" "[7]"] by simp

end
