(* ===== verification/Merkle.thy ===== *)
theory Merkle
  imports Sighash
begin

text \<open>
  Merkle roots and inclusion proofs (src/crypto/merkle/src/lib.rs) and the roots of the block header
  (src/consensus/core/src/merkle.rs). \<open>MerkleBranchHash\<close>, a keyed Blake2b with 48 bytes of output, is the parameter
  \<open>H\<close> of the functions. A leaf pair is hashed as 64 bytes and a node pair as 96 bytes, which is what separates the
  levels of the tree. The length of a list stays below half of the address space, so that \<open>next_power_of_two\<close> does not
  overflow.
\<close>

section \<open>Roots\<close>

datatype merkle_hash = MerkleHash (mh_bytes: bytes)

definition MERKLE_HASH_SIZE :: nat where "MERKLE_HASH_SIZE = 48"

definition ZERO_MERKLE_HASH :: merkle_hash where
  "ZERO_MERKLE_HASH = MerkleHash (replicate MERKLE_HASH_SIZE 0)"

definition merkle_hash_from_tx :: "(bytes \<Rightarrow> merkle_hash) \<Rightarrow> hash \<Rightarrow> hash \<Rightarrow> merkle_hash" where
  "merkle_hash_from_tx H left right = H (as_bytes left @ as_bytes right)"

definition merkle_hash_from_node :: "(bytes \<Rightarrow> merkle_hash) \<Rightarrow> merkle_hash \<Rightarrow> merkle_hash \<Rightarrow> merkle_hash" where
  "merkle_hash_from_node H left right = H (mh_bytes left @ mh_bytes right)"

function next_power_from :: "nat \<Rightarrow> nat \<Rightarrow> nat" where
  "next_power_from p n = (if n \<le> p \<or> p = 0 then p else next_power_from (2 * p) n)"
  by pat_completeness auto
termination by (relation "measure (\<lambda>(p, n). n - p)") auto

declare next_power_from.simps [simp del]

definition next_power_of_two :: "nat \<Rightarrow> nat" where
  "next_power_of_two n = next_power_from 1 n"

definition leaf_at :: "hash list \<Rightarrow> nat \<Rightarrow> hash" where
  "leaf_at leaves i = (if i < length leaves then leaves ! i else ZERO_HASH)"

definition leaf_nodes :: "(bytes \<Rightarrow> merkle_hash) \<Rightarrow> hash list \<Rightarrow> merkle_hash option list" where
  "leaf_nodes H leaves = map (\<lambda>k. let i = 2 * k in if length leaves \<le> i then None
     else Some (merkle_hash_from_tx H (leaves ! i) (leaf_at leaves (i + 1)))) [0..<next_power_of_two (length leaves) div 2]"

definition parent_node :: "(bytes \<Rightarrow> merkle_hash) \<Rightarrow> merkle_hash option \<Rightarrow> merkle_hash option \<Rightarrow> merkle_hash option" where
  "parent_node H left right = (case left of None \<Rightarrow> None
     | Some l \<Rightarrow> Some (merkle_hash_from_node H l (case right of None \<Rightarrow> ZERO_MERKLE_HASH | Some r \<Rightarrow> r)))"

fun next_level :: "(bytes \<Rightarrow> merkle_hash) \<Rightarrow> merkle_hash option list \<Rightarrow> merkle_hash option list" where
  "next_level H (l # r # nodes) = parent_node H l r # next_level H nodes"
| "next_level H [l] = [parent_node H l None]"
| "next_level H [] = []"

lemma length_next_level: "length (next_level H nodes) = (length nodes + 1) div 2"
  by (induction H nodes rule: next_level.induct) simp_all

function merkle_levels :: "(bytes \<Rightarrow> merkle_hash) \<Rightarrow> merkle_hash option list \<Rightarrow> merkle_hash option list" where
  "merkle_levels H nodes = (if 1 < length nodes then merkle_levels H (next_level H nodes) else nodes)"
  by pat_completeness auto
termination by (relation "measure (\<lambda>(H, nodes). length nodes)") (auto simp: length_next_level)

declare merkle_levels.simps [simp del]

definition calc_merkle_root :: "(bytes \<Rightarrow> merkle_hash) \<Rightarrow> hash list \<Rightarrow> merkle_hash" where
  "calc_merkle_root H leaves =
     (if leaves = [] then ZERO_MERKLE_HASH
      else if length leaves = 1 then merkle_hash_from_tx H (leaves ! 0) ZERO_HASH
      else case merkle_levels H (leaf_nodes H leaves) ! 0 of None \<Rightarrow> ZERO_MERKLE_HASH | Some root \<Rightarrow> root)"

definition calc_hash_merkle_root :: "(bytes \<Rightarrow> merkle_hash) \<Rightarrow> (bytes \<Rightarrow> hash) \<Rightarrow> transaction list \<Rightarrow> merkle_hash" where
  "calc_hash_merkle_root H TransactionHash txs = calc_merkle_root H (map (tx_hash TransactionHash) txs)"

definition calc_hash_merkle_root_pre_crescendo :: "(bytes \<Rightarrow> merkle_hash) \<Rightarrow> (bytes \<Rightarrow> hash) \<Rightarrow> transaction list \<Rightarrow> merkle_hash" where
  "calc_hash_merkle_root_pre_crescendo H TransactionHash txs = calc_merkle_root H (map (hash_pre_crescendo TransactionHash) txs)"

definition calc_accepted_id_merkle_root_pre_crescendo :: "(bytes \<Rightarrow> merkle_hash) \<Rightarrow> hash list \<Rightarrow> merkle_hash" where
  "calc_accepted_id_merkle_root_pre_crescendo H accepted_tx_ids = calc_merkle_root H (sort accepted_tx_ids)"

section \<open>Inclusion proofs\<close>

record tx_merkle_proof =
  proof_tx_id :: hash
  proof_block_hash :: hash
  leaf_sibling :: hash
  node_siblings :: "merkle_hash list"
  proof_position :: u32

text \<open>The walk up the tree: the sibling of the current index at every level.\<close>

function collect_siblings :: "(bytes \<Rightarrow> merkle_hash) \<Rightarrow> merkle_hash option list \<Rightarrow> nat \<Rightarrow> merkle_hash list" where
  "collect_siblings H nodes current_idx =
     (if 1 < length nodes then
        let sibling_idx = (if even current_idx then current_idx + 1 else current_idx - 1);
            sibling = (if sibling_idx < length nodes then case nodes ! sibling_idx of None \<Rightarrow> ZERO_MERKLE_HASH | Some s \<Rightarrow> s else ZERO_MERKLE_HASH)
        in sibling # collect_siblings H (next_level H nodes) (current_idx div 2)
      else [])"
  by pat_completeness auto
termination by (relation "measure (\<lambda>(H, nodes, i). length nodes)") (auto simp: length_next_level)

declare collect_siblings.simps [simp del]

definition build_merkle_proof :: "(bytes \<Rightarrow> merkle_hash) \<Rightarrow> hash list \<Rightarrow> u32 \<Rightarrow> hash \<Rightarrow> tx_merkle_proof option" where
  "build_merkle_proof H tx_ids position block_hash =
     (let n = length tx_ids; pos = unat position in
      if n = 0 \<or> n \<le> pos then None
      else if n = 1 then Some \<lparr>proof_tx_id = tx_ids ! pos, proof_block_hash = block_hash, leaf_sibling = ZERO_HASH, node_siblings = [],
        proof_position = position\<rparr>
      else let sibling = (if even pos then leaf_at tx_ids (pos + 1) else tx_ids ! (pos - 1)) in
        Some \<lparr>proof_tx_id = tx_ids ! pos, proof_block_hash = block_hash, leaf_sibling = sibling,
          node_siblings = collect_siblings H (leaf_nodes H tx_ids) (pos div 2), proof_position = position\<rparr>)"

fun walk_up :: "(bytes \<Rightarrow> merkle_hash) \<Rightarrow> nat \<Rightarrow> merkle_hash \<Rightarrow> merkle_hash list \<Rightarrow> merkle_hash" where
  "walk_up H idx acc [] = acc"
| "walk_up H idx acc (s # ss) =
     walk_up H (idx div 2) (if even idx then merkle_hash_from_node H acc s else merkle_hash_from_node H s acc) ss"

definition verify_merkle_proof :: "(bytes \<Rightarrow> merkle_hash) \<Rightarrow> tx_merkle_proof \<Rightarrow> merkle_hash \<Rightarrow> bool" where
  "verify_merkle_proof H p expected_root =
     (let pos = unat (proof_position p);
          acc = (if even pos then merkle_hash_from_tx H (proof_tx_id p) (leaf_sibling p)
                 else merkle_hash_from_tx H (leaf_sibling p) (proof_tx_id p))
      in walk_up H (pos div 2) acc (node_siblings p) = expected_root)"

section \<open>The tree\<close>

text \<open>The value of the node of height \<open>h + 1\<close> and index \<open>k\<close>, by recursion from the leaves.\<close>

fun node_at :: "(bytes \<Rightarrow> merkle_hash) \<Rightarrow> hash list \<Rightarrow> nat \<Rightarrow> nat \<Rightarrow> merkle_hash option" where
  "node_at H leaves 0 k = (if length leaves \<le> 2 * k then None
     else Some (merkle_hash_from_tx H (leaves ! (2 * k)) (leaf_at leaves (2 * k + 1))))"
| "node_at H leaves (Suc h) k = parent_node H (node_at H leaves h (2 * k)) (node_at H leaves h (2 * k + 1))"

declare node_at.simps(2) [simp del]

lemma next_power_of_two_power:
  assumes "0 < n"
  shows "\<exists>m. next_power_of_two n = 2 ^ m \<and> n \<le> 2 ^ m \<and> (m = 0 \<or> 2 ^ (m - 1) < n)"
proof -
  have "\<exists>m\<ge>j. next_power_from (2 ^ j) n = 2 ^ m \<and> n \<le> 2 ^ m \<and> (m = j \<or> 2 ^ (m - 1) < n)" for j
  proof (induction "n - 2 ^ j" arbitrary: j rule: less_induct)
    case less
    show ?case
    proof (cases "n \<le> 2 ^ j")
      case False
      moreover have "0 < (2 :: nat) ^ j" by simp
      ultimately have "n - 2 ^ Suc j < n - 2 ^ j" unfolding power_Suc by linarith
      from less [OF this] obtain m where m: "m \<ge> Suc j" "next_power_from (2 ^ Suc j) n = 2 ^ m" "n \<le> 2 ^ m" "m = Suc j \<or> 2 ^ (m - 1) < n" by blast
      then show ?thesis using False by (intro exI [of _ m]) (auto simp: next_power_from.simps [of "2 ^ j"])
    qed (auto simp: next_power_from.simps)
  qed
  from this [of 0] show ?thesis by (simp add: next_power_of_two_def)
qed

lemma next_level_nodes:
  "next_level H (map (node_at H leaves h) [2 * a..<2 * (a + m)]) = map (node_at H leaves (Suc h)) [a..<a + m]"
proof (induction m arbitrary: a)
  case (Suc m)
  have "[2 * a..<2 * (a + Suc m)] = 2 * a # (2 * a + 1) # [2 * Suc a..<2 * (Suc a + m)]" by (simp add: upt_conv_Cons)
  moreover have "[a..<a + Suc m] = a # [Suc a..<Suc a + m]" by (simp add: upt_conv_Cons)
  ultimately show ?case using Suc [of "Suc a"] by (simp add: node_at.simps(2))
qed simp

lemma next_level_power: "next_level H (map (node_at H leaves h) [0..<2 ^ Suc m]) = map (node_at H leaves (Suc h)) [0..<2 ^ m]"
  using next_level_nodes [of H leaves h 0 "2 ^ m"] by simp

lemma merkle_levels_root: "merkle_levels H (map (node_at H leaves h) [0..<2 ^ m]) = [node_at H leaves (h + m) 0]"
proof (induction m arbitrary: h)
  case (Suc m)
  have "1 < (2 :: nat) ^ Suc m" by (rule one_less_power) simp_all
  then show ?case using Suc [of "Suc h"] by (subst merkle_levels.simps) (simp add: next_level_power del: upt_Suc power_Suc)
qed (simp add: merkle_levels.simps)

text \<open>Nodes are present up to the last leaf, so that the left sibling of a present node is present.\<close>

lemma node_at_present: "node_at H leaves h k \<noteq> None \<longleftrightarrow> 2 ^ Suc h * k < length leaves"
proof (induction h arbitrary: k)
  case (Suc h)
  have "node_at H leaves (Suc h) k \<noteq> None \<longleftrightarrow> node_at H leaves h (2 * k) \<noteq> None" by (auto simp: node_at.simps(2) parent_node_def split: option.splits)
  then show ?case using Suc [of "2 * k"] by (simp add: mult.assoc mult.left_commute)
qed auto

lemma node_at_left: "node_at H leaves h k \<noteq> None \<Longrightarrow> j \<le> k \<Longrightarrow> node_at H leaves h j \<noteq> None"
  unfolding node_at_present by (meson le_less_trans mult_le_mono2)

lemma leaf_nodes_power:
  assumes "next_power_of_two (length leaves) = 2 ^ Suc m"
  shows "leaf_nodes H leaves = map (node_at H leaves 0) [0..<2 ^ m]"
  using assms by (simp add: leaf_nodes_def Let_def)

text \<open>The height of the tree of two or more leaves, and its root.\<close>

lemma tree_height:
  assumes "1 < length leaves"
  obtains m where "next_power_of_two (length leaves) = 2 ^ Suc m" "length leaves \<le> 2 ^ Suc m" "2 ^ m < length leaves"
proof -
  obtain m where m: "next_power_of_two (length leaves) = 2 ^ m" "length leaves \<le> 2 ^ m" "m = 0 \<or> 2 ^ (m - 1) < length leaves"
    using next_power_of_two_power [of "length leaves"] less_trans [OF zero_less_one assms] by blast
  then obtain k where "m = Suc k" using assms by (cases m) auto
  then show ?thesis using that [of k] m by simp
qed

lemma calc_merkle_root_node:
  assumes "1 < length leaves" "next_power_of_two (length leaves) = 2 ^ Suc m"
  shows "node_at H leaves m 0 = Some (calc_merkle_root H leaves)"
proof -
  have "node_at H leaves m 0 \<noteq> None" using assms(1) unfolding node_at_present by auto
  then show ?thesis using assms merkle_levels_root [of H leaves 0 m]
    by (auto simp: calc_merkle_root_def leaf_nodes_power)
qed

lemma walk_up_siblings:
  assumes "idx < 2 ^ m" "node_at H leaves h idx = Some v"
  shows "node_at H leaves (h + m) 0 = Some (walk_up H idx v (collect_siblings H (map (node_at H leaves h) [0..<2 ^ m]) idx))"
  using assms
proof (induction m arbitrary: h idx v)
  case (Suc m)
  define sib where "sib = (if even idx then idx + 1 else idx - 1)"
  have "1 < (2 :: nat) ^ Suc m" by (rule one_less_power) simp_all
  moreover have "sib < 2 ^ Suc m" using Suc(2) by (auto simp: sib_def elim!: oddE evenE)
  ultimately have lt: "1 < (2 :: nat) ^ Suc m" "sib < 2 ^ Suc m" .
  define s where "s = (case node_at H leaves h sib of None \<Rightarrow> ZERO_MERKLE_HASH | Some s \<Rightarrow> s)"
  have c: "collect_siblings H (map (node_at H leaves h) [0..<2 ^ Suc m]) idx =
      s # collect_siblings H (map (node_at H leaves (Suc h)) [0..<2 ^ m]) (idx div 2)"
    using lt by (subst collect_siblings.simps) (simp add: Let_def next_level_power s_def sib_def [symmetric] del: upt_Suc power_Suc)
  have n: "node_at H leaves (Suc h) (idx div 2) = Some (if even idx then merkle_hash_from_node H v s else merkle_hash_from_node H s v)"
  proof (cases "even idx")
    case True
    then show ?thesis using Suc(3) by (auto simp: node_at.simps(2) parent_node_def s_def sib_def)
  next
    case False
    then obtain l where "node_at H leaves h sib = Some l" using node_at_left [of H leaves h idx sib] Suc(3) by (auto simp: sib_def)
    then show ?thesis using Suc(3) False by (auto simp: node_at.simps(2) parent_node_def s_def sib_def elim!: oddE)
  qed
  have "idx div 2 < 2 ^ m" using Suc(2) by simp
  from Suc(1) [OF this n] show ?case unfolding c by simp
qed (simp add: collect_siblings.simps)

section \<open>Soundness\<close>

text \<open>The byte strings that the root and a verification hash: those of the leaf pairs and of the node pairs below the
  root, and those of the walk up the tree.\<close>

definition root_strings :: "(bytes \<Rightarrow> merkle_hash) \<Rightarrow> hash list \<Rightarrow> bytes set" where
  "root_strings H leaves = {as_bytes (leaf_at leaves (2 * k)) @ as_bytes (leaf_at leaves (2 * k + 1)) | k. 2 * k < length leaves} \<union>
     {mh_bytes l @ mh_bytes (case node_at H leaves h (2 * k + 1) of None \<Rightarrow> ZERO_MERKLE_HASH | Some r \<Rightarrow> r) | h k l.
       2 ^ (h + 2) \<le> next_power_of_two (length leaves) \<and> node_at H leaves h (2 * k) = Some l}"

fun walk_strings :: "(bytes \<Rightarrow> merkle_hash) \<Rightarrow> nat \<Rightarrow> merkle_hash \<Rightarrow> merkle_hash list \<Rightarrow> bytes set" where
  "walk_strings H idx acc [] = {}"
| "walk_strings H idx acc (s # ss) = insert (if even idx then mh_bytes acc @ mh_bytes s else mh_bytes s @ mh_bytes acc)
     (walk_strings H (idx div 2) (if even idx then merkle_hash_from_node H acc s else merkle_hash_from_node H s acc) ss)"

definition leaf_string :: "tx_merkle_proof \<Rightarrow> bytes" where
  "leaf_string p = (if even (unat (proof_position p)) then as_bytes (proof_tx_id p) @ as_bytes (leaf_sibling p)
     else as_bytes (leaf_sibling p) @ as_bytes (proof_tx_id p))"

definition proof_strings :: "(bytes \<Rightarrow> merkle_hash) \<Rightarrow> tx_merkle_proof \<Rightarrow> bytes set" where
  "proof_strings H p = insert (leaf_string p) (walk_strings H (unat (proof_position p) div 2) (H (leaf_string p)) (node_siblings p))"

lemma walk_up_snoc:
  "walk_up H idx acc (ss @ [s]) = (let a = walk_up H idx acc ss in
     if even (idx div 2 ^ length ss) then merkle_hash_from_node H a s else merkle_hash_from_node H s a)"
  by (induction ss arbitrary: idx acc) (simp_all add: div_mult2_eq)

lemma walk_strings_snoc:
  "walk_strings H idx acc (ss @ [s]) = insert (let a = walk_up H idx acc ss in
     if even (idx div 2 ^ length ss) then mh_bytes a @ mh_bytes s else mh_bytes s @ mh_bytes a) (walk_strings H idx acc ss)"
  by (induction ss arbitrary: idx acc) (auto simp add: div_mult2_eq)

text \<open>What the hash function must satisfy on the strings that a root and a verification hash.\<close>

definition merkle_hash_ok :: "(bytes \<Rightarrow> merkle_hash) \<Rightarrow> bytes set \<Rightarrow> bool" where
  "merkle_hash_ok H S \<longleftrightarrow> (\<forall>x. length (mh_bytes (H x)) = MERKLE_HASH_SIZE) \<and> inj_on H S \<and> ZERO_MERKLE_HASH \<notin> H ` S"

lemma merkle_hash_okD:
  assumes "merkle_hash_ok H S"
  shows "length (mh_bytes (H x)) = 48" "x \<in> S \<Longrightarrow> y \<in> S \<Longrightarrow> H x = H y \<Longrightarrow> x = y" "x \<in> S \<Longrightarrow> H x \<noteq> ZERO_MERKLE_HASH"
  using assms by (auto simp: merkle_hash_ok_def MERKLE_HASH_SIZE_def inj_on_def image_iff)

definition pair_string :: "hash list \<Rightarrow> nat \<Rightarrow> bytes" where
  "pair_string leaves k = as_bytes (leaf_at leaves (2 * k)) @ as_bytes (leaf_at leaves (2 * k + 1))"

lemma node_at_leaf: "node_at H leaves 0 k = Some v \<Longrightarrow> v = H (pair_string leaves k) \<and> 2 * k < length leaves \<and> pair_string leaves k \<in> root_strings H leaves"
  by (auto simp: merkle_hash_from_tx_def pair_string_def leaf_at_def root_strings_def split: if_splits)

lemma node_at_inner:
  assumes "node_at H leaves (Suc h) k = Some v" "2 ^ (h + 2) \<le> next_power_of_two (length leaves)"
  obtains l r where "node_at H leaves h (2 * k) = Some l" "r = (case node_at H leaves h (2 * k + 1) of None \<Rightarrow> ZERO_MERKLE_HASH | Some r \<Rightarrow> r)"
    "v = H (mh_bytes l @ mh_bytes r)" "mh_bytes l @ mh_bytes r \<in> root_strings H leaves"
  using assms by (fastforce simp: node_at.simps(2) parent_node_def merkle_hash_from_node_def root_strings_def split: option.splits)

lemma node_at_is_hash: "node_at H leaves h k = Some v \<Longrightarrow> \<exists>x. v = H x"
  by (cases h) (auto simp: node_at.simps(2) parent_node_def merkle_hash_from_tx_def merkle_hash_from_node_def split: if_splits option.splits)

lemma walk_up_is_hash: "L \<in> S \<Longrightarrow> walk_strings H idx (H L) ss \<subseteq> S \<Longrightarrow> \<exists>x\<in>S. walk_up H idx (H L) ss = H x"
  by (cases ss rule: rev_cases) (auto simp: walk_up_snoc walk_strings_snoc Let_def merkle_hash_from_node_def split: if_splits)

lemma mod_power_Suc: "idx mod 2 ^ Suc h = idx mod 2 ^ h + (if even (idx div 2 ^ h) then 0 else 2 ^ h)" for idx :: nat
  by (simp only: power_Suc2 mod_mult2_eq) (simp add: even_iff_mod_2_eq_zero odd_iff_mod_2_eq_one)

lemma node_length:
  assumes "merkle_hash_ok H S"
  shows "node_at H leaves h k = Some l \<Longrightarrow> length (mh_bytes l) = 48"
    "length (mh_bytes (case node_at H leaves h k of None \<Rightarrow> ZERO_MERKLE_HASH | Some r \<Rightarrow> r)) = 48"
  using node_at_is_hash [of H leaves h k] merkle_hash_okD(1) [OF assms]
  by (auto simp: ZERO_MERKLE_HASH_def MERKLE_HASH_SIZE_def split: option.splits)

text \<open>The two children of an inner node, when its hash is that of another pair of the considered strings.\<close>

lemma node_children:
  assumes ok: "merkle_hash_ok H S" and S: "root_strings H leaves \<subseteq> S" "a @ b \<in> S"
    and "node_at H leaves (Suc h) k = Some (H (a @ b))" "length a = 48" "2 ^ (h + 2) \<le> next_power_of_two (length leaves)"
  shows "(\<exists>l. node_at H leaves h (2 * k) = Some l \<and> a = mh_bytes l) \<and>
    b = mh_bytes (case node_at H leaves h (2 * k + 1) of None \<Rightarrow> ZERO_MERKLE_HASH | Some r \<Rightarrow> r)"
proof -
  obtain l r where lr: "node_at H leaves h (2 * k) = Some l" "r = (case node_at H leaves h (2 * k + 1) of None \<Rightarrow> ZERO_MERKLE_HASH | Some r \<Rightarrow> r)"
    "H (a @ b) = H (mh_bytes l @ mh_bytes r)" "mh_bytes l @ mh_bytes r \<in> root_strings H leaves"
    using assms(4,6) by (rule node_at_inner)
  then have "a @ b = mh_bytes l @ mh_bytes r" using merkle_hash_okD(2) [OF ok S(2)] S(1) by blast
  then show ?thesis using lr assms(5) node_length(1) [OF ok lr(1)] by (simp add: append_eq_append_conv)
qed

lemma node_child_of_walk:
  fixes up :: bool
  defines "str a s \<equiv> if up then mh_bytes a @ mh_bytes s else mh_bytes s @ mh_bytes a"
  assumes ok: "merkle_hash_ok H S" and S: "root_strings H leaves \<subseteq> S" "str a s \<in> S"
    and v: "node_at H leaves (Suc h) k = Some (H (str a s))" and l: "length (mh_bytes a) = 48" "a \<noteq> ZERO_MERKLE_HASH" "length (mh_bytes s) = 48"
    and d: "2 ^ (h + 2) \<le> next_power_of_two (length leaves)"
  shows "node_at H leaves h (if up then 2 * k else 2 * k + 1) = Some a"
proof (cases up)
  case True
  then show ?thesis using node_children [OF ok S(1), of "mh_bytes a" "mh_bytes s" h k] v S(2) l(1) d
    by (auto simp: str_def merkle_hash.expand)
next
  case False
  then have "mh_bytes a = mh_bytes (case node_at H leaves h (2 * k + 1) of None \<Rightarrow> ZERO_MERKLE_HASH | Some r \<Rightarrow> r)"
    using node_children [OF ok S(1), of "mh_bytes s" "mh_bytes a" h k] v S(2) l(3) d by (simp add: str_def)
  then have "a = (case node_at H leaves h (2 * k + 1) of None \<Rightarrow> ZERO_MERKLE_HASH | Some r \<Rightarrow> r)" by (rule merkle_hash.expand)
  then show ?thesis using l(2) False by (simp split: option.splits)
qed

lemma walk_sound:
  assumes ok: "merkle_hash_ok H S" and S: "root_strings H leaves \<subseteq> S" "L \<in> S" "length L = 64"
    and "walk_strings H idx (H L) ss \<subseteq> S" "\<forall>s\<in>set ss. length (mh_bytes s) = 48"
    and "node_at H leaves h k = Some (walk_up H idx (H L) ss)" "h = 0 \<or> 2 ^ (h + 1) \<le> next_power_of_two (length leaves)"
    and "\<forall>k. length (pair_string leaves k) = 64"
  shows "length ss = h \<and> 2 * (k * 2 ^ h + idx mod 2 ^ h) < length leaves \<and> L = pair_string leaves (k * 2 ^ h + idx mod 2 ^ h)"
  using assms(5-8)
proof (induction ss arbitrary: h k rule: rev_induct)
  case Nil
  show ?case
  proof (cases h)
    case 0
    then have n: "H L = H (pair_string leaves k)" "2 * k < length leaves" "pair_string leaves k \<in> root_strings H leaves"
      using Nil(3) node_at_leaf [of H leaves k "H L"] by (simp_all only: walk_up.simps)
    then have "L = pair_string leaves k" using merkle_hash_okD(2) [OF ok S(2)] S(1) by blast
    then show ?thesis using 0 n by simp
  next
    case (Suc h')
    then have "node_at H leaves (Suc h') k = Some (H (take 48 L @ drop 48 L))" using Nil by simp
    then have "drop 48 L = mh_bytes (case node_at H leaves h' (2 * k + 1) of None \<Rightarrow> ZERO_MERKLE_HASH | Some r \<Rightarrow> r)"
      using node_children [OF ok S(1), of "take 48 L" "drop 48 L" h' k] S(2,3) Nil(4) Suc by simp
    then have "length (drop 48 L) = 48" using node_length(2) [OF ok] by metis
    then show ?thesis using S(3) by simp
  qed
next
  case (snoc s ss)
  define a where "a = walk_up H idx (H L) ss"
  define str where "str = (if even (idx div 2 ^ length ss) then mh_bytes a @ mh_bytes s else mh_bytes s @ mh_bytes a)"
  have sub: "walk_strings H idx (H L) ss \<subseteq> S" "str \<in> S" "length (mh_bytes s) = 48" "\<forall>s\<in>set ss. length (mh_bytes s) = 48"
    using snoc(2,3) by (auto simp: walk_strings_snoc a_def str_def Let_def)
  obtain x where x: "x \<in> S" "a = H x" using walk_up_is_hash [OF S(2) sub(1)] by (auto simp: a_def)
  then have la: "length (mh_bytes a) = 48" "a \<noteq> ZERO_MERKLE_HASH" using merkle_hash_okD [OF ok] by auto
  have v: "node_at H leaves h k = Some (H str)" using snoc(4) by (auto simp: walk_up_snoc a_def str_def Let_def merkle_hash_from_node_def split: if_splits)
  obtain h' where h: "h = Suc h'"
  proof (cases h)
    case 0
    then have "H str = H (pair_string leaves k)" "pair_string leaves k \<in> root_strings H leaves"
      using v node_at_leaf [of H leaves k "H str"] by simp_all
    then have "str = pair_string leaves k" using merkle_hash_okD(2) [OF ok sub(2)] S(1) by blast
    then have "length str = 64" using assms(9) by simp
    then show ?thesis using sub(3) la(1) by (simp add: str_def split: if_splits)
  qed
  define j where "j = (if even (idx div 2 ^ length ss) then 2 * k else 2 * k + 1)"
  have "node_at H leaves h' j = Some a"
    unfolding j_def using node_child_of_walk [OF ok S(1), of "even (idx div 2 ^ length ss)" a s h' k] v sub(2,3) la snoc(5) by (simp add: h str_def)
  from snoc(1) [OF sub(1,4) this [unfolded a_def]] snoc(5) h
  have "length ss = h'" "2 * (j * 2 ^ h' + idx mod 2 ^ h') < length leaves" "L = pair_string leaves (j * 2 ^ h' + idx mod 2 ^ h')" by simp_all
  moreover have "k * 2 ^ h + idx mod 2 ^ h = j * 2 ^ h' + idx mod 2 ^ h'"
    using mod_power_Suc [of idx h'] \<open>length ss = h'\<close> by (simp add: h j_def algebra_simps)
  ultimately show ?case by (simp add: h)
qed

section \<open>Properties\<close>

lemma length_collect_siblings: "length (collect_siblings H (map (node_at H leaves h) [0..<2 ^ m]) idx) = m"
proof (induction m arbitrary: h idx)
  case (Suc m)
  have "1 < (2 :: nat) ^ Suc m" by (rule one_less_power) simp_all
  then show ?case using Suc [of "Suc h"] by (subst collect_siblings.simps) (simp add: Let_def next_level_power del: upt_Suc power_Suc)
qed (simp add: collect_siblings.simps)

lemma root_is_node_depth:
  "leaves \<noteq> [] \<Longrightarrow> \<exists>m. node_at H leaves m 0 = Some (calc_merkle_root H leaves) \<and> (m = 0 \<or> 2 ^ (m + 1) \<le> next_power_of_two (length leaves))"
proof (cases "length leaves = 1")
  case True
  then show ?thesis by (intro exI [of _ 0]) (auto simp: calc_merkle_root_def leaf_at_def)
next
  case False
  assume "leaves \<noteq> []"
  then have "1 < length leaves" using False by (cases leaves) auto
  then obtain m where m: "next_power_of_two (length leaves) = 2 ^ Suc m" by (rule tree_height)
  then show ?thesis using calc_merkle_root_node [OF \<open>1 < length leaves\<close> m, of H] by (intro exI [of _ m]) simp
qed

text \<open>
  C19: Inclusion proofs are complete: for every position of a transaction list, \<open>build_merkle_proof\<close> returns a proof for
  the transaction at that position, \<open>verify_merkle_proof\<close> accepts it against the root of the list, and it has one
  sibling per inner level of the tree. Positions out of range give no proof.
\<close>

theorem merkle_proof_complete:
  "(unat position < length tx_ids \<longrightarrow> (\<exists>p. build_merkle_proof H tx_ids position block_hash = Some p \<and>
      proof_tx_id p = tx_ids ! unat position \<and> proof_position p = position \<and> verify_merkle_proof H p (calc_merkle_root H tx_ids) \<and>
      (1 < length tx_ids \<longrightarrow> 2 ^ length (node_siblings p) < length tx_ids \<and> length tx_ids \<le> 2 ^ (length (node_siblings p) + 1)))) \<and>
   (length tx_ids \<le> unat position \<longrightarrow> build_merkle_proof H tx_ids position block_hash = None)"
proof (intro conjI impI)
  let ?pos = "unat position"
  assume pos: "?pos < length tx_ids"
  show "\<exists>p. build_merkle_proof H tx_ids position block_hash = Some p \<and>
      proof_tx_id p = tx_ids ! unat position \<and> proof_position p = position \<and> verify_merkle_proof H p (calc_merkle_root H tx_ids) \<and>
      (1 < length tx_ids \<longrightarrow> 2 ^ length (node_siblings p) < length tx_ids \<and> length tx_ids \<le> 2 ^ (length (node_siblings p) + 1))"
  proof (cases "length tx_ids = 1")
    case True
    then show ?thesis using pos by (auto simp: build_merkle_proof_def verify_merkle_proof_def calc_merkle_root_def Let_def)
  next
    case False
    then have "1 < length tx_ids" using pos by linarith
    then obtain m where m: "next_power_of_two (length tx_ids) = 2 ^ Suc m" "length tx_ids \<le> 2 ^ Suc m" "2 ^ m < length tx_ids" by (rule tree_height)
    define v where "v = (if even ?pos then merkle_hash_from_tx H (tx_ids ! ?pos) (leaf_at tx_ids (?pos + 1)) else merkle_hash_from_tx H (tx_ids ! (?pos - 1)) (tx_ids ! ?pos))"
    have "node_at H tx_ids 0 (?pos div 2) = Some v" using pos by (auto simp: v_def leaf_at_def elim!: oddE evenE)
    moreover have "?pos div 2 < 2 ^ m" using pos m(2) by simp
    ultimately have "walk_up H (?pos div 2) v (collect_siblings H (leaf_nodes H tx_ids) (?pos div 2)) = calc_merkle_root H tx_ids"
      using walk_up_siblings [of "?pos div 2" m H tx_ids 0 v] calc_merkle_root_node [OF \<open>1 < length tx_ids\<close> m(1), of H]
      by (simp add: leaf_nodes_power [OF m(1)])
    then show ?thesis using pos \<open>1 < length tx_ids\<close> m(2,3)
      by (auto simp: build_merkle_proof_def verify_merkle_proof_def Let_def v_def leaf_nodes_power [OF m(1)] length_collect_siblings)
  qed
qed (auto simp: build_merkle_proof_def Let_def)

definition ex_ids :: "hash list" where
  "ex_ids = [Hash (replicate 32 1), Hash (replicate 32 2), Hash (replicate 32 3), Hash (replicate 32 4)]"

definition ex_branch_hash :: "bytes \<Rightarrow> merkle_hash" where
  "ex_branch_hash x = MerkleHash (of_nat (length x) # take 47 (x @ replicate 47 0))"

theorem merkle_proof_complete_witness:
  "(\<exists>p. build_merkle_proof ex_branch_hash ex_ids 2 ZERO_HASH = Some p \<and> proof_tx_id p = Hash (replicate 32 3) \<and>
     verify_merkle_proof ex_branch_hash p (calc_merkle_root ex_branch_hash ex_ids)) \<and> build_merkle_proof ex_branch_hash ex_ids 4 ZERO_HASH = None"
  using merkle_proof_complete [of 2 ex_ids ex_branch_hash ZERO_HASH] merkle_proof_complete [of 4 ex_ids ex_branch_hash ZERO_HASH]
  by (auto simp: ex_ids_def)

text \<open>
  C18: Inclusion proofs are sound: if a proof whose hashes have the right sizes verifies against the root of a list, then
  its transaction is the one of the list at the position it states, reduced by the number of siblings, or the zero hash
  that pads an odd list; this holds for proofs of any number of siblings. The hash function is only assumed not to
  collide on, or map to the zero hash, the strings that the root and the verification hash.
\<close>

theorem merkle_proof_sound:
  assumes "tx_ids \<noteq> []" "\<forall>x\<in>set tx_ids. hash_wf x" "hash_wf (proof_tx_id p)" "hash_wf (leaf_sibling p)"
    and "\<forall>s\<in>set (node_siblings p). length (mh_bytes s) = MERKLE_HASH_SIZE"
    and "merkle_hash_ok H (root_strings H tx_ids \<union> proof_strings H p)"
    and "verify_merkle_proof H p (calc_merkle_root H tx_ids)"
  defines "i \<equiv> unat (proof_position p) mod 2 ^ (length (node_siblings p) + 1)"
  shows "i < length tx_ids \<and> proof_tx_id p = tx_ids ! i \<or> i = length tx_ids \<and> proof_tx_id p = ZERO_HASH"
proof -
  let ?pos = "unat (proof_position p)" and ?S = "root_strings H tx_ids \<union> proof_strings H p"
  obtain m where m: "node_at H tx_ids m 0 = Some (calc_merkle_root H tx_ids)" "m = 0 \<or> 2 ^ (m + 1) \<le> next_power_of_two (length tx_ids)"
    using root_is_node_depth [OF assms(1)] by blast
  have lw: "length (as_bytes (leaf_at tx_ids k)) = 32" for k
    using assms(2) by (simp add: leaf_at_def ZERO_HASH_def HASH_SIZE_def hash_wf_def)
  have L: "length (leaf_string p) = 64" using assms(3,4) by (simp add: leaf_string_def hash_wf_def HASH_SIZE_def)
  have "walk_up H (?pos div 2) (H (leaf_string p)) (node_siblings p) = calc_merkle_root H tx_ids"
    using assms(7) by (auto simp: verify_merkle_proof_def leaf_string_def merkle_hash_from_tx_def Let_def split: if_splits)
  then have w: "length (node_siblings p) = m \<and> 2 * (?pos div 2 mod 2 ^ m) < length tx_ids \<and> leaf_string p = pair_string tx_ids (?pos div 2 mod 2 ^ m)"
    using walk_sound [OF assms(6) Un_upper1 _ L, of "?pos div 2" "node_siblings p" m 0] m assms(5)
    by (simp add: proof_strings_def pair_string_def lw MERKLE_HASH_SIZE_def subset_iff)
  define k where "k = ?pos div 2 mod 2 ^ m"
  have i: "i = 2 * k + ?pos mod 2" using w mod_mult2_eq [of ?pos 2 "2 ^ m"] by (simp add: i_def k_def)
  have e: "leaf_string p = as_bytes (leaf_at tx_ids (2 * k)) @ as_bytes (leaf_at tx_ids (2 * k + 1))" "2 * k < length tx_ids"
    using w by (simp_all add: k_def pair_string_def)
  have "proof_tx_id p = leaf_at tx_ids i"
    using e(1) lw [of "2 * k"] lw [of "2 * k + 1"] assms(3,4)
    by (cases "even ?pos") (auto simp: i leaf_string_def hash_wf_def HASH_SIZE_def hash.expand even_iff_mod_2_eq_zero odd_iff_mod_2_eq_one)
  then show ?thesis using e(2) i by (cases "even ?pos") (auto simp: leaf_at_def odd_iff_mod_2_eq_one)
qed

lemma ex_ids_power: "next_power_of_two (length ex_ids) = 4"
  by (simp add: ex_ids_def next_power_of_two_def next_power_from.simps)

definition ex_proof :: tx_merkle_proof where
  "ex_proof = \<lparr>proof_tx_id = Hash (replicate 32 3), proof_block_hash = ZERO_HASH, leaf_sibling = Hash (replicate 32 4),
     node_siblings = [ex_branch_hash (replicate 32 1 @ replicate 32 2)], proof_position = 2\<rparr>"

definition ex_root_string :: bytes where
  "ex_root_string = mh_bytes (ex_branch_hash (replicate 32 1 @ replicate 32 2)) @ mh_bytes (ex_branch_hash (replicate 32 3 @ replicate 32 4))"

lemma ex_node_0:
  "node_at ex_branch_hash ex_ids 0 0 = Some (ex_branch_hash (replicate 32 1 @ replicate 32 2))"
  "node_at ex_branch_hash ex_ids 0 1 = Some (ex_branch_hash (replicate 32 3 @ replicate 32 4))"
  by (simp_all add: ex_ids_def leaf_at_def merkle_hash_from_tx_def)

lemma ex_strings_merkle:
  "root_strings ex_branch_hash ex_ids \<union> proof_strings ex_branch_hash ex_proof \<subseteq>
    {replicate 32 1 @ replicate 32 2, replicate 32 3 @ replicate 32 4, ex_root_string}" (is "_ \<subseteq> ?S")
proof -
  have "as_bytes (leaf_at ex_ids (2 * k)) @ as_bytes (leaf_at ex_ids (2 * k + 1)) \<in> ?S" if "2 * k < length ex_ids" for k
  proof -
    have "k = 0 \<or> k = 1" using that by (auto simp: ex_ids_def)
    then show ?thesis by (auto simp: leaf_at_def ex_ids_def)
  qed
  moreover have "mh_bytes l @ mh_bytes (case node_at ex_branch_hash ex_ids h (2 * k + 1) of None \<Rightarrow> ZERO_MERKLE_HASH | Some r \<Rightarrow> r) \<in> ?S"
    if "2 ^ (h + 2) \<le> next_power_of_two (length ex_ids)" "node_at ex_branch_hash ex_ids h (2 * k) = Some l" for h k l
  proof -
    have "(2 :: nat) ^ (h + 2) \<le> 2 ^ 2" using that(1) by (simp add: ex_ids_power)
    then have h: "h = 0" by (subst (asm) power_increasing_iff) simp_all
    then have "k = 0" using that(2) node_at_present [of ex_branch_hash ex_ids 0 "2 * k"] by (simp add: ex_ids_def)
    then show ?thesis using that(2) ex_node_0 by (simp add: h ex_root_string_def)
  qed
  ultimately have "root_strings ex_branch_hash ex_ids \<subseteq> ?S" unfolding root_strings_def by blast
  then show ?thesis by (simp add: proof_strings_def ex_proof_def leaf_string_def ex_root_string_def)
qed

lemma merkle_hash_ok_mono: "merkle_hash_ok H S \<Longrightarrow> T \<subseteq> S \<Longrightarrow> merkle_hash_ok H T"
  by (auto simp: merkle_hash_ok_def intro: inj_on_subset)

lemma ex_branch_key:
  "length (mh_bytes (ex_branch_hash x)) = 48" "mh_bytes (ex_branch_hash x) ! 0 = of_nat (length x)"
  "mh_bytes (ex_branch_hash x) ! Suc 0 = (x @ replicate 47 0) ! 0"
  by (simp_all add: ex_branch_hash_def del: take_append)

definition ex_mkey :: "bytes \<Rightarrow> u8 \<times> u8" where
  "ex_mkey x = (mh_bytes (ex_branch_hash x) ! 0, mh_bytes (ex_branch_hash x) ! Suc 0)"

lemma merkle_hash_ok_by_key:
  assumes "\<And>x. length (mh_bytes (H x)) = 48" and "inj_on (\<lambda>x. (mh_bytes (H x) ! 0, mh_bytes (H x) ! Suc 0)) S" and "\<And>x. x \<in> S \<Longrightarrow> mh_bytes (H x) ! 0 \<noteq> 0"
  shows "merkle_hash_ok H S"
  unfolding merkle_hash_ok_def
proof (intro conjI allI)
  show "inj_on H S" using assms(2) by (auto simp: inj_on_def)
  show "ZERO_MERKLE_HASH \<notin> H ` S"
  proof (rule notI, erule imageE)
    fix x assume "ZERO_MERKLE_HASH = H x" "x \<in> S"
    then show False using assms(3) [of x] by (simp add: ZERO_MERKLE_HASH_def MERKLE_HASH_SIZE_def flip: \<open>ZERO_MERKLE_HASH = H x\<close>)
  qed
qed (simp add: assms(1) MERKLE_HASH_SIZE_def)

lemma ex_hash_ok: "merkle_hash_ok ex_branch_hash {replicate 32 1 @ replicate 32 2, replicate 32 3 @ replicate 32 4, ex_root_string}"
proof -
  define x where "x = replicate 32 (1 :: u8) @ replicate 32 2"
  define y where "y = replicate 32 (3 :: u8) @ replicate 32 4"
  have k: "ex_mkey x = (64, 1)" "ex_mkey y = (64, 3)" "ex_mkey ex_root_string = (96, 64)"
    by (simp_all add: x_def y_def ex_mkey_def ex_branch_key ex_root_string_def nth_append)
  have "merkle_hash_ok ex_branch_hash {x, y, ex_root_string}"
  proof (rule merkle_hash_ok_by_key)
    show "inj_on (\<lambda>x. (mh_bytes (ex_branch_hash x) ! 0, mh_bytes (ex_branch_hash x) ! Suc 0)) {x, y, ex_root_string}"
      unfolding ex_mkey_def [symmetric] by (auto simp: inj_on_def k)
    show "mh_bytes (ex_branch_hash s) ! 0 \<noteq> 0" if "s \<in> {x, y, ex_root_string}" for s
      using that k by (auto simp: ex_mkey_def)
  qed (simp add: ex_branch_key)
  then show ?thesis by (simp only: x_def y_def)
qed

lemma ex_root: "calc_merkle_root ex_branch_hash ex_ids = ex_branch_hash ex_root_string"
proof -
  have "node_at ex_branch_hash ex_ids (Suc 0) 0 = Some (calc_merkle_root ex_branch_hash ex_ids)"
    by (rule calc_merkle_root_node) (simp_all add: ex_ids_power, simp add: ex_ids_def)
  moreover have "node_at ex_branch_hash ex_ids (Suc 0) 0 = parent_node ex_branch_hash (node_at ex_branch_hash ex_ids 0 0) (node_at ex_branch_hash ex_ids 0 1)"
    by (simp only: node_at.simps(2)) simp
  ultimately show ?thesis unfolding ex_node_0 by (simp add: parent_node_def merkle_hash_from_node_def ex_root_string_def)
qed

theorem merkle_proof_sound_witness:
  "verify_merkle_proof ex_branch_hash ex_proof (calc_merkle_root ex_branch_hash ex_ids) \<and> proof_tx_id ex_proof = ex_ids ! 2"
proof -
  have v: "verify_merkle_proof ex_branch_hash ex_proof (calc_merkle_root ex_branch_hash ex_ids)"
    by (simp add: verify_merkle_proof_def ex_proof_def ex_root merkle_hash_from_tx_def merkle_hash_from_node_def ex_root_string_def)
  moreover have "merkle_hash_ok ex_branch_hash (root_strings ex_branch_hash ex_ids \<union> proof_strings ex_branch_hash ex_proof)"
    by (rule merkle_hash_ok_mono [OF ex_hash_ok ex_strings_merkle])
  ultimately show ?thesis using merkle_proof_sound [of ex_ids ex_proof ex_branch_hash]
    by (simp add: ex_ids_def ex_proof_def hash_wf_def HASH_SIZE_def ex_branch_key MERKLE_HASH_SIZE_def)
qed

text \<open>
  Verification ignores the high bits of the position: a proof that verifies keeps verifying when its position changes
  by a multiple of two to the number of levels, so the position is not authenticated beyond the height of the tree.
\<close>

theorem merkle_position_high_bits:
  assumes "unat position' mod 2 ^ (length (node_siblings p) + 1) = unat (proof_position p) mod 2 ^ (length (node_siblings p) + 1)"
  shows "verify_merkle_proof H (p\<lparr>proof_position := position'\<rparr>) root = verify_merkle_proof H p root"
proof -
  have m: "i mod 2 ^ Suc n = 2 * (i div 2 mod 2 ^ n) + i mod 2" for i n :: nat using mod_mult2_eq [of i 2 "2 ^ n"] by simp
  have halves: "i mod 2 = j mod 2 \<and> i div 2 mod 2 ^ n = j div 2 mod 2 ^ n" if "i mod 2 ^ Suc n = j mod 2 ^ Suc n" for i j n :: nat
  proof -
    have lt: "a = b \<and> c = d" if "2 * c + a = 2 * d + b" "a < 2" "b < 2" for a b c d :: nat using that by presburger
    show ?thesis using lt [of "i div 2 mod 2 ^ n" "i mod 2" "j div 2 mod 2 ^ n" "j mod 2"] that unfolding m by simp
  qed
  have w: "walk_up H i acc ss = walk_up H j acc ss" if "i mod 2 ^ length ss = j mod 2 ^ length ss" for i j acc ss
    using that
  proof (induction ss arbitrary: i j acc)
    case (Cons s ss)
    note h = halves [OF Cons(2) [unfolded length_Cons]]
    then have e: "even i = even j" by (simp add: even_iff_mod_2_eq_zero)
    show ?case unfolding walk_up.simps e by (rule Cons(1) [OF conjunct2 [OF h]])
  qed simp
  have h: "even (unat position') = even (unat (proof_position p))"
      "unat position' div 2 mod 2 ^ length (node_siblings p) = unat (proof_position p) div 2 mod 2 ^ length (node_siblings p)"
    using halves [OF assms [folded Suc_eq_plus1]] by (simp_all only: even_iff_mod_2_eq_zero)
  show ?thesis using w [OF h(2)] by (simp add: verify_merkle_proof_def Let_def h(1))
qed

theorem merkle_position_high_bits_witness:
  "verify_merkle_proof ex_branch_hash (ex_proof\<lparr>proof_position := 6\<rparr>) (ex_branch_hash ex_root_string)"
proof -
  have "verify_merkle_proof ex_branch_hash ex_proof (ex_branch_hash ex_root_string)"
    by (simp add: verify_merkle_proof_def ex_proof_def merkle_hash_from_tx_def merkle_hash_from_node_def ex_root_string_def)
  then show ?thesis using merkle_position_high_bits [of 6 ex_proof ex_branch_hash "ex_branch_hash ex_root_string"] by (simp add: ex_proof_def)
qed

end
