(* ===== verification/Da.thy ===== *)
theory Da
  imports Tx
begin

text \<open>
  Data availability carriers (src/consensus/core/src/da/mod.rs and codec.rs): the parser of the header of a
  carrier script, the encoders of one script and of a fragmented bundle, and the reassembly of a bundle from its
  fragments. SHA3-384 is the parameter \<open>sha3\<close>.
\<close>

unbundle bit_operations_syntax

section \<open>Headers\<close>

definition CARRIER_MAGIC :: bytes where "CARRIER_MAGIC = [0x53, 0x50, 0x48, 0x53, 0x2d, 0x44, 0x41, 0x31]"
definition CARRIER_HEADER_LEN :: nat where "CARRIER_HEADER_LEN = 64"
definition CARRIER_PAYLOAD_HASH_LEN :: nat where "CARRIER_PAYLOAD_HASH_LEN = 48"
definition MAX_FRAGMENTS :: u8 where "MAX_FRAGMENTS = 32"
definition MAX_DATA_PER_CARRIER :: u32 where "MAX_DATA_PER_CARRIER = 65536"
definition MAX_CARRIER_OUTPUTS_PER_TX :: nat where "MAX_CARRIER_OUTPUTS_PER_TX = 8"
definition CARRIER_FLAG_FRAGMENTED :: u8 where "CARRIER_FLAG_FRAGMENTED = 0x01"
definition CARRIER_FLAG_LAST :: u8 where "CARRIER_FLAG_LAST = 0x02"
definition CARRIER_FLAG_DOMAIN_ROLLUP :: u8 where "CARRIER_FLAG_DOMAIN_ROLLUP = 0x10"
definition CARRIER_FLAG_DOMAIN_ORACLE :: u8 where "CARRIER_FLAG_DOMAIN_ORACLE = 0x20"
definition CARRIER_FLAG_DOMAIN_USER :: u8 where "CARRIER_FLAG_DOMAIN_USER = 0x40"
definition RESERVED_FLAG_MASK :: u8 where "RESERVED_FLAG_MASK = 0b10001100"
definition DOMAIN_FLAG_MASK :: u8 where
  "DOMAIN_FLAG_MASK = CARRIER_FLAG_DOMAIN_ROLLUP OR CARRIER_FLAG_DOMAIN_ORACLE OR CARRIER_FLAG_DOMAIN_USER"

lemmas carrier_constants = CARRIER_MAGIC_def CARRIER_HEADER_LEN_def CARRIER_PAYLOAD_HASH_LEN_def MAX_FRAGMENTS_def
  MAX_DATA_PER_CARRIER_def
lemmas flag_defs = CARRIER_FLAG_FRAGMENTED_def CARRIER_FLAG_LAST_def CARRIER_FLAG_DOMAIN_ROLLUP_def
  CARRIER_FLAG_DOMAIN_ORACLE_def CARRIER_FLAG_DOMAIN_USER_def RESERVED_FLAG_MASK_def DOMAIN_FLAG_MASK_def

record carrier_header =
  carrier_flags :: u8
  fragment_count :: u8
  fragment_index :: u8
  data_len :: u32
  bundle_id :: bytes

datatype carrier_domain = Rollup | Oracle | User

datatype carrier_error =
    CarrierHeaderTruncated nat
  | CarrierBadMagic
  | CarrierReserved1NonZero u8
  | ReservedFlagBitSet u8
  | MultipleDomainFlags u8
  | BadFragmentCount u8
  | FragmentIndexOutOfRange u8 u8
  | FragmentedFlagMismatch bool u8
  | LastFlagMismatch bool u8 u8
  | DataTooLarge u32
  | CarrierLengthMismatch nat nat

definition is_fragmented :: "carrier_header \<Rightarrow> bool" where
  "is_fragmented h \<longleftrightarrow> carrier_header.carrier_flags h AND CARRIER_FLAG_FRAGMENTED \<noteq> 0"

definition is_last :: "carrier_header \<Rightarrow> bool" where
  "is_last h \<longleftrightarrow> carrier_header.carrier_flags h AND CARRIER_FLAG_LAST \<noteq> 0"

definition header_domain :: "carrier_header \<Rightarrow> ('e, carrier_domain option) outcome" where
  "header_domain h = (let bits = carrier_header.carrier_flags h AND DOMAIN_FLAG_MASK in
     if bits = 0 then Ok None
     else if bits = CARRIER_FLAG_DOMAIN_ROLLUP then Ok (Some Rollup)
     else if bits = CARRIER_FLAG_DOMAIN_ORACLE then Ok (Some Oracle)
     else if bits = CARRIER_FLAG_DOMAIN_USER then Ok (Some User)
     else Panic)"

definition is_power_of_two :: "u8 \<Rightarrow> bool" where
  "is_power_of_two b \<longleftrightarrow> list_ex (\<lambda>i. b = push_bit i 1) [0..<8]"

definition parse_carrier_header :: "bytes \<Rightarrow> (carrier_error, carrier_header) outcome" where
  "parse_carrier_header script =
     then_do (ensure (\<not> length script < CARRIER_HEADER_LEN) (CarrierHeaderTruncated (length script))) (
     then_do (ensure (take 8 script = CARRIER_MAGIC) CarrierBadMagic) (
     let flags = script ! 8 in
     then_do (ensure (script ! 9 = 0) (CarrierReserved1NonZero (script ! 9))) (
     then_do (ensure (flags AND RESERVED_FLAG_MASK = 0) (ReservedFlagBitSet flags)) (
     let domain_bits = flags AND DOMAIN_FLAG_MASK in
     then_do (ensure (\<not> (domain_bits \<noteq> 0 \<and> \<not> is_power_of_two domain_bits)) (MultipleDomainFlags flags)) (
     let count = script ! 10; index = script ! 11 in
     then_do (ensure (\<not> (count = 0 \<or> MAX_FRAGMENTS < count)) (BadFragmentCount count)) (
     then_do (ensure (\<not> count \<le> index) (FragmentIndexOutOfRange index count)) (
     let frag_flag_set = (flags AND CARRIER_FLAG_FRAGMENTED \<noteq> 0) in
     then_do (ensure (frag_flag_set = (1 < count)) (FragmentedFlagMismatch frag_flag_set count)) (
     let last_flag_set = (flags AND CARRIER_FLAG_LAST \<noteq> 0) in
     obind (psub count 1) (\<lambda>last_index.
     then_do (ensure (last_flag_set = (index = last_index)) (LastFlagMismatch last_flag_set index count)) (
     let len = from_le_bytes (take 4 (drop 12 script)) in
     then_do (ensure (\<not> MAX_DATA_PER_CARRIER < len) (DataTooLarge len)) (
     let expected_len = CARRIER_HEADER_LEN + unat len in
     then_do (ensure (length script = expected_len) (CarrierLengthMismatch (length script) expected_len)) (
     Ok \<lparr>carrier_flags = flags, fragment_count = count, fragment_index = index, data_len = len,
       bundle_id = take CARRIER_PAYLOAD_HASH_LEN (drop 16 script)\<rparr>))))))))))))"

section \<open>Codec\<close>

definition payload_id :: "(bytes \<Rightarrow> bytes) \<Rightarrow> bytes \<Rightarrow> bytes" where
  "payload_id sha3 script = sha3 script"

definition bundle_id_of :: "(bytes \<Rightarrow> bytes) \<Rightarrow> bytes \<Rightarrow> bytes" where
  "bundle_id_of sha3 data_full = sha3 data_full"

definition encode_carrier_script :: "u8 \<Rightarrow> u8 \<Rightarrow> u8 \<Rightarrow> bytes \<Rightarrow> bytes \<Rightarrow> (carrier_error, bytes) outcome" where
  "encode_carrier_script flags count index data bid =
     then_do (ensure (\<not> (count = 0 \<or> MAX_FRAGMENTS < count)) (BadFragmentCount count)) (
     then_do (ensure (\<not> count \<le> index) (FragmentIndexOutOfRange index count)) (
     then_do (ensure (\<not> unat MAX_DATA_PER_CARRIER < length data) (DataTooLarge (of_nat (length data)))) (
     Ok (CARRIER_MAGIC @ [flags, 0, count, index] @ to_le_bytes 4 (of_nat (length data) :: u32) @ bid @ data))))"

definition domain_flag :: "carrier_domain option \<Rightarrow> u8" where
  "domain_flag domain = (case domain of None \<Rightarrow> 0 | Some Rollup \<Rightarrow> CARRIER_FLAG_DOMAIN_ROLLUP
     | Some Oracle \<Rightarrow> CARRIER_FLAG_DOMAIN_ORACLE | Some User \<Rightarrow> CARRIER_FLAG_DOMAIN_USER)"

definition encode_single_fragment :: "(bytes \<Rightarrow> bytes) \<Rightarrow> bytes \<Rightarrow> carrier_domain option \<Rightarrow> (carrier_error, bytes) outcome" where
  "encode_single_fragment sha3 data domain =
     encode_carrier_script (CARRIER_FLAG_LAST OR domain_flag domain) 1 0 data (bundle_id_of sha3 data)"

text \<open>A slice \<open>&xs[a..b]\<close>, which panics unless \<open>a \<le> b \<le> xs.len()\<close>.\<close>

definition slice_range :: "'a list \<Rightarrow> nat \<Rightarrow> nat \<Rightarrow> ('e, 'a list) outcome" where
  "slice_range xs a b = (if a \<le> b \<and> b \<le> length xs then Ok (take (b - a) (drop a xs)) else Panic)"

definition fragment_flags :: "carrier_domain option \<Rightarrow> nat \<Rightarrow> nat \<Rightarrow> u8" where
  "fragment_flags domain count i = (let flags = domain_flag domain;
     flags = (if 1 < count then flags OR CARRIER_FLAG_FRAGMENTED else flags)
     in if i = count - 1 then flags OR CARRIER_FLAG_LAST else flags)"

definition fragments_needed :: "nat \<Rightarrow> nat" where
  "fragments_needed n = (let chunk = unat MAX_DATA_PER_CARRIER in if n = 0 then 1 else (n + chunk - 1) div chunk)"

definition encode_bundle :: "(bytes \<Rightarrow> bytes) \<Rightarrow> bytes \<Rightarrow> carrier_domain option \<Rightarrow> (carrier_error, bytes list) outcome" where
  "encode_bundle sha3 blob domain = (let chunk = unat MAX_DATA_PER_CARRIER; blob_len = length blob; count = fragments_needed blob_len in
     then_do (ensure (\<not> unat MAX_FRAGMENTS < count) (DataTooLarge (of_nat blob_len))) (
     omap (\<lambda>i. obind (slice_range blob (i * chunk) (min (i * chunk + chunk) blob_len)) (\<lambda>part.
       encode_carrier_script (fragment_flags domain count i) (of_nat count) (of_nat i) part (bundle_id_of sha3 blob)))
       [0..<count]))"

datatype reassemble_error =
    NoFragments
  | FragmentCountMismatch u8 u8
  | BundleIdMismatch
  | MissingFragmentIndex u8
  | DuplicateFragmentIndex u8
  | SlotIndexOutOfRange u8 u8
  | FragmentDataOutOfRange u8
  | BundleHashMismatch

record reassemble_input =
  ri_header :: carrier_header
  ri_script :: bytes

definition same_bundle :: "u8 \<Rightarrow> bytes \<Rightarrow> reassemble_input \<Rightarrow> (reassemble_error, unit) outcome" where
  "same_bundle count bid input =
     then_do (ensure (fragment_count (ri_header input) = count) (FragmentCountMismatch count (fragment_count (ri_header input))))
       (ensure (bundle_id (ri_header input) = bid) BundleIdMismatch)"

definition fill_slot :: "u8 \<Rightarrow> reassemble_input \<Rightarrow> bytes option list \<Rightarrow> (reassemble_error, bytes option list) outcome" where
  "fill_slot count input slots = (let index = fragment_index (ri_header input); idx = unat index;
       data_end = CARRIER_HEADER_LEN + unat (data_len (ri_header input)) in
     then_do (ensure (\<not> unat count \<le> idx) (SlotIndexOutOfRange index count)) (
     then_do (ensure (slots ! idx = None) (DuplicateFragmentIndex index)) (
     then_do (ensure (\<not> length (ri_script input) < data_end) (FragmentDataOutOfRange index)) (
     obind (slice_range (ri_script input) CARRIER_HEADER_LEN data_end) (\<lambda>d. Ok (slots[idx := Some d]))))))"

definition reassemble :: "(bytes \<Rightarrow> bytes) \<Rightarrow> reassemble_input list \<Rightarrow> (reassemble_error, bytes) outcome" where
  "reassemble sha3 inputs = (case inputs of [] \<Rightarrow> Err NoFragments
     | first # rest \<Rightarrow> (let count = fragment_count (ri_header first); bid = bundle_id (ri_header first) in
       then_do (ocheck (\<lambda>_. same_bundle count bid) 0 rest) (
       obind (ofold (fill_slot count) inputs (replicate (unat count) None)) (\<lambda>slots.
       then_do (ocheck (\<lambda>i slot. ensure (slot \<noteq> None) (MissingFragmentIndex (of_nat i))) 0 slots) (
       obind (omap unwrap slots) (\<lambda>parts. let out = concat parts in
       then_do (ensure (bundle_id_of sha3 out = bid) BundleHashMismatch) (Ok out)))))))"

definition parse_and_reassemble :: "(bytes \<Rightarrow> bytes) \<Rightarrow> bytes list \<Rightarrow> (reassemble_error, bytes) outcome" where
  "parse_and_reassemble sha3 scripts =
     obind (omap (\<lambda>s. obind (map_err (\<lambda>_. BundleHashMismatch) (parse_carrier_header s))
       (\<lambda>h. Ok \<lparr>ri_header = h, ri_script = s\<rparr>)) scripts) (reassemble sha3)"

section \<open>Encoding one script\<close>

lemma unat_max_data [simp]: "unat MAX_DATA_PER_CARRIER = 65536"
  by (simp add: MAX_DATA_PER_CARRIER_def)

lemma unat_max_fragments [simp]: "unat MAX_FRAGMENTS = 32"
  by (simp add: MAX_FRAGMENTS_def)

lemma domain_flag_cases: "domain_flag d \<in> {0, 0x10, 0x20, 0x40}"
  by (cases d) (auto simp: domain_flag_def flag_defs split: carrier_domain.splits)

lemma fragment_flags_ok:
  "fragment_flags d n i AND RESERVED_FLAG_MASK = 0"
  "fragment_flags d n i AND DOMAIN_FLAG_MASK = domain_flag d"
  "fragment_flags d n i AND CARRIER_FLAG_FRAGMENTED \<noteq> 0 \<longleftrightarrow> 1 < n"
  "fragment_flags d n i AND CARRIER_FLAG_LAST \<noteq> 0 \<longleftrightarrow> i = n - 1"
  using domain_flag_cases [of d] by (auto simp: fragment_flags_def flag_defs Let_def)

lemma domain_flag_power: "domain_flag d \<noteq> 0 \<Longrightarrow> is_power_of_two (domain_flag d)"
  using domain_flag_cases [of d] by (auto simp: is_power_of_two_def upt_rec)

lemma small_of_nat: "n \<le> 32 \<Longrightarrow> unat (of_nat n :: u8) = n"
  by (simp add: unat_of_nat_small)

lemma encode_carrier_script_Ok:
  "\<lbrakk>0 < n; n \<le> 32; i < n; length data \<le> 65536\<rbrakk> \<Longrightarrow>
   encode_carrier_script flags (of_nat n) (of_nat i) data bid =
     Ok (CARRIER_MAGIC @ [flags, 0, of_nat n, of_nat i] @ to_le_bytes 4 (of_nat (length data) :: u32) @ bid @ data)"
  using small_of_nat [of n] small_of_nat [of i]
  by (auto simp: encode_carrier_script_def ensure_def word_less_nat_alt word_le_nat_alt unat_eq_zero [symmetric])

lemma parse_encoded:
  assumes n: "0 < n" "n \<le> 32" and i: "i < n" and d: "length data \<le> 65536" and b: "length bid = 48"
  shows "parse_carrier_header (CARRIER_MAGIC @ [fragment_flags domain n i, 0, of_nat n, of_nat i] @ to_le_bytes 4 (of_nat (length data) :: u32) @ bid @ data) =
    Ok \<lparr>carrier_flags = fragment_flags domain n i, fragment_count = of_nat n, fragment_index = of_nat i, data_len = of_nat (length data), bundle_id = bid\<rparr>"
    (is "parse_carrier_header ?s = _")
proof -
  have w: "unat (of_nat n :: u8) = n" "unat (of_nat i :: u8) = i" "unat (of_nat (length data) :: u32) = length data"
    using n i d by (simp_all add: unat_of_nat_small)
  have s: "length ?s = 64 + length data" "take 8 ?s = CARRIER_MAGIC" "?s ! 8 = fragment_flags domain n i" "?s ! 9 = 0"
      "?s ! 10 = of_nat n" "?s ! 11 = of_nat i" "take 4 (drop 12 ?s) = to_le_bytes 4 (of_nat (length data) :: u32)" "take 48 (drop 16 ?s) = bid"
    using b by (simp_all add: CARRIER_MAGIC_def nth_append nth_Cons')
  obtain m where m: "m = n - 1" "unat (of_nat m :: u8) = m" using n small_of_nat [of "n - 1"] by force
  have p: "psub (of_nat n) 1 = (Ok (of_nat m :: u8) :: (carrier_error, u8) outcome)"
    using n m by (simp add: psub_eq_Ok w(1))
  have l: "(of_nat i = (of_nat m :: u8)) \<longleftrightarrow> i = n - 1"
    by (simp add: word_unat_eq_iff w(2) m(2)) (simp add: m(1))
  have c: "of_nat n \<noteq> (0 :: u8)" "\<not> MAX_FRAGMENTS < of_nat n" "\<not> of_nat n \<le> (of_nat i :: u8)" "1 < (of_nat n :: u8) \<longleftrightarrow> 1 < n"
      "\<not> MAX_DATA_PER_CARRIER < of_nat (length data)"
    using w n i d by (auto simp: word_less_nat_alt word_le_nat_alt unat_eq_zero [symmetric] simp del: of_nat_0_less_iff)
  have f: "domain_flag domain = 0 \<or> is_power_of_two (domain_flag domain)" using domain_flag_power by blast
  define script where "script = ?s"
  note s = s [folded script_def]
  show ?thesis unfolding script_def [symmetric] using f
    by (auto simp: parse_carrier_header_def s Let_def c p l fragment_flags_ok w CARRIER_HEADER_LEN_def CARRIER_PAYLOAD_HASH_LEN_def ensure_def)
qed

section \<open>Bundles\<close>

lemma concat_chunks: "concat (map (\<lambda>i. take c (drop (i * c) xs)) [0..<n]) = take (n * c) xs"
proof (induction n)
  case (Suc n)
  have "take (Suc n * c) xs = take (n * c) xs @ take c (drop (n * c) xs)"
    by (simp add: take_add add.commute [of c])
  with Suc show ?case by simp
qed simp

lemma fragments_needed_pos: "0 < fragments_needed n"
  by (auto simp: fragments_needed_def Let_def div_greater_zero_iff)

lemma fragments_needed_covers: "n \<le> fragments_needed n * 65536" "i < fragments_needed n \<Longrightarrow> i * 65536 \<le> n"
  by (auto simp: fragments_needed_def Let_def split: if_splits)

lemma fragments_needed_le: "fragments_needed n \<le> 32 \<longleftrightarrow> n \<le> 2097152"
  by (auto simp: fragments_needed_def Let_def)

definition fragment_data :: "bytes \<Rightarrow> nat \<Rightarrow> bytes" where
  "fragment_data blob i = take 65536 (drop (i * 65536) blob)"

definition bundle_script :: "(bytes \<Rightarrow> bytes) \<Rightarrow> carrier_domain option \<Rightarrow> bytes \<Rightarrow> nat \<Rightarrow> bytes" where
  "bundle_script sha3 domain blob i = (let n = fragments_needed (length blob) in
     CARRIER_MAGIC @ [fragment_flags domain n i, 0, of_nat n, of_nat i] @ to_le_bytes 4 (of_nat (length (fragment_data blob i)) :: u32) @
     sha3 blob @ fragment_data blob i)"

definition bundle_header :: "(bytes \<Rightarrow> bytes) \<Rightarrow> carrier_domain option \<Rightarrow> bytes \<Rightarrow> nat \<Rightarrow> carrier_header" where
  "bundle_header sha3 domain blob i = (let n = fragments_needed (length blob) in
     \<lparr>carrier_flags = fragment_flags domain n i, fragment_count = of_nat n, fragment_index = of_nat i,
      data_len = of_nat (length (fragment_data blob i)), bundle_id = sha3 blob\<rparr>)"

lemma slice_fragment:
  "i < fragments_needed (length blob) \<Longrightarrow>
   slice_range blob (i * 65536) (min (i * 65536 + 65536) (length blob)) = Ok (fragment_data blob i)"
  using fragments_needed_covers(2) [of i "length blob"] by (auto simp: slice_range_def fragment_data_def min_def)

lemma encode_bundle_Ok:
  assumes "fragments_needed (length blob) \<le> 32"
  shows "encode_bundle sha3 blob domain = Ok (map (bundle_script sha3 domain blob) [0..<fragments_needed (length blob)])"
proof -
  have "omap (\<lambda>i. obind (slice_range blob (i * 65536) (min (i * 65536 + 65536) (length blob))) (\<lambda>part.
       encode_carrier_script (fragment_flags domain (fragments_needed (length blob)) i) (of_nat (fragments_needed (length blob))) (of_nat i) part
         (bundle_id_of sha3 blob))) [0..<fragments_needed (length blob)] = Ok (map (bundle_script sha3 domain blob) [0..<fragments_needed (length blob)])"
    using assms fragments_needed_pos [of "length blob"]
    by (intro omap_Ok) (simp add: slice_fragment encode_carrier_script_Ok bundle_script_def Let_def fragment_data_def bundle_id_of_def)
  then show ?thesis using assms by (simp add: encode_bundle_def Let_def)
qed

lemma parse_bundle_script:
  "\<lbrakk>fragments_needed (length blob) \<le> 32; i < fragments_needed (length blob); length (sha3 blob) = 48\<rbrakk> \<Longrightarrow>
   parse_carrier_header (bundle_script sha3 domain blob i) = Ok (bundle_header sha3 domain blob i)"
  unfolding bundle_script_def bundle_header_def Let_def by (rule parse_encoded) (auto simp: fragment_data_def)

section \<open>Reassembly\<close>

abbreviation slot_of :: "reassemble_input \<Rightarrow> nat" where
  "slot_of input \<equiv> unat (fragment_index (ri_header input))"

definition slot_data :: "reassemble_input \<Rightarrow> bytes" where
  "slot_data input = take (unat (data_len (ri_header input))) (drop 64 (ri_script input))"

definition slot_ok :: "u8 \<Rightarrow> reassemble_input \<Rightarrow> bool" where
  "slot_ok count input \<longleftrightarrow> slot_of input < unat count \<and> 64 + unat (data_len (ri_header input)) \<le> length (ri_script input)"

lemma fill_slot_Ok:
  "\<lbrakk>slot_ok count input; slots ! slot_of input = None\<rbrakk> \<Longrightarrow> fill_slot count input slots = Ok (slots[slot_of input := Some (slot_data input)])"
  by (simp add: fill_slot_def slot_ok_def slot_data_def Let_def slice_range_def CARRIER_HEADER_LEN_def)

lemma fill_slots:
  assumes "\<forall>x \<in> set inputs. slot_ok count x \<and> slots ! slot_of x = None" "distinct (map slot_of inputs)" "length slots = unat count"
  shows "\<exists>slots'. ofold (fill_slot count) inputs slots = Ok slots' \<and> length slots' = unat count \<and>
    (\<forall>x \<in> set inputs. slots' ! slot_of x = Some (slot_data x)) \<and> (\<forall>i. i \<notin> slot_of ` set inputs \<longrightarrow> slots' ! i = slots ! i)"
  using assms
proof (induction inputs arbitrary: slots)
  case (Cons x inputs)
  define slots1 where "slots1 = slots[slot_of x := Some (slot_data x)]"
  have x: "slot_of x < length slots" using Cons.prems by (simp add: slot_ok_def)
  have "\<forall>y \<in> set inputs. slot_ok count y \<and> slots1 ! slot_of y = None"
    using Cons.prems(1,2) by (auto simp: slots1_def) (metis imageI nth_list_update_neq)
  then obtain slots' where s: "ofold (fill_slot count) inputs slots1 = Ok slots'" "length slots' = unat count"
      "\<forall>y \<in> set inputs. slots' ! slot_of y = Some (slot_data y)" "\<forall>i. i \<notin> slot_of ` set inputs \<longrightarrow> slots' ! i = slots1 ! i"
    using Cons.IH [of slots1] Cons.prems(2,3) by (auto simp: slots1_def)
  moreover have "slots' ! slot_of x = Some (slot_data x)"
    using s(4) Cons.prems(2) x by (simp add: slots1_def)
  moreover have "fill_slot count x slots = Ok slots1" using Cons.prems(1) by (simp add: fill_slot_Ok slots1_def)
  ultimately show ?case by (intro exI [of _ slots']) (auto simp: slots1_def)
qed simp

lemma reassemble_slots:
  assumes "inputs \<noteq> []" "\<forall>x \<in> set inputs. slot_ok count x \<and> fragment_count (ri_header x) = count \<and> bundle_id (ri_header x) = bid"
    and "distinct (map slot_of inputs)" "slot_of ` set inputs = {..<unat count}" "\<forall>x \<in> set inputs. slot_data x = f (slot_of x)"
    and "sha3 (concat (map f [0..<unat count])) = bid"
  shows "reassemble sha3 inputs = Ok (concat (map f [0..<unat count]))"
proof -
  obtain x rest where i: "inputs = x # rest" using assms(1) by (cases inputs) auto
  have b: "ocheck (\<lambda>_. same_bundle count bid) 0 rest = Ok ()"
    using assms(2) i by (auto simp: ocheck_eq_Ok same_bundle_def outcome_simps)
  have e: "\<forall>x \<in> set inputs. slot_ok count x \<and> replicate (unat count) None ! slot_of x = None" using assms(2) by (simp add: slot_ok_def)
  obtain slots where s: "ofold (fill_slot count) inputs (replicate (unat count) None) = Ok slots" "length slots = unat count"
      "\<forall>x \<in> set inputs. slots ! slot_of x = Some (slot_data x)"
    using fill_slots [OF e assms(3)] by auto
  have "slots ! i = Some (f i)" if "i < unat count" for i
  proof -
    obtain y where "y \<in> set inputs" "i = slot_of y" using assms(4) \<open>i < unat count\<close> by blast
    then show ?thesis using s(3) assms(5) by simp
  qed
  then have m: "slots = map (\<lambda>i. Some (f i)) [0..<unat count]" using s(2) by (intro nth_equalityI) simp_all
  have "ocheck (\<lambda>i slot. ensure (slot \<noteq> None) (MissingFragmentIndex (of_nat i))) 0 slots = Ok ()"
    by (simp add: ocheck_eq_Ok m ensure_eq_Ok)
  moreover have "omap unwrap slots = (Ok (map f [0..<unat count]) :: (reassemble_error, _) outcome)"
    unfolding m by (simp add: omap_eq_Ok list_all2_conv_all_nth)
  ultimately show ?thesis using b s(1) assms(2,6) by (simp add: reassemble_def i Let_def bundle_id_of_def)
qed

lemma bundle_input:
  assumes "fragments_needed (length blob) \<le> 32" "i < fragments_needed (length blob)" "length (sha3 blob) = 48"
    and x_def: "x = \<lparr>ri_header = bundle_header sha3 domain blob i, ri_script = bundle_script sha3 domain blob i\<rparr>"
  shows "slot_of x = i" "slot_ok (of_nat (fragments_needed (length blob))) x" "slot_data x = fragment_data blob i"
    "fragment_count (ri_header x) = of_nat (fragments_needed (length blob))" "bundle_id (ri_header x) = sha3 blob"
proof -
  have d: "unat (of_nat (length (fragment_data blob i)) :: u32) = length (fragment_data blob i)"
    by (simp add: unat_of_nat_small fragment_data_def)
  have l: "length CARRIER_MAGIC = 8" by (simp add: CARRIER_MAGIC_def)
  show i: "slot_of x = i" using assms by (simp add: x_def bundle_header_def Let_def small_of_nat)
  show "slot_ok (of_nat (fragments_needed (length blob))) x"
    using assms(1-3) i d l by (simp add: slot_ok_def small_of_nat) (simp add: x_def bundle_header_def bundle_script_def Let_def d)
  show "slot_data x = fragment_data blob i"
    using assms(3) l by (simp add: slot_data_def x_def bundle_header_def bundle_script_def Let_def d)
qed (simp_all add: x_def bundle_header_def Let_def)

definition bundle_part :: "(bytes \<Rightarrow> bytes) \<Rightarrow> carrier_domain option \<Rightarrow> bytes \<Rightarrow> nat \<Rightarrow> reassemble_input" where
  "bundle_part sha3 domain blob i = \<lparr>ri_header = bundle_header sha3 domain blob i, ri_script = bundle_script sha3 domain blob i\<rparr>"

lemmas bundle_part_rules = bundle_input [where x = "bundle_part sha3 domain blob i" for sha3 domain blob i, OF _ _ _ bundle_part_def]

lemma parse_parts:
  assumes "fragments_needed (length blob) \<le> 32" "length (sha3 blob) = 48" "set order \<subseteq> {..<fragments_needed (length blob)}"
  shows "omap (\<lambda>s. obind (map_err (\<lambda>_. BundleHashMismatch) (parse_carrier_header s)) (\<lambda>h. Ok \<lparr>ri_header = h, ri_script = s\<rparr>))
    (map (bundle_script sha3 domain blob) order) = Ok (map (bundle_part sha3 domain blob) order)"
  using assms(3)
proof (induction order)
  case (Cons i order)
  then show ?case using parse_bundle_script [of blob i sha3 domain] assms(1,2) by (simp add: bundle_part_def)
qed simp

lemma reassemble_parts:
  assumes n: "fragments_needed (length blob) \<le> 32" and h: "length (sha3 blob) = 48"
    and o: "distinct order" "set order = {..<fragments_needed (length blob)}"
  shows "reassemble sha3 (map (bundle_part sha3 domain blob) order) = Ok blob"
proof -
  let ?n = "fragments_needed (length blob)"
  let ?inputs = "map (bundle_part sha3 domain blob) order"
  have w: "unat (of_nat ?n :: u8) = ?n" using n by (rule small_of_nat)
  have c: "concat (map (fragment_data blob) [0..<?n]) = blob"
    unfolding fragment_data_def [abs_def] concat_chunks using fragments_needed_covers(1) [of "length blob"] by simp
  have r: "slot_of x < ?n \<and> slot_ok (of_nat ?n) x \<and> slot_data x = fragment_data blob (slot_of x) \<and>
      fragment_count (ri_header x) = of_nat ?n \<and> bundle_id (ri_header x) = sha3 blob" if "x \<in> set ?inputs" for x
    using that o(2) bundle_part_rules [of blob _ sha3 domain] n h by auto
  have m: "map slot_of ?inputs = order"
    unfolding map_map by (rule map_idI) (use o(2) bundle_part_rules(1) [of blob _ sha3 domain] n h in auto)
  have s: "slot_of ` set ?inputs = {..<?n}" unfolding set_map [symmetric] m by (rule o(2))
  have "0 \<in> set order" using o(2) fragments_needed_pos [of "length blob"] by simp
  then have e: "?inputs \<noteq> []" by (cases order) simp_all
  have "reassemble sha3 ?inputs = Ok (concat (map (fragment_data blob) [0..<unat (of_nat ?n :: u8)]))"
  proof (rule reassemble_slots [where bid = "sha3 blob", OF e])
    show "distinct (map slot_of ?inputs)" unfolding m by (rule o(1))
    show "slot_of ` set ?inputs = {..<unat (of_nat ?n :: u8)}" unfolding w by (rule s)
    show "sha3 (concat (map (fragment_data blob) [0..<unat (of_nat ?n :: u8)])) = sha3 blob" unfolding w c by (rule refl)
  qed (use r in blast)+
  then show ?thesis by (simp only: w c)
qed

text \<open>
  C22: A blob of at most 2 MiB is encoded as a bundle of carrier scripts that each parse, and parsing and
  reassembling the scripts in any order gives the blob back; a longer blob is refused with its length, reduced to
  32 bits, in the error.
\<close>

theorem bundle_roundtrip:
  assumes "length (sha3 blob) = 48"
  shows "if length blob \<le> 2097152
    then \<exists>scripts. encode_bundle sha3 blob domain = Ok scripts \<and> length scripts = fragments_needed (length blob) \<and>
      (\<forall>script \<in> set scripts. \<exists>h. parse_carrier_header script = Ok h \<and> bundle_id h = sha3 blob) \<and>
      (\<forall>order. distinct order \<and> set order = {..<length scripts} \<longrightarrow>
        parse_and_reassemble sha3 (map ((!) scripts) order) = Ok blob)
    else encode_bundle sha3 blob domain = Err (DataTooLarge (of_nat (length blob)))"
proof (cases "length blob \<le> 2097152")
  case True
  let ?n = "fragments_needed (length blob)"
  have n: "?n \<le> 32" using True by (simp add: fragments_needed_le)
  let ?scripts = "map (bundle_script sha3 domain blob) [0..<?n]"
  have "parse_and_reassemble sha3 (map ((!) ?scripts) order) = Ok blob" if o: "distinct order" "set order = {..<?n}" for order
  proof -
    have e: "map ((!) ?scripts) order = map (bundle_script sha3 domain blob) order" using o(2) by (intro map_cong) auto
    show ?thesis unfolding parse_and_reassemble_def e
      using parse_parts [of blob sha3 order domain] reassemble_parts [of blob sha3 order domain] n assms o(1) o(2) by simp
  qed
  moreover have "\<exists>h. parse_carrier_header (bundle_script sha3 domain blob i) = Ok h \<and> bundle_id h = sha3 blob" if "i < ?n" for i
    using parse_bundle_script [of blob i sha3 domain] n assms that by (simp add: bundle_header_def Let_def)
  ultimately show ?thesis using True encode_bundle_Ok [OF n, of sha3 domain] by auto
next
  case False
  then have "\<not> fragments_needed (length blob) \<le> 32" by (simp add: fragments_needed_le)
  then show ?thesis using False by (simp add: encode_bundle_def Let_def)
qed

theorem bundle_roundtrip_witness:
  "\<exists>scripts. encode_bundle (\<lambda>x. replicate 48 (of_nat (length x))) [7, 8, 9] (Some User) = Ok scripts \<and> length scripts = 1 \<and>
     parse_and_reassemble (\<lambda>x. replicate 48 (of_nat (length x))) (map ((!) scripts) [0]) = Ok [7, 8, 9]"
proof -
  have "fragments_needed (length [7 :: u8, 8, 9]) = 1" by (simp add: fragments_needed_def Let_def)
  then show ?thesis
    using bundle_roundtrip [of "\<lambda>x. replicate 48 (of_nat (length x))" "[7, 8, 9]" "Some User"]
    by (auto simp: lessThan_Suc dest!: spec [of _ "[0]"])
qed

end
