(* ===== verification/Alt.thy ===== *)
theory Alt
  imports Tx
begin

text \<open>
  Address lookup tables (src/consensus/core/src/alt/mod.rs and codec.rs): the output scripts that create a table and
  that refer to one of its entries, their parsers and their encoders. SHA3-384 is the parameter \<open>sha3\<close>.
\<close>

section \<open>Format\<close>

definition ALT_DISCRIMINATOR_REFERENCE :: u8 where "ALT_DISCRIMINATOR_REFERENCE = 0xfd"
definition ALT_DISCRIMINATOR_CREATION :: u8 where "ALT_DISCRIMINATOR_CREATION = 0xfe"
definition ALT_MAGIC :: bytes where "ALT_MAGIC = [0x53, 0x50, 0x48, 0x53, 0x2d, 0x41, 0x4c, 0x31]"
definition ALT_HEADER_LEN :: nat where "ALT_HEADER_LEN = 22"
definition ALT_HANDLE_LEN :: nat where "ALT_HANDLE_LEN = 6"
definition ALT_REFERENCE_LEN :: nat where "ALT_REFERENCE_LEN = 8"
definition MAX_ALT_ENTRIES :: u16 where "MAX_ALT_ENTRIES = 256"
definition MAX_ALT_ENTRY_SCRIPT_BYTES :: u16 where "MAX_ALT_ENTRY_SCRIPT_BYTES = 4096"
definition MAX_ALT_CREATIONS_PER_TX :: nat where "MAX_ALT_CREATIONS_PER_TX = 4"
definition BASE_ALT_CREATION_MASS :: u64 where "BASE_ALT_CREATION_MASS = 100000"
definition ALT_STORAGE_MASS_FACTOR :: u64 where "ALT_STORAGE_MASS_FACTOR = 1"

lemmas alt_consts = ALT_DISCRIMINATOR_REFERENCE_def ALT_DISCRIMINATOR_CREATION_def ALT_MAGIC_def ALT_HEADER_LEN_def
  ALT_HANDLE_LEN_def ALT_REFERENCE_LEN_def MAX_ALT_ENTRIES_def MAX_ALT_ENTRY_SCRIPT_BYTES_def

record alt_creation_header =
  alt_flags :: u8
  entry_count :: u16
  payload_len :: u32
  alt_handle :: bytes

record alt_reference =
  ref_handle :: bytes
  ref_index :: u8

record alt_entry_view =
  entry_spk_version :: u16
  entry_spk_script :: bytes

datatype alt_creation_error =
    HeaderTruncated nat
  | BadMagic
  | ReservedNonZero u8
  | ReservedFlagBitSet u8
  | BadEntryCount u16
  | LengthMismatch nat nat
  | EntriesLenMismatch nat u32
  | EntryBadSpkVersion u16 u16
  | EntryScriptTooLarge u16 u16
  | HandleMismatch bytes bytes

datatype alt_reference_error = BadLength nat

datatype alt_script_kind = Reference | Creation

definition classify_alt_script :: "bytes \<Rightarrow> alt_script_kind option" where
  "classify_alt_script script = (case script of [] \<Rightarrow> None
     | b # _ \<Rightarrow> if b = ALT_DISCRIMINATOR_REFERENCE then Some Reference
         else if b = ALT_DISCRIMINATOR_CREATION then Some Creation else None)"

section \<open>Parsers\<close>

definition decode_entry_count :: "u8 \<Rightarrow> u16" where
  "decode_entry_count byte = (if byte = 0 then MAX_ALT_ENTRIES else ucast byte)"

definition hash_canonical_payload :: "(bytes \<Rightarrow> bytes) \<Rightarrow> bytes \<Rightarrow> bytes" where
  "hash_canonical_payload sha3 script = take ALT_HANDLE_LEN (sha3 (drop ALT_HEADER_LEN script))"

text \<open>The walk over the entries: \<open>rest\<close> is the entries section from \<open>cursor\<close> on. It returns the cursor and the count.\<close>

function walk_entries :: "u32 \<Rightarrow> bytes \<Rightarrow> nat \<Rightarrow> u16 \<Rightarrow> (alt_creation_error, nat \<times> u16) outcome" where
  "walk_entries plen rest cursor decoded =
     (if rest = [] then Ok (cursor, decoded)
      else if length rest < 4 then Err (EntriesLenMismatch cursor plen)
      else let spk_version = from_le_bytes (take 2 rest) :: u16; spk_len = from_le_bytes (take 2 (drop 2 rest)) :: u16 in
        if MAX_SCRIPT_PUBLIC_KEY_VERSION < spk_version then Err (EntryBadSpkVersion decoded spk_version)
        else if MAX_ALT_ENTRY_SCRIPT_BYTES < spk_len then Err (EntryScriptTooLarge decoded spk_len)
        else let entry_total = 4 + unat spk_len in
          if length rest < entry_total then Err (EntriesLenMismatch cursor plen)
          else walk_entries plen (drop entry_total rest) (cursor + entry_total) (saturating_add decoded 1))"
  by pat_completeness auto
termination by (relation "measure (\<lambda>(p, rest, c, d). length rest)") (auto simp: Let_def)

declare walk_entries.simps [simp del]

definition parse_alt_creation_header :: "(bytes \<Rightarrow> bytes) \<Rightarrow> bytes \<Rightarrow> (alt_creation_error, alt_creation_header) outcome" where
  "parse_alt_creation_header sha3 script =
     (if length script < ALT_HEADER_LEN then Err (HeaderTruncated (length script))
      else if script ! 0 \<noteq> ALT_DISCRIMINATOR_CREATION then Err BadMagic
      else if take 8 (drop 1 script) \<noteq> ALT_MAGIC then Err BadMagic
      else let flags = script ! 9 in
        if flags \<noteq> 0 then Err (ReservedFlagBitSet flags)
        else if script ! 10 \<noteq> 0 then Err (ReservedNonZero (script ! 10))
        else let count = decode_entry_count (script ! 11) in
          if count = 0 \<or> MAX_ALT_ENTRIES < count then Err (BadEntryCount count)
          else let plen = from_le_bytes (take 4 (drop 12 script)) :: u32; expected_len = ALT_HEADER_LEN + unat plen in
            if length script \<noteq> expected_len then Err (LengthMismatch (length script) expected_len)
            else let handle = take ALT_HANDLE_LEN (drop 16 script) in
              obind (walk_entries plen (drop ALT_HEADER_LEN script) 0 0) (\<lambda>(cursor, decoded).
              if cursor \<noteq> unat plen \<or> decoded \<noteq> count then Err (EntriesLenMismatch cursor plen)
              else let computed = hash_canonical_payload sha3 script in
                if handle \<noteq> computed then Err (HandleMismatch handle computed)
                else Ok \<lparr>alt_flags = flags, entry_count = count, payload_len = plen, alt_handle = handle\<rparr>))"

text \<open>The iterator over the entries; slicing past the end panics.\<close>

function entries_from :: "bytes \<Rightarrow> ('e, alt_entry_view list) outcome" where
  "entries_from rest =
     (if length rest < 4 then Ok []
      else let spk_version = from_le_bytes (take 2 rest) :: u16; spk_len = unat (from_le_bytes (take 2 (drop 2 rest)) :: u16) in
        if length rest < 4 + spk_len then Panic
        else obind (entries_from (drop (4 + spk_len) rest)) (\<lambda>es.
          Ok (\<lparr>entry_spk_version = spk_version, entry_spk_script = take spk_len (drop 4 rest)\<rparr> # es)))"
  by pat_completeness auto
termination by (relation "measure length") (auto simp: Let_def)

declare entries_from.simps [simp del]

definition iter_alt_entries :: "bytes \<Rightarrow> ('e, alt_entry_view list) outcome" where
  "iter_alt_entries script = (if length script < ALT_HEADER_LEN then Panic else entries_from (drop ALT_HEADER_LEN script))"

definition parse_alt_reference :: "bytes \<Rightarrow> (alt_reference_error, alt_reference) outcome" where
  "parse_alt_reference script =
     (if length script \<noteq> ALT_REFERENCE_LEN then Err (BadLength (length script))
      else Ok \<lparr>ref_handle = take ALT_HANDLE_LEN (drop 1 script), ref_index = script ! (1 + ALT_HANDLE_LEN)\<rparr>)"

section \<open>Encoders\<close>

definition alt_handle_of :: "(bytes \<Rightarrow> bytes) \<Rightarrow> bytes \<Rightarrow> bytes" where
  "alt_handle_of sha3 entries = take ALT_HANDLE_LEN (sha3 entries)"

definition check_entry :: "nat \<times> alt_entry_view \<Rightarrow> (alt_creation_error, unit) outcome" where
  "check_entry = (\<lambda>(idx, e).
     if MAX_SCRIPT_PUBLIC_KEY_VERSION < entry_spk_version e then Err (EntryBadSpkVersion (of_nat idx) (entry_spk_version e))
     else if unat MAX_ALT_ENTRY_SCRIPT_BYTES < length (entry_spk_script e)
       then Err (EntryScriptTooLarge (of_nat idx) (of_nat (length (entry_spk_script e))))
     else Ok ())"

definition encode_entry :: "alt_entry_view \<Rightarrow> bytes" where
  "encode_entry e = to_le_bytes 2 (entry_spk_version e) @ to_le_bytes 2 (of_nat (length (entry_spk_script e)) :: u16) @ entry_spk_script e"

definition encode_alt_creation_script :: "(bytes \<Rightarrow> bytes) \<Rightarrow> alt_entry_view list \<Rightarrow> (alt_creation_error, bytes) outcome" where
  "encode_alt_creation_script sha3 entries =
     (if entries = [] \<or> unat MAX_ALT_ENTRIES < length entries then Err (BadEntryCount (of_nat (length entries)))
      else obind (omap check_entry (enumerate 0 entries)) (\<lambda>_.
        let entries_bytes = concat (map encode_entry entries);
            plen = of_nat (length entries_bytes) :: u32;
            handle = alt_handle_of sha3 entries_bytes;
            raw_count = (if length entries = unat MAX_ALT_ENTRIES then 0 else of_nat (length entries) :: u8)
        in Ok ([ALT_DISCRIMINATOR_CREATION] @ ALT_MAGIC @ [0, 0, raw_count] @ to_le_bytes 4 plen @ handle @ entries_bytes)))"

definition encode_alt_reference_script :: "bytes \<Rightarrow> u8 \<Rightarrow> bytes" where
  "encode_alt_reference_script handle index = [ALT_DISCRIMINATOR_REFERENCE] @ handle @ [index]"

section \<open>Entries\<close>

definition entry_ok :: "alt_entry_view \<Rightarrow> bool" where
  "entry_ok e \<longleftrightarrow> entry_spk_version e \<le> MAX_SCRIPT_PUBLIC_KEY_VERSION \<and> length (entry_spk_script e) \<le> unat MAX_ALT_ENTRY_SCRIPT_BYTES"

lemma length_encode_entry [simp]: "length (encode_entry e) = 4 + length (entry_spk_script e)"
  by (simp add: encode_entry_def)

lemma encode_entry_neq [simp]: "encode_entry e \<noteq> []"
  using length_encode_entry [of e] by (auto simp del: length_encode_entry)

lemma take_encode_entry:
  "take 2 (encode_entry e @ rest) = to_le_bytes 2 (entry_spk_version e)"
  "take 2 (drop 2 (encode_entry e @ rest)) = to_le_bytes 2 (of_nat (length (entry_spk_script e)) :: u16)"
  "drop 4 (encode_entry e @ rest) = entry_spk_script e @ rest"
  by (simp_all add: encode_entry_def drop_Cons')

lemma entry_len: "entry_ok e \<Longrightarrow> unat (of_nat (length (entry_spk_script e)) :: u16) = length (entry_spk_script e)"
  by (simp add: entry_ok_def MAX_ALT_ENTRY_SCRIPT_BYTES_def unat_of_nat take_bit_nat_eq_self)

text \<open>What both readers see at an encoded entry.\<close>

lemma entry_view:
  assumes "entry_ok e" and "buf = encode_entry e @ rest"
  shows "buf \<noteq> []" "from_le_bytes (take 2 buf) = entry_spk_version e"
    "from_le_bytes (take 2 (drop 2 buf)) = (of_nat (length (entry_spk_script e)) :: u16)"
    "length buf = 4 + length (entry_spk_script e) + length rest" "drop (4 + length (entry_spk_script e)) buf = rest"
    "take (length (entry_spk_script e)) (drop 4 buf) = entry_spk_script e" "\<not> MAX_ALT_ENTRY_SCRIPT_BYTES < (of_nat (length (entry_spk_script e)) :: u16)"
  using assms take_encode_entry [of e rest] entry_len [OF assms(1)]
  by (simp_all add: word_less_nat_alt entry_ok_def)

lemma walk_entries_Cons:
  assumes "entry_ok e"
  shows "walk_entries p (encode_entry e @ rest) c d = walk_entries p rest (c + length (encode_entry e)) (saturating_add d 1)"
proof -
  define buf where "buf = encode_entry e @ rest"
  note v = entry_view [OF assms buf_def]
  have "\<not> MAX_SCRIPT_PUBLIC_KEY_VERSION < entry_spk_version e" using assms by (simp add: entry_ok_def not_less)
  then show ?thesis unfolding buf_def [symmetric]
    by (subst walk_entries.simps) (simp add: Let_def v entry_len [OF assms])
qed

lemma entries_from_Cons:
  assumes "entry_ok e"
  shows "entries_from (encode_entry e @ rest) = obind (entries_from rest) (\<lambda>es. Ok (e # es))"
proof -
  define buf where "buf = encode_entry e @ rest"
  note v = entry_view [OF assms buf_def]
  obtain ver scr where e: "e = \<lparr>entry_spk_version = ver, entry_spk_script = scr\<rparr>" by (cases e) auto
  show ?thesis unfolding buf_def [symmetric] by (subst entries_from.simps) (simp add: Let_def v [unfolded e, simplified] entry_len [OF assms, unfolded e, simplified] e)
qed

lemma entries_from_all: "list_all entry_ok es \<Longrightarrow> entries_from (concat (map encode_entry es)) = Ok es"
  by (induction es) (simp_all add: entries_from_Cons entries_from.simps [of "[]"])

lemma walk_entries_all:
  "list_all entry_ok es \<Longrightarrow> \<exists>d'. walk_entries p (concat (map encode_entry es)) c d = Ok (c + length (concat (map encode_entry es)), d') \<and>
    unat d' = min (unat d + length es) 65535"
proof (induction es arbitrary: c d)
  case Nil
  then show ?case using unat_less_exp [of d] by (simp add: walk_entries.simps)
next
  case (Cons e es)
  then obtain d' where "walk_entries p (concat (map encode_entry es)) (c + length (encode_entry e)) (saturating_add d 1) =
      Ok (c + length (encode_entry e) + length (concat (map encode_entry es)), d')" "unat d' = min (unat (saturating_add d 1) + length es) 65535" by fastforce
  then show ?case using Cons(2) by (auto simp: walk_entries_Cons unat_rules)
qed

text \<open>Conversely, the walk accepts only encoded entries.\<close>

lemma walk_entries_inverse:
  "walk_entries p rest c d = Ok (c', d') \<Longrightarrow> \<exists>es. list_all entry_ok es \<and> rest = concat (map encode_entry es)"
proof (induction p rest c d rule: walk_entries.induct)
  case (1 p rest c d)
  show ?case
  proof (cases "rest = []")
    case False
    define ver where "ver = (from_le_bytes (take 2 rest) :: u16)"
    define len where "len = (from_le_bytes (take 2 (drop 2 rest)) :: u16)"
    have g: "\<not> length rest < 4" "\<not> MAX_SCRIPT_PUBLIC_KEY_VERSION < ver" "\<not> MAX_ALT_ENTRY_SCRIPT_BYTES < len" "\<not> length rest < 4 + unat len"
      "walk_entries p (drop (4 + unat len) rest) (c + (4 + unat len)) (saturating_add d 1) = Ok (c', d')"
      using 1(2) False by (auto simp: walk_entries.simps [of p rest] Let_def ver_def len_def split: if_splits)
    obtain es where es: "list_all entry_ok es" "drop (4 + unat len) rest = concat (map encode_entry es)"
      using 1(1) [OF False g(1) ver_def len_def g(2,3) refl g(4,5)] by blast
    define e where "e = \<lparr>entry_spk_version = ver, entry_spk_script = take (unat len) (drop 4 rest)\<rparr>"
    have l: "length (entry_spk_script e) = unat len" using g(4) by (simp add: e_def)
    have "to_le_bytes 2 ver = take 2 rest" "to_le_bytes 2 len = take 2 (drop 2 rest)"
      using g(1) by (simp_all add: ver_def len_def)
    then have "encode_entry e = take 2 rest @ take 2 (drop 2 rest) @ take (unat len) (drop 4 rest)"
      using l by (simp add: encode_entry_def) (simp add: e_def)
    also have "\<dots> = take (4 + unat len) rest" using take_add [of 2 2 rest] by (simp add: take_add [of 4])
    finally have "rest = encode_entry e @ concat (map encode_entry es)" using es(2) append_take_drop_id [of "4 + unat len" rest] by simp
    moreover have "entry_ok e" using g(2,3) l by (simp add: entry_ok_def e_def not_less word_le_nat_alt)
    ultimately show ?thesis using es(1) by (intro exI [of _ "e # es"]) simp
  qed (intro exI [of _ "[]"], simp)
qed

section \<open>Properties\<close>

lemma check_entry_Ok: "check_entry (i, e) = Ok u \<longleftrightarrow> entry_ok e"
  by (auto simp: check_entry_def entry_ok_def not_less)

lemma check_entries_Ok: "(\<exists>us. omap check_entry (enumerate i es) = Ok us) \<longleftrightarrow> list_all entry_ok es"
proof (induction es arbitrary: i)
  case (Cons e es)
  show ?case using Cons [of "Suc i"] check_entry_Ok [of i e "()"] by (auto simp: obind_eq_Ok)
qed simp

lemma entries_size: "list_all entry_ok es \<Longrightarrow> length (concat (map encode_entry es)) \<le> 4100 * length es"
  by (induction es) (auto simp: entry_ok_def MAX_ALT_ENTRY_SCRIPT_BYTES_def)

text \<open>The script of a table, and the header that it starts with.\<close>

definition creation_script :: "u8 \<Rightarrow> u32 \<Rightarrow> bytes \<Rightarrow> bytes \<Rightarrow> bytes" where
  "creation_script raw plen handle payload = [ALT_DISCRIMINATOR_CREATION] @ ALT_MAGIC @ [0, 0, raw] @ to_le_bytes 4 plen @ handle @ payload"

lemma creation_script_fields:
  assumes "length handle = 6" and s: "s = creation_script raw plen handle payload"
  shows "length s = 22 + length payload" "s ! 0 = ALT_DISCRIMINATOR_CREATION" "take 8 (drop 1 s) = ALT_MAGIC" "s ! 9 = 0" "s ! 10 = 0" "s ! 11 = raw"
    "take 4 (drop 12 s) = to_le_bytes 4 plen" "take 6 (drop 16 s) = handle" "drop 22 s = payload"
  using assms(1) by (simp_all add: s creation_script_def ALT_MAGIC_def)

lemma script_is_creation:
  assumes "22 \<le> length s" "s ! 0 = ALT_DISCRIMINATOR_CREATION" "take 8 (drop 1 s) = ALT_MAGIC" "s ! 9 = 0" "s ! 10 = 0"
  shows "s = creation_script (s ! 11) (from_le_bytes (take 4 (drop 12 s))) (take 6 (drop 16 s)) (drop 22 s)"
proof -
  have "s = take 1 s @ take 8 (drop 1 s) @ take 3 (drop 9 s) @ take 4 (drop 12 s) @ take 6 (drop 16 s) @ drop 22 s"
    using append_take_drop_id [of 1 s] append_take_drop_id [of 8 "drop 1 s"] append_take_drop_id [of 3 "drop 9 s"]
      append_take_drop_id [of 4 "drop 12 s"] append_take_drop_id [of 6 "drop 16 s"] by (simp add: drop_drop)
  moreover have "take 1 s = [ALT_DISCRIMINATOR_CREATION]" using assms(1,2) by (cases s) auto
  moreover have "take 3 (drop 9 s) = [s ! 9, s ! 10, s ! 11]"
    using assms(1) by (intro nth_equalityI) (auto simp: less_Suc_eq numeral_3_eq_3)
  moreover have "to_le_bytes 4 (from_le_bytes (take 4 (drop 12 s)) :: u32) = take 4 (drop 12 s)" using assms(1) by simp
  ultimately show ?thesis using assms(3-5) unfolding creation_script_def by simp
qed

definition raw_count :: "nat \<Rightarrow> u8" where
  "raw_count n = (if n = 256 then 0 else of_nat n)"

lemma decode_raw_count: "0 < n \<Longrightarrow> n \<le> 256 \<Longrightarrow> unat (decode_entry_count (raw_count n)) = n"
  by (auto simp: decode_entry_count_def raw_count_def MAX_ALT_ENTRIES_def unat_of_nat take_bit_nat_eq_self unsigned_ucast_eq word_of_nat_eq_0_iff dvd_def)

lemma raw_decode_count: "raw_count (unat (decode_entry_count b)) = b"
proof (cases "b = 0")
  case False
  have "unat b < 256" using unat_less_exp [of b] by simp
  moreover from this have "unat (ucast b :: u16) = unat b" by (simp add: unsigned_ucast_eq take_bit_nat_eq_self)
  ultimately show ?thesis using False by (simp add: decode_entry_count_def raw_count_def)
qed (simp add: decode_entry_count_def raw_count_def MAX_ALT_ENTRIES_def)

lemma encode_Ok:
  "encode_alt_creation_script sha3 es = Ok s \<longleftrightarrow> es \<noteq> [] \<and> length es \<le> 256 \<and> list_all entry_ok es \<and>
    s = creation_script (raw_count (length es)) (of_nat (length (concat (map encode_entry es)))) (take 6 (sha3 (concat (map encode_entry es)))) (concat (map encode_entry es))"
proof (cases "es \<noteq> [] \<and> length es \<le> 256")
  case True
  then show ?thesis using check_entries_Ok [of 0 es]
    by (auto simp: encode_alt_creation_script_def obind_eq_Ok Let_def MAX_ALT_ENTRIES_def raw_count_def alt_handle_of_def ALT_HANDLE_LEN_def creation_script_def)
qed (auto simp: encode_alt_creation_script_def MAX_ALT_ENTRIES_def)

lemma encode_parse:
  assumes h6: "\<forall>x. 6 \<le> length (sha3 x)" and "encode_alt_creation_script sha3 es = Ok script"
  shows "(\<exists>hd. parse_alt_creation_header sha3 script = Ok hd \<and> unat (entry_count hd) = length es \<and> length script = 22 + unat (payload_len hd) \<and>
      alt_handle hd = take 6 (sha3 (concat (map encode_entry es)))) \<and> iter_alt_entries script = (Ok es :: (unit, _) outcome)"
proof -
  have es: "es \<noteq> []" "length es \<le> 256" "list_all entry_ok es" using assms(2) by (simp_all add: encode_Ok)
  define payload where "payload = concat (map encode_entry es)"
  have s: "script = creation_script (raw_count (length es)) (of_nat (length payload)) (take 6 (sha3 payload)) payload"
    using assms(2) by (simp add: encode_Ok payload_def)
  have h: "length (take 6 (sha3 payload)) = 6" using h6 by simp
  note f = creation_script_fields [OF h s]
  have pl: "unat (of_nat (length payload) :: u32) = length payload" "from_le_bytes (to_le_bytes 4 (of_nat (length payload) :: u32)) = (of_nat (length payload) :: u32)"
    using entries_size [OF es(3)] es(2) by (simp_all add: payload_def unat_of_nat take_bit_nat_eq_self)
  have n: "0 < length es" using es(1) by simp
  obtain d where d: "walk_entries (of_nat (length payload)) payload 0 0 = Ok (length payload, d)" "unat d = length es"
    using walk_entries_all [OF es(3), of "of_nat (length payload)" 0 0] es(2) by (auto simp: payload_def)
  then have dc: "decode_entry_count (raw_count (length es)) = d" using decode_raw_count [OF n es(2)] by (simp add: word_unat_eq_iff)
  have ok: "\<not> (d = 0 \<or> MAX_ALT_ENTRIES < d)" using d(2) n es(2) by (auto simp: MAX_ALT_ENTRIES_def word_less_nat_alt)
  have "parse_alt_creation_header sha3 script = Ok \<lparr>alt_flags = 0, entry_count = d, payload_len = of_nat (length payload), alt_handle = take 6 (sha3 payload)\<rparr>"
    using ok by (simp add: parse_alt_creation_header_def Let_def ALT_HEADER_LEN_def ALT_HANDLE_LEN_def f f(3) [unfolded One_nat_def] dc pl d(1) hash_canonical_payload_def)
  moreover have "iter_alt_entries script = (Ok es :: (unit, _) outcome)"
    using entries_from_all [OF es(3)] f by (simp add: iter_alt_entries_def ALT_HEADER_LEN_def payload_def)
  ultimately show ?thesis using d(2) f(1) pl(1) by (simp add: payload_def)
qed

lemma parse_encode:
  assumes "parse_alt_creation_header sha3 script = Ok header"
  shows "\<exists>es. encode_alt_creation_script sha3 es = Ok script \<and> iter_alt_entries script = (Ok es :: (unit, _) outcome)"
proof -
  define plen where "plen = (from_le_bytes (take 4 (drop 12 script)) :: u32)"
  obtain c d where g: "22 \<le> length script" "script ! 0 = ALT_DISCRIMINATOR_CREATION" "take 8 (drop 1 script) = ALT_MAGIC" "script ! 9 = 0" "script ! 10 = 0"
      "length script = 22 + unat plen" "walk_entries plen (drop 22 script) 0 0 = Ok (c, d)" "d = decode_entry_count (script ! 11)"
      "d \<noteq> 0" "\<not> MAX_ALT_ENTRIES < d" "take 6 (drop 16 script) = take 6 (sha3 (drop 22 script))"
    using assms by (auto simp: parse_alt_creation_header_def Let_def ALT_HEADER_LEN_def ALT_HANDLE_LEN_def hash_canonical_payload_def obind_eq_Ok
        plen_def [symmetric] split: if_splits)
  obtain es where es: "list_all entry_ok es" "drop 22 script = concat (map encode_entry es)" using walk_entries_inverse [OF g(7)] by blast
  obtain d' where "walk_entries plen (drop 22 script) 0 0 = Ok (length (drop 22 script), d')" "unat d' = min (length es) 65535"
    using walk_entries_all [OF es(1), of plen 0 0] es(2) by auto
  then have d: "unat d = min (length es) 65535" using g(7) by simp
  then have n: "length es = unat d" "unat d \<le> 256" "es \<noteq> []" using g(9,10) by (auto simp: MAX_ALT_ENTRIES_def word_less_nat_alt not_less unsigned_eq_0_iff)
  have "script ! 11 = raw_count (length es)" using raw_decode_count [of "script ! 11"] by (simp add: n(1) g(8))
  moreover have "of_nat (length (drop 22 script)) = plen" using g(6) by simp
  ultimately have "encode_alt_creation_script sha3 es = Ok script"
    using script_is_creation [OF g(1-5)] g(11) es n unfolding encode_Ok plen_def [symmetric] by simp
  moreover have "iter_alt_entries script = (Ok es :: (unit, _) outcome)"
    using entries_from_all [OF es(1)] es(2) g(1) by (simp add: iter_alt_entries_def ALT_HEADER_LEN_def)
  ultimately show ?thesis by blast
qed

text \<open>
  C20: The creation codec of lookup tables is a bijection between legal entry lists and accepted scripts. The encoder succeeds exactly on one to 256
  entries of a known script version and a script of legal length, and otherwise returns an error. A script that the
  encoder returns is accepted by the parser, which reads the number of entries and their handle, and the iterator gives
  the entries back without a panic; and every script that the parser accepts is the encoding of the entries the iterator
  gives. SHA3-384 is only assumed to return six bytes or more.
\<close>

theorem alt_creation_codec:
  assumes "\<forall>x. 6 \<le> length (sha3 x)"
  shows "((\<exists>s. encode_alt_creation_script sha3 es = Ok s) \<longleftrightarrow> es \<noteq> [] \<and> length es \<le> 256 \<and> list_all entry_ok es) \<and>
    encode_alt_creation_script sha3 es \<noteq> Panic \<and>
    (encode_alt_creation_script sha3 es = Ok script \<longrightarrow>
      (\<exists>hd. parse_alt_creation_header sha3 script = Ok hd \<and> unat (entry_count hd) = length es \<and> length script = 22 + unat (payload_len hd) \<and>
        alt_handle hd = take 6 (sha3 (concat (map encode_entry es)))) \<and> iter_alt_entries script = (Ok es :: (unit, _) outcome)) \<and>
    (parse_alt_creation_header sha3 script = Ok hd' \<longrightarrow>
      (\<exists>es'. encode_alt_creation_script sha3 es' = Ok script \<and> iter_alt_entries script = (Ok es' :: (unit, _) outcome)))"
proof (intro conjI)
  show "(\<exists>s. encode_alt_creation_script sha3 es = Ok s) \<longleftrightarrow> es \<noteq> [] \<and> length es \<le> 256 \<and> list_all entry_ok es"
    by (simp add: encode_Ok)
  have "safely (\<lambda>_. True) (omap check_entry (enumerate 0 es))"
    by (rule safely_mono [OF safely_omap]) (auto simp: check_entry_def split: if_splits)
  then show "encode_alt_creation_script sha3 es \<noteq> Panic"
    by (auto simp: encode_alt_creation_script_def safely_obind Let_def simp flip: safely_True)
qed (use encode_parse [OF assms] parse_encode in blast)+

definition ex_sha3 :: "bytes \<Rightarrow> bytes" where
  "ex_sha3 x = replicate 48 (of_nat (length x))"

theorem alt_creation_codec_witness:
  "\<exists>script hd. encode_alt_creation_script ex_sha3 [\<lparr>entry_spk_version = 0, entry_spk_script = [7, 8]\<rparr>] = Ok script \<and>
     parse_alt_creation_header ex_sha3 script = Ok hd \<and> unat (entry_count hd) = 1"
proof -
  have "list_all entry_ok [\<lparr>entry_spk_version = 0, entry_spk_script = [7, 8]\<rparr>]" by (simp add: entry_ok_def MAX_ALT_ENTRY_SCRIPT_BYTES_def)
  then obtain s where "encode_alt_creation_script ex_sha3 [\<lparr>entry_spk_version = 0, entry_spk_script = [7, 8]\<rparr>] = Ok s" by (simp add: encode_Ok)
  then show ?thesis using alt_creation_codec [of ex_sha3 "[\<lparr>entry_spk_version = 0, entry_spk_script = [7, 8]\<rparr>]" s] by (auto simp: ex_sha3_def)
qed

text \<open>
  The reference codec: a reference with a six-byte handle is classified as a reference and parses back to its handle
  and index, and a script of eight bytes with the discriminator is the encoding of what it parses to.
\<close>

theorem alt_reference_codec:
  "(length handle = 6 \<longrightarrow> classify_alt_script (encode_alt_reference_script handle index) = Some Reference \<and>
      parse_alt_reference (encode_alt_reference_script handle index) = Ok \<lparr>ref_handle = handle, ref_index = index\<rparr>) \<and>
   (classify_alt_script script = Some Reference \<and> parse_alt_reference script = Ok r \<longrightarrow>
      length (ref_handle r) = 6 \<and> encode_alt_reference_script (ref_handle r) (ref_index r) = script)"
proof (intro conjI impI)
  assume "classify_alt_script script = Some Reference \<and> parse_alt_reference script = Ok r"
  then have c: "classify_alt_script script = Some Reference" and l: "length script = 8" and r: "r = \<lparr>ref_handle = take 6 (drop 1 script), ref_index = script ! 7\<rparr>"
    by (auto simp: parse_alt_reference_def ALT_REFERENCE_LEN_def ALT_HANDLE_LEN_def split: if_splits)
  obtain b rest where s: "script = b # rest" "length rest = 7" using l by (cases script) auto
  moreover have "b = ALT_DISCRIMINATOR_REFERENCE" using c s by (auto simp: classify_alt_script_def split: if_splits)
  moreover have "rest = take 6 rest @ [rest ! 6]" using s(2) take_Suc_conv_app_nth [of 6 rest] by simp
  ultimately show "encode_alt_reference_script (ref_handle r) (ref_index r) = script" by (simp add: encode_alt_reference_script_def r)
  show "length (ref_handle r) = 6" using l by (simp add: r)
qed (simp_all add: classify_alt_script_def encode_alt_reference_script_def parse_alt_reference_def ALT_REFERENCE_LEN_def ALT_HANDLE_LEN_def nth_append)

theorem alt_reference_codec_witness:
  "parse_alt_reference (encode_alt_reference_script [1, 2, 3, 4, 5, 6] 9) = Ok \<lparr>ref_handle = [1, 2, 3, 4, 5, 6], ref_index = 9\<rparr>"
  using alt_reference_codec [of "[1, 2, 3, 4, 5, 6]" 9] by simp

end
