(* ===== verification/Mass.thy ===== *)
theory Mass
  imports Alt Params
begin

text \<open>
  Transaction mass (src/consensus/core/src/mass/mod.rs): the estimated serialized size, the compute and transient masses,
  and the storage mass of KIP-0009. Sums over iterators panic on overflow. An \<open>Option\<close> that is propagated with \<open>?\<close> is an
  outcome whose error is the unit value.
\<close>

section \<open>Sizes\<close>

definition osum :: "('a \<Rightarrow> u64) \<Rightarrow> 'a list \<Rightarrow> ('e, u64) outcome" where
  "osum f xs = ofold (\<lambda>x acc. padd acc (f x)) xs 0"

definition outpoint_estimated_serialized_size :: u64 where
  "outpoint_estimated_serialized_size = of_nat HASH_SIZE + 4"

definition transaction_input_estimated_serialized_size :: "transaction_input \<Rightarrow> ('e, u64) outcome" where
  "transaction_input_estimated_serialized_size input =
     obind (padd (outpoint_estimated_serialized_size + 8) (of_nat (length (signature_script input)))) (\<lambda>s. padd s 8)"

definition transaction_output_estimated_serialized_size :: "transaction_output \<Rightarrow> ('e, u64) outcome" where
  "transaction_output_estimated_serialized_size output = padd (8 + 2 + 8) (of_nat (length (spk_script (out_spk output))))"

definition transaction_estimated_serialized_size :: "transaction \<Rightarrow> ('e, u64) outcome" where
  "transaction_estimated_serialized_size tx =
     obind (omap transaction_input_estimated_serialized_size (tx_inputs tx)) (\<lambda>ins.
     obind (osum id ins) (\<lambda>inputs_size.
     obind (padd (2 + 8) inputs_size) (\<lambda>s.
     obind (padd s 8) (\<lambda>s.
     obind (omap transaction_output_estimated_serialized_size (tx_outputs tx)) (\<lambda>outs.
     obind (osum id outs) (\<lambda>outputs_size.
     obind (padd s outputs_size) (\<lambda>s.
     obind (padd s (8 + of_nat SUBNETWORK_ID_SIZE + 8 + of_nat HASH_SIZE + 8)) (\<lambda>s.
     padd s (of_nat (length (tx_payload tx)))))))))))"

definition UTXO_CONST_STORAGE :: nat where "UTXO_CONST_STORAGE = 63"
definition UTXO_UNIT_SIZE :: nat where "UTXO_UNIT_SIZE = 100"

definition utxo_plurality :: "script_public_key \<Rightarrow> u64" where
  "utxo_plurality spk = of_nat ((UTXO_CONST_STORAGE + length (spk_script spk) + UTXO_UNIT_SIZE - 1) div UTXO_UNIT_SIZE)"

record utxo_cell =
  cell_plurality :: u64
  cell_amount :: u64

definition cell_of_entry :: "utxo_entry \<Rightarrow> utxo_cell" where
  "cell_of_entry entry = \<lparr>cell_plurality = utxo_plurality (entry_spk entry), cell_amount = amount entry\<rparr>"

definition cell_of_output :: "transaction_output \<Rightarrow> utxo_cell" where
  "cell_of_output output = \<lparr>cell_plurality = utxo_plurality (out_spk output), cell_amount = out_value output\<rparr>"

section \<open>Storage mass\<close>

definition storage_term :: "u64 \<Rightarrow> utxo_cell \<Rightarrow> (unit, u64) outcome" where
  "storage_term storm_param cell =
     obind (ok_or (checked_mul storm_param (cell_plurality cell)) ()) (\<lambda>x.
     obind (ok_or (checked_mul x (cell_plurality cell)) ()) (\<lambda>y. ok_or (checked_div y (cell_amount cell)) ()))"

definition harmonic_outputs :: "u64 \<Rightarrow> utxo_cell list \<Rightarrow> (unit, u64 \<times> u64) outcome" where
  "harmonic_outputs storm_param outputs = ofold (\<lambda>cell (acc_plurality, acc_harm).
     obind (padd acc_plurality (cell_plurality cell)) (\<lambda>p.
     obind (storage_term storm_param cell) (\<lambda>term.
     obind (ok_or (checked_add acc_harm term) ()) (\<lambda>h. Ok (p, h))))) outputs (0, 0)"

definition relaxed_formula_path :: "u64 \<Rightarrow> utxo_cell list \<Rightarrow> (unit, bool) outcome" where
  "relaxed_formula_path outs_plurality inputs =
     (if outs_plurality = 1 then Ok True
      else if 2 < length inputs then Ok False
      else obind (osum cell_plurality inputs) (\<lambda>ins_plurality.
        Ok (ins_plurality = 1 \<or> outs_plurality = 2 \<and> ins_plurality = 2)))"

definition calc_storage_mass :: "bool \<Rightarrow> utxo_cell list \<Rightarrow> utxo_cell list \<Rightarrow> u64 \<Rightarrow> (unit, u64) outcome" where
  "calc_storage_mass coinbase inputs outputs storm_param =
     (if coinbase then Ok 0
      else obind (harmonic_outputs storm_param outputs) (\<lambda>(outs_plurality, harmonic_outs).
        obind (relaxed_formula_path outs_plurality inputs) (\<lambda>relaxed.
        if relaxed then
          obind (ofold (\<lambda>cell total. obind (storage_term storm_param cell) (\<lambda>term. Ok (saturating_add total term))) inputs 0) (\<lambda>harmonic_ins.
          Ok (saturating_sub harmonic_outs harmonic_ins))
        else
          obind (ofold (\<lambda>cell (acc_plur, acc_amt). obind (padd acc_plur (cell_plurality cell)) (\<lambda>p.
            obind (padd acc_amt (cell_amount cell)) (\<lambda>a. Ok (p, a)))) inputs (0, 0)) (\<lambda>(ins_plurality, sum_ins).
          obind (ok_or (checked_div sum_ins ins_plurality) ()) (\<lambda>mean_ins.
          obind (ok_or (checked_div storm_param mean_ins) ()) (\<lambda>q.
          Ok (saturating_sub harmonic_outs (saturating_mul ins_plurality q))))))))"

definition is_zero_value_protocol_output :: "transaction_output \<Rightarrow> bool" where
  "is_zero_value_protocol_output output \<longleftrightarrow>
     \<not> out_value output \<noteq> 0 \<and>
     (spk_version (out_spk output) = SCRIPT_VERSION_CARRIER \<or> classify_alt_script (spk_script (out_spk output)) = Some Creation)"

section \<open>The calculator\<close>

record mass_calculator =
  mass_per_tx_byte :: u64
  mass_per_script_pub_key_byte :: u64
  mass_per_sig_op :: u64
  storage_mass_parameter :: u64

record non_contextual_masses =
  compute_mass :: u64
  transient_mass :: u64

definition non_contextual_max :: "non_contextual_masses \<Rightarrow> u64" where
  "non_contextual_max m = max (compute_mass m) (transient_mass m)"

definition contextual_max :: "u64 \<Rightarrow> non_contextual_masses \<Rightarrow> u64" where
  "contextual_max storage_mass m = max storage_mass (non_contextual_max m)"

definition new_with_consensus_params :: "params \<Rightarrow> mass_calculator" where
  "new_with_consensus_params p = \<lparr>mass_per_tx_byte = p_mass_per_tx_byte p,
     mass_per_script_pub_key_byte = p_mass_per_script_pub_key_byte p, mass_per_sig_op = p_mass_per_sig_op p,
     storage_mass_parameter = p_storage_mass_parameter p\<rparr>"

definition alt_creation_mass :: "(bytes \<Rightarrow> bytes) \<Rightarrow> transaction_output \<Rightarrow> ('e, u64) outcome" where
  "alt_creation_mass sha3 output =
     (let script = spk_script (out_spk output);
          payload_bytes = (case parse_alt_creation_header sha3 script of Ok _ \<Rightarrow> of_nat (length script - ALT_HEADER_LEN) | _ \<Rightarrow> 0)
      in padd BASE_ALT_CREATION_MASS (saturating_mul payload_bytes ALT_STORAGE_MASS_FACTOR))"

definition calc_non_contextual_masses :: "(bytes \<Rightarrow> bytes) \<Rightarrow> mass_calculator \<Rightarrow> transaction \<Rightarrow> ('e, non_contextual_masses) outcome" where
  "calc_non_contextual_masses sha3 c tx =
     (if is_coinbase tx then Ok \<lparr>compute_mass = 0, transient_mass = 0\<rparr>
      else obind (transaction_estimated_serialized_size tx) (\<lambda>sz.
        obind (pmul sz (mass_per_tx_byte c)) (\<lambda>compute_mass_for_size.
        obind (osum (\<lambda>output. 2 + of_nat (length (spk_script (out_spk output)))) (tx_outputs tx)) (\<lambda>total_spk_size.
        obind (pmul total_spk_size (mass_per_script_pub_key_byte c)) (\<lambda>total_spk_mass.
        obind (osum (\<lambda>input. ucast (sig_op_count input)) (tx_inputs tx)) (\<lambda>total_sigops.
        obind (pmul total_sigops (mass_per_sig_op c)) (\<lambda>total_sigops_mass.
        obind (omap (alt_creation_mass sha3) (filter (\<lambda>output. classify_alt_script (spk_script (out_spk output)) = Some Creation) (tx_outputs tx))) (\<lambda>alts.
        obind (osum id alts) (\<lambda>alt_mass.
        obind (padd compute_mass_for_size total_spk_mass) (\<lambda>m.
        obind (padd m total_sigops_mass) (\<lambda>m.
        obind (padd m alt_mass) (\<lambda>compute.
        obind (pmul sz TRANSIENT_BYTE_TO_MASS_FACTOR) (\<lambda>transient.
        Ok \<lparr>compute_mass = compute, transient_mass = transient\<rparr>)))))))))))))"

definition calc_contextual_masses :: "mass_calculator \<Rightarrow> populated_transaction \<Rightarrow> (unit, u64) outcome" where
  "calc_contextual_masses c p =
     calc_storage_mass (is_coinbase (ptx p)) (map (cell_of_entry \<circ> snd) (populated_inputs p))
       (map cell_of_output (filter (\<lambda>output. \<not> is_zero_value_protocol_output output) (tx_outputs (ptx p)))) (storage_mass_parameter c)"

section \<open>The storage mass over the natural numbers\<close>

text \<open>The reference: the sums of KIP-0009 with truncating division.\<close>

definition cell_harmonic :: "nat \<Rightarrow> utxo_cell \<Rightarrow> nat" where
  "cell_harmonic C cell = C * unat (cell_plurality cell) * unat (cell_plurality cell) div unat (cell_amount cell)"

definition harmonic :: "nat \<Rightarrow> utxo_cell list \<Rightarrow> nat" where
  "harmonic C cells = sum_list (map (cell_harmonic C) cells)"

definition plurality_sum :: "utxo_cell list \<Rightarrow> nat" where
  "plurality_sum cells = sum_list (map (\<lambda>c. unat (cell_plurality c)) cells)"

definition amount_sum :: "utxo_cell list \<Rightarrow> nat" where
  "amount_sum cells = sum_list (map (\<lambda>c. unat (cell_amount c)) cells)"

definition relaxed :: "utxo_cell list \<Rightarrow> utxo_cell list \<Rightarrow> bool" where
  "relaxed inputs outputs \<longleftrightarrow> plurality_sum outputs = 1 \<or> plurality_sum inputs = 1 \<or> plurality_sum outputs = 2 \<and> plurality_sum inputs = 2"

definition storage_mass_spec :: "nat \<Rightarrow> utxo_cell list \<Rightarrow> utxo_cell list \<Rightarrow> nat" where
  "storage_mass_spec C inputs outputs = harmonic C outputs -
     (if relaxed inputs outputs then harmonic C inputs
      else plurality_sum inputs * (C div (amount_sum inputs div plurality_sum inputs)))"

definition cell_fits :: "nat \<Rightarrow> utxo_cell \<Rightarrow> bool" where
  "cell_fits C cell \<longleftrightarrow> 0 < cell_plurality cell \<and> 0 < cell_amount cell \<and> C * unat (cell_plurality cell) * unat (cell_plurality cell) < 2 ^ 64"

lemma storage_term_Ok:
  assumes "cell_fits (unat C) cell"
  obtains t where "storage_term C cell = Ok t" "unat t = cell_harmonic (unat C) cell"
proof -
  let ?p = "cell_plurality cell"
  have a: "cell_amount cell \<noteq> 0" and l: "unat C * unat ?p * unat ?p < 2 ^ 64" and p: "1 \<le> unat ?p"
    using assms by (auto simp: cell_fits_def word_less_nat_alt)
  have l1: "unat C * unat ?p < 2 ^ 64" by (rule le_less_trans [OF _ l]) (use p in simp)
  have x: "unat (C * ?p) = unat C * unat ?p" using l1 by (simp add: unat_word_ariths)
  have y: "unat (C * ?p * ?p) = unat C * unat ?p * unat ?p" using l l1 by (simp add: unat_word_ariths)
  have "storage_term C cell = Ok (C * ?p * ?p div cell_amount cell)"
    using a l l1 by (simp add: storage_term_def checked_mul_def checked_div_def ok_or_def x)
  moreover have "unat (C * ?p * ?p div cell_amount cell) = cell_harmonic (unat C) cell" by (simp add: unat_div y cell_harmonic_def)
  ultimately show ?thesis by (rule that)
qed

text \<open>The loops add up as long as the sums fit.\<close>

lemma harmonic_outputs_Ok:
  assumes "list_all (cell_fits (unat C)) cells" "unat p + plurality_sum cells < 2 ^ 64" "unat h + harmonic (unat C) cells < 2 ^ 64"
  shows "\<exists>p' h'. ofold (\<lambda>cell (acc_plurality, acc_harm). obind (padd acc_plurality (cell_plurality cell)) (\<lambda>p.
      obind (storage_term C cell) (\<lambda>term. obind (ok_or (checked_add acc_harm term) ()) (\<lambda>h. Ok (p, h))))) cells (p, h) = Ok (p', h') \<and>
    unat p' = unat p + plurality_sum cells \<and> unat h' = unat h + harmonic (unat C) cells"
  using assms
proof (induction cells arbitrary: p h)
  case (Cons cell cells)
  obtain t where t: "storage_term C cell = Ok t" "unat t = cell_harmonic (unat C) cell" using Cons(2) by (auto elim: storage_term_Ok)
  have "unat p + unat (cell_plurality cell) < 2 ^ 64" "unat h + unat t < 2 ^ 64"
    using Cons(3,4) t(2) by (simp_all add: plurality_sum_def harmonic_def)
  then have "padd p (cell_plurality cell) = (Ok (p + cell_plurality cell) :: (unit, _) outcome)" "unat (p + cell_plurality cell) = unat p + unat (cell_plurality cell)"
    "checked_add h t = Some (h + t)" "unat (h + t) = unat h + unat t"
    by (simp_all add: padd_eq unat_word_ariths checked_add_def)
  then show ?case using Cons(1) [of "p + cell_plurality cell" "h + t"] Cons(2-4) t by (simp add: plurality_sum_def harmonic_def ok_or_def add.assoc)
qed (simp add: plurality_sum_def harmonic_def)

lemma osum_Ok:
  assumes "sum_list (map (\<lambda>x. unat (f x)) xs) < 2 ^ 64"
  obtains s where "osum f xs = (Ok s :: ('e, _) outcome)" "unat s = sum_list (map (\<lambda>x. unat (f x)) xs)"
proof -
  have "\<exists>s. ofold (\<lambda>x acc. padd acc (f x)) xs a = (Ok s :: ('e, _) outcome) \<and> unat s = unat a + sum_list (map (\<lambda>x. unat (f x)) xs)"
    if "unat a + sum_list (map (\<lambda>x. unat (f x)) xs) < 2 ^ 64" for a
    using that
  proof (induction xs arbitrary: a)
    case (Cons x xs)
    then have "padd a (f x) = (Ok (a + f x) :: ('e, _) outcome)" "unat (a + f x) = unat a + unat (f x)" by (simp_all add: padd_eq unat_word_ariths)
    then show ?case using Cons(1) [of "a + f x"] Cons(2) by (simp add: add.assoc)
  qed simp
  from this [of 0] show ?thesis using assms that by (auto simp: osum_def)
qed

lemma harmonic_inputs_Ok:
  assumes "list_all (cell_fits (unat C)) cells"
  shows "\<exists>h'. ofold (\<lambda>cell total. obind (storage_term C cell) (\<lambda>term. Ok (saturating_add total term))) cells h = Ok h' \<and>
    unat h' = min (unat h + harmonic (unat C) cells) (2 ^ 64 - 1)"
  using assms
proof (induction cells arbitrary: h)
  case Nil
  then show ?case using unat_less_exp [of h] by (simp add: harmonic_def)
next
  case (Cons cell cells)
  obtain t where t: "storage_term C cell = Ok t" "unat t = cell_harmonic (unat C) cell" using Cons(2) by (auto elim: storage_term_Ok)
  then show ?case using Cons(1) [of "saturating_add h t"] Cons(2) by (auto simp: harmonic_def unat_rules)
qed

lemma input_sums_Ok:
  assumes "unat p + plurality_sum cells < 2 ^ 64" "unat a + amount_sum cells < 2 ^ 64"
  shows "\<exists>p' a'. ofold (\<lambda>cell (acc_plur, acc_amt). obind (padd acc_plur (cell_plurality cell)) (\<lambda>p.
      obind (padd acc_amt (cell_amount cell)) (\<lambda>a. Ok (p, a)))) cells (p, a) = (Ok (p', a') :: (unit, _) outcome) \<and>
    unat p' = unat p + plurality_sum cells \<and> unat a' = unat a + amount_sum cells"
  using assms
proof (induction cells arbitrary: p a)
  case (Cons cell cells)
  then have "unat p + unat (cell_plurality cell) < 2 ^ 64" "unat a + unat (cell_amount cell) < 2 ^ 64" by (simp_all add: plurality_sum_def amount_sum_def)
  then have "padd p (cell_plurality cell) = (Ok (p + cell_plurality cell) :: (unit, _) outcome)" "unat (p + cell_plurality cell) = unat p + unat (cell_plurality cell)"
    "padd a (cell_amount cell) = (Ok (a + cell_amount cell) :: (unit, _) outcome)" "unat (a + cell_amount cell) = unat a + unat (cell_amount cell)"
    by (simp_all add: padd_eq unat_word_ariths)
  then show ?case using Cons(1) [of "p + cell_plurality cell" "a + cell_amount cell"] Cons(2,3) by (simp add: plurality_sum_def amount_sum_def add.assoc)
qed (simp add: plurality_sum_def amount_sum_def)

lemma plurality_sum_ge: "list_all (cell_fits C) cells \<Longrightarrow> length cells \<le> plurality_sum cells"
  by (induction cells) (auto simp: plurality_sum_def cell_fits_def word_less_nat_alt)

lemma relaxed_path_Ok:
  assumes "list_all (cell_fits C) inputs" "plurality_sum inputs < 2 ^ 64" "unat op = plurality_sum outputs"
  shows "relaxed_formula_path op inputs = Ok (relaxed inputs outputs)"
proof -
  obtain s where s: "osum cell_plurality inputs = (Ok s :: (unit, _) outcome)" "unat s = plurality_sum inputs"
    using osum_Ok [of cell_plurality inputs] assms(2) by (auto simp: plurality_sum_def)
  have w: "w = 1 \<longleftrightarrow> unat w = 1" "w = 2 \<longleftrightarrow> unat w = 2" for w :: u64 by (auto simp: word_unat_eq_iff)
  show ?thesis using s assms(3) plurality_sum_ge [OF assms(1)] by (auto simp: relaxed_formula_path_def relaxed_def w)
qed

text \<open>
  C21: The storage mass is the KIP-0009 formula. When every amount and plurality is positive, the products and sums fit into
  64 bits and the input amounts are at least their plurality, \<open>calc_storage_mass\<close> returns, and its value is the harmonic
  sum over the outputs minus the harmonic sum over the inputs in the relaxed cases, and minus the arithmetic term in the
  others, cut off at zero; the saturation of the input terms has no effect.
\<close>

theorem storage_mass_exact:
  assumes "list_all (cell_fits (unat C)) inputs" "list_all (cell_fits (unat C)) outputs"
    and "plurality_sum inputs < 2 ^ 64" "plurality_sum outputs < 2 ^ 64" "amount_sum inputs < 2 ^ 64" "harmonic (unat C) outputs < 2 ^ 64"
    and "inputs \<noteq> []" "plurality_sum inputs \<le> amount_sum inputs"
  shows "\<exists>m. calc_storage_mass False inputs outputs C = Ok m \<and> unat m = storage_mass_spec (unat C) inputs outputs"
proof -
  obtain op ho where o: "harmonic_outputs C outputs = Ok (op, ho)" "unat op = plurality_sum outputs" "unat ho = harmonic (unat C) outputs"
    using harmonic_outputs_Ok [OF assms(2), of 0 0] assms(4,6) by (auto simp: harmonic_outputs_def)
  note r = relaxed_path_Ok [OF assms(1,3) o(2)]
  show ?thesis
  proof (cases "relaxed inputs outputs")
    case True
    then show ?thesis using harmonic_inputs_Ok [OF assms(1), of 0] o r unat_less_exp [of ho]
      by (auto simp: calc_storage_mass_def storage_mass_spec_def unat_rules)
  next
    case False
    obtain ip ia where i: "ofold (\<lambda>cell (acc_plur, acc_amt). obind (padd acc_plur (cell_plurality cell)) (\<lambda>p.
        obind (padd acc_amt (cell_amount cell)) (\<lambda>a. Ok (p, a)))) inputs (0, 0) = (Ok (ip, ia) :: (unit, _) outcome)"
      "unat ip = plurality_sum inputs" "unat ia = amount_sum inputs" using input_sums_Ok [of 0 inputs 0] assms(3,5) by auto
    have "0 < plurality_sum inputs" using plurality_sum_ge [OF assms(1)] assms(7) by (cases inputs) auto
    then have "0 < unat ip" "0 < unat (ia div ip)" using i(2,3) assms(8) by (simp_all add: unat_div div_greater_zero_iff)
    then have "ip \<noteq> 0" "ia div ip \<noteq> 0" by (auto simp: unsigned_eq_0_iff)
    then have "calc_storage_mass False inputs outputs C = Ok (saturating_sub ho (saturating_mul ip (C div (ia div ip))))"
      using o(1) r False i(1) by (simp add: calc_storage_mass_def checked_div_def ok_or_def)
    then show ?thesis using False i(2,3) o(3) unat_less_exp [of ho] by (auto simp: storage_mass_spec_def unat_rules unat_div)
  qed
qed

theorem storage_mass_exact_witness:
  "\<exists>m. calc_storage_mass False [\<lparr>cell_plurality = 1, cell_amount = 1000\<rparr>] [\<lparr>cell_plurality = 1, cell_amount = 10\<rparr>, \<lparr>cell_plurality = 2, cell_amount = 900\<rparr>] 1000000 = Ok m \<and>
     unat m = 1000000 div 10 + 4000000 div 900 - 1000"
  using storage_mass_exact [of 1000000 "[\<lparr>cell_plurality = 1, cell_amount = 1000\<rparr>]" "[\<lparr>cell_plurality = 1, cell_amount = 10\<rparr>, \<lparr>cell_plurality = 2, cell_amount = 900\<rparr>]"]
  by (simp add: cell_fits_def plurality_sum_def amount_sum_def harmonic_def cell_harmonic_def storage_mass_spec_def relaxed_def)

text \<open>
  The storage mass is not total: it panics when the input amounts of a transaction with more than two inputs add up to
  2^64 or more, and it has no value when an output amount is zero.
\<close>

theorem storage_mass_not_total:
  "calc_storage_mass False [\<lparr>cell_plurality = 1, cell_amount = 2 ^ 63\<rparr>, \<lparr>cell_plurality = 1, cell_amount = 2 ^ 63\<rparr>, \<lparr>cell_plurality = 1, cell_amount = 1\<rparr>]
     [\<lparr>cell_plurality = 1, cell_amount = 1\<rparr>, \<lparr>cell_plurality = 1, cell_amount = 1\<rparr>] 1 = Panic \<and>
   calc_storage_mass False inputs (\<lparr>cell_plurality = 1, cell_amount = 0\<rparr> # outputs) C = Err ()"
  by (simp add: calc_storage_mass_def harmonic_outputs_def storage_term_def checked_mul_def checked_div_def checked_add_def padd_def ok_or_def
      relaxed_formula_path_def)

end
