(* ===== verification/Tx_Rules.thy ===== *)
theory Tx_Rules
  imports Da Mass Opcode
begin

text \<open>
  What the transaction rules talk about: the data of contract and token outputs (src/svm/core/src), the errors of a
  rule (src/consensus/core/src/errors/tx.rs) and the limits the validator is built with
  (src/consensus/src/processes/transaction_validator/mod.rs). The Borsh decoders, the bytecode validation and the
  hashes of bytecode are the fields of the parameter \<open>svm_lib\<close>.
\<close>

section \<open>Contracts and tokens\<close>

datatype capability = ReadUtxo | ProduceOutput | VerifyDilithium | ReadBlockHeight | HashSha3 | VerifyRisc0Proof
  | VerifyPlonky3Proof | VerifyDataAvailability | ResolveAlt | EmitEvent | VrfRandomness

datatype upgrade_policy = Immutable | OwnerTimelock bytes u64 | MultisigTimelock u8 "bytes list" u64

definition UPGRADE_MIN_BLOCKS :: u64 where "UPGRADE_MIN_BLOCKS = 10000"
definition MAX_MULTISIG_KEYS :: nat where "MAX_MULTISIG_KEYS = 16"
definition MAX_TOKEN_LOCK_SCRIPT_LEN :: nat where "MAX_TOKEN_LOCK_SCRIPT_LEN = 200"

fun upgrade_policy_is_valid :: "upgrade_policy \<Rightarrow> bool" where
  "upgrade_policy_is_valid Immutable \<longleftrightarrow> True"
| "upgrade_policy_is_valid (OwnerTimelock _ min_blocks) \<longleftrightarrow> UPGRADE_MIN_BLOCKS \<le> min_blocks"
| "upgrade_policy_is_valid (MultisigTimelock threshold keys min_blocks) \<longleftrightarrow>
     UPGRADE_MIN_BLOCKS \<le> min_blocks \<and> 0 < threshold \<and> 0 < length keys \<and> length keys \<le> MAX_MULTISIG_KEYS \<and> unat threshold \<le> length keys"

record contract_manifest =
  script_hash :: hash
  upgrade_policy_of :: upgrade_policy
  required_capabilities :: "capability list"

record contract_utxo_data =
  contract_id :: hash
  datum :: bytes
  manifest :: contract_manifest

record native_token_utxo_data =
  token_id :: hash
  token_amount :: u64
  lock_script :: bytes
  transfer_policy_id :: "hash option"

record svm_lib =
  decode_contract_deploy :: "bytes \<Rightarrow> bytes option"
  decode_minting_policy :: "bytes \<Rightarrow> bytes option"
  decode_contract_utxo :: "bytes \<Rightarrow> contract_utxo_data option"
  decode_token_utxo :: "bytes \<Rightarrow> native_token_utxo_data option"
  validate_bytecode :: "bytes \<Rightarrow> bool"
  validate_imports_against_manifest :: "bytes \<Rightarrow> capability list \<Rightarrow> bool"
  hash_wasm :: "bytes \<Rightarrow> hash"
  hash_mint_policy :: "bytes \<Rightarrow> hash"
  sha3_384 :: "bytes \<Rightarrow> bytes"

section \<open>Errors\<close>

text \<open>Where the source puts a printed error into a message, the constructor here carries the error itself; the
  messages of the contract machine are the constructors of \<open>svm_failure\<close>.\<close>

datatype svm_failure = InvalidDeployPayload | InvalidWasm | MalformedContractUtxoData nat | ContractIdMismatch nat hash hash
  | InvalidUpgradePolicy nat | ImportsMismatch nat | InvalidMintPolicyPayload | InvalidMintPolicyWasm | TokenIdMismatch nat hash hash
  | SvmNotInitialised | MalformedContractInput | ContractFailed | ContractRejected | MalformedTokenInput | MalformedTokenOutput

datatype policy_failure = PolicyExecutionFailed | MintOrBurnRejected hash u64 u64 | SpendRejected hash hash

datatype token_malformed = TokenNotDecodable | LockScriptTooLong nat

datatype reference_failure = ReferenceBadLength alt_reference_error | AltStoreError

datatype (plugins only: size) tx_rule_error =
    NoTxInputs | TxDuplicateInputs | TxHasGas | UnknownTxVersion u16 | TooManyInputs nat nat | TooManyOutputs nat nat
  | TooBigSignatureScript nat nat | TooBigScriptPublicKey nat nat | NotFinalized nat | CoinbaseHasInputs nat
  | CoinbaseTooManyOutputs nat u64 | CoinbaseScriptPublicKeyTooLong nat | CoinbaseNonZeroMassCommitment
  | ImmatureCoinbaseSpend nat transaction_outpoint u64 u64 u64 | InputAmountOverflow | InputAmountTooHigh | TxOutZero nat
  | TxOutTooHigh nat | OutputsValueOverflow | TotalTxOutTooHigh | SpendTooHigh u64 u64 | SequenceLockConditionsAreNotMet
  | MissingTxOutpoints | SignatureInvalid tx_script_error | SignatureEmpty tx_script_error | MassIncomputable | WrongMass u64 u64
  | WrongSigOpCount nat u64 u64
  | TokenConservationViolated hash u64 u64 | SubnetworksDisabled subnetwork_id_t | FeerateTooLow | ContractNotDeployed hash | SvmValidationFailed svm_failure
  | TokenUtxoMalformed nat token_malformed | MintingPolicyNotDeployed hash | MintingPolicyRejected policy_failure
  | TransferPolicyNotDeployed hash | TransferPolicyRejected policy_failure | CarrierMalformed nat carrier_error | CarrierNonZeroValue nat u64
  | TooManyCarrierOutputs nat nat | CarrierInCoinbase nat | AltCreationMalformed nat alt_creation_error
  | AltCreationNonZeroValue nat u64 | AltReferenceMalformed nat reference_failure | TooManyAltCreations nat nat
  | AltOutputInLegacyTx nat | AltInCoinbase nat | AltReferenceDanglingHandle nat bytes | AltReferenceIndexOutOfRange nat u8 u16

type_synonym 'a tx_result = "(tx_rule_error, 'a) outcome"

record transaction_validator =
  max_tx_inputs :: nat
  max_tx_outputs :: nat
  max_signature_script_len :: nat
  max_script_public_key_len :: nat
  coinbase_payload_script_public_key_max_len :: u8
  tv_coinbase_maturity :: u64
  tv_ghostdag_k :: u16
  tv_mass_calculator :: mass_calculator

end
