(* ===== verification/Tx_Isolation.thy ===== *)
theory Tx_Isolation
  imports Tx_Rules
begin

text \<open>
  The transaction rules that need no context
  (src/consensus/src/processes/transaction_validator/tx_validation_in_isolation.rs): counts, value ranges, duplicate
  inputs, versions, data availability carriers, address lookup tables, contract and minting policy deployments and
  token outputs.
\<close>

section \<open>Counts, sizes and coinbase\<close>

abbreviation out_script :: "transaction_output \<Rightarrow> bytes" where
  "out_script output \<equiv> spk_script (out_spk output)"

abbreviation out_version :: "transaction_output \<Rightarrow> u16" where
  "out_version output \<equiv> spk_version (out_spk output)"

definition check_transaction_inputs_count :: "transaction_validator \<Rightarrow> transaction \<Rightarrow> unit tx_result" where
  "check_transaction_inputs_count tv tx =
     then_do (ensure (\<not> (\<not> is_coinbase tx \<and> tx_inputs tx = [])) NoTxInputs)
       (ensure (\<not> max_tx_inputs tv < length (tx_inputs tx)) (TooManyInputs (length (tx_inputs tx)) (max_tx_inputs tv)))"

text \<open>\<open>iter().position(p)\<close>\<close>

definition position :: "('a \<Rightarrow> bool) \<Rightarrow> 'a list \<Rightarrow> nat option" where
  "position p xs = map_option fst (find (\<lambda>(i, x). p x) (enumerate 0 xs))"

definition check_transaction_signature_scripts :: "transaction_validator \<Rightarrow> transaction \<Rightarrow> unit tx_result" where
  "check_transaction_signature_scripts tv tx =
     (case position (\<lambda>input. max_signature_script_len tv < length (signature_script input)) (tx_inputs tx) of
        Some i \<Rightarrow> Err (TooBigSignatureScript i (max_signature_script_len tv)) | None \<Rightarrow> Ok ())"

definition check_transaction_outputs_count :: "transaction_validator \<Rightarrow> transaction \<Rightarrow> unit tx_result" where
  "check_transaction_outputs_count tv tx = (if is_coinbase tx then Ok ()
     else ensure (\<not> max_tx_outputs tv < length (tx_outputs tx)) (TooManyOutputs (length (tx_outputs tx)) (max_tx_inputs tv)))"

definition check_transaction_script_public_keys :: "transaction_validator \<Rightarrow> transaction \<Rightarrow> unit tx_result" where
  "check_transaction_script_public_keys tv tx =
     (case position (\<lambda>output. out_version output \<noteq> SCRIPT_VERSION_CONTRACT \<and> out_version output \<noteq> SCRIPT_VERSION_TOKEN \<and>
          out_version output \<noteq> SCRIPT_VERSION_CARRIER \<and> classify_alt_script (out_script output) = None \<and>
          max_script_public_key_len tv < length (out_script output)) (tx_outputs tx) of
        Some i \<Rightarrow> Err (TooBigScriptPublicKey i (max_script_public_key_len tv)) | None \<Rightarrow> Ok ())"

definition check_coinbase_in_isolation :: "transaction_validator \<Rightarrow> transaction \<Rightarrow> unit tx_result" where
  "check_coinbase_in_isolation tv tx = (if \<not> is_coinbase tx then Ok () else
     then_do (ensure (tx_inputs tx = []) (CoinbaseHasInputs (length (tx_inputs tx)))) (
     then_do (ensure (\<not> 0 < tx_mass tx) CoinbaseNonZeroMassCommitment) (
     obind (padd (ucast (tv_ghostdag_k tv)) 2) (\<lambda>outputs_limit.
     then_do (ensure (\<not> unat outputs_limit < length (tx_outputs tx)) (CoinbaseTooManyOutputs (length (tx_outputs tx)) outputs_limit)) (
     ocheck (\<lambda>i output.
       then_do (ensure (out_version output \<noteq> SCRIPT_VERSION_CARRIER) (CarrierInCoinbase i)) (
       then_do (ensure (classify_alt_script (out_script output) = None) (AltInCoinbase i))
         (ensure (\<not> unat (coinbase_payload_script_public_key_max_len tv) < length (out_script output)) (CoinbaseScriptPublicKeyTooLong i))))
       0 (tx_outputs tx))))))"

section \<open>Values, inputs and versions\<close>

definition output_value_step :: "nat \<times> transaction_output \<Rightarrow> u64 \<Rightarrow> u64 tx_result" where
  "output_value_step = (\<lambda>(i, output) acc.
     if out_version output = SCRIPT_VERSION_CARRIER then Ok acc
     else if classify_alt_script (out_script output) = Some Creation then Ok acc
     else then_do (ensure (out_value output \<noteq> 0) (TxOutZero i)) (
       then_do (ensure (\<not> MAX_SOMPI < out_value output) (TxOutTooHigh i)) (
       obind (ok_or (checked_add acc (out_value output)) OutputsValueOverflow) (\<lambda>new_total.
       then_do (ensure (\<not> MAX_SOMPI < new_total) TotalTxOutTooHigh) (Ok new_total)))))"

definition check_transaction_output_value_ranges :: "transaction \<Rightarrow> unit tx_result" where
  "check_transaction_output_value_ranges tx =
     obind (ofold output_value_step (enumerate 0 (tx_outputs tx)) 0) (\<lambda>_. Ok ())"

definition duplicate_step :: "transaction_input \<Rightarrow> transaction_outpoint list \<Rightarrow> transaction_outpoint list tx_result" where
  "duplicate_step input existing = (if previous_outpoint input \<in> set existing then Err TxDuplicateInputs
     else Ok (previous_outpoint input # existing))"

definition check_duplicate_transaction_inputs :: "transaction \<Rightarrow> unit tx_result" where
  "check_duplicate_transaction_inputs tx = obind (ofold duplicate_step (tx_inputs tx) []) (\<lambda>_. Ok ())"

definition check_gas :: "transaction \<Rightarrow> unit tx_result" where
  "check_gas tx = ensure (\<not> 0 < tx_gas tx) TxHasGas"

definition check_transaction_version :: "transaction \<Rightarrow> unit tx_result" where
  "check_transaction_version tx = ensure (\<not> MAX_TX_VERSION < tx_version tx) (UnknownTxVersion (tx_version tx))"

definition check_transaction_subnetwork :: "transaction \<Rightarrow> unit tx_result" where
  "check_transaction_subnetwork tx =
     (if is_coinbase tx \<or> is_native (subnetwork_id tx) then Ok () else Err (SubnetworksDisabled (subnetwork_id tx)))"

section \<open>Carriers and lookup tables\<close>

definition carrier_step :: "nat \<times> transaction_output \<Rightarrow> nat \<Rightarrow> nat tx_result" where
  "carrier_step = (\<lambda>(i, output) carrier_count.
     if out_version output \<noteq> SCRIPT_VERSION_CARRIER then Ok carrier_count
     else obind (map_err (CarrierMalformed i) (parse_carrier_header (out_script output))) (\<lambda>_.
       then_do (ensure (out_value output = 0) (CarrierNonZeroValue i (out_value output))) (Ok (carrier_count + 1))))"

definition validate_carrier_outputs :: "transaction \<Rightarrow> unit tx_result" where
  "validate_carrier_outputs tx =
     obind (ofold carrier_step (enumerate 0 (tx_outputs tx)) 0) (\<lambda>carrier_count.
     ensure (\<not> MAX_CARRIER_OUTPUTS_PER_TX < carrier_count) (TooManyCarrierOutputs carrier_count MAX_CARRIER_OUTPUTS_PER_TX))"

definition alt_step :: "svm_lib \<Rightarrow> u16 \<Rightarrow> nat \<times> transaction_output \<Rightarrow> nat \<Rightarrow> nat tx_result" where
  "alt_step L version = (\<lambda>(i, output) creation_count. case classify_alt_script (out_script output) of
       None \<Rightarrow> Ok creation_count
     | Some kind \<Rightarrow> then_do (ensure (\<not> version < 1) (AltOutputInLegacyTx i)) (case kind of
           Creation \<Rightarrow> then_do (ensure (out_value output = 0) (AltCreationNonZeroValue i (out_value output))) (
             obind (map_err (AltCreationMalformed i) (parse_alt_creation_header (sha3_384 L) (out_script output))) (\<lambda>_.
             Ok (creation_count + 1)))
         | Reference \<Rightarrow> obind (map_err (\<lambda>e. AltReferenceMalformed i (ReferenceBadLength e)) (parse_alt_reference (out_script output)))
             (\<lambda>_. Ok creation_count)))"

definition validate_alt_outputs_and_refs :: "svm_lib \<Rightarrow> transaction \<Rightarrow> unit tx_result" where
  "validate_alt_outputs_and_refs L tx =
     obind (ofold (alt_step L (tx_version tx)) (enumerate 0 (tx_outputs tx)) 0) (\<lambda>creation_count.
     ensure (\<not> MAX_ALT_CREATIONS_PER_TX < creation_count) (TooManyAltCreations creation_count MAX_ALT_CREATIONS_PER_TX))"

section \<open>Deployments and token outputs\<close>

definition is_contract_deploy :: "transaction \<Rightarrow> bool" where
  "is_contract_deploy tx \<longleftrightarrow> is_native (subnetwork_id tx) \<and> tx_payload tx \<noteq> [] \<and>
     list_ex (\<lambda>output. out_version output = SCRIPT_VERSION_CONTRACT) (tx_outputs tx)"

definition validate_contract_deploy :: "svm_lib \<Rightarrow> transaction \<Rightarrow> unit tx_result" where
  "validate_contract_deploy L tx =
     obind (ok_or (decode_contract_deploy L (tx_payload tx)) (SvmValidationFailed InvalidDeployPayload)) (\<lambda>wasm.
     then_do (ensure (validate_bytecode L wasm) (SvmValidationFailed InvalidWasm)) (
     ocheck (\<lambda>i output. if out_version output \<noteq> SCRIPT_VERSION_CONTRACT then Ok ()
       else obind (ok_or (decode_contract_utxo L (out_script output)) (SvmValidationFailed (MalformedContractUtxoData i))) (\<lambda>data.
         then_do (ensure (contract_id data = hash_wasm L wasm) (SvmValidationFailed (ContractIdMismatch i (hash_wasm L wasm) (contract_id data)))) (
         then_do (ensure (upgrade_policy_is_valid (upgrade_policy_of (manifest data))) (SvmValidationFailed (InvalidUpgradePolicy i)))
           (ensure (validate_imports_against_manifest L wasm (required_capabilities (manifest data))) (SvmValidationFailed (ImportsMismatch i))))))
       0 (tx_outputs tx)))"

definition is_mint_policy_deploy :: "transaction \<Rightarrow> bool" where
  "is_mint_policy_deploy tx \<longleftrightarrow> is_native (subnetwork_id tx) \<and> tx_payload tx \<noteq> [] \<and>
     list_ex (\<lambda>output. out_version output = SCRIPT_VERSION_TOKEN) (tx_outputs tx)"

definition validate_mint_policy_deploy :: "svm_lib \<Rightarrow> transaction \<Rightarrow> unit tx_result" where
  "validate_mint_policy_deploy L tx =
     obind (ok_or (decode_minting_policy L (tx_payload tx)) (SvmValidationFailed InvalidMintPolicyPayload)) (\<lambda>wasm.
     then_do (ensure (validate_bytecode L wasm) (SvmValidationFailed InvalidMintPolicyWasm)) (
     ocheck (\<lambda>i output. if out_version output \<noteq> SCRIPT_VERSION_TOKEN then Ok ()
       else obind (ok_or (decode_token_utxo L (out_script output)) (TokenUtxoMalformed i TokenNotDecodable)) (\<lambda>data.
         then_do (ensure (token_id data = hash_mint_policy L wasm) (SvmValidationFailed (TokenIdMismatch i (hash_mint_policy L wasm) (token_id data))))
           (ensure (\<not> MAX_TOKEN_LOCK_SCRIPT_LEN < length (lock_script data)) (TokenUtxoMalformed i (LockScriptTooLong (length (lock_script data)))))))
       0 (tx_outputs tx)))"

definition validate_token_outputs :: "svm_lib \<Rightarrow> transaction \<Rightarrow> unit tx_result" where
  "validate_token_outputs L tx =
     ocheck (\<lambda>i output. if out_version output \<noteq> SCRIPT_VERSION_TOKEN then Ok ()
       else obind (ok_or (decode_token_utxo L (out_script output)) (TokenUtxoMalformed i TokenNotDecodable)) (\<lambda>data.
         ensure (\<not> MAX_TOKEN_LOCK_SCRIPT_LEN < length (lock_script data)) (TokenUtxoMalformed i (LockScriptTooLong (length (lock_script data))))))
       0 (tx_outputs tx)"

definition validate_tx_in_isolation :: "transaction_validator \<Rightarrow> svm_lib \<Rightarrow> transaction \<Rightarrow> unit tx_result" where
  "validate_tx_in_isolation tv L tx =
     then_do (check_transaction_inputs_count tv tx) (
     then_do (check_transaction_signature_scripts tv tx) (
     then_do (check_transaction_outputs_count tv tx) (
     then_do (check_transaction_script_public_keys tv tx) (
     then_do (check_coinbase_in_isolation tv tx) (
     then_do (check_transaction_output_value_ranges tx) (
     then_do (check_duplicate_transaction_inputs tx) (
     then_do (check_gas tx) (
     then_do (check_transaction_subnetwork tx) (
     then_do (check_transaction_version tx) (
     then_do (validate_carrier_outputs tx) (
     then_do (validate_alt_outputs_and_refs L tx) (
     then_do (if is_contract_deploy tx then validate_contract_deploy L tx else Ok ())
       (if is_mint_policy_deploy tx then validate_mint_policy_deploy L tx else validate_token_outputs L tx)))))))))))))"

section \<open>What the rules establish\<close>

lemma walk_entries_neq_Panic: "walk_entries plen rest c d \<noteq> Panic"
  by (induction plen rest c d rule: walk_entries.induct) (subst walk_entries.simps, simp add: Let_def)

lemma parse_alt_creation_header_neq_Panic: "parse_alt_creation_header sha3 script \<noteq> Panic"
  unfolding safely_True [symmetric] parse_alt_creation_header_def Let_def split_def
  by (simp only: safely_simps if_splits simp_thms) (simp only: safely_True walk_entries_neq_Panic simp_thms not_False_eq_True)

lemma parse_alt_reference_neq_Panic: "parse_alt_reference script \<noteq> Panic"
  by (simp add: parse_alt_reference_def)

lemma parse_carrier_header_neq_Panic: "parse_carrier_header script \<noteq> Panic"
proof -
  have "safely (\<lambda>_. True) (parse_carrier_header script)"
    by (simp add: parse_carrier_header_def Let_def safely_simps safely_psub unat_eq_zero [symmetric] Suc_le_eq flip: word_unat_eq_iff)
  then show ?thesis by (simp add: safely_True)
qed

definition counted :: "transaction_output \<Rightarrow> bool" where
  "counted output \<longleftrightarrow> out_version output \<noteq> SCRIPT_VERSION_CARRIER \<and> classify_alt_script (out_script output) \<noteq> Some Creation"

abbreviation values_sum :: "transaction_output list \<Rightarrow> nat" where
  "values_sum outputs \<equiv> sum_list (map (\<lambda>output. unat (out_value output)) outputs)"

lemma value_ranges_safe:
  "safely (\<lambda>_. values_sum (filter counted (tx_outputs tx)) \<le> unat MAX_SOMPI \<and> (\<forall>output \<in> set (tx_outputs tx). counted output \<longrightarrow> out_value output \<noteq> 0))
     (check_transaction_output_value_ranges tx)"
proof -
  let ?outs = "map (snd :: nat \<times> transaction_output \<Rightarrow> _)"
  have "safely (\<lambda>acc. unat acc = values_sum (filter counted (?outs (enumerate 0 (tx_outputs tx)))) \<and> unat acc \<le> unat MAX_SOMPI \<and>
      (\<forall>output \<in> set (?outs (enumerate 0 (tx_outputs tx))). counted output \<longrightarrow> out_value output \<noteq> 0))
    (ofold output_value_step (enumerate 0 (tx_outputs tx)) 0)"
  proof (rule safely_ofold_prefix)
    fix ys zs and y :: "nat \<times> transaction_output" and acc :: u64
    assume "unat acc = values_sum (filter counted (?outs ys)) \<and> unat acc \<le> unat MAX_SOMPI \<and>
      (\<forall>output \<in> set (?outs ys). counted output \<longrightarrow> out_value output \<noteq> 0)"
    then show "safely (\<lambda>acc. unat acc = values_sum (filter counted (?outs (ys @ [y]))) \<and> unat acc \<le> unat MAX_SOMPI \<and>
      (\<forall>output \<in> set (?outs (ys @ [y])). counted output \<longrightarrow> out_value output \<noteq> 0)) (output_value_step y acc)"
      by (cases y) (auto simp: output_value_step_def safely_simps counted_def checked_add_eq_Some word_less_nat_alt)
  qed simp
  then show ?thesis by (auto simp: check_transaction_output_value_ranges_def safely_obind elim!: safely_mono)
qed

lemma duplicate_inputs_safe:
  "safely (\<lambda>_. distinct (map previous_outpoint (tx_inputs tx))) (check_duplicate_transaction_inputs tx)"
proof -
  have "safely (\<lambda>existing. existing = rev (map previous_outpoint (tx_inputs tx)) \<and> distinct existing) (ofold duplicate_step (tx_inputs tx) [])"
    by (rule safely_ofold_prefix) (auto simp: duplicate_step_def safely_simps)
  then show ?thesis by (auto simp: check_duplicate_transaction_inputs_def safely_obind elim!: safely_mono)
qed

definition carrier_ok :: "transaction_output \<Rightarrow> bool" where
  "carrier_ok output \<longleftrightarrow> (out_version output = SCRIPT_VERSION_CARRIER \<longrightarrow>
     out_value output = 0 \<and> (\<exists>h. parse_carrier_header (out_script output) = Ok h))"

lemma carriers_safe: "safely (\<lambda>_. \<forall>output \<in> set (tx_outputs tx). carrier_ok output) (validate_carrier_outputs tx)"
proof -
  have "safely (\<lambda>_. carrier_ok (snd x)) (carrier_step x n)" for x n
    using parse_carrier_header_neq_Panic [of "out_script (snd x)"]
    by (cases "parse_carrier_header (out_script (snd x))") (auto simp: carrier_step_def carrier_ok_def split_def safely_simps)
  then have "safely (\<lambda>_. \<forall>x \<in> set (enumerate 0 (tx_outputs tx)). carrier_ok (snd x)) (ofold carrier_step (enumerate 0 (tx_outputs tx)) 0)"
    by (rule safely_ofold_each)
  then show ?thesis unfolding ball_enumerate [where P = carrier_ok] by (auto simp: validate_carrier_outputs_def safely_simps elim!: safely_mono)
qed

definition alt_ok :: "svm_lib \<Rightarrow> u16 \<Rightarrow> transaction_output \<Rightarrow> bool" where
  "alt_ok L version output \<longleftrightarrow> (case classify_alt_script (out_script output) of None \<Rightarrow> True
     | Some Creation \<Rightarrow> version \<noteq> 0 \<and> out_value output = 0 \<and> (\<exists>h. parse_alt_creation_header (sha3_384 L) (out_script output) = Ok h)
     | Some Reference \<Rightarrow> version \<noteq> 0 \<and> (\<exists>r. parse_alt_reference (out_script output) = Ok r))"

lemma alts_safe: "safely (\<lambda>_. \<forall>output \<in> set (tx_outputs tx). alt_ok L (tx_version tx) output) (validate_alt_outputs_and_refs L tx)"
proof -
  have "safely (\<lambda>_. alt_ok L (tx_version tx) (snd x)) (alt_step L (tx_version tx) x n)" for x n
    using parse_alt_creation_header_neq_Panic [of "sha3_384 L" "out_script (snd x)"] parse_alt_reference_neq_Panic [of "out_script (snd x)"]
    by (cases "parse_alt_creation_header (sha3_384 L) (out_script (snd x))"; cases "parse_alt_reference (out_script (snd x))")
       (auto simp: alt_step_def alt_ok_def split_def safely_simps not_less split: option.splits alt_script_kind.splits)
  then have "safely (\<lambda>_. \<forall>x \<in> set (enumerate 0 (tx_outputs tx)). alt_ok L (tx_version tx) (snd x))
      (ofold (alt_step L (tx_version tx)) (enumerate 0 (tx_outputs tx)) 0)"
    by (rule safely_ofold_each)
  then show ?thesis unfolding ball_enumerate [where P = "alt_ok L (tx_version tx)"] by (auto simp: validate_alt_outputs_and_refs_def safely_simps elim!: safely_mono)
qed

lemma position_None: "position p xs = None \<longleftrightarrow> (\<forall>x \<in> set xs. \<not> p x)"
  using ball_enumerate [of 0 xs "\<lambda>x. \<not> p x"] by (auto simp: position_def find_None_iff split_def)

lemma position_safe: "safely (\<lambda>_. \<forall>x \<in> set xs. \<not> p x) (case position p xs of Some i \<Rightarrow> Err (f i) | None \<Rightarrow> Ok ())"
  by (auto split: option.splits simp: position_None)

definition coinbase_output_ok :: "transaction_validator \<Rightarrow> transaction_output \<Rightarrow> bool" where
  "coinbase_output_ok tv output \<longleftrightarrow> out_version output \<noteq> SCRIPT_VERSION_CARRIER \<and> classify_alt_script (out_script output) = None \<and>
     length (out_script output) \<le> unat (coinbase_payload_script_public_key_max_len tv)"

definition coinbase_ok :: "transaction_validator \<Rightarrow> transaction \<Rightarrow> bool" where
  "coinbase_ok tv tx \<longleftrightarrow> (is_coinbase tx \<longrightarrow> tx_inputs tx = [] \<and> tx_mass tx = 0 \<and> length (tx_outputs tx) \<le> unat (tv_ghostdag_k tv) + 2 \<and>
     (\<forall>output \<in> set (tx_outputs tx). coinbase_output_ok tv output))"

lemma coinbase_safe: "safely (\<lambda>_. coinbase_ok tv tx) (check_coinbase_in_isolation tv tx)"
proof -
  have k: "unat (ucast (tv_ghostdag_k tv) :: u64) = unat (tv_ghostdag_k tv)" by (rule unat_ucast_up) simp
  have u: "unat (tv_ghostdag_k tv) < 65536" using unat_less_exp [of "tv_ghostdag_k tv"] by simp
  have s: "unat (ucast (tv_ghostdag_k tv) + 2 :: u64) = unat (tv_ghostdag_k tv) + 2" using k u by (simp add: unat_word_ariths)
  show ?thesis unfolding check_coinbase_in_isolation_def coinbase_ok_def using k u
    by (auto simp: safely_simps safely_padd s word_less_nat_alt unat_eq_zero not_less coinbase_output_ok_def
        intro!: safely_mono [OF safely_ocheck [where P = "coinbase_output_ok tv"]])
qed

definition token_ok :: "svm_lib \<Rightarrow> transaction_output \<Rightarrow> bool" where
  "token_ok L output \<longleftrightarrow> (out_version output = SCRIPT_VERSION_TOKEN \<longrightarrow>
     (\<exists>data. decode_token_utxo L (out_script output) = Some data \<and> length (lock_script data) \<le> MAX_TOKEN_LOCK_SCRIPT_LEN))"

lemma tokens_safe:
  "safely (\<lambda>_. \<forall>output \<in> set (tx_outputs tx). token_ok L output) (validate_mint_policy_deploy L tx)"
  "safely (\<lambda>_. \<forall>output \<in> set (tx_outputs tx). token_ok L output) (validate_token_outputs L tx)"
  unfolding validate_mint_policy_deploy_def validate_token_outputs_def
  by (auto simp: safely_simps token_ok_def intro!: safely_mono [OF safely_ocheck [where P = "token_ok L"]])

definition deploy_ok :: "svm_lib \<Rightarrow> transaction \<Rightarrow> transaction_output \<Rightarrow> bool" where
  "deploy_ok L tx output \<longleftrightarrow> (is_contract_deploy tx \<and> out_version output = SCRIPT_VERSION_CONTRACT \<longrightarrow>
     (\<exists>wasm data. decode_contract_deploy L (tx_payload tx) = Some wasm \<and> decode_contract_utxo L (out_script output) = Some data \<and>
       contract_id data = hash_wasm L wasm \<and> upgrade_policy_is_valid (upgrade_policy_of (manifest data))))"

lemma deploy_safe:
  "safely (\<lambda>_. \<forall>output \<in> set (tx_outputs tx). deploy_ok L tx output) (if is_contract_deploy tx then validate_contract_deploy L tx else Ok ())"
  unfolding validate_contract_deploy_def
  by (auto simp: safely_simps deploy_ok_def intro!: safely_mono [OF safely_ocheck [where P = "deploy_ok L tx"]])

definition isolated :: "transaction_validator \<Rightarrow> svm_lib \<Rightarrow> transaction \<Rightarrow> bool" where
  "isolated tv L tx \<longleftrightarrow> (is_coinbase tx \<or> tx_inputs tx \<noteq> []) \<and> length (tx_inputs tx) \<le> max_tx_inputs tv \<and>
     (\<forall>input \<in> set (tx_inputs tx). length (signature_script input) \<le> max_signature_script_len tv) \<and>
     (is_coinbase tx \<or> length (tx_outputs tx) \<le> max_tx_outputs tv) \<and> coinbase_ok tv tx \<and>
     distinct (map previous_outpoint (tx_inputs tx)) \<and> tx_gas tx = 0 \<and> tx_version tx \<le> MAX_TX_VERSION \<and>
     (is_coinbase tx \<or> is_native (subnetwork_id tx)) \<and> values_sum (tx_outputs tx) \<le> unat MAX_SOMPI \<and>
     (\<forall>output \<in> set (tx_outputs tx). (out_value output = 0 \<longleftrightarrow> is_zero_value_protocol_output output) \<and>
        carrier_ok output \<and> alt_ok L (tx_version tx) output \<and> token_ok L output \<and> deploy_ok L tx output)"

lemma counted_sum:
  assumes "\<forall>output \<in> set outputs. \<not> counted output \<longrightarrow> out_value output = 0"
  shows "values_sum outputs = values_sum (filter counted outputs)"
  using assms by (induction outputs) auto

lemma values_isolated:
  assumes "values_sum (filter counted outputs) \<le> unat MAX_SOMPI" "\<forall>output \<in> set outputs. counted output \<longrightarrow> out_value output \<noteq> 0"
    and "\<forall>output \<in> set outputs. carrier_ok output" "\<forall>output \<in> set outputs. alt_ok L version output"
  shows "values_sum outputs \<le> unat MAX_SOMPI" "\<forall>output \<in> set outputs. out_value output = 0 \<longleftrightarrow> is_zero_value_protocol_output output"
proof -
  have z: "\<not> counted u \<longrightarrow> out_value u = 0" if "u \<in> set outputs" for u
    using assms(3,4) that by (auto simp: counted_def carrier_ok_def alt_ok_def split: option.splits alt_script_kind.splits)
  then show "values_sum outputs \<le> unat MAX_SOMPI" using assms(1) counted_sum [of outputs] by simp
  show "\<forall>output \<in> set outputs. out_value output = 0 \<longleftrightarrow> is_zero_value_protocol_output output"
    using z assms(2) by (auto simp: is_zero_value_protocol_output_def counted_def)
qed

lemma safely_thenI: "safely (\<lambda>_. P) m \<Longrightarrow> (P \<Longrightarrow> safely Q r) \<Longrightarrow> safely Q (then_do m r)"
  by (auto simp: safely_then_do elim: safely_mono)

lemma simple_checks_safe:
  "safely (\<lambda>_. (is_coinbase tx \<or> tx_inputs tx \<noteq> []) \<and> length (tx_inputs tx) \<le> max_tx_inputs tv) (check_transaction_inputs_count tv tx)"
  "safely (\<lambda>_. \<forall>input \<in> set (tx_inputs tx). length (signature_script input) \<le> max_signature_script_len tv) (check_transaction_signature_scripts tv tx)"
  "safely (\<lambda>_. is_coinbase tx \<or> length (tx_outputs tx) \<le> max_tx_outputs tv) (check_transaction_outputs_count tv tx)"
  "safely (\<lambda>_. True) (check_transaction_script_public_keys tv tx)"
  "safely (\<lambda>_. tx_gas tx = 0) (check_gas tx)"
  "safely (\<lambda>_. is_coinbase tx \<or> is_native (subnetwork_id tx)) (check_transaction_subnetwork tx)"
  "safely (\<lambda>_. tx_version tx \<le> MAX_TX_VERSION) (check_transaction_version tx)"
  unfolding check_transaction_inputs_count_def check_transaction_signature_scripts_def check_transaction_outputs_count_def
    check_transaction_script_public_keys_def check_gas_def check_transaction_subnetwork_def check_transaction_version_def
  by (auto simp: safely_simps not_less position_None split: option.splits)

lemma validate_tx_in_isolation_safe: "safely (\<lambda>_. isolated tv L tx) (validate_tx_in_isolation tv L tx)"
  unfolding validate_tx_in_isolation_def
  apply (rule safely_thenI, rule simple_checks_safe)+
  apply (rule safely_thenI [OF coinbase_safe])
  apply (rule safely_thenI [OF value_ranges_safe])
  apply (rule safely_thenI [OF duplicate_inputs_safe])
  apply (rule safely_thenI, rule simple_checks_safe)+
  apply (rule safely_thenI [OF carriers_safe])
  apply (rule safely_thenI [OF alts_safe])
  apply (rule safely_thenI [OF deploy_safe])
  apply (rule safely_mono [where Q = "\<lambda>_. \<forall>output \<in> set (tx_outputs tx). token_ok L output"])
  using tokens_safe apply (simp add: safely_if)
  unfolding isolated_def using values_isolated [of "tx_outputs tx" L "tx_version tx"] by blast

text \<open>
  C23: Validation in isolation never panics, and a transaction that passes it is well formed: it spends at least one
  input unless it is a coinbase, never the same outpoint twice, within the limits on counts and sizes; its outputs add
  up, as natural numbers, to at most \<open>MAX_SOMPI\<close>; its version, gas and subnetwork are the allowed ones; an output
  has value zero exactly when the mass calculation leaves it out; every carrier, lookup table, reference, token and
  deployed contract output is well formed; and a coinbase has no input, no mass and no protocol output.
\<close>

theorem isolation_sound:
  "validate_tx_in_isolation tv L tx \<noteq> Panic \<and> (validate_tx_in_isolation tv L tx = Ok () \<longrightarrow> isolated tv L tx)"
  using validate_tx_in_isolation_safe [of tv L tx] by (simp add: safely_def)

section \<open>An example\<close>

definition ex_validator :: transaction_validator where
  "ex_validator = \<lparr>max_tx_inputs = 10, max_tx_outputs = 10, max_signature_script_len = 10, max_script_public_key_len = 10,
     coinbase_payload_script_public_key_max_len = 150, tv_coinbase_maturity = 100, tv_ghostdag_k = 18,
     tv_mass_calculator = \<lparr>mass_per_tx_byte = 1, mass_per_script_pub_key_byte = 10, mass_per_sig_op = 1000, storage_mass_parameter = 10000\<rparr>\<rparr>"

definition ex_lib :: svm_lib where
  "ex_lib = \<lparr>decode_contract_deploy = \<lambda>_. None, decode_minting_policy = \<lambda>_. None,
     decode_contract_utxo = \<lambda>s. Some \<lparr>contract_id = Hash (take 32 s), datum = drop 32 s,
       manifest = \<lparr>script_hash = Hash (take 32 s), upgrade_policy_of = Immutable, required_capabilities = []\<rparr>\<rparr>,
     decode_token_utxo = \<lambda>s. Some \<lparr>token_id = Hash (take 32 s), token_amount = from_le_bytes (take 8 (drop 32 s)), lock_script = drop 40 s,
       transfer_policy_id = None\<rparr>,
     validate_bytecode = \<lambda>_. True, validate_imports_against_manifest = \<lambda>_ _. True, hash_wasm = Hash, hash_mint_policy = Hash,
     sha3_384 = \<lambda>_. []\<rparr>"

definition ex_contract_tx :: "u8 \<Rightarrow> transaction" where
  "ex_contract_tx b = \<lparr>tx_version = 1,
     tx_inputs = [\<lparr>previous_outpoint = \<lparr>transaction_id = Hash [], outpoint_index = 0\<rparr>, signature_script = [], sequence = 0, sig_op_count = 0\<rparr>],
     tx_outputs = [\<lparr>out_value = 5, out_spk = \<lparr>spk_version = SCRIPT_VERSION_CONTRACT, spk_script = replicate 32 b\<rparr>\<rparr>],
     lock_time = 0, subnetwork_id = SUBNETWORK_ID_NATIVE, tx_gas = 0, tx_payload = [], tx_mass = 750, tx_id = Hash []\<rparr>"

lemma ex_contract_tx_Ok: "b \<noteq> 0xfd \<Longrightarrow> b \<noteq> 0xfe \<Longrightarrow> validate_tx_in_isolation ex_validator ex_lib (ex_contract_tx b) = Ok ()"
proof -
  assume b: "b \<noteq> 0xfd" "b \<noteq> 0xfe"
  have c: "classify_alt_script (replicate 32 b) = None"
    using b by (simp add: classify_alt_script_def ALT_DISCRIMINATOR_REFERENCE_def ALT_DISCRIMINATOR_CREATION_def numeral_eq_Suc)
  have n: "\<not> is_coinbase (ex_contract_tx b)" "is_native (subnetwork_id (ex_contract_tx b))"
    by (simp_all add: is_coinbase_def is_native_def ex_contract_tx_def SUBNETWORK_ID_NATIVE_def SUBNETWORK_ID_COINBASE_def subnetwork_from_byte_def)
  have v: "SCRIPT_VERSION_CONTRACT \<noteq> SCRIPT_VERSION_CARRIER" "SCRIPT_VERSION_CONTRACT \<noteq> SCRIPT_VERSION_TOKEN"
    by (simp_all add: SCRIPT_VERSION_CONTRACT_def SCRIPT_VERSION_CARRIER_def SCRIPT_VERSION_TOKEN_def)
  have m: "\<not> MAX_SOMPI < 5" by (simp add: word_less_nat_alt unat_MAX_SOMPI)
  show ?thesis
    using n c v m
    by (simp add: validate_tx_in_isolation_def check_transaction_inputs_count_def check_transaction_signature_scripts_def position_def
        check_transaction_outputs_count_def check_transaction_script_public_keys_def check_coinbase_in_isolation_def
        check_transaction_output_value_ranges_def output_value_step_def check_duplicate_transaction_inputs_def duplicate_step_def check_gas_def
        check_transaction_subnetwork_def check_transaction_version_def validate_carrier_outputs_def carrier_step_def
        validate_alt_outputs_and_refs_def alt_step_def is_contract_deploy_def is_mint_policy_deploy_def validate_token_outputs_def
        ex_contract_tx_def ex_validator_def checked_add_def MAX_TX_VERSION_def ok_or_def)
qed

theorem isolation_sound_witness:
  "validate_tx_in_isolation ex_validator ex_lib (ex_contract_tx 1) = Ok () \<and> isolated ex_validator ex_lib (ex_contract_tx 1)"
  using isolation_sound [of ex_validator ex_lib "ex_contract_tx 1"] ex_contract_tx_Ok [of 1] by simp

text \<open>
  C24: The lookup table discriminators are read from the first byte of every output script, also of contract outputs,
  whose script starts with the contract id (the Borsh encoding writes the fields of a struct in their order). So no
  transaction that pays a value to a contract whose id starts with 0xfd or 0xfe passes validation: such contracts
  cannot be deployed or called.
\<close>

theorem contract_id_discriminator_clash:
  assumes "output \<in> set (tx_outputs tx)" "out_version output = SCRIPT_VERSION_CONTRACT" "out_value output \<noteq> 0"
    and "decode_contract_utxo L (out_script output) = Some data" "take 32 (out_script output) = as_bytes (contract_id data)"
    and "length (as_bytes (contract_id data)) = 32" "as_bytes (contract_id data) ! 0 \<in> {0xfd, 0xfe}"
  shows "validate_tx_in_isolation tv L tx \<noteq> Ok ()"
proof
  assume "validate_tx_in_isolation tv L tx = Ok ()"
  then have a: "alt_ok L (tx_version tx) output"
    using validate_tx_in_isolation_safe [of tv L tx] assms(1) by (auto simp: safely_def isolated_def)
  have "length (take 32 (out_script output)) = 32" unfolding assms(5) by (rule assms(6))
  then have l: "32 \<le> length (out_script output)" by (simp add: min_def split: if_splits)
  have "take 32 (out_script output) ! 0 \<in> {0xfd, 0xfe}" unfolding assms(5) by (rule assms(7))
  then have "out_script output ! 0 \<in> {0xfd, 0xfe}" by simp
  with a assms(3) l show False
    by (cases "out_script output") (auto simp: alt_ok_def classify_alt_script_def ALT_DISCRIMINATOR_REFERENCE_def ALT_DISCRIMINATOR_CREATION_def
        parse_alt_reference_def ALT_REFERENCE_LEN_def split: if_splits)
qed

theorem contract_id_discriminator_clash_witness:
  "validate_tx_in_isolation ex_validator ex_lib (ex_contract_tx 0xfd) \<noteq> Ok () \<and> validate_tx_in_isolation ex_validator ex_lib (ex_contract_tx 0xfc) = Ok ()"
proof
  show "validate_tx_in_isolation ex_validator ex_lib (ex_contract_tx 0xfd) \<noteq> Ok ()"
    by (rule contract_id_discriminator_clash [of "tx_outputs (ex_contract_tx 0xfd) ! 0" _ _ "the (decode_contract_utxo ex_lib (replicate 32 0xfd))"]) (simp_all add: ex_contract_tx_def ex_lib_def)
qed (simp add: ex_contract_tx_Ok)

end
