(* ===== verification/Tx_Context.thy ===== *)
theory Tx_Context
  imports Tx_Isolation Script_Safety
begin

text \<open>
  The transaction rules that need the containing block
  (src/consensus/src/processes/transaction_validator/tx_validation_in_header_context.rs) and those that need the spent
  UTXO entries (tx_validation_in_utxo_context.rs): lock times, coinbase maturity, amounts and fee, the mass
  commitment, sequence locks, lookup table references, scripts, contracts and token conservation.

  Parameters, bundled in \<open>validation_env\<close>: the cryptography of the script engine, the decoders, the contract machine
  with the stores it reads, the comparison of fee rates in floating point, the order in which the thread pool takes
  the inputs of a transaction, and the iteration order of a \<open>HashSet\<close>.
\<close>

section \<open>Header context\<close>

datatype lock_time_type = TypeFinalized | TypeDaaScore | TypeTime
datatype lock_time_arg = ArgFinalized | ArgDaaScore u64 | ArgMedianTime u64

definition get_lock_time_type :: "transaction \<Rightarrow> lock_time_type" where
  "get_lock_time_type tx = (if lock_time tx = 0 then TypeFinalized
     else if lock_time tx < LOCK_TIME_THRESHOLD then TypeDaaScore else TypeTime)"

definition check_all_sequences_final :: "transaction \<Rightarrow> unit tx_result" where
  "check_all_sequences_final tx = ocheck (\<lambda>i input. ensure (sequence input = - 1) (NotFinalized i)) 0 (tx_inputs tx)"

definition check_tx_is_finalized :: "transaction \<Rightarrow> lock_time_arg \<Rightarrow> unit tx_result" where
  "check_tx_is_finalized tx arg = (case arg of ArgFinalized \<Rightarrow> Ok ()
     | ArgDaaScore ctx_daa_score \<Rightarrow> if lock_time tx < ctx_daa_score then Ok () else check_all_sequences_final tx
     | ArgMedianTime ctx_block_time \<Rightarrow> if lock_time tx < ctx_block_time then Ok () else check_all_sequences_final tx)"

definition validate_tx_in_header_context :: "transaction \<Rightarrow> lock_time_arg \<Rightarrow> unit tx_result" where
  "validate_tx_in_header_context tx arg = check_tx_is_finalized tx arg"

definition validate_tx_in_header_context_with_args :: "transaction \<Rightarrow> u64 \<Rightarrow> u64 \<Rightarrow> unit tx_result" where
  "validate_tx_in_header_context_with_args tx ctx_daa_score ctx_block_time =
     validate_tx_in_header_context tx (case get_lock_time_type tx of TypeFinalized \<Rightarrow> ArgFinalized
       | TypeDaaScore \<Rightarrow> ArgDaaScore ctx_daa_score | TypeTime \<Rightarrow> ArgMedianTime ctx_block_time)"

section \<open>Environment\<close>

record alt_entry =
  entry_handle :: bytes
  alt_entries :: "alt_entry_view list"
  creating_block_hash :: hash
  creating_daa_score :: u64

definition alt_entry_count :: "alt_entry \<Rightarrow> u16" where
  "alt_entry_count e = of_nat (length (alt_entries e))"

record 'ev svm_context =
  get_wasm :: "hash \<Rightarrow> bytes option"
  executor :: "hash \<Rightarrow> bytes \<Rightarrow> populated_transaction \<Rightarrow> u64 \<Rightarrow> contract_manifest \<Rightarrow> (bool \<times> 'ev list) option"
  alt_store :: "(bytes \<Rightarrow> alt_entry option option) option"
  selected_chain_store :: "(hash \<Rightarrow> bool) option"
  pending_chain_blocks :: "hash list"
  pruning_point_store :: "hash option option"
  headers_store :: "(hash \<Rightarrow> u64 option) option"

record ('ev, 'f) validation_env =
  ve_script :: script_env
  ve_lib :: svm_lib
  ve_svm :: "'ev svm_context option"
  ve_feerate_le :: "u64 \<Rightarrow> u64 \<Rightarrow> 'f \<Rightarrow> bool"
  ve_schedule :: "nat list \<Rightarrow> nat list"
  ve_iteration :: "hash list \<Rightarrow> hash list"

datatype tx_validation_flags = Full | SkipScriptChecks | SkipMassCheck

section \<open>Amounts, mass and locks\<close>

definition check_feerate_threshold :: "('ev, 'f) validation_env \<Rightarrow> u64 \<Rightarrow> (u64 \<times> 'f) option \<Rightarrow> unit tx_result" where
  "check_feerate_threshold V fee mass_and_feerate_threshold = (case mass_and_feerate_threshold of None \<Rightarrow> Ok ()
     | Some (contextual_mass, feerate_threshold) \<Rightarrow> if \<not> 0 < contextual_mass then Panic
         else ensure (\<not> ve_feerate_le V fee contextual_mass feerate_threshold) FeerateTooLow)"

definition check_transaction_coinbase_maturity :: "transaction_validator \<Rightarrow> populated_transaction \<Rightarrow> u64 \<Rightarrow> unit tx_result" where
  "check_transaction_coinbase_maturity tv p pov_daa_score =
     ocheck (\<lambda>i (input, entry). if \<not> entry_is_coinbase entry then Ok ()
       else obind (padd (block_daa_score entry) (tv_coinbase_maturity tv)) (\<lambda>mature.
         ensure (\<not> pov_daa_score < mature)
           (ImmatureCoinbaseSpend i (previous_outpoint input) (block_daa_score entry) pov_daa_score (tv_coinbase_maturity tv))))
       0 (populated_inputs p)"

definition input_amount_step :: "transaction_input \<times> utxo_entry \<Rightarrow> u64 \<Rightarrow> u64 tx_result" where
  "input_amount_step = (\<lambda>(input, entry) acc.
     obind (ok_or (checked_add acc (amount entry)) InputAmountOverflow) (\<lambda>new_total.
     then_do (ensure (\<not> MAX_SOMPI < new_total) InputAmountTooHigh) (Ok new_total)))"

definition check_transaction_input_amounts :: "populated_transaction \<Rightarrow> u64 tx_result" where
  "check_transaction_input_amounts p = ofold input_amount_step (populated_inputs p) 0"

definition check_transaction_output_values :: "populated_transaction \<Rightarrow> u64 \<Rightarrow> u64 tx_result" where
  "check_transaction_output_values p total_in =
     obind (osum out_value (tx_outputs (ptx p))) (\<lambda>total_out.
     then_do (ensure (\<not> total_in < total_out) (SpendTooHigh total_out total_in)) (Ok total_out))"

definition check_mass_commitment :: "transaction_validator \<Rightarrow> populated_transaction \<Rightarrow> unit tx_result" where
  "check_mass_commitment tv p =
     obind (map_err (\<lambda>_. MassIncomputable) (calc_contextual_masses (tv_mass_calculator tv) p)) (\<lambda>calculated.
     ensure (tx_mass (ptx p) = calculated) (WrongMass calculated (tx_mass (ptx p))))"

text \<open>Arithmetic on \<open>i64\<close>, with the overflow check.\<close>

definition i64_plain :: "int \<Rightarrow> ('e, int) outcome" where
  "i64_plain n = (if I64_MIN \<le> n \<and> n \<le> I64_MAX then Ok n else Panic)"

definition check_sequence_lock :: "populated_transaction \<Rightarrow> u64 \<Rightarrow> unit tx_result" where
  "check_sequence_lock p pov_daa_score =
     ocheck (\<lambda>_ (input, entry).
       obind (i64_plain (sint (block_daa_score entry) + sint (sequence input AND SEQUENCE_LOCK_TIME_MASK))) (\<lambda>s.
       obind (i64_plain (s - 1)) (\<lambda>lock_daa_score.
       ensure (\<not> sint pov_daa_score \<le> lock_daa_score) SequenceLockConditionsAreNotMet)))
       0 (filter (\<lambda>(input, _). sequence input AND SEQUENCE_LOCK_TIME_DISABLED \<noteq> SEQUENCE_LOCK_TIME_DISABLED) (populated_inputs p))"

section \<open>Lookup table references\<close>

definition below_horizon :: "'ev svm_context \<Rightarrow> alt_entry \<Rightarrow> bool" where
  "below_horizon svm entry = (case pruning_point_store svm of Some (Some pp_hash) \<Rightarrow>
       (case headers_store svm of Some headers \<Rightarrow>
         (case headers pp_hash of Some pp_daa \<Rightarrow> creating_daa_score entry < pp_daa | None \<Rightarrow> False) | None \<Rightarrow> False)
     | _ \<Rightarrow> False)"

definition check_alt_reference :: "'ev svm_context \<Rightarrow> (bytes \<Rightarrow> alt_entry option option) \<Rightarrow> nat \<Rightarrow> transaction_output \<Rightarrow> unit tx_result" where
  "check_alt_reference svm get_entry i output =
     (if classify_alt_script (out_script output) \<noteq> Some Reference then Ok ()
      else obind (map_err (\<lambda>e. AltReferenceMalformed i (ReferenceBadLength e)) (parse_alt_reference (out_script output))) (\<lambda>r.
        case get_entry (ref_handle r) of None \<Rightarrow> Err (AltReferenceMalformed i AltStoreError)
        | Some None \<Rightarrow> Err (AltReferenceDanglingHandle i (ref_handle r))
        | Some (Some entry) \<Rightarrow>
            then_do (case selected_chain_store svm of None \<Rightarrow> Ok ()
              | Some chain \<Rightarrow> ensure (chain (creating_block_hash entry) \<or> creating_block_hash entry \<in> set (pending_chain_blocks svm) \<or>
                  below_horizon svm entry) (AltReferenceDanglingHandle i (ref_handle r)))
            (ensure (\<not> alt_entry_count entry \<le> ucast (ref_index r)) (AltReferenceIndexOutOfRange i (ref_index r) (alt_entry_count entry)))))"

definition check_alt_references :: "('ev, 'f) validation_env \<Rightarrow> populated_transaction \<Rightarrow> unit tx_result" where
  "check_alt_references V p = (case ve_svm V of None \<Rightarrow> Ok ()
     | Some svm \<Rightarrow> (case alt_store svm of None \<Rightarrow> Ok ()
       | Some get_entry \<Rightarrow> ocheck (check_alt_reference svm get_entry) 0 (tx_outputs (ptx p))))"

section \<open>Scripts, contracts and tokens\<close>

text \<open>What the checks of the inputs share: the reused parts of the signature hash, the signature cache and the events
  that contracts emitted, by transaction. A check that fails gives the error alone: what it left in the cache and the
  collector before it failed is not followed.\<close>

record 'ev check_state =
  cs_reused :: sig_hash_reused_values
  cs_cache :: "(sig_cache_key, bool) cache"
  cs_events :: "(hash, 'ev list) hmap"

definition map_script_err :: "transaction_input \<Rightarrow> tx_script_error \<Rightarrow> tx_rule_error" where
  "map_script_err input e = (if signature_script input = [] then SignatureEmpty e else SignatureInvalid e)"

definition run_engine :: "script_env \<Rightarrow> populated_transaction \<Rightarrow> transaction_input \<Rightarrow> nat \<Rightarrow> utxo_entry \<Rightarrow> 'ev check_state \<Rightarrow> 'ev check_state tx_result" where
  "run_engine E p input idx entry st =
     map_err (map_script_err input) (obind (from_transaction_input p input idx entry (cs_reused st) (cs_cache st)) (\<lambda>vm.
       obind (execute E vm) (\<lambda>vm. Ok (st\<lparr>cs_reused := reused_values vm, cs_cache := sig_cache vm\<rparr>))))"

definition collect_events :: "populated_transaction \<Rightarrow> 'ev list \<Rightarrow> 'ev check_state \<Rightarrow> 'ev check_state" where
  "collect_events p events st = (if events = [] then st else st\<lparr>cs_events := hm_insert (tx_id (ptx p)) events (cs_events st)\<rparr>)"

definition check_contract_input ::
  "('ev, 'f) validation_env \<Rightarrow> populated_transaction \<Rightarrow> utxo_entry \<Rightarrow> u64 \<Rightarrow> 'ev check_state \<Rightarrow> 'ev check_state tx_result" where
  "check_contract_input V p entry pov_daa_score st =
     obind (ok_or (ve_svm V) (SvmValidationFailed SvmNotInitialised)) (\<lambda>svm.
     obind (ok_or (decode_contract_utxo (ve_lib V) (spk_script (entry_spk entry))) (SvmValidationFailed MalformedContractInput)) (\<lambda>data.
     obind (ok_or (get_wasm svm (contract_id data)) (ContractNotDeployed (contract_id data))) (\<lambda>wasm.
     obind (ok_or (executor svm (contract_id data) wasm p pov_daa_score (manifest data)) (SvmValidationFailed ContractFailed)) (\<lambda>(valid, events).
     then_do (ensure valid (SvmValidationFailed ContractRejected)) (Ok (collect_events p events st))))))"

definition policy_manifest :: "hash \<Rightarrow> contract_manifest" where
  "policy_manifest policy_id = \<lparr>script_hash = policy_id, upgrade_policy_of = Immutable,
     required_capabilities = [ReadUtxo, ReadBlockHeight, VerifyDilithium, HashSha3]\<rparr>"

definition check_token_utxo_spend ::
  "('ev, 'f) validation_env \<Rightarrow> populated_transaction \<Rightarrow> transaction_input \<Rightarrow> nat \<Rightarrow> utxo_entry \<Rightarrow> u64 \<Rightarrow> 'ev check_state
     \<Rightarrow> 'ev check_state tx_result" where
  "check_token_utxo_spend V p input idx entry pov_daa_score st =
     obind (ok_or (decode_token_utxo (ve_lib V) (spk_script (entry_spk entry))) (TokenUtxoMalformed idx TokenNotDecodable)) (\<lambda>data.
     let synthetic_entry = entry\<lparr>entry_spk := \<lparr>spk_version = 0, spk_script = lock_script data\<rparr>\<rparr> in
     obind (run_engine (ve_script V) p input idx synthetic_entry st) (\<lambda>st.
     case transfer_policy_id data of None \<Rightarrow> Ok st
     | Some policy_id \<Rightarrow>
         obind (ok_or (ve_svm V) (TransferPolicyNotDeployed policy_id)) (\<lambda>svm.
         obind (ok_or (get_wasm svm policy_id) (TransferPolicyNotDeployed policy_id)) (\<lambda>wasm.
         obind (ok_or (executor svm policy_id wasm p pov_daa_score (policy_manifest policy_id)) (TransferPolicyRejected PolicyExecutionFailed))
           (\<lambda>(valid, events).
         then_do (ensure valid (TransferPolicyRejected (SpendRejected (token_id data) policy_id))) (Ok (collect_events p events st)))))))"

definition check_input ::
  "('ev, 'f) validation_env \<Rightarrow> populated_transaction \<Rightarrow> u64 \<Rightarrow> nat \<times> transaction_input \<times> utxo_entry \<Rightarrow> 'ev check_state
     \<Rightarrow> 'ev check_state tx_result" where
  "check_input V p pov_daa_score = (\<lambda>(idx, input, entry) st. let version = spk_version (entry_spk entry) in
     if version = SCRIPT_VERSION_CONTRACT then check_contract_input V p entry pov_daa_score st
     else if version = SCRIPT_VERSION_TOKEN then check_token_utxo_spend V p input idx entry pov_daa_score st
     else run_engine (ve_script V) p input idx entry st)"

definition check_scripts_sequential :: "('ev, 'f) validation_env \<Rightarrow> populated_transaction \<Rightarrow> u64 \<Rightarrow> 'ev check_state \<Rightarrow> 'ev check_state tx_result" where
  "check_scripts_sequential V p pov_daa_score st =
     ofold (check_input V p pov_daa_score) (enumerate 0 (populated_inputs p)) (st\<lparr>cs_reused := reused_values_new\<rparr>)"

text \<open>The parallel loop: the inputs one after the other in the order the schedule gives them.\<close>

definition check_scripts_par_iter :: "('ev, 'f) validation_env \<Rightarrow> populated_transaction \<Rightarrow> u64 \<Rightarrow> 'ev check_state \<Rightarrow> 'ev check_state tx_result" where
  "check_scripts_par_iter V p pov_daa_score st =
     ofold (\<lambda>idx st. obind (vec_index (tx_inputs (ptx p)) idx) (\<lambda>input. obind (vec_index (ptx_entries p) idx) (\<lambda>entry.
         check_input V p pov_daa_score (idx, input, entry) st)))
       (ve_schedule V [0..<length (tx_inputs (ptx p))]) (st\<lparr>cs_reused := reused_values_new\<rparr>)"

definition CHECK_SCRIPTS_PARALLELISM_THRESHOLD :: nat where "CHECK_SCRIPTS_PARALLELISM_THRESHOLD = 1"

definition check_scripts_with_svm :: "('ev, 'f) validation_env \<Rightarrow> populated_transaction \<Rightarrow> u64 \<Rightarrow> 'ev check_state \<Rightarrow> 'ev check_state tx_result" where
  "check_scripts_with_svm V p pov_daa_score st =
     (if CHECK_SCRIPTS_PARALLELISM_THRESHOLD < length (tx_inputs (ptx p)) then check_scripts_par_iter V p pov_daa_score st
      else check_scripts_sequential V p pov_daa_score st)"

definition add_token :: "svm_lib \<Rightarrow> tx_rule_error \<Rightarrow> tx_rule_error \<Rightarrow> script_public_key \<Rightarrow> (hash, u64) hmap \<Rightarrow> (hash, u64) hmap tx_result" where
  "add_token L malformed overflow spk tokens = (if spk_version spk \<noteq> SCRIPT_VERSION_TOKEN then Ok tokens
     else obind (ok_or (decode_token_utxo L (spk_script spk)) malformed) (\<lambda>data.
       let current = (case hm_get tokens (token_id data) of Some n \<Rightarrow> n | None \<Rightarrow> 0) in
       obind (ok_or (checked_add current (token_amount data)) overflow) (\<lambda>new_val. Ok (hm_insert (token_id data) new_val tokens))))"

definition check_token_delta ::
  "('ev, 'f) validation_env \<Rightarrow> populated_transaction \<Rightarrow> u64 \<Rightarrow> (hash, u64) hmap \<Rightarrow> (hash, u64) hmap \<Rightarrow> hash \<Rightarrow> 'ev check_state
     \<Rightarrow> 'ev check_state tx_result" where
  "check_token_delta V p pov_daa_score input_tokens output_tokens tid st =
     (let in_amt = (case hm_get input_tokens tid of Some n \<Rightarrow> n | None \<Rightarrow> 0);
          out_amt = (case hm_get output_tokens tid of Some n \<Rightarrow> n | None \<Rightarrow> 0) in
      if in_amt = out_amt then Ok st
      else obind (ok_or (ve_svm V) (MintingPolicyNotDeployed tid)) (\<lambda>svm.
        obind (ok_or (get_wasm svm tid) (MintingPolicyNotDeployed tid)) (\<lambda>wasm.
        obind (ok_or (executor svm tid wasm p pov_daa_score (policy_manifest tid)) (MintingPolicyRejected PolicyExecutionFailed)) (\<lambda>(valid, events).
        then_do (ensure valid (MintingPolicyRejected (MintOrBurnRejected tid in_amt out_amt))) (Ok (collect_events p events st))))))"

definition check_token_conservation :: "('ev, 'f) validation_env \<Rightarrow> populated_transaction \<Rightarrow> u64 \<Rightarrow> 'ev check_state \<Rightarrow> 'ev check_state tx_result" where
  "check_token_conservation V p pov_daa_score st =
     obind (ofold (\<lambda>(_, entry). add_token (ve_lib V) (SvmValidationFailed MalformedTokenInput) InputAmountOverflow (entry_spk entry))
       (populated_inputs p) []) (\<lambda>input_tokens.
     obind (ofold (\<lambda>output. add_token (ve_lib V) (SvmValidationFailed MalformedTokenOutput) OutputsValueOverflow (out_spk output))
       (tx_outputs (ptx p)) []) (\<lambda>output_tokens.
     ofold (check_token_delta V p pov_daa_score input_tokens output_tokens)
       (ve_iteration V (remdups (map fst input_tokens @ map fst output_tokens))) st))"

section \<open>The whole validation\<close>

definition validate_populated_transaction_and_get_fee ::
  "('ev, 'f) validation_env \<Rightarrow> transaction_validator \<Rightarrow> populated_transaction \<Rightarrow> u64 \<Rightarrow> tx_validation_flags \<Rightarrow> (u64 \<times> 'f) option
     \<Rightarrow> 'ev check_state \<Rightarrow> (u64 \<times> 'ev check_state) tx_result" where
  "validate_populated_transaction_and_get_fee V tv p pov_daa_score flags mass_and_feerate_threshold st =
     then_do (check_transaction_coinbase_maturity tv p pov_daa_score) (
     obind (check_transaction_input_amounts p) (\<lambda>total_in.
     obind (check_transaction_output_values p total_in) (\<lambda>total_out.
     obind (psub total_in total_out) (\<lambda>fee.
     then_do (if flags \<noteq> SkipMassCheck then check_mass_commitment tv p else Ok ()) (
     then_do (check_sequence_lock p pov_daa_score) (
     then_do (check_alt_references V p) (
     then_do (check_feerate_threshold V fee mass_and_feerate_threshold) (
     if flags = SkipScriptChecks then Ok (fee, st)
     else obind (check_scripts_with_svm V p pov_daa_score st) (\<lambda>st.
       obind (check_token_conservation V p pov_daa_score st) (\<lambda>st. Ok (fee, st)))))))))))"

section \<open>Token conservation\<close>

text \<open>The amount of a token in a list of script public keys, as a natural number.\<close>

definition token_amount_of :: "svm_lib \<Rightarrow> hash \<Rightarrow> script_public_key \<Rightarrow> nat" where
  "token_amount_of L tid spk = (if spk_version spk \<noteq> SCRIPT_VERSION_TOKEN then 0
     else case decode_token_utxo L (spk_script spk) of None \<Rightarrow> 0
       | Some data \<Rightarrow> if token_id data = tid then unat (token_amount data) else 0)"

definition token_sum :: "svm_lib \<Rightarrow> hash \<Rightarrow> script_public_key list \<Rightarrow> nat" where
  "token_sum L tid spks = sum_list (map (token_amount_of L tid) spks)"

definition held :: "(hash, u64) hmap \<Rightarrow> hash \<Rightarrow> u64" where
  "held tokens tid = (case hm_get tokens tid of Some n \<Rightarrow> n | None \<Rightarrow> 0)"

lemma add_token_effect:
  "safely (\<lambda>tokens'. \<forall>tid. unat (held tokens' tid) = unat (held tokens tid) + token_amount_of L tid spk) (add_token L e f spk tokens)"
  by (auto simp: add_token_def safely_simps Let_def token_amount_of_def held_def checked_add_eq_Some split: option.splits)

lemma add_tokens_effect:
  "safely (\<lambda>tokens. \<forall>tid. unat (held tokens tid) = token_sum L tid (map spk xs)) (ofold (\<lambda>x. add_token L e f (spk x)) xs [])"
proof (rule safely_ofold_prefix)
  show "\<forall>tid. unat (held [] tid) = token_sum L tid (map spk [])" by (simp add: held_def token_sum_def hm_get_def)
next
  fix ys y zs tokens
  assume "\<forall>tid. unat (held tokens tid) = token_sum L tid (map spk ys)"
  then show "safely (\<lambda>tokens. \<forall>tid. unat (held tokens tid) = token_sum L tid (map spk (ys @ [y]))) (add_token L e f (spk y) tokens)"
    by (intro safely_mono [OF add_token_effect]) (simp add: token_sum_def)
qed

definition approved :: "('ev, 'f) validation_env \<Rightarrow> populated_transaction \<Rightarrow> u64 \<Rightarrow> hash \<Rightarrow> bool" where
  "approved V p pov_daa_score policy_id \<longleftrightarrow> (\<exists>svm wasm events. ve_svm V = Some svm \<and> get_wasm svm policy_id = Some wasm \<and>
     executor svm policy_id wasm p pov_daa_score (policy_manifest policy_id) = Some (True, events))"

lemma check_token_delta_safe:
  "safely (\<lambda>_. held ins tid = held outs tid \<or> approved V p d tid) (check_token_delta V p d ins outs tid st)"
  by (auto simp: check_token_delta_def safely_simps Let_def approved_def held_def)

lemma held_absent: "tid \<notin> set (map fst tokens) \<Longrightarrow> held tokens tid = 0"
  by (simp add: held_def hm_get_def map_of_eq_None_iff [THEN iffD2])

lemma token_deltas_safe:
  assumes "set order = set (map fst ins @ map fst outs)"
  shows "safely (\<lambda>_. \<forall>tid. held ins tid = held outs tid \<or> approved V p d tid) (ofold (check_token_delta V p d ins outs) order st)"
proof (rule safely_mono)
  show "safely (\<lambda>_. \<forall>tid \<in> set order. held ins tid = held outs tid \<or> approved V p d tid) (ofold (check_token_delta V p d ins outs) order st)"
    by (rule safely_ofold_each) (rule check_token_delta_safe)
  fix st'
  assume *: "\<forall>tid \<in> set order. held ins tid = held outs tid \<or> approved V p d tid"
  show "\<forall>tid. held ins tid = held outs tid \<or> approved V p d tid"
  proof
    fix tid
    show "held ins tid = held outs tid \<or> approved V p d tid"
      using * assms held_absent [of tid ins] held_absent [of tid outs] by (cases "tid \<in> set order") auto
  qed
qed

lemma token_conservation_safe:
  assumes "\<And>ids. set (ve_iteration V ids) = set ids"
  shows "safely (\<lambda>_. \<forall>tid. token_sum (ve_lib V) tid (map entry_spk (map snd (populated_inputs p))) = token_sum (ve_lib V) tid (map out_spk (tx_outputs (ptx p))) \<or>
    approved V p d tid) (check_token_conservation V p d st)"
proof -
  let ?in = "\<lambda>tid. token_sum (ve_lib V) tid (map (\<lambda>x. entry_spk (snd x)) (populated_inputs p))"
  let ?out = "\<lambda>tid. token_sum (ve_lib V) tid (map out_spk (tx_outputs (ptx p)))"
  have d: "safely (\<lambda>_. \<forall>tid. ?in tid = ?out tid \<or> approved V p d tid)
      (ofold (check_token_delta V p d ins outs) (ve_iteration V (remdups (map fst ins @ map fst outs))) st)"
    if "\<forall>tid. unat (held ins tid) = ?in tid" "\<forall>tid. unat (held outs tid) = ?out tid" for ins outs
    by (rule safely_mono [OF token_deltas_safe [where ins = ins and outs = outs]]) (use assms in simp, metis that)
  note i = add_tokens_effect [of "ve_lib V" "\<lambda>x. entry_spk (snd x)" "populated_inputs p" "SvmValidationFailed MalformedTokenInput" InputAmountOverflow]
  note o = add_tokens_effect [of "ve_lib V" out_spk "tx_outputs (ptx p)" "SvmValidationFailed MalformedTokenOutput" OutputsValueOverflow]
  show ?thesis unfolding check_token_conservation_def split_def safely_obind map_map comp_def
    by (rule safely_mono [OF i], rule safely_mono [OF o], rule d)
qed

text \<open>
  C25: No token appears or disappears without the consent of its policy: when the conservation check of a transaction
  succeeds, then for every token the amounts of the spent outputs and of the new outputs are equal as natural numbers,
  or the minting policy whose hash is the id of the token is deployed and its execution approved the transaction. This
  holds for every order in which the set of tokens is traversed.
\<close>

theorem token_conservation:
  assumes "\<And>ids. set (ve_iteration V ids) = set ids"
    and "check_token_conservation V p pov_daa_score st = Ok st'"
  shows "token_sum (ve_lib V) tid (map entry_spk (map snd (populated_inputs p))) = token_sum (ve_lib V) tid (map out_spk (tx_outputs (ptx p))) \<or>
    approved V p pov_daa_score tid"
  using token_conservation_safe [OF assms(1), where st = st and p = p and d = pov_daa_score] assms(2) by (simp add: safely_def)

section \<open>Amounts and locks\<close>

abbreviation amounts_sum :: "populated_transaction \<Rightarrow> nat" where
  "amounts_sum p \<equiv> sum_list (map (\<lambda>x. unat (amount (snd x))) (populated_inputs p))"

lemma input_amounts_safe:
  "safely (\<lambda>total_in. unat total_in = amounts_sum p \<and> unat total_in \<le> unat MAX_SOMPI) (check_transaction_input_amounts p)"
  unfolding check_transaction_input_amounts_def
proof (rule safely_ofold_prefix)
  fix ys zs :: "(transaction_input \<times> utxo_entry) list" and y and acc :: u64
  assume "unat acc = sum_list (map (\<lambda>x. unat (amount (snd x))) ys) \<and> unat acc \<le> unat MAX_SOMPI"
  then show "safely (\<lambda>acc. unat acc = sum_list (map (\<lambda>x. unat (amount (snd x))) (ys @ [y])) \<and> unat acc \<le> unat MAX_SOMPI) (input_amount_step y acc)"
    by (cases y) (auto simp: input_amount_step_def safely_simps checked_add_eq_Some word_less_nat_alt)
qed simp

lemma osum_safe:
  assumes "sum_list (map (\<lambda>x. unat (f x)) xs) < 2 ^ 64"
  shows "returns (\<lambda>s. unat s = sum_list (map (\<lambda>x. unat (f x)) xs)) (osum f xs)"
  unfolding osum_def
proof (rule returns_ofold)
  fix ys y zs and acc :: u64
  assume "xs = ys @ y # zs" "unat acc = sum_list (map (\<lambda>x. unat (f x)) ys)"
  then show "returns (\<lambda>s. unat s = sum_list (map (\<lambda>x. unat (f x)) (ys @ [y]))) (padd acc (f y))"
    using assms by (simp add: returns_padd)
qed simp

lemma osum_from: "ofold (\<lambda>x acc. padd acc (f x)) xs acc = Ok s \<Longrightarrow> unat s = unat acc + sum_list (map (\<lambda>x. unat (f x)) xs)"
  by (induction xs arbitrary: acc) (auto simp: obind_eq_Ok padd_eq_Ok)

lemma osum_value: "osum f xs = Ok s \<Longrightarrow> unat s = sum_list (map (\<lambda>x. unat (f x)) xs)"
  using osum_from [of f xs 0] by (simp add: osum_def)

lemma output_values_Ok:
  "check_transaction_output_values p total_in = Ok total_out \<Longrightarrow> unat total_out = values_sum (tx_outputs (ptx p)) \<and> unat total_out \<le> unat total_in"
  by (auto simp: check_transaction_output_values_def outcome_simps not_less word_le_nat_alt dest: osum_value)

definition matured :: "transaction_validator \<Rightarrow> u64 \<Rightarrow> transaction_input \<times> utxo_entry \<Rightarrow> bool" where
  "matured tv pov_daa_score x \<longleftrightarrow>
     (entry_is_coinbase (snd x) \<longrightarrow> unat (block_daa_score (snd x)) + unat (tv_coinbase_maturity tv) \<le> unat pov_daa_score)"

definition sequence_unlocked :: "u64 \<Rightarrow> transaction_input \<times> utxo_entry \<Rightarrow> bool" where
  "sequence_unlocked pov_daa_score x \<longleftrightarrow> (\<not> bit (sequence (fst x)) 63 \<longrightarrow>
     sint (block_daa_score (snd x)) + uint (sequence (fst x)) mod 2 ^ 32 \<le> sint pov_daa_score)"

lemma maturity_Ok:
  "check_transaction_coinbase_maturity tv p d = Ok () \<Longrightarrow> x \<in> set (populated_inputs p) \<Longrightarrow> matured tv d x"
  by (auto simp: check_transaction_coinbase_maturity_def ocheck_eq_Ok in_set_conv_nth matured_def outcome_simps split_def padd_eq_Ok not_less
      word_le_nat_alt split: if_splits)

lemma sequence_mask: "sequence input AND SEQUENCE_LOCK_TIME_MASK = take_bit 32 (sequence input)"
  by (simp add: SEQUENCE_LOCK_TIME_MASK_def take_bit_eq_mask mask_numeral)

lemma sint_small: "uint (w :: u64) < 2 ^ 63 \<Longrightarrow> sint w = uint w"
  unfolding sint_uint by (rule signed_take_bit_int_eq_self) (rule order_trans [OF _ uint_ge_0], simp_all)

lemma sint_sequence: "sint (sequence input AND SEQUENCE_LOCK_TIME_MASK) = uint (sequence input) mod 2 ^ 32"
proof -
  define w where "w = take_bit 32 (sequence input)"
  have u: "uint w = uint (sequence input) mod 2 ^ 32"
    unfolding w_def unsigned_take_bit_eq by (simp add: take_bit_eq_mod)
  then have "uint w < 2 ^ 63" using pos_mod_bound [of "2 ^ 32" "uint (sequence input)"] by simp
  then have "sint w = uint w" by (rule sint_small)
  with u show ?thesis unfolding sequence_mask w_def by simp
qed

lemma and_single_bit: "n < LENGTH('a) \<Longrightarrow> (w :: 'a::len word) AND push_bit n 1 = push_bit n 1 \<longleftrightarrow> bit w n"
  unfolding bit_eq_iff [of "w AND push_bit n 1"] by (auto simp: bit_and_iff bit_exp_iff)

lemma sequence_enabled: "sequence input AND SEQUENCE_LOCK_TIME_DISABLED \<noteq> SEQUENCE_LOCK_TIME_DISABLED \<longleftrightarrow> \<not> bit (sequence input) 63"
  unfolding SEQUENCE_LOCK_TIME_DISABLED_def by (subst and_single_bit) simp_all

lemma sequence_Ok:
  assumes "check_sequence_lock p d = Ok ()" "x \<in> set (populated_inputs p)"
  shows "sequence_unlocked d x"
proof (cases "bit (sequence (fst x)) 63")
  case False
  then have "x \<in> set (filter (\<lambda>(input, _). sequence input AND SEQUENCE_LOCK_TIME_DISABLED \<noteq> SEQUENCE_LOCK_TIME_DISABLED) (populated_inputs p))"
    using assms(2) by (simp add: split_def sequence_enabled)
  from ocheck_Ok_each [OF assms(1) [unfolded check_sequence_lock_def] this] show ?thesis
    by (auto simp: sequence_unlocked_def outcome_simps i64_plain_def sint_sequence split_def split: if_splits)
qed (simp add: sequence_unlocked_def)

text \<open>
  C26: What a transaction that passes validation in its UTXO context satisfies: the fee is exactly the sum of the amounts
  it spends minus the sum of its outputs, as natural numbers, and no more than \<open>MAX_SOMPI\<close> is spent; every coinbase
  output it spends is mature and every relative lock of its inputs has passed; and, unless the mass check is skipped,
  the mass it commits to is its storage mass.
\<close>

theorem validated_fee:
  assumes "validate_populated_transaction_and_get_fee V tv p pov_daa_score flags threshold st = Ok (fee, st')"
  shows "unat fee + values_sum (tx_outputs (ptx p)) = amounts_sum p \<and> amounts_sum p \<le> unat MAX_SOMPI \<and>
    (\<forall>x \<in> set (populated_inputs p). matured tv pov_daa_score x \<and> sequence_unlocked pov_daa_score x) \<and>
    (flags \<noteq> SkipMassCheck \<longrightarrow> calc_contextual_masses (tv_mass_calculator tv) p = Ok (tx_mass (ptx p)))"
proof -
  obtain total_in total_out where v: "check_transaction_coinbase_maturity tv p pov_daa_score = Ok ()"
      "check_transaction_input_amounts p = Ok total_in" "check_transaction_output_values p total_in = Ok total_out"
      "psub total_in total_out = (Ok fee :: (tx_rule_error, u64) outcome)" "(if flags \<noteq> SkipMassCheck then check_mass_commitment tv p else Ok ()) = Ok ()"
      "check_sequence_lock p pov_daa_score = Ok ()"
    using assms by (auto simp: validate_populated_transaction_and_get_fee_def outcome_simps split: if_splits)
  have "calc_contextual_masses (tv_mass_calculator tv) p = Ok (tx_mass (ptx p))" if "flags \<noteq> SkipMassCheck"
    using v(5) that by (auto simp: check_mass_commitment_def outcome_simps)
  then show ?thesis
    using input_amounts_safe [of p] v(2) output_values_Ok [OF v(3)] v(4) maturity_Ok [OF v(1)] sequence_Ok [OF v(6)]
    by (auto simp: safely_def psub_eq_Ok)
qed

section \<open>No panic\<close>

lemma storage_term_neq_Panic: "storage_term c cell \<noteq> Panic"
  unfolding safely_True [symmetric] by (simp add: storage_term_def safely_simps)

lemma harmonic_outputs_safe:
  assumes "plurality_sum cells < 2 ^ 64"
  shows "harmonic_outputs c cells \<noteq> Panic"
proof -
  have t: "safely (\<lambda>_. True) (storage_term c cell)" for cell by (simp add: safely_True storage_term_neq_Panic)
  have "safely (\<lambda>(p, h). unat p = plurality_sum cells) (harmonic_outputs c cells)"
    unfolding harmonic_outputs_def
  proof (rule safely_ofold_prefix)
    fix ys y zs and a :: "u64 \<times> u64"
    assume "cells = ys @ y # zs" "case a of (p, h) \<Rightarrow> unat p = plurality_sum ys"
    then show "safely (\<lambda>(p, h). unat p = plurality_sum (ys @ [y])) ((\<lambda>(acc_plurality, acc_harm).
        obind (padd acc_plurality (cell_plurality y)) (\<lambda>p. obind (storage_term c y) (\<lambda>term. obind (ok_or (checked_add acc_harm term) ()) (\<lambda>h. Ok (p, h))))) a)"
      using assms t [of y] by (auto simp: safely_simps safely_padd plurality_sum_def unat_word_ariths split_def elim!: safely_mono)
  qed (simp add: plurality_sum_def)
  then show ?thesis by (auto simp: safely_def)
qed

lemma osum_neq_Panic: "sum_list (map (\<lambda>x. unat (f x)) xs) < 2 ^ 64 \<Longrightarrow> osum f xs \<noteq> (Panic :: ('e, u64) outcome)"
proof -
  assume "sum_list (map (\<lambda>x. unat (f x)) xs) < 2 ^ 64"
  then have "returns (\<lambda>s. unat s = sum_list (map (\<lambda>x. unat (f x)) xs)) (osum f xs :: ('e, u64) outcome)" by (rule osum_safe)
  then show ?thesis by (auto simp: returns_def)
qed

lemma relaxed_formula_path_neq_Panic: "plurality_sum cells < 2 ^ 64 \<Longrightarrow> relaxed_formula_path n cells \<noteq> Panic"
  by (auto simp: relaxed_formula_path_def obind_eq_Panic plurality_sum_def osum_neq_Panic)

lemma input_sums_neq_Panic:
  assumes "plurality_sum cells < 2 ^ 64" "amount_sum cells < 2 ^ 64"
  shows "ofold (\<lambda>cell (acc_plur, acc_amt). obind (padd acc_plur (cell_plurality cell)) (\<lambda>p.
    obind (padd acc_amt (cell_amount cell)) (\<lambda>a. Ok (p, a)))) cells (0, 0) \<noteq> (Panic :: (unit, u64 \<times> u64) outcome)"
proof -
  have "safely (\<lambda>(p, a). unat p = plurality_sum cells \<and> unat a = amount_sum cells) (ofold (\<lambda>cell (acc_plur, acc_amt).
      obind (padd acc_plur (cell_plurality cell)) (\<lambda>p. obind (padd acc_amt (cell_amount cell)) (\<lambda>a. Ok (p, a)))) cells (0, 0) :: (unit, u64 \<times> u64) outcome)"
  proof (rule safely_ofold_prefix)
    fix ys y zs and x :: "u64 \<times> u64"
    assume "cells = ys @ y # zs" "case x of (p, a) \<Rightarrow> unat p = plurality_sum ys \<and> unat a = amount_sum ys"
    then show "safely (\<lambda>(p, a). unat p = plurality_sum (ys @ [y]) \<and> unat a = amount_sum (ys @ [y])) ((\<lambda>(acc_plur, acc_amt).
        obind (padd acc_plur (cell_plurality y)) (\<lambda>p. obind (padd acc_amt (cell_amount y)) (\<lambda>a. Ok (p, a)))) x)"
      using assms by (auto simp: safely_simps safely_padd plurality_sum_def amount_sum_def unat_word_ariths split_def)
  qed (simp add: plurality_sum_def amount_sum_def)
  then show ?thesis by (simp add: safely_def)
qed

lemma calc_storage_mass_neq_Panic:
  assumes "plurality_sum outputs < 2 ^ 64" "plurality_sum inputs < 2 ^ 64" "amount_sum inputs < 2 ^ 64"
  shows "calc_storage_mass cb inputs outputs c \<noteq> Panic"
proof -
  have r: "ofold (\<lambda>cell total. obind (storage_term c cell) (\<lambda>term. Ok (saturating_add total term))) inputs 0 \<noteq> Panic"
    unfolding safely_True [symmetric]
    by (rule safely_ofold [where I = "\<lambda>_. True"]) (simp_all add: safely_True obind_eq_Panic storage_term_neq_Panic)
  show ?thesis
    using r harmonic_outputs_safe [OF assms(1), of c] relaxed_formula_path_neq_Panic [OF assms(2)] input_sums_neq_Panic [OF assms(2,3)]
    by (auto simp: calc_storage_mass_def obind_eq_Panic)
qed

text \<open>The sizes of the scripts of a transaction and of the entries it spends, which fit into memory.\<close>

definition footprint :: "script_public_key list \<Rightarrow> nat" where
  "footprint spks = sum_list (map (\<lambda>spk. length (spk_script spk) + 200) spks)"

lemma unat_utxo_plurality: "unat (utxo_plurality spk) \<le> length (spk_script spk) + 200"
proof -
  have "unat (utxo_plurality spk) \<le> (UTXO_CONST_STORAGE + length (spk_script spk) + UTXO_UNIT_SIZE - 1) div UTXO_UNIT_SIZE"
    unfolding utxo_plurality_def by (simp add: unat_of_nat)
  also have "\<dots> \<le> length (spk_script spk) + 200" by (simp add: UTXO_CONST_STORAGE_def UTXO_UNIT_SIZE_def)
  finally show ?thesis .
qed

lemma plurality_footprint:
  "(\<And>x. cell_plurality (c x) = utxo_plurality (spk x)) \<Longrightarrow> plurality_sum (map c xs) \<le> footprint (map spk xs)"
  unfolding plurality_sum_def footprint_def map_map by (rule sum_list_mono) (simp add: unat_utxo_plurality)

lemma footprint_filter: "footprint (map spk (filter P xs)) \<le> footprint (map spk xs)"
  by (induction xs) (simp_all add: footprint_def)

lemma contextual_masses_neq_Panic:
  assumes "footprint (map out_spk (tx_outputs (ptx p))) < 2 ^ 64" "footprint (map (\<lambda>x. entry_spk (snd x)) (populated_inputs p)) < 2 ^ 64"
    and "amounts_sum p \<le> unat MAX_SOMPI"
  shows "calc_contextual_masses c p \<noteq> Panic"
  unfolding calc_contextual_masses_def
proof (rule calc_storage_mass_neq_Panic)
  have "plurality_sum (map cell_of_output (filter (\<lambda>output. \<not> is_zero_value_protocol_output output) (tx_outputs (ptx p)))) \<le>
      footprint (map out_spk (filter (\<lambda>output. \<not> is_zero_value_protocol_output output) (tx_outputs (ptx p))))"
    by (rule plurality_footprint) (simp add: cell_of_output_def)
  then show "plurality_sum (map cell_of_output (filter (\<lambda>output. \<not> is_zero_value_protocol_output output) (tx_outputs (ptx p)))) < 2 ^ 64"
    using footprint_filter [of out_spk "\<lambda>output. \<not> is_zero_value_protocol_output output" "tx_outputs (ptx p)"] assms(1) by linarith
  have "plurality_sum (map (cell_of_entry \<circ> snd) (populated_inputs p)) \<le> footprint (map (\<lambda>x. entry_spk (snd x)) (populated_inputs p))"
    by (rule plurality_footprint) (simp add: cell_of_entry_def)
  then show "plurality_sum (map (cell_of_entry \<circ> snd) (populated_inputs p)) < 2 ^ 64" using assms(2) by linarith
  have "amount_sum (map (cell_of_entry \<circ> snd) (populated_inputs p)) = amounts_sum p"
    by (simp add: amount_sum_def comp_def cell_of_entry_def)
  then show "amount_sum (map (cell_of_entry \<circ> snd) (populated_inputs p)) < 2 ^ 64" using assms(3) by (simp add: unat_MAX_SOMPI)
qed

lemma run_engine_neq_Panic:
  assumes "populated_wf p" "idx < length (tx_inputs (ptx p))"
  shows "run_engine E p input idx entry st \<noteq> Panic"
proof -
  obtain vm where vm: "from_transaction_input p input idx entry (cs_reused st) (cs_cache st) = (Ok vm :: (tx_script_error, _) outcome)"
    using assms(2) by (simp add: from_transaction_input_def)
  have "safely (keeps vm) (execute E vm)" using from_transaction_input_idle [OF vm assms(1)] by (intro execute_safe) auto
  then show ?thesis by (simp add: run_engine_def vm outcome_simps safely_def)
qed

lemma check_input_neq_Panic:
  assumes "populated_wf p" "idx < length (tx_inputs (ptx p))"
  shows "check_input V p d (idx, input, entry) st \<noteq> Panic"
  using run_engine_neq_Panic [OF assms] unfolding safely_True [symmetric]
  by (auto simp: check_input_def Let_def check_contract_input_def check_token_utxo_spend_def safely_simps split_def split: option.splits
      elim!: safely_mono)

lemma check_scripts_neq_Panic:
  assumes "populated_wf p" "set (ve_schedule V [0..<length (tx_inputs (ptx p))]) \<subseteq> {..<length (tx_inputs (ptx p))}"
  shows "check_scripts_with_svm V p d st \<noteq> Panic"
proof -
  have s: "check_scripts_sequential V p d st \<noteq> Panic"
    unfolding check_scripts_sequential_def safely_True [symmetric]
  proof (rule safely_ofold)
    fix x and st :: "'a check_state"
    assume "x \<in> set (enumerate 0 (populated_inputs p))"
    then have "fst x < length (tx_inputs (ptx p))" by (auto simp: in_set_enumerate_eq populated_inputs_def)
    then show "safely (\<lambda>_. True) (check_input V p d x st)"
      using check_input_neq_Panic [OF assms(1), of "fst x" V d "fst (snd x)" "snd (snd x)" st] by (simp add: safely_True)
  qed simp
  have "check_scripts_par_iter V p d st \<noteq> Panic"
    unfolding check_scripts_par_iter_def safely_True [symmetric]
  proof (rule safely_ofold)
    fix idx and st :: "'a check_state"
    assume "idx \<in> set (ve_schedule V [0..<length (tx_inputs (ptx p))])"
    then have "idx < length (tx_inputs (ptx p))" using assms(2) by auto
    then show "safely (\<lambda>_. True) (obind (vec_index (tx_inputs (ptx p)) idx) (\<lambda>input. obind (vec_index (ptx_entries p) idx) (\<lambda>entry.
        check_input V p d (idx, input, entry) st)))"
      using check_input_neq_Panic [OF assms(1)] assms(1) by (simp add: vec_index_def populated_wf_def safely_True)
  qed simp
  with s show ?thesis by (simp add: check_scripts_with_svm_def)
qed

lemma check_alt_references_neq_Panic: "check_alt_references V p \<noteq> Panic"
proof -
  have "safely (\<lambda>_. True) (check_alt_reference svm get_entry i u)" for svm :: "'a svm_context" and get_entry i u
    using parse_alt_reference_neq_Panic [of "out_script u"]
    by (cases "parse_alt_reference (out_script u)") (auto simp: check_alt_reference_def safely_simps split: option.splits)
  then have "safely (\<lambda>_. \<forall>x \<in> set (tx_outputs (ptx p)). True) (ocheck (check_alt_reference svm get_entry) 0 (tx_outputs (ptx p)))" for svm :: "'a svm_context" and get_entry
    by (intro safely_ocheck) simp
  then show ?thesis by (auto simp: check_alt_references_def safely_True split: option.splits)
qed

lemma populated_entry: "x \<in> set (populated_inputs p) \<Longrightarrow> snd x \<in> set (ptx_entries p)"
  by (cases x) (auto simp: populated_inputs_def dest: set_zip_rightD)

lemma maturity_neq_Panic:
  assumes "\<forall>entry \<in> set (ptx_entries p). unat (block_daa_score entry) < 2 ^ 62" "unat (tv_coinbase_maturity tv) < 2 ^ 62"
  shows "check_transaction_coinbase_maturity tv p d \<noteq> Panic"
proof -
  have "safely (\<lambda>_. \<forall>x \<in> set (populated_inputs p). True) (check_transaction_coinbase_maturity tv p d)"
    unfolding check_transaction_coinbase_maturity_def
  proof (rule safely_ocheck)
    fix i x
    assume "x \<in> set (populated_inputs p)"
    then have "unat (block_daa_score (snd x)) < 2 ^ 62" using assms(1) populated_entry by blast
    then show "safely (\<lambda>_. True) (case x of (input, entry) \<Rightarrow> if \<not> entry_is_coinbase entry then Ok ()
        else obind (padd (block_daa_score entry) (tv_coinbase_maturity tv)) (\<lambda>mature. ensure (\<not> d < mature)
          (ImmatureCoinbaseSpend i (previous_outpoint input) (block_daa_score entry) d (tv_coinbase_maturity tv))))"
      using assms(2) by (simp add: split_def safely_simps safely_padd)
  qed
  then show ?thesis by (simp add: safely_True)
qed

lemma i64_plain_sum:
  "\<lbrakk>0 \<le> a; a < 2 ^ 62; 0 \<le> b; b < 2 ^ 32\<rbrakk> \<Longrightarrow> i64_plain (a + b) = Ok (a + b) \<and> i64_plain (a + b - 1) = Ok (a + b - 1)"
  by (simp add: i64_plain_def I64_MIN_def I64_MAX_def)

lemma sequence_lock_neq_Panic:
  assumes "\<forall>entry \<in> set (ptx_entries p). unat (block_daa_score entry) < 2 ^ 62"
  shows "check_sequence_lock p d \<noteq> Panic"
proof -
  have "safely (\<lambda>_. \<forall>x \<in> set (filter (\<lambda>(input, _). sequence input AND SEQUENCE_LOCK_TIME_DISABLED \<noteq> SEQUENCE_LOCK_TIME_DISABLED) (populated_inputs p)). True)
      (check_sequence_lock p d)"
    unfolding check_sequence_lock_def
  proof (rule safely_ocheck)
    fix i and x :: "transaction_input \<times> utxo_entry"
    assume x: "x \<in> set (filter (\<lambda>(input, _). sequence input AND SEQUENCE_LOCK_TIME_DISABLED \<noteq> SEQUENCE_LOCK_TIME_DISABLED) (populated_inputs p))"
    then have "unat (block_daa_score (snd x)) < 2 ^ 62" using assms populated_entry by auto
    then have "int (unat (block_daa_score (snd x))) < int (2 ^ 62)" by (simp only: of_nat_less_iff)
    then have "uint (block_daa_score (snd x)) < 2 ^ 62" by simp
    then have "i64_plain (uint (block_daa_score (snd x)) + uint (sequence (fst x)) mod 2 ^ 32) = (Ok (uint (block_daa_score (snd x)) + uint (sequence (fst x)) mod 2 ^ 32) :: (tx_rule_error, int) outcome) \<and>
        i64_plain (uint (block_daa_score (snd x)) + uint (sequence (fst x)) mod 2 ^ 32 - 1) = (Ok (uint (block_daa_score (snd x)) + uint (sequence (fst x)) mod 2 ^ 32 - 1) :: (tx_rule_error, int) outcome)"
      by (intro i64_plain_sum) simp_all
    moreover have "sint (block_daa_score (snd x)) = uint (block_daa_score (snd x))"
      using \<open>uint (block_daa_score (snd x)) < 2 ^ 62\<close> by (intro sint_small) simp
    ultimately show "safely (\<lambda>_. True) (case x of (input, entry) \<Rightarrow>
       obind (i64_plain (sint (block_daa_score entry) + sint (sequence input AND SEQUENCE_LOCK_TIME_MASK))) (\<lambda>s.
       obind (i64_plain (s - 1)) (\<lambda>lock_daa_score. ensure (\<not> sint d \<le> lock_daa_score) SequenceLockConditionsAreNotMet)))"
      by (simp add: split_def sint_sequence safely_simps)
  qed
  then show ?thesis by (simp add: safely_True)
qed

text \<open>
  C27: Validation in the UTXO context cannot be made to panic. For a transaction that passed validation in isolation and
  whose entries were found, with DAA scores and maturity below 2^62, scripts that fit into 2^64 bytes, a schedule that
  takes the indices of the inputs and a mass that is not zero where a fee rate is compared, validation with every flag
  gives a fee or an error, whatever the contracts, the stores and the cryptography answer. In particular the sum of
  the outputs, the fee and the sums of the mass formula, which are plain additions and subtractions, do not overflow.
\<close>

theorem validation_never_panics:
  assumes "validate_tx_in_isolation tv (ve_lib V) (ptx p) = Ok ()" "populated_wf p"
    and "\<forall>entry \<in> set (ptx_entries p). unat (block_daa_score entry) < 2 ^ 62" "unat (tv_coinbase_maturity tv) < 2 ^ 62"
    and "footprint (map out_spk (tx_outputs (ptx p))) < 2 ^ 64" "footprint (map (\<lambda>x. entry_spk (snd x)) (populated_inputs p)) < 2 ^ 64"
    and "set (ve_schedule V [0..<length (tx_inputs (ptx p))]) \<subseteq> {..<length (tx_inputs (ptx p))}" "\<And>ids. set (ve_iteration V ids) = set ids"
    and "\<And>mass rate. threshold = Some (mass, rate) \<Longrightarrow> 0 < mass"
  shows "validate_populated_transaction_and_get_fee V tv p pov_daa_score flags threshold st \<noteq> Panic"
proof -
  have "values_sum (tx_outputs (ptx p)) \<le> unat MAX_SOMPI"
    using validate_tx_in_isolation_safe [of tv "ve_lib V" "ptx p"] assms(1) by (simp add: safely_def isolated_def)
  then have o: "check_transaction_output_values p total_in \<noteq> Panic" for total_in
    using osum_neq_Panic [of out_value "tx_outputs (ptx p)"] by (simp add: check_transaction_output_values_def outcome_simps unat_MAX_SOMPI)
  have i: "check_transaction_input_amounts p \<noteq> Panic" using input_amounts_safe by (simp add: safely_def)
  have m: "check_mass_commitment tv p \<noteq> Panic" if "check_transaction_input_amounts p = Ok total_in" for total_in
    using contextual_masses_neq_Panic [OF assms(5,6)] input_amounts_safe [of p] that by (simp add: safely_def check_mass_commitment_def outcome_simps)
  have f: "check_feerate_threshold V fee threshold \<noteq> Panic" for fee
    using assms(9) by (auto simp: check_feerate_threshold_def split: option.splits)
  have t: "check_token_conservation V p pov_daa_score st \<noteq> Panic" for st
    using token_conservation_safe [OF assms(8)] by (simp add: safely_def)
  show ?thesis
    unfolding validate_populated_transaction_and_get_fee_def
    using maturity_neq_Panic [OF assms(3,4), of pov_daa_score] sequence_lock_neq_Panic [OF assms(3), of pov_daa_score] i o m f t
      check_scripts_neq_Panic [OF assms(2,7)] check_alt_references_neq_Panic [of V p]
    by (auto simp: obind_eq_Panic then_do_eq_Panic psub_eq_Panic dest: output_values_Ok split: if_splits)
qed

section \<open>Events of several contract inputs\<close>

definition contract_accepts :: "('ev, 'f) validation_env \<Rightarrow> populated_transaction \<Rightarrow> u64 \<Rightarrow> nat \<Rightarrow> 'ev list \<Rightarrow> bool" where
  "contract_accepts V p d i events \<longleftrightarrow> i < length (tx_inputs (ptx p)) \<and> spk_version (entry_spk (ptx_entries p ! i)) = SCRIPT_VERSION_CONTRACT \<and>
     (\<exists>svm data wasm. ve_svm V = Some svm \<and> decode_contract_utxo (ve_lib V) (spk_script (entry_spk (ptx_entries p ! i))) = Some data \<and>
       get_wasm svm (contract_id data) = Some wasm \<and> executor svm (contract_id data) wasm p d (manifest data) = Some (True, events))"

lemma check_input_accepts:
  "contract_accepts V p d i events \<Longrightarrow> check_input V p d (i, input, ptx_entries p ! i) st = Ok (collect_events p events st)"
  by (auto simp: contract_accepts_def check_input_def check_contract_input_def ok_or_def)

lemma par_events:
  assumes "populated_wf p" "\<forall>i \<in> set order. contract_accepts V p d i (ev i) \<and> ev i \<noteq> []"
  shows "\<exists>st'. ofold (\<lambda>idx st. obind (vec_index (tx_inputs (ptx p)) idx) (\<lambda>input. obind (vec_index (ptx_entries p) idx) (\<lambda>entry.
      check_input V p d (idx, input, entry) st))) order st = Ok st' \<and>
    (order \<noteq> [] \<longrightarrow> hm_get (cs_events st') (tx_id (ptx p)) = Some (ev (last order)))"
  using assms(2)
proof (induction order arbitrary: st)
  case (Cons i order)
  then have i: "contract_accepts V p d i (ev i)" "ev i \<noteq> []" by simp_all
  then have l: "i < length (tx_inputs (ptx p))" "i < length (ptx_entries p)" using assms(1) by (simp_all add: contract_accepts_def populated_wf_def)
  obtain st' where s: "ofold (\<lambda>idx st. obind (vec_index (tx_inputs (ptx p)) idx) (\<lambda>input. obind (vec_index (ptx_entries p) idx) (\<lambda>entry.
      check_input V p d (idx, input, entry) st))) order (collect_events p (ev i) st) = Ok st'"
      "order \<noteq> [] \<longrightarrow> hm_get (cs_events st') (tx_id (ptx p)) = Some (ev (last order))"
    using Cons.IH [of "collect_events p (ev i) st"] Cons.prems by auto
  show ?case
  proof (intro exI conjI impI)
    show "ofold (\<lambda>idx st. obind (vec_index (tx_inputs (ptx p)) idx) (\<lambda>input. obind (vec_index (ptx_entries p) idx) (\<lambda>entry.
      check_input V p d (idx, input, entry) st))) (i # order) st = Ok st'" using l s(1) by (simp add: vec_index_def check_input_accepts [OF i(1)])
    show "hm_get (cs_events st') (tx_id (ptx p)) = Some (ev (last (i # order)))"
      using s i(2) by (cases "order = []") (auto simp: collect_events_def)
  qed
qed simp

text \<open>
  C28: When a transaction spends several contract outputs and every contract accepts it and emits events, only the events
  of the input that the thread pool happens to check last are kept: the collector holds one entry per transaction, and
  each input replaces it.
\<close>

theorem events_overwritten:
  assumes "populated_wf p" "1 < length (tx_inputs (ptx p))"
    and "ve_schedule V [0..<length (tx_inputs (ptx p))] = order" "order \<noteq> []"
    and "\<forall>i \<in> set order. contract_accepts V p pov_daa_score i (ev i) \<and> ev i \<noteq> []"
  shows "\<exists>st'. check_scripts_with_svm V p pov_daa_score st = Ok st' \<and> hm_get (cs_events st') (tx_id (ptx p)) = Some (ev (last order))"
  using par_events [OF assms(1,5), of "st\<lparr>cs_reused := reused_values_new\<rparr>"] assms(2-4)
  by (simp add: check_scripts_with_svm_def CHECK_SCRIPTS_PARALLELISM_THRESHOLD_def check_scripts_par_iter_def)

section \<open>Examples\<close>

definition ex_svm :: "u8 svm_context" where
  "ex_svm = \<lparr>get_wasm = \<lambda>_. Some [], executor = \<lambda>cid _ _ _ _. Some (True, [as_bytes cid ! 0]), alt_store = None, selected_chain_store = None,
     pending_chain_blocks = [], pruning_point_store = None, headers_store = None\<rparr>"

definition ex_venv :: "(nat list \<Rightarrow> nat list) \<Rightarrow> (u8, nat) validation_env" where
  "ex_venv schedule = \<lparr>ve_script = \<lparr>TransactionSigningHash = Hash, sha256 = \<lambda>x. x, blake2b_256 = \<lambda>x. x, ml_dsa_44_verify = \<lambda>_ _ _ _. True, random_index = \<lambda>_. 0\<rparr>,
     ve_lib = ex_lib, ve_svm = Some ex_svm, ve_feerate_le = \<lambda>_ _ _. False, ve_schedule = schedule, ve_iteration = \<lambda>ids. ids\<rparr>"

definition ex_state :: "u8 check_state" where
  "ex_state = \<lparr>cs_reused = reused_values_new, cs_cache = cache_new 10, cs_events = []\<rparr>"

definition ex_entry :: "u16 \<Rightarrow> bytes \<Rightarrow> utxo_entry" where
  "ex_entry version script = \<lparr>amount = 8, entry_spk = \<lparr>spk_version = version, spk_script = script\<rparr>, block_daa_score = 100, entry_is_coinbase = True\<rparr>"

definition ex_call :: populated_transaction where
  "ex_call = \<lparr>ptx = ex_contract_tx 1, ptx_entries = [ex_entry SCRIPT_VERSION_CONTRACT (replicate 32 2)]\<rparr>"

lemma ex_call_inputs: "populated_inputs ex_call = [(\<lparr>previous_outpoint = \<lparr>transaction_id = Hash [], outpoint_index = 0\<rparr>, signature_script = [], sequence = 0,
    sig_op_count = 0\<rparr>, ex_entry SCRIPT_VERSION_CONTRACT (replicate 32 2))]"
  by (simp add: populated_inputs_def ex_call_def ex_contract_tx_def)

lemma ex_call_outputs: "tx_outputs (ptx ex_call) = [\<lparr>out_value = 5, out_spk = \<lparr>spk_version = SCRIPT_VERSION_CONTRACT, spk_script = replicate 32 1\<rparr>\<rparr>]"
  by (simp add: ex_call_def ex_contract_tx_def)

lemma ex_call_mass: "calc_contextual_masses (tv_mass_calculator ex_validator) ex_call = Ok 750"
proof -
  have n: "\<not> is_coinbase (ptx ex_call)"
    by (simp add: ex_call_def ex_contract_tx_def is_coinbase_def SUBNETWORK_ID_NATIVE_def SUBNETWORK_ID_COINBASE_def subnetwork_from_byte_def)
  have p: "utxo_plurality \<lparr>spk_version = v, spk_script = replicate 32 b\<rparr> = 1" for v b
    by (simp add: utxo_plurality_def UTXO_CONST_STORAGE_def UTXO_UNIT_SIZE_def)
  show ?thesis using n
    by (simp add: calc_contextual_masses_def calc_storage_mass_def ex_call_inputs ex_call_outputs cell_of_entry_def cell_of_output_def ex_entry_def p
        is_zero_value_protocol_output_def harmonic_outputs_def storage_term_def checked_mul_def checked_div_def checked_add_def padd_def ok_or_def
        relaxed_formula_path_def saturating_add_def saturating_sub_def checked_sub_def ex_validator_def)
qed

lemma ex_call_valid:
  "\<exists>st'. validate_populated_transaction_and_get_fee (ex_venv id) ex_validator ex_call 1000 Full None ex_state = Ok (3, st')"
proof -
  have v: "SCRIPT_VERSION_CONTRACT \<noteq> SCRIPT_VERSION_TOKEN" by (simp add: SCRIPT_VERSION_CONTRACT_def SCRIPT_VERSION_TOKEN_def)
  have "length (tx_inputs (ptx ex_call)) = 1" "tx_mass (ptx ex_call) = 750" "tv_coinbase_maturity ex_validator = 100"
    by (simp_all add: ex_call_def ex_contract_tx_def ex_validator_def)
  then show ?thesis using v
    by (simp add: validate_populated_transaction_and_get_fee_def check_transaction_coinbase_maturity_def ex_call_inputs ex_entry_def padd_def checked_add_def
        check_transaction_input_amounts_def input_amount_step_def check_transaction_output_values_def ex_call_outputs osum_def psub_def checked_sub_def
        check_mass_commitment_def ex_call_mass check_sequence_lock_def SEQUENCE_LOCK_TIME_DISABLED_def i64_plain_def I64_MIN_def I64_MAX_def
        check_alt_references_def ex_venv_def ex_svm_def check_feerate_threshold_def check_scripts_with_svm_def CHECK_SCRIPTS_PARALLELISM_THRESHOLD_def
        check_scripts_sequential_def check_input_def check_contract_input_def ex_lib_def ok_or_def check_token_conservation_def add_token_def
        MAX_SOMPI_def SOMPI_PER_SOPHIS_def)
qed

theorem validated_fee_witness:
  "\<exists>st'. validate_populated_transaction_and_get_fee (ex_venv id) ex_validator ex_call 1000 Full None ex_state = Ok (3, st') \<and>
     unat (3 :: u64) + values_sum (tx_outputs (ptx ex_call)) = amounts_sum ex_call"
  using ex_call_valid validated_fee [of "ex_venv id" ex_validator ex_call 1000 Full None ex_state 3] by blast

theorem validation_never_panics_witness:
  "validate_populated_transaction_and_get_fee (ex_venv rev) ex_validator ex_call 50 Full None ex_state \<noteq> Panic"
proof (rule validation_never_panics)
  show "validate_tx_in_isolation ex_validator (ve_lib (ex_venv rev)) (ptx ex_call) = Ok ()"
    using ex_contract_tx_Ok [of 1] by (simp add: ex_venv_def ex_call_def)
  show "populated_wf ex_call" by (simp add: populated_wf_def ex_call_def ex_contract_tx_def)
qed (simp_all add: ex_call_inputs ex_call_outputs footprint_def ex_entry_def ex_validator_def, simp_all add: ex_call_def ex_venv_def ex_contract_tx_def ex_entry_def)

definition ex_tokens :: populated_transaction where
  "ex_tokens = \<lparr>ptx = (ex_contract_tx 1)\<lparr>tx_outputs := [\<lparr>out_value = 5, out_spk = \<lparr>spk_version = SCRIPT_VERSION_TOKEN, spk_script = replicate 32 3 @ [7, 0, 0, 0, 0, 0, 0, 0]\<rparr>\<rparr>]\<rparr>,
     ptx_entries = [ex_entry SCRIPT_VERSION_TOKEN (replicate 32 3 @ [7, 0, 0, 0, 0, 0, 0, 0])]\<rparr>"

theorem token_conservation_witness:
  "token_sum ex_lib (Hash (replicate 32 3)) (map entry_spk (map snd (populated_inputs ex_tokens))) =
     token_sum ex_lib (Hash (replicate 32 3)) (map out_spk (tx_outputs (ptx ex_tokens))) \<or>
   approved ((ex_venv id)\<lparr>ve_svm := None\<rparr>) ex_tokens 50 (Hash (replicate 32 3))"
proof -
  have "check_token_conservation ((ex_venv id)\<lparr>ve_svm := None\<rparr>) ex_tokens 50 ex_state = Ok ex_state"
    by (simp add: check_token_conservation_def populated_inputs_def ex_tokens_def ex_contract_tx_def add_token_def ex_entry_def ex_venv_def ex_lib_def
        ok_or_def hm_get_def checked_add_def hm_insert_def check_token_delta_def)
  then show ?thesis using token_conservation [of "(ex_venv id)\<lparr>ve_svm := None\<rparr>" ex_tokens 50 ex_state ex_state "Hash (replicate 32 3)"] by (simp add: ex_venv_def)
qed

definition ex_two_calls :: populated_transaction where
  "ex_two_calls = \<lparr>ptx = (ex_contract_tx 1)\<lparr>tx_inputs := replicate 2 (tx_inputs (ex_contract_tx 1) ! 0)\<rparr>,
     ptx_entries = [ex_entry SCRIPT_VERSION_CONTRACT (replicate 32 2), ex_entry SCRIPT_VERSION_CONTRACT (replicate 32 3)]\<rparr>"

theorem events_overwritten_witness:
  "(\<exists>st'. check_scripts_with_svm (ex_venv id) ex_two_calls 50 ex_state = Ok st' \<and> hm_get (cs_events st') (Hash []) = Some [3]) \<and>
   (\<exists>st'. check_scripts_with_svm (ex_venv rev) ex_two_calls 50 ex_state = Ok st' \<and> hm_get (cs_events st') (Hash []) = Some [2])"
proof -
  have w: "populated_wf ex_two_calls" "1 < length (tx_inputs (ptx ex_two_calls))" "tx_id (ptx ex_two_calls) = Hash []"
      "[0..<length (tx_inputs (ptx ex_two_calls))] = [0, 1]"
    by (simp_all add: populated_wf_def ex_two_calls_def ex_contract_tx_def numeral_2_eq_2)
  have a: "contract_accepts (ex_venv schedule) ex_two_calls 50 i [2 + of_nat i]" if "i \<in> {0, 1}" for i schedule
    using that by (auto simp: contract_accepts_def ex_two_calls_def ex_venv_def ex_svm_def ex_lib_def ex_entry_def nth_Cons')
  have v: "ve_schedule (ex_venv schedule) = schedule" for schedule by (simp add: ex_venv_def)
  have "\<exists>st'. check_scripts_with_svm (ex_venv id) ex_two_calls 50 ex_state = Ok st' \<and> hm_get (cs_events st') (tx_id (ptx ex_two_calls)) = Some [2 + of_nat (last [0, 1])]"
    by (rule events_overwritten [OF w(1,2)]) (simp_all only: v w(4) id_apply, use a [of 0] a [of 1] in simp_all)
  moreover have "\<exists>st'. check_scripts_with_svm (ex_venv rev) ex_two_calls 50 ex_state = Ok st' \<and> hm_get (cs_events st') (tx_id (ptx ex_two_calls)) = Some [2 + of_nat (last [1, 0])]"
    by (rule events_overwritten [OF w(1,2)]) (simp_all only: v w(4), use a [of 0] a [of 1] in simp_all)
  ultimately show ?thesis by (simp add: w(3))
qed

end
