(* ===== verification/Header.thy ===== *)
theory Header
  imports Merkle Ghostdag_Data Uint
begin

text \<open>
  Block headers: src/consensus/core/src/header.rs with the run-length encoding of
  src/utils/src/iter.rs, and the hash of src/consensus/core/src/hashing/header.rs. The hash function is a parameter. A run-length
  encoding is a list of cumulative counts with their values; the iterators that expand it panic on counts that do not
  increase.
\<close>

section \<open>Run-length encoding\<close>

fun dedup_with_count :: "'a list \<Rightarrow> (nat \<times> 'a) list" where
  "dedup_with_count [] = []"
| "dedup_with_count (x # xs) =
     (case dedup_with_count xs of [] \<Rightarrow> [(1, x)] | (n, y) # r \<Rightarrow> if x = y then (n + 1, y) # r else (1, x) # (n, y) # r)"

fun cumulate :: "nat \<Rightarrow> (nat \<times> 'a) list \<Rightarrow> (nat \<times> 'a) list" where
  "cumulate cumulative [] = []"
| "cumulate cumulative ((n, x) # r) = (cumulative + n, x) # cumulate (cumulative + n) r"

definition rle_cumulative :: "'a list \<Rightarrow> (nat \<times> 'a) list" where
  "rle_cumulative xs = cumulate 0 (dedup_with_count xs)"

fun expand_rle :: "nat \<Rightarrow> (nat \<times> 'a) list \<Rightarrow> ('e, 'a list) outcome" where
  "expand_rle prev [] = Ok []"
| "expand_rle prev ((cum, item) # r) =
     (if cum \<le> prev then Panic else obind (expand_rle cum r) (\<lambda>xs. Ok (replicate (cum - prev) item @ xs)))"

section \<open>Compressed parents\<close>

type_synonym compressed_parents = "(u8 \<times> hash list) list"

datatype compressed_parents_error = LevelsExceeded | LevelsNotStrictlyIncreasing | NotFullyCompressed

definition expanded_len :: "compressed_parents \<Rightarrow> nat" where
  "expanded_len cp = (if cp = [] then 0 else unat (fst (last cp)))"

text \<open>\<open>slice::partition_point\<close>: the binary search of the standard library, with a predicate that may panic.\<close>

function partition_loop :: "('a \<Rightarrow> ('e, bool) outcome) \<Rightarrow> 'a list \<Rightarrow> nat \<Rightarrow> nat \<Rightarrow> ('e, nat) outcome" where
  "partition_loop pred xs base n =
     (if n \<le> 1 then obind (pred (xs ! base)) (\<lambda>b. Ok (if b then base + 1 else base))
      else obind (pred (xs ! (base + n div 2))) (\<lambda>b. partition_loop pred xs (if b then base + n div 2 else base) (n - n div 2)))"
  by pat_completeness auto
termination
  by (relation "measure (\<lambda>(_, _, _, n). n)") auto

declare partition_loop.simps [simp del]

definition partition_point :: "('a \<Rightarrow> ('e, bool) outcome) \<Rightarrow> 'a list \<Rightarrow> ('e, nat) outcome" where
  "partition_point pred xs = (if xs = [] then Ok 0 else partition_loop pred xs 0 (length xs))"

text \<open>\<open>(*cum as usize) - 1\<close> is a checked subtraction.\<close>

definition cp_get :: "compressed_parents \<Rightarrow> nat \<Rightarrow> ('e, hash list option) outcome" where
  "cp_get cp index =
     (if expanded_len cp \<le> index then Ok None
      else if index = 0 then Ok (Some (snd (cp ! 0)))
      else obind (partition_point (\<lambda>(cum, _). if cum = 0 then Panic else Ok (unat cum - 1 < index)) cp)
             (\<lambda>i. if i < length cp then Ok (Some (snd (cp ! i))) else Panic))"

definition expanded_iter :: "compressed_parents \<Rightarrow> ('e, hash list list) outcome" where
  "expanded_iter cp = expand_rle 0 (map (\<lambda>(cum, v). (unat cum, v)) cp)"

definition cp_push :: "hash list \<Rightarrow> compressed_parents \<Rightarrow> ('e, compressed_parents) outcome" where
  "cp_push parents_at_level cp =
     (if cp = [] then Ok [(1, parents_at_level)]
      else let (n, last_parents) = last cp in
        obind (unwrap (checked_add n 1)) (\<lambda>n'.
          if last_parents = parents_at_level then Ok (butlast cp @ [(n', last_parents)])
          else Ok (cp @ [(n', parents_at_level)])))"

definition try_from_levels :: "hash list list \<Rightarrow> (compressed_parents_error, compressed_parents) outcome" where
  "try_from_levels parents =
     (if 255 < length parents then Err LevelsExceeded
      else Ok (map (\<lambda>(n, level). (of_nat n, level)) (rle_cumulative parents)))"

fun check_runs :: "compressed_parents \<Rightarrow> (compressed_parents_error, unit) outcome" where
  "check_runs ((last_cumulative_level, last_parents) # (cumulative_level, parents) # r) =
     (if cumulative_level \<le> last_cumulative_level then Err LevelsNotStrictlyIncreasing
      else if last_parents = parents then Err NotFullyCompressed
      else check_runs ((cumulative_level, parents) # r))"
| "check_runs _ = Ok ()"

definition try_from_runs :: "compressed_parents \<Rightarrow> (compressed_parents_error, compressed_parents) outcome" where
  "try_from_runs parents = then_do (check_runs parents) (Ok parents)"

section \<open>Headers\<close>

record header =
  hdr_hash :: hash
  hdr_version :: u16
  parents_by_level :: compressed_parents
  hash_merkle_root :: merkle_hash
  accepted_id_merkle_root :: merkle_hash
  utxo_commitment :: hash
  hdr_timestamp :: u64
  hdr_bits :: u32
  hdr_nonce :: u64
  hdr_daa_score :: u64
  hdr_blue_work :: blue_work_type
  hdr_blue_score :: u64
  hdr_pruning_point :: hash

definition direct_parents :: "header \<Rightarrow> ('e, hash list) outcome" where
  "direct_parents h = obind (cp_get (parents_by_level h) 0) (\<lambda>p. Ok (case p of Some parents \<Rightarrow> parents | None \<Rightarrow> []))"

definition blue_work_to_be_bytes_var :: "blue_work_type \<Rightarrow> bytes" where
  "blue_work_to_be_bytes_var w = dropWhile (\<lambda>b. b = 0) (rev (to_le_bytes 24 w))"

definition write_blue_work :: "blue_work_type \<Rightarrow> bytes" where
  "write_blue_work w = write_var_bytes (blue_work_to_be_bytes_var w)"

definition header_bytes :: "header \<Rightarrow> u64 \<Rightarrow> u64 \<Rightarrow> ('e, bytes) outcome" where
  "header_bytes h nonce timestamp =
     obind (expanded_iter (parents_by_level h)) (\<lambda>levels.
       Ok (to_le_bytes 2 (hdr_version h) @ write_len (expanded_len (parents_by_level h)) @
         concat (map (\<lambda>level. write_var_array (map as_bytes level)) levels) @
         mh_bytes (hash_merkle_root h) @ mh_bytes (accepted_id_merkle_root h) @ as_bytes (utxo_commitment h) @
         to_le_bytes 8 timestamp @ to_le_bytes 4 (hdr_bits h) @ to_le_bytes 8 nonce @ to_le_bytes 8 (hdr_daa_score h) @
         to_le_bytes 8 (hdr_blue_score h) @ write_blue_work (hdr_blue_work h) @ as_bytes (hdr_pruning_point h)))"

definition hash_override_nonce_time :: "(bytes \<Rightarrow> hash) \<Rightarrow> header \<Rightarrow> u64 \<Rightarrow> u64 \<Rightarrow> ('e, hash) outcome" where
  "hash_override_nonce_time H h nonce timestamp = obind (header_bytes h nonce timestamp) (\<lambda>bs. Ok (H bs))"

definition header_hash :: "(bytes \<Rightarrow> hash) \<Rightarrow> header \<Rightarrow> ('e, hash) outcome" where
  "header_hash H h = hash_override_nonce_time H h (hdr_nonce h) (hdr_timestamp h)"

definition finalize_header :: "(bytes \<Rightarrow> hash) \<Rightarrow> header \<Rightarrow> ('e, header) outcome" where
  "finalize_header H h = obind (header_hash H h) (\<lambda>x. Ok (h\<lparr>hdr_hash := x\<rparr>))"

section \<open>Laws of the run-length encoding\<close>

definition runs_wf :: "nat \<Rightarrow> (nat \<times> 'a) list \<Rightarrow> bool" where
  "runs_wf prev rs \<longleftrightarrow> sorted_wrt (<) (prev # map fst rs) \<and> distinct_adj (map snd rs)"

lemma dedup_hd: "xs \<noteq> [] \<Longrightarrow> \<exists>n r. dedup_with_count xs = (n, hd xs) # r"
  by (induction xs) (auto split: list.splits)

lemma dedup_replicate:
  "ys = [] \<or> hd ys \<noteq> x \<Longrightarrow> dedup_with_count (replicate (Suc k) x @ ys) = (Suc k, x) # dedup_with_count ys"
proof (induction k)
  case 0
  then show ?case using dedup_hd [of ys] by (cases "ys = []") auto
next
  case (Suc k)
  then show ?case by simp
qed

lemma dedup_concat: "concat (map (\<lambda>(n, x). replicate n x) (dedup_with_count xs)) = xs"
proof (induction xs)
  case (Cons x xs)
  then show ?case by (cases "dedup_with_count xs") auto
qed simp

lemma dedup_pos: "\<forall>p\<in>set (dedup_with_count xs). 0 < fst p"
proof (induction xs)
  case (Cons x xs)
  then show ?case by (cases "dedup_with_count xs") auto
qed simp

lemma dedup_adj: "distinct_adj (map snd (dedup_with_count xs))"
proof (induction xs)
  case (Cons x xs)
  then show ?case by (cases "dedup_with_count xs") (auto simp: distinct_adj_Cons)
qed simp

lemma map_snd_cumulate [simp]: "map snd (cumulate c ds) = map snd ds"
  by (induction c ds rule: cumulate.induct) auto

lemma cumulate_sorted: "\<forall>p\<in>set ds. 0 < fst p \<Longrightarrow> sorted_wrt (<) (c # map fst (cumulate c ds))"
  by (induction c ds rule: cumulate.induct) fastforce+

lemma expand_cumulate:
  "\<forall>p\<in>set ds. 0 < fst p \<Longrightarrow> expand_rle c (cumulate c ds) = Ok (concat (map (\<lambda>(n, x). replicate n x) ds))"
  by (induction c ds rule: cumulate.induct) auto

lemma rle_wf: "runs_wf 0 (rle_cumulative xs)"
  using cumulate_sorted [of "dedup_with_count xs" 0] dedup_pos [of xs] dedup_adj [of xs] by (simp add: runs_wf_def rle_cumulative_def)

lemma expand_rle_cumulative: "expand_rle 0 (rle_cumulative xs) = Ok xs"
  using expand_cumulate [of "dedup_with_count xs" 0] dedup_pos [of xs] dedup_concat [of xs] by (simp add: rle_cumulative_def)

lemma expand_wf:
  assumes "runs_wf prev rs"
  obtains xs where "expand_rle prev rs = (Ok xs :: ('e, _) outcome)" "length xs = (if rs = [] then 0 else fst (last rs) - prev)"
    "xs = [] \<or> hd xs = snd (hd rs)" "cumulate prev (dedup_with_count xs) = rs"
    "\<And>i. i < length xs \<Longrightarrow> length (takeWhile (\<lambda>r. fst r \<le> prev + i) rs) < length rs \<and>
       xs ! i = snd (rs ! length (takeWhile (\<lambda>r. fst r \<le> prev + i) rs))"
  using assms
proof (induction rs arbitrary: prev thesis)
  case (Cons r rs)
  obtain cum x where r: "r = (cum, x)" by force
  have lt: "prev < cum" "runs_wf cum rs" using Cons.prems(2) r by (auto simp: runs_wf_def distinct_adj_Cons)
  have adj: "rs = [] \<or> snd (hd rs) \<noteq> x" using Cons.prems(2) r by (cases rs) (auto simp: runs_wf_def)
  obtain ys where ys: "expand_rle cum rs = (Ok ys :: ('e, _) outcome)" "length ys = (if rs = [] then 0 else fst (last rs) - cum)" "ys = [] \<or> hd ys = snd (hd rs)"
      "cumulate cum (dedup_with_count ys) = rs"
      "\<And>i. i < length ys \<Longrightarrow> length (takeWhile (\<lambda>r. fst r \<le> cum + i) rs) < length rs \<and>
         ys ! i = snd (rs ! length (takeWhile (\<lambda>r. fst r \<le> cum + i) rs))"
    using Cons.IH [OF _ lt(2)] by blast
  let ?k = "cum - prev" and ?xs = "replicate (cum - prev) x @ ys"
  obtain k where k: "?k = Suc k" using lt(1) by (metis Suc_diff_Suc)
  have "ys = [] \<or> hd ys \<noteq> x" using ys(2,3) adj by auto
  then have ded: "dedup_with_count ?xs = (?k, x) # dedup_with_count ys" unfolding k by (rule dedup_replicate)
  have last: "rs \<noteq> [] \<Longrightarrow> cum < fst (last rs)" using lt(2) by (simp add: runs_wf_def)
  have idx: "length (takeWhile (\<lambda>r. fst r \<le> prev + i) (r # rs)) < length (r # rs) \<and>
      ?xs ! i = snd ((r # rs) ! length (takeWhile (\<lambda>r. fst r \<le> prev + i) (r # rs)))" if "i < length ?xs" for i
  proof (cases "i < ?k")
    case True
    then have "\<not> cum \<le> prev + i" by simp
    then show ?thesis using True by (simp add: r nth_append)
  next
    case False
    then have "prev + i = cum + (i - ?k)" "i - ?k < length ys" "cum \<le> prev + i" using that lt(1) by auto
    then show ?thesis using ys(5) [of "i - ?k"] False by (simp add: r nth_append)
  qed
  show ?case
  proof (rule Cons.prems(1) [of ?xs])
    show "expand_rle prev (r # rs) = (Ok ?xs :: ('e, _) outcome)" using ys(1) lt(1) r by simp
    show "length ?xs = (if r # rs = [] then 0 else fst (last (r # rs)) - prev)" using ys(2) last lt(1) r by auto
    show "?xs = [] \<or> hd ?xs = snd (hd (r # rs))" by (simp add: k r)
    show "cumulate prev (dedup_with_count ?xs) = r # rs" unfolding ded using ys(4) lt(1) r by simp
  qed (rule idx)
qed simp

lemma partition_loop_finds:
  assumes pred: "\<And>i. i < length xs \<Longrightarrow> pred (xs ! i) = (Ok (i < k) :: ('e, _) outcome)"
    and "0 < n" "base + n \<le> length xs" "base < k \<or> base = 0" "k \<le> base + n"
  shows "partition_loop pred xs base n = (Ok k :: ('e, _) outcome)"
  using assms(2-)
proof (induction n arbitrary: base rule: less_induct)
  case (less n)
  show ?case
  proof (cases "n \<le> 1")
    case True
    then show ?thesis using less.prems pred [of base] by (subst partition_loop.simps) auto
  next
    case False
    let ?h = "n div 2"
    have h: "0 < ?h" "?h < n" "0 < n - ?h" "n - ?h < n" using False by auto
    have p: "pred (xs ! (base + ?h)) = (Ok (base + ?h < k) :: ('e, _) outcome)" using less.prems h by (intro pred) simp
    have "partition_loop pred xs (if base + ?h < k then base + ?h else base) (n - ?h) = (Ok k :: ('e, _) outcome)"
      using less.prems h by (intro less.IH) auto
    then show ?thesis using False p by (subst partition_loop.simps) simp
  qed
qed

lemma partition_point_finds:
  assumes "\<And>i. i < length xs \<Longrightarrow> pred (xs ! i) = (Ok (i < k) :: ('e, _) outcome)" and "k \<le> length xs"
  shows "partition_point pred xs = (Ok k :: ('e, _) outcome)"
  using partition_loop_finds [OF assms(1), of "length xs" 0] assms(2) by (cases xs) (auto simp: partition_point_def)

section \<open>Compressed parents as lists of levels\<close>

text \<open>The well-formed encodings: counts strictly increasing from above zero, adjacent runs different.\<close>

definition cp_wf :: "compressed_parents \<Rightarrow> bool" where
  "cp_wf cp \<longleftrightarrow> runs_wf 0 (map (\<lambda>(cum, v). (unat cum, v)) cp)"

lemma takeWhile_count:
  fixes f :: "'a \<Rightarrow> nat"
  assumes "sorted_wrt (<) (map f xs)" and "i < length xs"
  shows "i < length (takeWhile (\<lambda>x. f x \<le> m) xs) \<longleftrightarrow> f (xs ! i) \<le> m"
proof
  assume "i < length (takeWhile (\<lambda>x. f x \<le> m) xs)"
  then show "f (xs ! i) \<le> m" using nth_mem set_takeWhileD by (metis takeWhile_nth)
next
  assume le: "f (xs ! i) \<le> m"
  show "i < length (takeWhile (\<lambda>x. f x \<le> m) xs)"
  proof (rule ccontr)
    let ?k = "length (takeWhile (\<lambda>x. f x \<le> m) xs)"
    assume "\<not> i < ?k"
    then have k: "?k \<le> i" "?k < length xs" using assms(2) by auto
    then have "\<not> f (xs ! ?k) \<le> m" using nth_length_takeWhile by blast
    moreover have "f (xs ! ?k) \<le> f (xs ! i)"
      using assms k by (cases "?k = i") (auto simp: sorted_wrt_iff_nth_less intro: less_imp_le)
    ultimately show False using le by simp
  qed
qed

lemma expanded_wf:
  assumes "cp_wf cp"
  obtains levels where "expanded_iter cp = (Ok levels :: ('e, _) outcome)" "length levels = expanded_len cp"
    "\<And>i. cp_get cp i = (Ok (if i < length levels then Some (levels ! i) else None) :: ('e, _) outcome)"
    "rle_cumulative levels = map (\<lambda>(cum, v). (unat cum, v)) cp"
proof -
  let ?rs = "map (\<lambda>(cum, v). (unat cum, v)) cp"
  obtain levels where l: "expand_rle 0 ?rs = (Ok levels :: ('e, _) outcome)" "length levels = (if ?rs = [] then 0 else fst (last ?rs) - 0)"
      "cumulate 0 (dedup_with_count levels) = ?rs"
      "\<And>i. i < length levels \<Longrightarrow> length (takeWhile (\<lambda>r. fst r \<le> 0 + i) ?rs) < length ?rs \<and>
         levels ! i = snd (?rs ! length (takeWhile (\<lambda>r. fst r \<le> 0 + i) ?rs))"
    by (rule expand_wf [OF assms [unfolded cp_wf_def], where 'e = 'e]) blast
  have len: "length levels = expanded_len cp" using l(2) by (auto simp: expanded_len_def last_map split: prod.splits)
  have sorted: "sorted_wrt (<) (map (\<lambda>r. unat (fst r)) cp)" and pos: "\<And>r. r \<in> set cp \<Longrightarrow> 0 < unat (fst r)"
    using assms by (auto simp: cp_wf_def runs_wf_def comp_def case_prod_unfold)
  have "cp_get cp i = (Ok (if i < length levels then Some (levels ! i) else None) :: ('e, _) outcome)" for i
  proof (cases "i < length levels")
    case True
    let ?k = "length (takeWhile (\<lambda>r. unat (fst r) \<le> i) cp)"
    have tw: "length (takeWhile (\<lambda>r. fst r \<le> 0 + i) ?rs) = ?k" by (simp add: takeWhile_map comp_def case_prod_unfold)
    have k: "?k < length cp" "levels ! i = snd (cp ! ?k)" using l(4) [OF True] unfolding tw by (auto simp: case_prod_unfold)
    have "(\<lambda>(cum, _). if cum = 0 then Panic else Ok (unat cum - 1 < i)) (cp ! j) = (Ok (j < ?k) :: ('e, _) outcome)" if "j < length cp" "0 < i" for j
      using takeWhile_count [OF sorted that(1), of i] pos [OF nth_mem [OF that(1)]] that(2)
      by (cases "cp ! j") (auto simp: unat_gt_0 Suc_le_eq)
    then have "0 < i \<Longrightarrow> partition_point (\<lambda>(cum, _). if cum = 0 then Panic else Ok (unat cum - 1 < i)) cp = (Ok ?k :: ('e, _) outcome)"
      using k(1) by (intro partition_point_finds) auto
    moreover have "i = 0 \<Longrightarrow> ?k = 0" using pos by (cases cp) auto
    ultimately show ?thesis using True k len by (cases "i = 0") (auto simp: cp_get_def)
  qed (use len in \<open>auto simp: cp_get_def\<close>)
  then show ?thesis using that [of levels] l(1,3) len by (simp add: expanded_iter_def rle_cumulative_def)
qed

lemma check_runs_wf: "check_runs cp = Ok () \<and> (cp = [] \<or> fst (hd cp) \<noteq> 0) \<longleftrightarrow> cp_wf cp"
proof -
  have "check_runs cp = Ok () \<longleftrightarrow> runs_wf prev (map (\<lambda>(cum, v). (unat cum, v)) cp)" if "cp = [] \<or> prev < unat (fst (hd cp))" for prev
    using that
  proof (induction cp arbitrary: prev rule: check_runs.induct)
    case (1 c p c' p' r)
    show ?case
    proof (cases "c' \<le> c \<or> p = p'")
      case True
      then show ?thesis by (auto simp: runs_wf_def word_le_nat_alt)
    next
      case False
      then have "unat c < unat c'" by (simp add: word_le_nat_alt)
      then show ?thesis using False 1 by (fastforce simp: runs_wf_def)
    qed
  qed (auto simp: runs_wf_def)
  note * = this [of 0, folded cp_wf_def]
  have "cp_wf cp \<Longrightarrow> cp = [] \<or> fst (hd cp) \<noteq> 0" by (cases cp) (auto simp: cp_wf_def runs_wf_def)
  then show ?thesis using * by (auto simp: unat_gt_0)
qed

lemma rle_bounded: "p \<in> set (rle_cumulative xs) \<Longrightarrow> fst p \<le> length xs"
proof -
  assume p: "p \<in> set (rle_cumulative xs)"
  obtain ys where ys: "expand_rle 0 (rle_cumulative xs) = (Ok ys :: (unit, _) outcome)"
      "length ys = (if rle_cumulative xs = [] then 0 else fst (last (rle_cumulative xs)) - 0)"
    by (rule expand_wf [OF rle_wf, where 'e = unit]) blast
  then have "length xs = fst (last (rle_cumulative xs))" using expand_rle_cumulative [of xs, where 'a = unit] p by auto
  moreover have "fst p \<le> fst (last (rle_cumulative xs))"
  proof -
    obtain j where j: "j < length (rle_cumulative xs)" "p = rle_cumulative xs ! j" using p by (metis in_set_conv_nth)
    have "sorted_wrt (<) (map fst (rle_cumulative xs))" using rle_wf [of xs] by (simp add: runs_wf_def)
    moreover have "last (rle_cumulative xs) = rle_cumulative xs ! (length (rle_cumulative xs) - 1)"
      using j(1) by (intro last_conv_nth) auto
    ultimately show ?thesis using j
      by (cases "j = length (rle_cumulative xs) - 1") (auto simp: sorted_wrt_iff_nth_less intro: less_imp_le)
  qed
  ultimately show ?thesis by simp
qed

lemma try_from_levels_wf:
  assumes "length levels \<le> 255"
  shows "\<exists>cp. try_from_levels levels = Ok cp \<and> cp_wf cp \<and> map (\<lambda>(cum, v). (unat cum, v)) cp = rle_cumulative levels"
proof -
  let ?cp = "map (\<lambda>(n, level). (of_nat n :: u8, level)) (rle_cumulative levels)"
  have "unat (of_nat (fst p) :: u8) = fst p" if "p \<in> set (rle_cumulative levels)" for p
    using rle_bounded [OF that] assms by (intro unat_of_nat_small) simp
  then have "map (\<lambda>(cum, v). (unat cum, v)) ?cp = rle_cumulative levels" by (auto intro!: map_idI)
  then show ?thesis using assms rle_wf [of levels] by (simp add: try_from_levels_def cp_wf_def)
qed

text \<open>Compressed parents are a lossless encoding. Every list of at most 255 levels is encoded in a form that passes the
  check for received runs, that expands to the list, and whose random access by binary search returns each level; a longer
  list is refused.\<close>

theorem compressed_parents_roundtrip:
  "if 255 < length levels then try_from_levels levels = Err LevelsExceeded
   else \<exists>cp. try_from_levels levels = Ok cp \<and> try_from_runs cp = Ok cp \<and> expanded_iter cp = (Ok levels :: ('e, _) outcome) \<and>
     expanded_len cp = length levels \<and>
     (\<forall>i. cp_get cp i = (Ok (if i < length levels then Some (levels ! i) else None) :: ('e, _) outcome))"
proof (cases "255 < length levels")
  case False
  then obtain cp where cp: "try_from_levels levels = Ok cp" "cp_wf cp" "map (\<lambda>(cum, v). (unat cum, v)) cp = rle_cumulative levels"
    using try_from_levels_wf [of levels] by auto
  obtain ls where ls: "expanded_iter cp = (Ok ls :: ('e, _) outcome)" "length ls = expanded_len cp"
      "\<And>i. cp_get cp i = (Ok (if i < length ls then Some (ls ! i) else None) :: ('e, _) outcome)"
    by (rule expanded_wf [OF cp(2), where 'e = 'e]) blast
  have "ls = levels" using ls(1) expand_rle_cumulative [of levels, where 'a = 'e] by (simp add: expanded_iter_def cp(3))
  moreover have "try_from_runs cp = Ok cp" using check_runs_wf [of cp] cp(2) by (simp add: try_from_runs_def)
  ultimately show ?thesis using False cp(1) ls by auto
qed (simp add: try_from_levels_def)

lemma expand_rle_snoc:
  "expand_rle p (xs @ [(c, v)]) = obind (expand_rle p xs :: ('e, _) outcome) (\<lambda>a.
     if c \<le> (if xs = [] then p else fst (last xs)) then Panic else Ok (a @ replicate (c - (if xs = [] then p else fst (last xs))) v))"
proof (induction p xs rule: expand_rle.induct)
  case (2 prev cum item r)
  then show ?case by (cases "r = []"; cases "expand_rle cum r :: ('e, _) outcome") (auto simp: obind_assoc)
qed simp

lemma runs_wf_snoc:
  "runs_wf p (xs @ [(c, v)]) \<longleftrightarrow> runs_wf p xs \<and> (if xs = [] then p else fst (last xs)) < c \<and> (xs = [] \<or> snd (last xs) \<noteq> v)"
proof (cases xs rule: rev_cases)
  case (snoc ys y)
  then show ?thesis by (auto simp: runs_wf_def sorted_wrt_append distinct_adj_append_iff)
qed (simp add: runs_wf_def)

lemma last_run_count:
  assumes "cp_wf cp" and "expanded_iter cp = (Ok levels :: ('e, _) outcome)"
  shows "length levels = expanded_len cp" "map (\<lambda>(cum, v). (unat cum, v)) cp = rle_cumulative levels"
proof -
  obtain ls where "expanded_iter cp = (Ok ls :: ('e, _) outcome)" "length ls = expanded_len cp"
      "rle_cumulative ls = map (\<lambda>(cum, v). (unat cum, v)) cp"
    by (rule expanded_wf [OF assms(1), where 'e = 'e]) blast
  then show "length levels = expanded_len cp" "map (\<lambda>(cum, v). (unat cum, v)) cp = rle_cumulative levels"
    using assms(2) by simp_all
qed

text \<open>Extending the last run by one level.\<close>

lemma extend_last_run:
  assumes "cp_wf (ys @ [(n, v)])" and "expanded_iter (ys @ [(n, v)]) = (Ok levels :: ('e, _) outcome)" and "unat (n + 1) = unat n + 1"
  shows "cp_wf (ys @ [(n + 1, v)])" "expanded_iter (ys @ [(n + 1, v)]) = (Ok (levels @ [v]) :: ('e, _) outcome)"
proof -
  let ?f = "\<lambda>(cum, v). (unat cum, v)" and ?q = "if ys = [] then 0 else unat (fst (last ys))"
  have lm: "fst (last (map ?f ys)) = unat (fst (last ys))" "snd (last (map ?f ys)) = snd (last ys)" if "ys \<noteq> []"
    using that by (simp_all add: last_map case_prod_unfold)
  have wf: "runs_wf 0 (map ?f ys)" "?q < unat n" "ys = [] \<or> snd (last ys) \<noteq> v"
    using assms(1) unfolding cp_wf_def by (auto simp: runs_wf_snoc lm)
  obtain a where a: "expand_rle 0 (map ?f ys) = (Ok a :: ('e, _) outcome)" "levels = a @ replicate (unat n - ?q) v"
    using assms(2) unfolding expanded_iter_def by (auto simp: expand_rle_snoc lm obind_eq_Ok split: if_splits)
  have "replicate (unat n + 1 - ?q) v = replicate (unat n - ?q) v @ [v]" using wf(2)
    by (simp add: Suc_diff_le replicate_append_same [symmetric])
  then show "expanded_iter (ys @ [(n + 1, v)]) = (Ok (levels @ [v]) :: ('e, _) outcome)"
    using wf(2) a(1) by (cases "ys = []") (auto simp: expanded_iter_def expand_rle_snoc lm a assms(3) replicate_append_same)
  show "cp_wf (ys @ [(n + 1, v)])" using wf by (auto simp: cp_wf_def runs_wf_snoc lm assms(3))
qed

lemma cp_push_levels:
  assumes "cp_wf cp" and "expanded_iter cp = (Ok levels :: ('e, _) outcome)"
  shows "if length levels < 255
    then \<exists>cp'. cp_push ps cp = (Ok cp' :: ('e, _) outcome) \<and> cp_wf cp' \<and> expanded_iter cp' = (Ok (levels @ [ps]) :: ('e, _) outcome)
    else cp_push ps cp = (Panic :: ('e, _) outcome)"
proof (cases cp rule: rev_cases)
  case Nil
  then show ?thesis using assms by (auto simp: cp_push_def cp_wf_def runs_wf_def expanded_iter_def)
next
  case (snoc ys y)
  obtain n v where y: "y = (n, v)" by force
  have len: "length levels = unat n" using last_run_count(1) [OF assms] by (simp add: expanded_len_def snoc y)
  show ?thesis
  proof (cases "unat n < 255")
    case True
    then have n: "checked_add n 1 = Some (n + 1)" "unat (n + 1) = unat n + 1" by (simp_all add: checked_add_def unat_word_ariths)
    show ?thesis
    proof (cases "v = ps")
      case same: True
      then show ?thesis using True len n(1) extend_last_run [OF assms [unfolded snoc y] n(2)] by (simp add: cp_push_def snoc y)
    next
      case False
      let ?cp = "cp @ [(n + 1, ps)]"
      have "cp_wf ?cp" using assms(1) False unfolding cp_wf_def map_append list.map case_prod_conv runs_wf_snoc by (simp add: snoc y n(2))
      moreover have "expanded_iter ?cp = (Ok (levels @ [ps]) :: ('e, _) outcome)"
        using assms(2) unfolding expanded_iter_def map_append list.map case_prod_conv expand_rle_snoc by (simp add: snoc y n(2))
      ultimately show ?thesis using True False len n(1) by (simp add: cp_push_def snoc y)
    qed
  next
    case False
    then have "checked_add n 1 = None" using unat_less_exp [of n] by (simp add: checked_add_def)
    then show ?thesis using False len by (simp add: cp_push_def snoc y)
  qed
qed

text \<open>C33: \<open>push\<close> keeps the encoding well formed and appends one level, until the 255 levels a \<open>u8\<close> counts are used
  up, where it panics.\<close>

theorem push_well_formed:
  assumes "cp_wf cp" and "expanded_iter cp = (Ok levels :: ('e, _) outcome)"
  shows "if length levels < 255
    then \<exists>cp'. cp_push ps cp = (Ok cp' :: ('e, _) outcome) \<and> cp_wf cp' \<and> expanded_iter cp' = (Ok (levels @ [ps]) :: ('e, _) outcome)
    else cp_push ps cp = (Panic :: ('e, _) outcome)"
  by (rule cp_push_levels [OF assms])

theorem push_well_formed_witness:
  "expanded_iter [(1, [Hash [1]]), (2, [])] = (Ok [[Hash [1]], []] :: (unit, _) outcome) \<and>
   (\<exists>cp'. cp_push [Hash [1]] [(1, [Hash [1]]), (2, [])] = (Ok cp' :: (unit, _) outcome) \<and> cp_wf cp' \<and>
      expanded_iter cp' = (Ok [[Hash [1]], [], [Hash [1]]] :: (unit, _) outcome))"
proof -
  have e: "expanded_iter [(1, [Hash [1]]), (2, [])] = (Ok [[Hash [1]], []] :: (unit, _) outcome)" by (simp add: expanded_iter_def)
  have "cp_wf [(1, [Hash [1]]), (2, [])]" by (simp add: cp_wf_def runs_wf_def)
  from push_well_formed [OF this e, of "[Hash [1]]"] e show ?thesis by simp
qed

section \<open>What the header hash commits to\<close>

definition header_wf :: "header \<Rightarrow> bool" where
  "header_wf h \<longleftrightarrow> cp_wf (parents_by_level h) \<and>
     (\<forall>(_, ps)\<in>set (parents_by_level h). length ps < 2 ^ 64 \<and> list_all hash_wf ps) \<and>
     length (mh_bytes (hash_merkle_root h)) = 48 \<and> length (mh_bytes (accepted_id_merkle_root h)) = 48 \<and>
     hash_wf (utxo_commitment h) \<and> hash_wf (hdr_pruning_point h)"

interpretation hash_code: prefix_code as_bytes hash_wf
  by unfold_locales (auto simp: hash_inject)

interpretation level_code: prefix_code "\<lambda>level. write_var_array (map as_bytes level)" "\<lambda>ps. length ps < 2 ^ 64 \<and> list_all hash_wf ps"
  by unfold_locales (auto simp: write_var_array_def write_len_inject hash_code.enc_list_inject)

lemma dropWhile_zeros_inject:
  "length xs = length ys \<Longrightarrow> dropWhile (\<lambda>b. b = 0) xs = dropWhile (\<lambda>b. b = 0) ys \<Longrightarrow> xs = ys" for xs ys :: bytes
proof -
  have z: "xs = replicate (length xs - length (dropWhile (\<lambda>b. b = 0) xs)) 0 @ dropWhile (\<lambda>b. b = 0) xs" for xs :: bytes
    by (induction xs) (auto simp: Suc_diff_le length_dropWhile_le)
  assume "length xs = length ys" "dropWhile (\<lambda>b. b = 0) xs = dropWhile (\<lambda>b. b = 0) ys"
  then show "xs = ys" using z [of xs] z [of ys] by simp
qed

lemma blue_work_inject: "write_blue_work a @ r = write_blue_work b @ s \<longleftrightarrow> a = b \<and> r = s"
proof -
  have "length (dropWhile (\<lambda>b. b = 0) (rev (to_le_bytes 24 w))) < 2 ^ 64" for w :: blue_work_type
    using length_dropWhile_le [of "\<lambda>b. b = 0" "rev (to_le_bytes 24 w)"] by simp
  then have "write_blue_work a @ r = write_blue_work b @ s \<longleftrightarrow>
      dropWhile (\<lambda>b. b = 0) (rev (to_le_bytes 24 a)) = dropWhile (\<lambda>b. b = 0) (rev (to_le_bytes 24 b)) \<and> r = s"
    unfolding write_blue_work_def blue_work_to_be_bytes_var_def by (intro var_bytes.enc_inject)
  then show ?thesis using dropWhile_zeros_inject [of "rev (to_le_bytes 24 a)" "rev (to_le_bytes 24 b)"] by (auto simp: to_le_bytes_eq)
qed

lemma merkle_inject:
  "length (mh_bytes a) = 48 \<Longrightarrow> length (mh_bytes b) = 48 \<Longrightarrow> mh_bytes a @ r = mh_bytes b @ s \<longleftrightarrow> a = b \<and> r = s"
  by (auto simp: append_eq_append_conv merkle_hash.expand)

lemma expanded_levels_wf:
  assumes "cp_wf cp" and "\<forall>(_, ps)\<in>set cp. P ps" and "expanded_iter cp = (Ok levels :: ('e, _) outcome)"
  shows "list_all P levels"
proof -
  have "list_all P levels" if "expand_rle p rs = (Ok levels :: ('e, _) outcome)" "\<forall>(_, ps)\<in>set rs. P ps" for p rs
    using that
  proof (induction p rs arbitrary: levels rule: expand_rle.induct)
    case (2 prev cum item r)
    then show ?case by (auto simp: obind_eq_Ok list_all_append list_all_iff split: if_splits)
  qed simp
  from this [of 0 "map (\<lambda>(cum, v). (unat cum, v)) cp"] show ?thesis
    using assms(2,3) by (simp add: expanded_iter_def case_prod_unfold)
qed

lemma expanded_len_less: "expanded_len cp < 256"
  using unat_less_exp [of "fst (last cp)"] by (simp add: expanded_len_def)

lemma header_bytes_inject:
  assumes "header_wf a" "header_wf b" and "header_bytes a n t = (Ok x :: ('e, _) outcome)" "header_bytes b n' t' = (Ok x :: ('e, _) outcome)"
  shows "n = n' \<and> t = t' \<and> a\<lparr>hdr_hash := i, hdr_nonce := n, hdr_timestamp := t\<rparr> = b\<lparr>hdr_hash := i, hdr_nonce := n', hdr_timestamp := t'\<rparr>"
proof -
  let ?P = "\<lambda>ps. length ps < 2 ^ 64 \<and> list_all hash_wf ps"
  obtain la lb where l: "expanded_iter (parents_by_level a) = (Ok la :: ('e, _) outcome)" "expanded_iter (parents_by_level b) = (Ok lb :: ('e, _) outcome)"
    using assms(3,4) by (auto simp: header_bytes_def obind_eq_Ok)
  have wf: "cp_wf (parents_by_level a)" "cp_wf (parents_by_level b)" using assms(1,2) by (simp_all add: header_wf_def)
  have legal: "list_all ?P la" "list_all ?P lb"
    using expanded_levels_wf [OF wf(1) _ l(1), of ?P] expanded_levels_wf [OF wf(2) _ l(2), of ?P] assms(1,2) by (simp_all add: header_wf_def)
  have len: "expanded_len (parents_by_level a) = length la" "expanded_len (parents_by_level b) = length lb" "length la < 2 ^ 64" "length lb < 2 ^ 64"
    using last_run_count(1) [OF wf(1) l(1)] last_run_count(1) [OF wf(2) l(2)] by (simp_all add: less_trans [OF expanded_len_less])
  have e: "hdr_version a = hdr_version b" "la = lb" "mh_bytes (hash_merkle_root a) = mh_bytes (hash_merkle_root b)"
      "mh_bytes (accepted_id_merkle_root a) = mh_bytes (accepted_id_merkle_root b)" "as_bytes (utxo_commitment a) = as_bytes (utxo_commitment b)" "t = t'" "hdr_bits a = hdr_bits b" "n = n'" "hdr_daa_score a = hdr_daa_score b"
      "hdr_blue_score a = hdr_blue_score b" "hdr_blue_work a = hdr_blue_work b" "as_bytes (hdr_pruning_point a) = as_bytes (hdr_pruning_point b)"
    using assms len legal l
    by (auto simp: header_bytes_def header_wf_def to_le_bytes_eq write_len_inject level_code.enc_list_inject merkle_inject hash_inject blue_work_inject)
  have "map (\<lambda>(cum, v). (unat cum, v)) (parents_by_level a) = map (\<lambda>(cum, v). (unat cum, v)) (parents_by_level b)"
    using last_run_count(2) [OF wf(1) l(1)] last_run_count(2) [OF wf(2) l(2)] e(2) by simp
  moreover have "inj (\<lambda>(cum :: u8, v :: hash list). (unat cum, v))" by (auto intro!: injI simp: word_unat_eq_iff)
  ultimately have "parents_by_level a = parents_by_level b" by (simp add: inj_map_eq_map)
  moreover have "utxo_commitment a = utxo_commitment b" "hdr_pruning_point a = hdr_pruning_point b"
      "hash_merkle_root a = hash_merkle_root b" "accepted_id_merkle_root a = accepted_id_merkle_root b"
    by (rule hash.expand [OF e(5)], rule hash.expand [OF e(12)], rule merkle_hash.expand [OF e(3)], rule merkle_hash.expand [OF e(4)])
  ultimately show ?thesis using e(1,6-11) by (intro conjI header.equality) simp_all
qed

text \<open>C32: the hash of a header commits to all of it. If the hash function does not collide on the encodings of two headers, they have one
  hash exactly when they agree on everything but the cached hash; in particular on the parents of every level.\<close>

theorem header_hash_commits:
  assumes "header_wf a" "header_wf b" and "header_bytes a (hdr_nonce a) (hdr_timestamp a) = (Ok x :: ('e, _) outcome)"
    and "header_bytes b (hdr_nonce b) (hdr_timestamp b) = (Ok y :: ('e, _) outcome)" and "inj_on H {x, y}"
  shows "header_hash H a = (header_hash H b :: ('e, _) outcome) \<longleftrightarrow> a\<lparr>hdr_hash := ZERO_HASH\<rparr> = b\<lparr>hdr_hash := ZERO_HASH\<rparr>"
proof
  have h: "header_hash H a = (Ok (H x) :: ('e, _) outcome)" "header_hash H b = (Ok (H y) :: ('e, _) outcome)"
    unfolding header_hash_def hash_override_nonce_time_def assms(3,4) by simp_all
  assume "header_hash H a = (header_hash H b :: ('e, _) outcome)"
  then have "x = y" using inj_onD [OF assms(5), of x y] unfolding h by simp
  then have "a\<lparr>hdr_hash := ZERO_HASH, hdr_nonce := hdr_nonce a, hdr_timestamp := hdr_timestamp a\<rparr> =
      b\<lparr>hdr_hash := ZERO_HASH, hdr_nonce := hdr_nonce b, hdr_timestamp := hdr_timestamp b\<rparr>"
    using header_bytes_inject [OF assms(1-3)] assms(4) by blast
  moreover have "h\<lparr>hdr_hash := ZERO_HASH, hdr_nonce := hdr_nonce h, hdr_timestamp := hdr_timestamp h\<rparr> = h\<lparr>hdr_hash := ZERO_HASH\<rparr>" for h
    by (rule header.equality) simp_all
  ultimately show "a\<lparr>hdr_hash := ZERO_HASH\<rparr> = b\<lparr>hdr_hash := ZERO_HASH\<rparr>" by metis
next
  assume e: "a\<lparr>hdr_hash := ZERO_HASH\<rparr> = b\<lparr>hdr_hash := ZERO_HASH\<rparr>"
  have f: "header_bytes h n t = (header_bytes (h\<lparr>hdr_hash := ZERO_HASH\<rparr>) n t :: ('e, _) outcome)" for h n t by (simp add: header_bytes_def)
  have "hdr_nonce a = hdr_nonce b" "hdr_timestamp a = hdr_timestamp b"
    using arg_cong [OF e, of hdr_nonce] arg_cong [OF e, of hdr_timestamp] by simp_all
  then show "header_hash H a = (header_hash H b :: ('e, _) outcome)"
    unfolding header_hash_def hash_override_nonce_time_def by (simp add: f [of a] f [of b] e del: header.update_convs)
qed

definition sample_header :: "u64 \<Rightarrow> header" where
  "sample_header n = \<lparr>hdr_hash = ZERO_HASH, hdr_version = 1, parents_by_level = [(2, [ZERO_HASH])], hash_merkle_root = ZERO_MERKLE_HASH,
      accepted_id_merkle_root = ZERO_MERKLE_HASH, utxo_commitment = ZERO_HASH, hdr_timestamp = 0, hdr_bits = 0, hdr_nonce = n,
      hdr_daa_score = 0, hdr_blue_work = 0, hdr_blue_score = 0, hdr_pruning_point = ZERO_HASH\<rparr>"

lemma sample_header_bytes: "\<exists>x. header_bytes (sample_header n) n t = (Ok x :: ('e, _) outcome)"
  by (simp add: header_bytes_def sample_header_def expanded_iter_def)

lemma sample_header_wf: "header_wf (sample_header n)"
  by (simp add: header_wf_def sample_header_def cp_wf_def ZERO_HASH_def ZERO_MERKLE_HASH_def MERKLE_HASH_SIZE_def HASH_SIZE_def hash_wf_def runs_wf_def)

theorem header_hash_commits_witness:
  "header_hash Hash (sample_header 4) \<noteq> (header_hash Hash (sample_header 5) :: (unit, _) outcome)"
proof -
  obtain x y where h: "header_bytes (sample_header 4) 4 0 = (Ok x :: (unit, _) outcome)" "header_bytes (sample_header 5) 5 0 = (Ok y :: (unit, _) outcome)"
    using sample_header_bytes by blast
  show ?thesis
    using header_hash_commits [OF sample_header_wf sample_header_wf, of 4 x 5 y Hash] h by (simp add: sample_header_def inj_on_def)
qed

end
