(* ===== verification/Header_Wire.thy ===== *)
theory Header_Wire
  imports Header
begin

text \<open>
  Headers on the wire: src/protocol/p2p/src/convert/header.rs, hash.rs, option.rs and error.rs. The messages of the protocol have the fields
  of p2p.proto; \<open>i64\<close> is an integer in range.
\<close>

datatype conversion_error = General | NoneValue | IllegalIPLength nat | ArrayBytesSizeError | UintBytesSizeError | IntCastingError
  | AddressParsingError | IdentityError | SubnetParsingError | CompressedParentsError compressed_parents_error

datatype header_format = Legacy | Compressed

definition header_format_from :: "u32 \<Rightarrow> header_format" where
  "header_format_from version = (if 9 \<le> version then Compressed else Legacy)"

record block_level_parents =
  parent_hashes :: "bytes list"
  cumulative_level :: u32

record block_header_message =
  bh_version :: u32
  bh_parents :: "block_level_parents list"
  bh_hash_merkle_root :: "bytes option"
  bh_accepted_id_merkle_root :: "bytes option"
  bh_utxo_commitment :: "bytes option"
  bh_timestamp :: int
  bh_bits :: u32
  bh_nonce :: u64
  bh_daa_score :: u64
  bh_blue_work :: bytes
  bh_pruning_point :: "bytes option"
  bh_blue_score :: u64

section \<open>To the wire\<close>

definition level_to_wire :: "hash list \<Rightarrow> block_level_parents" where
  "level_to_wire hashes = \<lparr>parent_hashes = map as_bytes hashes, cumulative_level = 0\<rparr>"

definition run_to_wire :: "u8 \<times> hash list \<Rightarrow> block_level_parents" where
  "run_to_wire = (\<lambda>(cum, hashes). \<lparr>parent_hashes = map as_bytes hashes, cumulative_level = ucast cum\<rparr>)"

definition header_to_wire :: "header_format \<Rightarrow> header \<Rightarrow> ('e, block_header_message) outcome" where
  "header_to_wire header_type item =
     obind (case header_type of
         Legacy \<Rightarrow> obind (expanded_iter (parents_by_level item)) (\<lambda>levels. Ok (map level_to_wire levels))
       | Compressed \<Rightarrow> Ok (map run_to_wire (parents_by_level item))) (\<lambda>parents.
     if 2 ^ 63 \<le> unat (hdr_timestamp item) then Panic
     else Ok \<lparr>bh_version = ucast (hdr_version item), bh_parents = parents,
       bh_hash_merkle_root = Some (mh_bytes (hash_merkle_root item)),
       bh_accepted_id_merkle_root = Some (mh_bytes (accepted_id_merkle_root item)),
       bh_utxo_commitment = Some (as_bytes (utxo_commitment item)), bh_timestamp = int (unat (hdr_timestamp item)),
       bh_bits = hdr_bits item, bh_nonce = hdr_nonce item, bh_daa_score = hdr_daa_score item,
       bh_blue_work = blue_work_to_be_bytes_var (hdr_blue_work item), bh_pruning_point = Some (as_bytes (hdr_pruning_point item)),
       bh_blue_score = hdr_blue_score item\<rparr>)"

section \<open>From the wire\<close>

definition hash_from_wire :: "bytes \<Rightarrow> (conversion_error, hash) outcome" where
  "hash_from_wire b = (if length b = HASH_SIZE then Ok (Hash b) else Err ArrayBytesSizeError)"

definition merkle_hash_from_wire :: "bytes \<Rightarrow> (conversion_error, merkle_hash) outcome" where
  "merkle_hash_from_wire b = (if length b = MERKLE_HASH_SIZE then Ok (MerkleHash b) else Err General)"

definition try_from_ex :: "('a \<Rightarrow> (conversion_error, 'b) outcome) \<Rightarrow> 'a option \<Rightarrow> (conversion_error, 'b) outcome" where
  "try_from_ex convert v = (case v of Some inner \<Rightarrow> convert inner | None \<Rightarrow> Err NoneValue)"

definition run_from_wire :: "block_level_parents \<Rightarrow> (conversion_error, u8 \<times> hash list) outcome" where
  "run_from_wire p =
     then_do (ensure (unat (cumulative_level p) < 256) IntCastingError)
     (obind (omap hash_from_wire (parent_hashes p)) (\<lambda>parents. Ok (ucast (cumulative_level p), parents)))"

definition level_from_wire :: "block_level_parents \<Rightarrow> (conversion_error, hash list) outcome" where
  "level_from_wire p = omap hash_from_wire (parent_hashes p)"

definition parents_from_wire :: "header_format \<Rightarrow> block_level_parents list \<Rightarrow> (conversion_error, compressed_parents) outcome" where
  "parents_from_wire header_format parents =
     (case header_format of
        Compressed \<Rightarrow> obind (omap run_from_wire parents) (\<lambda>runs. map_err CompressedParentsError (try_from_runs runs))
      | Legacy \<Rightarrow> obind (omap level_from_wire parents) (\<lambda>levels. map_err CompressedParentsError (try_from_levels levels)))"

definition blue_work_from_be_bytes_var :: "bytes \<Rightarrow> (conversion_error, blue_work_type) outcome" where
  "blue_work_from_be_bytes_var b =
     (if 24 < length b then Err UintBytesSizeError else Ok (from_le_bytes (rev (replicate (24 - length b) 0 @ b))))"

definition header_from_wire :: "(bytes \<Rightarrow> hash) \<Rightarrow> header_format \<Rightarrow> block_header_message \<Rightarrow> (conversion_error, header) outcome" where
  "header_from_wire H header_format item =
     obind (parents_from_wire header_format (bh_parents item)) (\<lambda>parents.
     then_do (ensure (unat (bh_version item) < 2 ^ 16) IntCastingError)
     (obind (try_from_ex merkle_hash_from_wire (bh_hash_merkle_root item)) (\<lambda>hash_root.
     obind (try_from_ex merkle_hash_from_wire (bh_accepted_id_merkle_root item)) (\<lambda>accepted_root.
     obind (try_from_ex hash_from_wire (bh_utxo_commitment item)) (\<lambda>commitment.
     then_do (ensure (0 \<le> bh_timestamp item) IntCastingError)
     (obind (blue_work_from_be_bytes_var (bh_blue_work item)) (\<lambda>work.
     obind (try_from_ex hash_from_wire (bh_pruning_point item)) (\<lambda>pruning_point.
     finalize_header H \<lparr>hdr_hash = ZERO_HASH, hdr_version = ucast (bh_version item), parents_by_level = parents, hash_merkle_root = hash_root,
       accepted_id_merkle_root = accepted_root, utxo_commitment = commitment, hdr_timestamp = of_int (bh_timestamp item),
       hdr_bits = bh_bits item, hdr_nonce = bh_nonce item, hdr_daa_score = bh_daa_score item, hdr_blue_work = work,
       hdr_blue_score = bh_blue_score item, hdr_pruning_point = pruning_point\<rparr>))))))))"

section \<open>Round trips\<close>

lemma blue_work_roundtrip: "blue_work_from_be_bytes_var (blue_work_to_be_bytes_var w) = Ok w"
proof -
  let ?b = "rev (to_le_bytes 24 w)" and ?d = "blue_work_to_be_bytes_var w"
  have "length (takeWhile (\<lambda>b. b = 0) ?b) + length ?d = 24"
    using arg_cong [OF takeWhile_dropWhile_id [of "\<lambda>b. b = 0" ?b], of length] by (simp add: blue_work_to_be_bytes_var_def del: takeWhile_dropWhile_id)
  then have "takeWhile (\<lambda>b. b = 0) ?b = replicate (24 - length ?d) 0"
    by (intro replicate_eqI) (auto dest: set_takeWhileD)
  then have "replicate (24 - length ?d) 0 @ ?d = ?b"
    using takeWhile_dropWhile_id [of "\<lambda>b. b = 0" ?b] by (simp add: blue_work_to_be_bytes_var_def)
  moreover have "length ?d \<le> 24" using length_dropWhile_le [of "\<lambda>b. b = 0" ?b] by (simp add: blue_work_to_be_bytes_var_def)
  ultimately show ?thesis by (simp add: blue_work_from_be_bytes_var_def)
qed

lemma hashes_roundtrip: "list_all hash_wf hs \<Longrightarrow> omap hash_from_wire (map as_bytes hs) = Ok hs"
  by (induction hs) (simp_all add: hash_from_wire_def hash_wf_def)

lemma ucast_up_down:
  assumes "LENGTH('a) \<le> LENGTH('b)"
  shows "ucast (ucast (w :: 'a::len word) :: 'b::len word) = w"
  using assms by (intro bit_word_eqI) (auto simp: bit_ucast_iff)

lemma runs_roundtrip:
  "\<forall>(_, ps)\<in>set cp. list_all hash_wf ps \<Longrightarrow> omap run_from_wire (map run_to_wire cp) = Ok cp"
proof (induction cp)
  case (Cons r cp)
  have "unat (ucast c :: u32) < 256" "ucast (ucast c :: u32) = c" for c :: u8
    using unat_less_exp [of c] by (simp_all add: unat_ucast_up ucast_up_down)
  then show ?case using Cons by (cases r) (simp add: run_from_wire_def run_to_wire_def hashes_roundtrip)
qed simp

lemma levels_roundtrip: "list_all (list_all hash_wf) levels \<Longrightarrow> omap level_from_wire (map level_to_wire levels) = Ok levels"
  by (induction levels) (simp_all add: level_from_wire_def level_to_wire_def hashes_roundtrip)

lemma parents_roundtrip:
  assumes "cp_wf cp" and "\<forall>(_, ps)\<in>set cp. list_all hash_wf ps"
  shows "parents_from_wire Compressed (map run_to_wire cp) = Ok cp"
    and "\<exists>levels. expanded_iter cp = (Ok levels :: ('e, _) outcome) \<and> parents_from_wire Legacy (map level_to_wire levels) = Ok cp"
proof -
  show "parents_from_wire Compressed (map run_to_wire cp) = Ok cp"
    using runs_roundtrip [OF assms(2)] check_runs_wf [of cp] assms(1) by (simp add: parents_from_wire_def try_from_runs_def)
  obtain levels where l: "expanded_iter cp = (Ok levels :: ('e, _) outcome)" "length levels = expanded_len cp"
      "rle_cumulative levels = map (\<lambda>(cum, v). (unat cum, v)) cp"
    by (rule expanded_wf [OF assms(1), where 'e = 'e]) blast
  have "list_all (list_all hash_wf) levels" by (rule expanded_levels_wf [OF assms(1,2) l(1)])
  moreover have "map ((\<lambda>(n, level). (of_nat n, level)) \<circ> (\<lambda>(cum, v). (unat cum, v))) cp = cp" by (induction cp) auto
  then have "try_from_levels levels = Ok cp"
    using l(2) expanded_len_less [of cp] by (simp add: try_from_levels_def l(3))
  ultimately show "\<exists>levels. expanded_iter cp = (Ok levels :: ('e, _) outcome) \<and> parents_from_wire Legacy (map level_to_wire levels) = Ok cp"
    using l(1) by (simp add: parents_from_wire_def levels_roundtrip)
qed

text \<open>C34: a header survives the wire. A well-formed header whose time fits 63 bits and whose hash is cached converts to a message, in the
  old and in the compressed format, and the message converts back to the same header, hash included.\<close>

theorem header_wire_roundtrip:
  assumes "header_wf h" and "unat (hdr_timestamp h) < 2 ^ 63" and "header_hash H h = (Ok (hdr_hash h) :: (conversion_error, _) outcome)"
  shows "\<exists>w. header_to_wire f h = (Ok w :: ('e, _) outcome) \<and> header_from_wire H f w = Ok h"
proof -
  have wf: "cp_wf (parents_by_level h)" "\<forall>(_, ps)\<in>set (parents_by_level h). list_all hash_wf ps" using assms(1) by (auto simp: header_wf_def)
  obtain ps where ps: "(case f of
         Legacy \<Rightarrow> obind (expanded_iter (parents_by_level h)) (\<lambda>levels. Ok (map level_to_wire levels))
       | Compressed \<Rightarrow> Ok (map run_to_wire (parents_by_level h))) = (Ok ps :: ('e, _) outcome)" "parents_from_wire f ps = Ok (parents_by_level h)"
    using parents_roundtrip(1) [OF wf] parents_roundtrip(2) [OF wf, where 'e = 'e] by (cases f) auto
  have v: "unat (ucast (hdr_version h) :: u32) < 2 ^ 16" "ucast (ucast (hdr_version h) :: u32) = hdr_version h"
    using unat_less_exp [of "hdr_version h"] by (simp_all add: unat_ucast_up ucast_up_down)
  have "header_hash H (h\<lparr>hdr_hash := ZERO_HASH\<rparr>) = (header_hash H h :: (conversion_error, _) outcome)"
    by (simp add: header_hash_def hash_override_nonce_time_def header_bytes_def)
  then have "finalize_header H (h\<lparr>hdr_hash := ZERO_HASH\<rparr>) = (Ok h :: (conversion_error, _) outcome)" using assms(3) by (simp add: finalize_header_def)
  moreover have "h\<lparr>hdr_hash := ZERO_HASH\<rparr> = \<lparr>hdr_hash = ZERO_HASH, hdr_version = hdr_version h, parents_by_level = parents_by_level h,
      hash_merkle_root = hash_merkle_root h, accepted_id_merkle_root = accepted_id_merkle_root h, utxo_commitment = utxo_commitment h,
      hdr_timestamp = hdr_timestamp h, hdr_bits = hdr_bits h, hdr_nonce = hdr_nonce h, hdr_daa_score = hdr_daa_score h,
      hdr_blue_work = hdr_blue_work h, hdr_blue_score = hdr_blue_score h, hdr_pruning_point = hdr_pruning_point h\<rparr>"
    by (rule header.equality) simp_all
  ultimately show ?thesis using assms(1,2) v
    by (simp add: header_to_wire_def ps header_from_wire_def try_from_ex_def merkle_hash_from_wire_def hash_from_wire_def blue_work_roundtrip
        header_wf_def hash_wf_def MERKLE_HASH_SIZE_def)
qed

text \<open>C35: a received header whose first run of parents has the count zero passes the check of the runs, and computing its hash panics, since
  the iterator that expands the runs expects counts that increase from zero. No field of the message has to be
  out of range for this.\<close>

theorem zero_run_panics:
  assumes "omap run_from_wire (bh_parents w) = Ok ((0, parents) # rest)" and "check_runs ((0, parents) # rest) = Ok ()"
    and "unat (bh_version w) < 2 ^ 16" "0 \<le> bh_timestamp w" "length (bh_blue_work w) \<le> 24"
    and "bh_hash_merkle_root w = Some b1" "bh_accepted_id_merkle_root w = Some b2" "length b1 = 48" "length b2 = 48"
    and "bh_utxo_commitment w = Some b3" "bh_pruning_point w = Some b4" "length b3 = 32" "length b4 = 32"
  shows "header_from_wire H Compressed w = Panic"
  using assms by (simp add: header_from_wire_def parents_from_wire_def try_from_runs_def try_from_ex_def merkle_hash_from_wire_def
      hash_from_wire_def blue_work_from_be_bytes_var_def HASH_SIZE_def MERKLE_HASH_SIZE_def finalize_header_def header_hash_def
      hash_override_nonce_time_def header_bytes_def expanded_iter_def)

theorem zero_run_panics_witness:
  "header_from_wire Hash Compressed
     \<lparr>bh_version = 1, bh_parents = [\<lparr>parent_hashes = [], cumulative_level = 0\<rparr>, \<lparr>parent_hashes = [replicate 32 7], cumulative_level = 1\<rparr>],
      bh_hash_merkle_root = Some (replicate 48 0), bh_accepted_id_merkle_root = Some (replicate 48 0),
      bh_utxo_commitment = Some (replicate 32 0), bh_timestamp = 0, bh_bits = 0, bh_nonce = 0, bh_daa_score = 0,
      bh_blue_work = [], bh_pruning_point = Some (replicate 32 0), bh_blue_score = 0\<rparr> = Panic"
  by (rule zero_run_panics [of _ "[]" "[(1, [Hash (replicate 32 7)])]" "replicate 48 0" "replicate 48 0" "replicate 32 0" "replicate 32 0"])
    (simp_all add: run_from_wire_def hash_from_wire_def HASH_SIZE_def)

theorem header_wire_roundtrip_witness:
  "\<exists>w. header_to_wire Compressed (sample_header 4) = (Ok w :: (unit, _) outcome) \<and>
     header_from_wire (\<lambda>_. ZERO_HASH) Compressed w = Ok (sample_header 4)"
proof -
  obtain x where "header_bytes (sample_header 4) 4 0 = (Ok x :: (conversion_error, _) outcome)" using sample_header_bytes by blast
  then have "header_hash (\<lambda>_. ZERO_HASH) (sample_header 4) = (Ok (hdr_hash (sample_header 4)) :: (conversion_error, _) outcome)"
    by (simp add: header_hash_def hash_override_nonce_time_def) (simp add: sample_header_def)
  then show ?thesis by (intro header_wire_roundtrip sample_header_wf) (simp add: sample_header_def)
qed

end
