(* ===== verification/Rule_Error.thy ===== *)
theory Rule_Error
  imports Tx_Rules Coinbase Header
begin

text \<open>
  The errors of block validation (src/consensus/core/src/errors/block.rs), the status of a block
  (src/consensus/core/src/blockstatus.rs) and the block itself (src/consensus/core/src/block.rs).
\<close>

datatype chain_work_floor = HardcodedMinimum | PersistedMaxSeen

datatype (plugins only: size) rule_error =
    WrongBlockVersion u16 | TimeTooFarIntoTheFuture u64 u64 | NoParents | TooManyParents nat nat | OriginParent
  | InvalidParentsRelation hash hash | InvalidParent hash | MissingParents "hash list" | PruningViolation hash
  | UnexpectedHeaderDaaScore u64 u64 | UnexpectedHeaderBlueScore u64 u64 | UnexpectedHeaderBlueWork blue_work_type blue_work_type
  | UnexpectedDifficulty hash u32 u32 | TimeTooOld u64 u64 | KnownInvalid | MergeSetTooBig u64 u64 | ViolatingBoundedMergeDepth
  | BadMerkleRoot merkle_hash merkle_hash | NoTransactions | FirstTxNotCoinbase | MultipleCoinbases nat
  | BadCoinbasePayload coinbase_error | BadCoinbasePayloadBlueScore u64 u64
  | TxInIsolationValidationFailed transaction_id tx_rule_error | ExceedsComputeMassLimit u64 u64
  | ExceedsTransientMassLimit u64 u64 | ExceedsStorageMassLimit u64 u64 | DoubleSpendInSameBlock transaction_outpoint
  | ChainedTransaction transaction_outpoint | TxInContextFailed transaction_id tx_rule_error
  | TooManyAltCreationsInBlock nat nat | WrongSubsidy u64 u64 | DuplicateTransactions transaction_id | InvalidPoW
  | DaaScoreOutOfPlausibleRange u64 u64 u64 | WrongHeaderPruningPoint hash hash
  | UnexpectedIndirectParents "hash list list" "hash list list" | BadUTXOCommitment hash hash hash
  | BadAcceptedIDMerkleRoot hash merkle_hash merkle_hash | BadCoinbaseTransaction | InvalidTransactionsInUtxoContext nat nat
  | InvalidTransactionsInNewBlock "(transaction_id \<times> tx_rule_error) list" | InsufficientDaaWindowSize nat | PrunedBlock
  | InsufficientChainWork blue_work_type blue_work_type chain_work_floor

type_synonym 'a block_process_result = "(rule_error, 'a) outcome"

datatype block_status = StatusInvalid | StatusUTXOValid | StatusUTXOPendingVerification | StatusDisqualifiedFromChain | StatusHeaderOnly

definition has_block_body :: "block_status \<Rightarrow> bool" where
  "has_block_body s \<longleftrightarrow> s \<in> {StatusUTXOValid, StatusUTXOPendingVerification, StatusDisqualifiedFromChain}"

definition has_block_header :: "block_status \<Rightarrow> bool" where
  "has_block_header s \<longleftrightarrow> s \<in> {StatusHeaderOnly, StatusUTXOValid, StatusUTXOPendingVerification, StatusDisqualifiedFromChain}"

record block =
  block_header :: header
  block_transactions :: "transaction list"

definition is_header_only :: "block \<Rightarrow> bool" where
  "is_header_only b \<longleftrightarrow> block_transactions b = []"

end
