(* ===== verification/Mass_Bounds.thy ===== *)
theory Mass_Bounds
  imports Mass
begin

text \<open>
  The non-contextual masses of src/consensus/core/src/mass/mod.rs are computed with plain additions and multiplications, which panic on overflow. They
  do not for transactions of less than two to the power 40 bytes, with rates of at most two to the power 16.
\<close>

definition input_size :: "transaction_input \<Rightarrow> nat" where
  "input_size i = 52 + length (signature_script i)"

definition output_size :: "transaction_output \<Rightarrow> nat" where
  "output_size out = 18 + length (spk_script (out_spk out))"

definition serialized_size :: "transaction \<Rightarrow> nat" where
  "serialized_size tx = 94 + (\<Sum>i\<leftarrow>tx_inputs tx. input_size i) + (\<Sum>out\<leftarrow>tx_outputs tx. output_size out) + length (tx_payload tx)"

text \<open>A list of sizes that fit, and their sum.\<close>

lemma sizes_exact_sum:
  assumes "\<And>x. x \<in> set xs \<Longrightarrow> size' x < 2 ^ 64 \<Longrightarrow> \<exists>s. f x = (Ok s :: ('e, u64) outcome) \<and> unat s = size' x"
    and "(\<Sum>x\<leftarrow>xs. size' x) < 2 ^ 64"
  shows "\<exists>ss s. omap f xs = Ok ss \<and> osum id ss = (Ok s :: ('e, u64) outcome) \<and> unat s = (\<Sum>x\<leftarrow>xs. size' x)"
proof -
  have "\<exists>ss. omap f xs = Ok ss \<and> map unat ss = map size' xs" using assms
  proof (induction xs)
    case (Cons x xs)
    have "size' x < 2 ^ 64" using Cons.prems(2) by simp
    then obtain s where "f x = Ok s" "unat s = size' x" using Cons.prems(1) [of x] by auto
    moreover obtain ss where "omap f xs = Ok ss" "map unat ss = map size' xs" using Cons by auto
    ultimately show ?case by simp
  qed simp
  then obtain ss where ss: "omap f xs = Ok ss" "map unat ss = map size' xs" by blast
  then have "(\<Sum>x\<leftarrow>ss. unat (id x)) < 2 ^ 64" using assms(2) by simp
  then obtain s where "osum id ss = (Ok s :: ('e, u64) outcome)" "unat s = (\<Sum>x\<leftarrow>ss. unat (id x))" by (rule osum_Ok)
  then show ?thesis using ss by auto
qed

lemma input_size_exact:
  assumes "input_size i < 2 ^ 64"
  shows "\<exists>s. transaction_input_estimated_serialized_size i = (Ok s :: ('e, u64) outcome) \<and> unat s = input_size i"
proof -
  have l: "unat (of_nat (length (signature_script i)) :: u64) = length (signature_script i)"
    by (rule unat_of_nat_small) (use assms in \<open>simp add: input_size_def\<close>)
  have "returns (\<lambda>s. unat s = input_size i) (transaction_input_estimated_serialized_size i :: ('e, u64) outcome)"
    using assms l by (simp add: transaction_input_estimated_serialized_size_def returns_simps outpoint_estimated_serialized_size_def HASH_SIZE_def input_size_def)
  then show ?thesis by (auto simp: returns_def)
qed

lemma output_size_exact:
  assumes "output_size out < 2 ^ 64"
  shows "\<exists>s. transaction_output_estimated_serialized_size out = (Ok s :: ('e, u64) outcome) \<and> unat s = output_size out"
proof -
  have l: "unat (of_nat (length (spk_script (out_spk out))) :: u64) = length (spk_script (out_spk out))"
    by (rule unat_of_nat_small) (use assms in \<open>simp add: output_size_def\<close>)
  have "returns (\<lambda>s. unat s = output_size out) (transaction_output_estimated_serialized_size out :: ('e, u64) outcome)"
    using assms l by (simp add: transaction_output_estimated_serialized_size_def returns_simps output_size_def)
  then show ?thesis by (auto simp: returns_def)
qed

lemma estimated_size_exact:
  assumes "serialized_size tx < 2 ^ 64"
  shows "\<exists>s. transaction_estimated_serialized_size tx = (Ok s :: ('e, u64) outcome) \<and> unat s = serialized_size tx"
proof -
  have l: "unat (of_nat (length (tx_payload tx)) :: u64) = length (tx_payload tx)"
    by (rule unat_of_nat_small) (use assms in \<open>simp add: serialized_size_def\<close>)
  obtain ins si where i: "omap transaction_input_estimated_serialized_size (tx_inputs tx) = (Ok ins :: ('e, _) outcome)"
      "osum id ins = (Ok si :: ('e, u64) outcome)" "unat si = (\<Sum>i\<leftarrow>tx_inputs tx. input_size i)"
    using sizes_exact_sum [of "tx_inputs tx" input_size "transaction_input_estimated_serialized_size :: _ \<Rightarrow> ('e, u64) outcome"] input_size_exact [where 'e = 'e] assms
    by (auto simp: serialized_size_def)
  obtain outs so where o: "omap transaction_output_estimated_serialized_size (tx_outputs tx) = (Ok outs :: ('e, _) outcome)"
      "osum id outs = (Ok so :: ('e, u64) outcome)" "unat so = (\<Sum>out\<leftarrow>tx_outputs tx. output_size out)"
    using sizes_exact_sum [of "tx_outputs tx" output_size "transaction_output_estimated_serialized_size :: _ \<Rightarrow> ('e, u64) outcome"] output_size_exact [where 'e = 'e] assms
    by (auto simp: serialized_size_def)
  have "returns (\<lambda>s. unat s = serialized_size tx) (transaction_estimated_serialized_size tx :: ('e, u64) outcome)"
    using assms l i o by (simp add: transaction_estimated_serialized_size_def returns_simps serialized_size_def SUBNETWORK_ID_SIZE_def HASH_SIZE_def)
  then show ?thesis by (auto simp: returns_def)
qed

definition alt_mass :: "(bytes \<Rightarrow> bytes) \<Rightarrow> transaction_output \<Rightarrow> nat" where
  "alt_mass sha3 out = 100000 + (case parse_alt_creation_header sha3 (spk_script (out_spk out)) of
     Ok _ \<Rightarrow> length (spk_script (out_spk out)) - 22 | _ \<Rightarrow> 0)"

lemma alt_mass_exact:
  assumes "output_size out < 2 ^ 40"
  shows "\<exists>s. alt_creation_mass sha3 out = (Ok s :: ('e, u64) outcome) \<and> unat s = alt_mass sha3 out"
proof -
  have l: "unat (of_nat (length (spk_script (out_spk out)) - 22) :: u64) = length (spk_script (out_spk out)) - 22"
    by (rule unat_of_nat_small) (use assms in \<open>simp add: output_size_def\<close>)
  have "length (spk_script (out_spk out)) - 22 < 18446744073709451616"
    by (rule le_less_trans [OF diff_le_self]) (use assms in \<open>simp add: output_size_def\<close>)
  then have "returns (\<lambda>s. unat s = alt_mass sha3 out) (alt_creation_mass sha3 out :: ('e, u64) outcome)"
    using assms l by (simp add: alt_creation_mass_def returns_simps Let_def ALT_HEADER_LEN_def BASE_ALT_CREATION_MASS_def
      ALT_STORAGE_MASS_FACTOR_def alt_mass_def output_size_def unat_saturating_mul split: outcome.splits)
  then show ?thesis by (auto simp: returns_def)
qed

lemma sum_list_scaled: "(\<And>x. x \<in> set xs \<Longrightarrow> f x \<le> c * g x) \<Longrightarrow> sum_list (map f xs) \<le> c * sum_list (map g xs)" for c :: nat
proof (induction xs)
  case (Cons x xs)
  have "f x \<le> c * g x" "sum_list (map f xs) \<le> c * sum_list (map g xs)" using Cons by auto
  then show ?case by (simp add: distrib_left)
qed simp

lemma sum_list_filter_le: "sum_list (map f (filter P xs)) \<le> sum_list (map f xs)" for f :: "_ \<Rightarrow> nat"
  by (induction xs) auto

lemma member_size: "x \<in> set xs \<Longrightarrow> f x \<le> sum_list (map f xs)" for f :: "_ \<Rightarrow> nat"
  by (induction xs) auto

text \<open>The rates of the calculator, and the sums they are applied to.\<close>

definition rates_bounded :: "mass_calculator \<Rightarrow> bool" where
  "rates_bounded c \<longleftrightarrow> unat (mass_per_tx_byte c) \<le> 2 ^ 16 \<and> unat (mass_per_script_pub_key_byte c) \<le> 2 ^ 16 \<and> unat (mass_per_sig_op c) \<le> 2 ^ 16"

lemma alt_masses_exact:
  assumes "serialized_size tx < 2 ^ 40"
  shows "\<exists>as a. omap (alt_creation_mass sha3) (filter P (tx_outputs tx)) = (Ok as :: ('e, _) outcome) \<and> osum id as = (Ok a :: ('e, u64) outcome) \<and>
    unat a \<le> 2 ^ 57"
proof -
  have out: "output_size out < 2 ^ 40" if "out \<in> set (tx_outputs tx)" for out
    using member_size [OF that, of output_size] assms by (simp add: serialized_size_def)
  have "alt_mass sha3 out \<le> 2 ^ 17 * output_size out" for out
    by (auto simp: alt_mass_def output_size_def split: outcome.splits)
  then have "(\<Sum>out\<leftarrow>filter P (tx_outputs tx). alt_mass sha3 out) \<le> 2 ^ 17 * (\<Sum>out\<leftarrow>filter P (tx_outputs tx). output_size out)"
    by (intro sum_list_scaled) simp
  also have "\<dots> \<le> 2 ^ 17 * 2 ^ 40"
    using sum_list_filter_le [of output_size P "tx_outputs tx"] assms by (intro mult_le_mono2) (simp add: serialized_size_def)
  finally have b: "(\<Sum>out\<leftarrow>filter P (tx_outputs tx). alt_mass sha3 out) \<le> 2 ^ 57" by simp
  have "\<exists>as a. omap (alt_creation_mass sha3) (filter P (tx_outputs tx)) = (Ok as :: ('e, _) outcome) \<and> osum id as = (Ok a :: ('e, u64) outcome) \<and>
      unat a = (\<Sum>out\<leftarrow>filter P (tx_outputs tx). alt_mass sha3 out)"
    using alt_mass_exact [of _ sha3, where 'e = 'e] out b
    by (intro sizes_exact_sum) auto
  then show ?thesis using b by metis
qed

lemma script_sizes_exact:
  assumes "serialized_size tx < 2 ^ 40"
  obtains s where "osum (\<lambda>out. 2 + of_nat (length (spk_script (out_spk out)))) (tx_outputs tx) = (Ok s :: ('e, _) outcome)" "unat s < 2 ^ 40"
proof -
  have u: "unat (2 + of_nat (length (spk_script (out_spk out))) :: u64) \<le> 1 * output_size out" if "out \<in> set (tx_outputs tx)" for out
  proof -
    have "output_size out < 2 ^ 40" using member_size [OF that, of output_size] assms by (simp add: serialized_size_def)
    then have "unat (of_nat (length (spk_script (out_spk out))) :: u64) = length (spk_script (out_spk out))"
      by (intro unat_of_nat_small) (simp add: output_size_def)
    then show ?thesis using \<open>output_size out < 2 ^ 40\<close> by (simp add: unat_word_ariths output_size_def)
  qed
  have "(\<Sum>out\<leftarrow>tx_outputs tx. unat (2 + of_nat (length (spk_script (out_spk out))) :: u64)) \<le> 1 * (\<Sum>out\<leftarrow>tx_outputs tx. output_size out)"
    by (rule sum_list_scaled) (rule u)
  then have b: "(\<Sum>out\<leftarrow>tx_outputs tx. unat (2 + of_nat (length (spk_script (out_spk out))) :: u64)) < 2 ^ 40"
    using assms by (simp add: serialized_size_def)
  then have "(\<Sum>out\<leftarrow>tx_outputs tx. unat (2 + of_nat (length (spk_script (out_spk out))) :: u64)) < 2 ^ 64" by simp
  then obtain s where s: "osum (\<lambda>out. 2 + of_nat (length (spk_script (out_spk out)))) (tx_outputs tx) = (Ok s :: ('e, _) outcome)"
    "unat s = (\<Sum>out\<leftarrow>tx_outputs tx. unat (2 + of_nat (length (spk_script (out_spk out))) :: u64))" by (rule osum_Ok)
  then show ?thesis using that [OF s(1)] b by presburger
qed

lemma sigops_exact:
  assumes "serialized_size tx < 2 ^ 40"
  obtains s where "osum (\<lambda>i. ucast (sig_op_count i)) (tx_inputs tx) = (Ok s :: ('e, _) outcome)" "unat s < 5 * 2 ^ 40"
proof -
  have u: "unat (ucast (sig_op_count i) :: u64) \<le> 5 * input_size i" for i
  proof -
    have "unat (ucast (sig_op_count i) :: u64) = unat (sig_op_count i)" by (rule unat_ucast_up) simp
    then show ?thesis using unat_less_exp [of "sig_op_count i"] by (simp add: input_size_def)
  qed
  have "(\<Sum>i\<leftarrow>tx_inputs tx. unat (ucast (sig_op_count i) :: u64)) \<le> 5 * (\<Sum>i\<leftarrow>tx_inputs tx. input_size i)"
    by (rule sum_list_scaled) (rule u)
  then have b: "(\<Sum>i\<leftarrow>tx_inputs tx. unat (ucast (sig_op_count i) :: u64)) < 5 * 2 ^ 40"
    using assms by (simp add: serialized_size_def)
  then have "(\<Sum>i\<leftarrow>tx_inputs tx. unat (ucast (sig_op_count i) :: u64)) < 2 ^ 64" by simp
  then obtain s where s: "osum (\<lambda>i. ucast (sig_op_count i)) (tx_inputs tx) = (Ok s :: ('e, _) outcome)"
    "unat s = (\<Sum>i\<leftarrow>tx_inputs tx. unat (ucast (sig_op_count i) :: u64))" by (rule osum_Ok)
  then show ?thesis using that [OF s(1)] b by presburger
qed

lemma masses_return:
  assumes "serialized_size tx < 2 ^ 40" and r: "rates_bounded c"
  shows "\<exists>m. calc_non_contextual_masses sha3 c tx = (Ok m :: ('e, _) outcome)"
proof (cases "is_coinbase tx")
  case False
  obtain z where z: "transaction_estimated_serialized_size tx = (Ok z :: ('e, _) outcome)" "unat z = serialized_size tx"
    using estimated_size_exact [of tx, where 'e = 'e] assms(1) by auto
  obtain k where k: "osum (\<lambda>out. 2 + of_nat (length (spk_script (out_spk out)))) (tx_outputs tx) = (Ok k :: ('e, _) outcome)" "unat k < 2 ^ 40"
    by (rule script_sizes_exact [OF assms(1)])
  obtain g where g: "osum (\<lambda>i. ucast (sig_op_count i)) (tx_inputs tx) = (Ok g :: ('e, _) outcome)" "unat g < 5 * 2 ^ 40"
    by (rule sigops_exact [OF assms(1)])
  obtain as a where a: "omap (alt_creation_mass sha3) (filter (\<lambda>out. classify_alt_script (spk_script (out_spk out)) = Some Creation) (tx_outputs tx)) =
      (Ok as :: ('e, _) outcome)" "osum id as = (Ok a :: ('e, u64) outcome)" "unat a \<le> 2 ^ 57"
    using alt_masses_exact [OF assms(1), of sha3 _, where 'e = 'e] by blast
  have "unat z * unat (mass_per_tx_byte c) \<le> 2 ^ 40 * 2 ^ 16" "unat k * unat (mass_per_script_pub_key_byte c) \<le> 2 ^ 40 * 2 ^ 16"
      "unat g * unat (mass_per_sig_op c) \<le> (5 * 2 ^ 40) * 2 ^ 16"
    using assms(1) z(2) k(2) g(2) r unfolding rates_bounded_def by (intro mult_le_mono; simp)+
  then have "returns (\<lambda>_. True) (calc_non_contextual_masses sha3 c tx :: ('e, _) outcome)"
    using False z k(1) g(1) a assms(1) by (simp add: calc_non_contextual_masses_def returns_simps TRANSIENT_BYTE_TO_MASS_FACTOR_def)
  then show ?thesis by (auto simp: returns_def)
qed (simp add: calc_non_contextual_masses_def)

end
