(* ===== verification/Body_Isolation.thy ===== *)
theory Body_Isolation
  imports Rule_Error Tx_Isolation Utxo Mass_Bounds "HOL-Library.Multiset"
begin

text \<open>
  Validation of a block body in isolation: src/consensus/src/pipeline/body_processor/body_validation_in_isolation.rs. The
  two hash functions are parameters, and the contract library of the transaction rules is \<open>svm_lib\<close>. The sets of
  the loops are lists without duplicates.
\<close>

record body_processor =
  max_block_mass :: u64
  bp_mass_calculator :: mass_calculator
  bp_transaction_validator :: transaction_validator
  bp_lib :: svm_lib
  MerkleBranchHash :: "bytes \<Rightarrow> merkle_hash"
  TransactionHash :: "bytes \<Rightarrow> hash"

definition check_has_transactions :: "block \<Rightarrow> unit block_process_result" where
  "check_has_transactions block = ensure (block_transactions block \<noteq> []) NoTransactions"

definition check_hash_merkle_root :: "body_processor \<Rightarrow> block \<Rightarrow> unit block_process_result" where
  "check_hash_merkle_root bp block =
     (let calculated = calc_hash_merkle_root (MerkleBranchHash bp) (TransactionHash bp) (block_transactions block) in
      ensure (calculated = hash_merkle_root (block_header block)) (BadMerkleRoot (hash_merkle_root (block_header block)) calculated))"

text \<open>Indexing an empty list panics.\<close>

definition check_only_one_coinbase :: "block \<Rightarrow> unit block_process_result" where
  "check_only_one_coinbase block =
     (case block_transactions block of
        [] \<Rightarrow> Panic
      | tx # txs \<Rightarrow> then_do (ensure (is_coinbase tx) FirstTxNotCoinbase)
          (case position is_coinbase txs of Some i \<Rightarrow> Err (MultipleCoinbases i) | None \<Rightarrow> Ok ()))"

definition check_transactions_in_isolation :: "body_processor \<Rightarrow> block \<Rightarrow> unit block_process_result" where
  "check_transactions_in_isolation bp block =
     ocheck (\<lambda>_ tx. map_err (TxInIsolationValidationFailed (tx_id tx)) (validate_tx_in_isolation (bp_transaction_validator bp) (bp_lib bp) tx))
       0 (block_transactions block)"

text \<open>The running totals are compute, transient and storage mass.\<close>

definition block_mass_step :: "body_processor \<Rightarrow> transaction \<Rightarrow> u64 \<times> u64 \<times> u64 \<Rightarrow> (u64 \<times> u64 \<times> u64) block_process_result" where
  "block_mass_step bp tx = (\<lambda>(total_compute_mass, total_transient_mass, total_storage_mass).
     obind (calc_non_contextual_masses (sha3_384 (bp_lib bp)) (bp_mass_calculator bp) tx) (\<lambda>m.
       let c = saturating_add total_compute_mass (compute_mass m);
           t = saturating_add total_transient_mass (transient_mass m);
           s = saturating_add total_storage_mass (tx_mass tx) in
       then_do (ensure (\<not> max_block_mass bp < c) (ExceedsComputeMassLimit c (max_block_mass bp)))
       (then_do (ensure (\<not> max_block_mass bp < t) (ExceedsTransientMassLimit t (max_block_mass bp)))
       (then_do (ensure (\<not> max_block_mass bp < s) (ExceedsStorageMassLimit s (max_block_mass bp))) (Ok (c, t, s))))))"

definition check_block_mass :: "body_processor \<Rightarrow> block \<Rightarrow> (non_contextual_masses \<times> u64) block_process_result" where
  "check_block_mass bp block =
     obind (ofold (block_mass_step bp) (block_transactions block) (0, 0, 0)) (\<lambda>(c, t, s). Ok (\<lparr>compute_mass = c, transient_mass = t\<rparr>, s))"

text \<open>A set filled by a loop that stops at the first element already there.\<close>

definition insert_new :: "('a \<Rightarrow> 'e) \<Rightarrow> 'a \<Rightarrow> 'a list \<Rightarrow> ('e, 'a list) outcome" where
  "insert_new err x existing = (if x \<in> set existing then Err (err x) else Ok (x # existing))"

definition block_inputs :: "block \<Rightarrow> transaction_outpoint list" where
  "block_inputs block = concat (map (\<lambda>tx. map previous_outpoint (tx_inputs tx)) (block_transactions block))"

definition check_block_double_spends :: "block \<Rightarrow> unit block_process_result" where
  "check_block_double_spends block =
     obind (ofold (insert_new DoubleSpendInSameBlock) (block_inputs block) []) (\<lambda>existing. Ok ())"

definition created_outpoints :: "transaction \<Rightarrow> transaction_outpoint list" where
  "created_outpoints tx = map (\<lambda>index. \<lparr>transaction_id = tx_id tx, outpoint_index = of_nat index\<rparr>) [0..<length (tx_outputs tx)]"

definition check_no_chained_transactions :: "block \<Rightarrow> unit block_process_result" where
  "check_no_chained_transactions block =
     (let block_created_outpoints = concat (map created_outpoints (block_transactions block)) in
      ocheck (\<lambda>_ p. ensure (p \<notin> set block_created_outpoints) (ChainedTransaction p)) 0 (block_inputs block))"

definition check_duplicate_transactions :: "block \<Rightarrow> unit block_process_result" where
  "check_duplicate_transactions block =
     obind (ofold (insert_new DuplicateTransactions) (map tx_id (block_transactions block)) []) (\<lambda>ids. Ok ())"

definition validate_body_in_isolation :: "body_processor \<Rightarrow> block \<Rightarrow> (non_contextual_masses \<times> u64) block_process_result" where
  "validate_body_in_isolation bp block =
     then_do (check_has_transactions block)
     (then_do (check_hash_merkle_root bp block)
     (then_do (check_only_one_coinbase block)
     (then_do (check_transactions_in_isolation bp block)
     (obind (check_block_mass bp block) (\<lambda>mass.
     then_do (check_duplicate_transactions block)
     (then_do (check_block_double_spends block)
     (then_do (check_no_chained_transactions block) (Ok mass))))))))"

section \<open>What a valid body is\<close>

lemma insert_new_safe: "safely (\<lambda>_. distinct xs) (obind (ofold (insert_new err) xs []) (\<lambda>_. Ok ()))"
proof -
  have "safely (\<lambda>s. set s = set xs \<and> distinct xs) (ofold (insert_new err) xs [])"
    by (intro safely_ofold_prefix [where I = "\<lambda>ys s. set s = set ys \<and> distinct ys"]) (auto simp: insert_new_def)
  then show ?thesis by (simp add: safely_obind) (auto elim: safely_mono)
qed

text \<open>The mass of a transaction as natural numbers; the total of a prefix of the block.\<close>

definition tx_masses :: "body_processor \<Rightarrow> transaction \<Rightarrow> nat \<times> nat \<times> nat" where
  "tx_masses bp tx = (case calc_non_contextual_masses (sha3_384 (bp_lib bp)) (bp_mass_calculator bp) tx :: (rule_error, _) outcome of
     Ok m \<Rightarrow> (unat (compute_mass m), unat (transient_mass m), unat (tx_mass tx)) | _ \<Rightarrow> (0, 0, 0))"

definition totals :: "body_processor \<Rightarrow> transaction list \<Rightarrow> nat \<times> nat \<times> nat" where
  "totals bp txs = ((\<Sum>tx\<leftarrow>txs. fst (tx_masses bp tx)), (\<Sum>tx\<leftarrow>txs. fst (snd (tx_masses bp tx))), (\<Sum>tx\<leftarrow>txs. snd (snd (tx_masses bp tx))))"

lemma saturating_add_small:
  "\<not> m < saturating_add a b \<Longrightarrow> unat m < 2 ^ LENGTH('a) - 1 \<Longrightarrow> unat (saturating_add a b) = unat a + unat b" for a :: "'a::len word"
  by (simp add: unat_saturating_add word_less_nat_alt)

lemma block_mass_safe:
  assumes "\<And>tx. tx \<in> set txs \<Longrightarrow> calc_non_contextual_masses (sha3_384 (bp_lib bp)) (bp_mass_calculator bp) tx \<noteq> (Panic :: (rule_error, _) outcome)"
    and "unat (max_block_mass bp) < 2 ^ 64 - 1"
  shows "safely (\<lambda>(c, t, s). (unat c, unat t, unat s) = totals bp txs \<and> c \<le> max_block_mass bp \<and> t \<le> max_block_mass bp \<and> s \<le> max_block_mass bp)
    (ofold (block_mass_step bp) txs (0, 0, 0))"
proof (rule safely_ofold_prefix [where I = "\<lambda>ys (c, t, s). (unat c, unat t, unat s) = totals bp ys \<and> c \<le> max_block_mass bp \<and>
    t \<le> max_block_mass bp \<and> s \<le> max_block_mass bp"], goal_cases)
  case 1
  show ?case by (simp add: totals_def)
next
  case (2 ys y zs st)
  obtain c t s where st: "st = (c, t, s)" by (cases st)
  show ?case
  proof (cases "calc_non_contextual_masses (sha3_384 (bp_lib bp)) (bp_mass_calculator bp) y :: (rule_error, _) outcome")
    case (Ok m)
    have "(unat c, unat t, unat s) = totals bp ys" using 2(2) st by simp
    then show ?thesis using Ok assms(2) saturating_add_small [of "max_block_mass bp" c "compute_mass m"]
        saturating_add_small [of "max_block_mass bp" t "transient_mass m"] saturating_add_small [of "max_block_mass bp" s "tx_mass y"]
      by (simp add: block_mass_step_def st Let_def safely_simps totals_def tx_masses_def) (auto simp: linorder_not_less)
  qed (use assms(1) [of y] 2(1) in \<open>simp_all add: block_mass_step_def st\<close>)
qed

text \<open>A body that is valid for a header.\<close>

definition body_ok :: "body_processor \<Rightarrow> block \<Rightarrow> bool" where
  "body_ok bp block \<longleftrightarrow> (let txs = block_transactions block in
     calc_hash_merkle_root (MerkleBranchHash bp) (TransactionHash bp) txs = hash_merkle_root (block_header block) \<and>
     (\<exists>tx rest. txs = tx # rest \<and> is_coinbase tx \<and> (\<forall>tx\<in>set rest. \<not> is_coinbase tx)) \<and>
     (\<forall>tx\<in>set txs. isolated (bp_transaction_validator bp) (bp_lib bp) tx) \<and>
     distinct (map tx_id txs) \<and> distinct (block_inputs block) \<and>
     (\<forall>tx\<in>set txs. set (created_outpoints tx) \<inter> set (block_inputs block) = {}))"

lemma only_one_coinbase_safe:
  "block_transactions block \<noteq> [] \<Longrightarrow>
     safely (\<lambda>_. \<exists>tx rest. block_transactions block = tx # rest \<and> is_coinbase tx \<and> (\<forall>tx\<in>set rest. \<not> is_coinbase tx)) (check_only_one_coinbase block)"
  using position_safe [of "tl (block_transactions block)" is_coinbase MultipleCoinbases]
  by (auto simp: check_only_one_coinbase_def safely_simps split: list.split elim: safely_mono)

lemma transactions_in_isolation_safe:
  "safely (\<lambda>_. \<forall>tx\<in>set (block_transactions block). isolated (bp_transaction_validator bp) (bp_lib bp) tx) (check_transactions_in_isolation bp block)"
  unfolding check_transactions_in_isolation_def
  by (rule safely_ocheck) (simp add: safely_map_err validate_tx_in_isolation_safe)

lemma duplicates_safe:
  "safely (\<lambda>_. distinct (map tx_id (block_transactions block))) (check_duplicate_transactions block)"
  "safely (\<lambda>_. distinct (block_inputs block)) (check_block_double_spends block)"
  unfolding check_duplicate_transactions_def check_block_double_spends_def by (rule insert_new_safe)+

lemma no_chained_safe:
  "safely (\<lambda>_. \<forall>tx\<in>set (block_transactions block). set (created_outpoints tx) \<inter> set (block_inputs block) = {}) (check_no_chained_transactions block)"
proof -
  have "safely (\<lambda>_. \<forall>p\<in>set (block_inputs block). p \<notin> set (concat (map created_outpoints (block_transactions block)))) (check_no_chained_transactions block)"
    unfolding check_no_chained_transactions_def Let_def by (rule safely_ocheck) (simp add: safely_ensure)
  then show ?thesis by (rule safely_mono) auto
qed

lemma validate_body_in_isolation_safe:
  assumes "\<And>tx. tx \<in> set (block_transactions block) \<Longrightarrow>
      calc_non_contextual_masses (sha3_384 (bp_lib bp)) (bp_mass_calculator bp) tx \<noteq> (Panic :: (rule_error, _) outcome)"
    and "unat (max_block_mass bp) < 2 ^ 64 - 1"
  shows "safely (\<lambda>(m, s). body_ok bp block \<and> (unat (compute_mass m), unat (transient_mass m), unat s) = totals bp (block_transactions block) \<and>
      compute_mass m \<le> max_block_mass bp \<and> transient_mass m \<le> max_block_mass bp \<and> s \<le> max_block_mass bp)
    (validate_body_in_isolation bp block)"
proof (cases "block_transactions block = []")
  case False
  have mass: "safely (\<lambda>(m, s). (unat (compute_mass m), unat (transient_mass m), unat s) = totals bp (block_transactions block) \<and>
      compute_mass m \<le> max_block_mass bp \<and> transient_mass m \<le> max_block_mass bp \<and> s \<le> max_block_mass bp) (check_block_mass bp block)"
    using block_mass_safe [OF assms] by (auto simp: check_block_mass_def safely_obind case_prod_unfold elim: safely_mono)
  show ?thesis unfolding validate_body_in_isolation_def
    apply (simp add: safely_simps check_has_transactions_def False check_hash_merkle_root_def Let_def)
    apply (intro impI)
    apply (rule safely_mono [OF only_one_coinbase_safe [OF False]])
    apply (rule safely_mono [OF transactions_in_isolation_safe])
    apply (rule safely_mono [OF mass])
    apply (simp add: case_prod_unfold safely_simps)
    apply (rule safely_mono [OF duplicates_safe(1)])
    apply (rule safely_mono [OF duplicates_safe(2)])
    apply (rule safely_mono [OF no_chained_safe])
    apply (simp add: body_ok_def Let_def)
    done
qed (simp add: validate_body_in_isolation_def check_has_transactions_def safely_simps)

text \<open>What acceptance gives, whatever the masses.\<close>

lemma validate_body_Ok:
  assumes "validate_body_in_isolation bp block = Ok r"
  shows "body_ok bp block"
proof -
  have ne: "block_transactions block \<noteq> []" and merkle: "check_hash_merkle_root bp block = Ok ()" and one: "check_only_one_coinbase block = Ok ()"
    and iso: "check_transactions_in_isolation bp block = Ok ()" and dup: "check_duplicate_transactions block = Ok ()"
    and double: "check_block_double_spends block = Ok ()" and chain: "check_no_chained_transactions block = Ok ()"
    using assms by (auto simp: validate_body_in_isolation_def then_do_def obind_eq_Ok check_has_transactions_def ensure_def split: if_splits)
  show ?thesis
    using merkle only_one_coinbase_safe [OF ne] one transactions_in_isolation_safe [of block bp] iso duplicates_safe [of block] dup double
      no_chained_safe [of block] chain
    by (simp add: safely_def body_ok_def Let_def check_hash_merkle_root_def ensure_def split: if_splits)
qed

section \<open>A valid body and the UTXO set\<close>

definition spent_by :: "populated_transaction \<Rightarrow> transaction_outpoint set" where
  "spent_by p = (\<lambda>(i, e). previous_outpoint i) ` set (populated_inputs p)"

text \<open>Populated transactions that do not touch the outpoints of one another.\<close>

definition independent :: "populated_transaction list \<Rightarrow> bool" where
  "independent ps \<longleftrightarrow> distinct (map (\<lambda>p. tx_id (ptx p)) ps) \<and> distinct ps \<and>
     (\<forall>p\<in>set ps. distinct (map (\<lambda>(i, e). previous_outpoint i) (populated_inputs p)) \<and> length (tx_outputs (ptx p)) \<le> 2 ^ 32) \<and>
     (\<forall>p\<in>set ps. \<forall>q\<in>set ps. p \<noteq> q \<longrightarrow> spent_by p \<inter> spent_by q = {}) \<and>
     (\<forall>p\<in>set ps. \<forall>q\<in>set ps. set (created_outpoints (ptx p)) \<inter> spent_by q = {})"

definition ready :: "utxo_view \<Rightarrow> utxo_view \<Rightarrow> populated_transaction list \<Rightarrow> bool" where
  "ready base view ps \<longleftrightarrow> (\<forall>p\<in>set ps. (\<forall>(i, e)\<in>set (populated_inputs p). view (previous_outpoint i) = Some e) \<and>
     (\<forall>q\<in>set (created_outpoints (ptx p)). base q = None \<and> view q = None))"

lemma created_outpoints_entries: "set (created_outpoints tx) = fst ` set (output_entries tx daa)"
proof -
  have "map fst (output_entries tx daa) = created_outpoints tx"
    by (intro nth_equalityI) (simp_all add: output_entries_def created_outpoints_def nth_enumerate_eq)
  then show ?thesis by (metis list.set_map)
qed

lemma created_outpoints_id: "q \<in> set (created_outpoints tx) \<Longrightarrow> transaction_id q = tx_id tx"
  by (auto simp: created_outpoints_def)

lemma applies_fresh: "applies base (Direct d) \<Longrightarrow> base q = None \<Longrightarrow> hm_get (diff_remove d) q = None"
proof -
  assume "applies base (Direct d)" "base q = None"
  then have "applies_at None (hm_get (diff_add d) q) (hm_get (diff_remove d) q)" unfolding applies_def by (metis added.simps(1) removed.simps(1))
  then show ?thesis by (simp add: applies_at_def split: option.splits)
qed

lemma independent_Cons:
  assumes "independent (p # ps)"
  shows "independent ps" and "\<forall>q\<in>set ps. spent_by p \<inter> spent_by q = {} \<and> set (created_outpoints (ptx p)) \<inter> set (created_outpoints (ptx q)) = {}"
    and "\<forall>q\<in>set (p # ps). set (created_outpoints (ptx p)) \<inter> spent_by q = {} \<and> set (created_outpoints (ptx q)) \<inter> spent_by p = {}"
proof -
  show "independent ps" using assms by (auto simp: independent_def)
  have "tx_id (ptx p) \<noteq> tx_id (ptx q)" if "q \<in> set ps" for q using assms that by (auto simp: independent_def)
  then have "set (created_outpoints (ptx p)) \<inter> set (created_outpoints (ptx q)) = {}" if "q \<in> set ps" for q
    using that created_outpoints_id by (metis disjoint_iff)
  moreover have "p \<noteq> q" if "q \<in> set ps" for q using assms that by (auto simp: independent_def)
  ultimately show "\<forall>q\<in>set ps. spent_by p \<inter> spent_by q = {} \<and> set (created_outpoints (ptx p)) \<inter> set (created_outpoints (ptx q)) = {}"
    using assms by (simp add: independent_def)
  show "\<forall>q\<in>set (p # ps). set (created_outpoints (ptx p)) \<inter> spent_by q = {} \<and> set (created_outpoints (ptx q)) \<inter> spent_by p = {}"
    using assms by (simp add: independent_def)
qed

lemma ready_step:
  assumes "independent (p # ps)" and "ready base view (p # ps)"
    and "\<And>q. q \<notin> set (created_outpoints (ptx p)) \<Longrightarrow> view' q = (if q \<in> spent_by p then None else view q)"
  shows "ready base view' ps"
proof -
  note ind = independent_Cons [OF assms(1)]
  have "view' (previous_outpoint i) = Some e" if "(i, e) \<in> set (populated_inputs r)" "r \<in> set ps" for i e r
  proof -
    have "previous_outpoint i \<in> spent_by r" using that(1) by (force simp: spent_by_def)
    then have "previous_outpoint i \<notin> spent_by p" "previous_outpoint i \<notin> set (created_outpoints (ptx p))" using ind(2,3) that(2) by auto
    moreover have "view (previous_outpoint i) = Some e" using assms(2) that by (auto simp: ready_def)
    ultimately show ?thesis by (simp add: assms(3))
  qed
  moreover have "view' q = None" if "q \<in> set (created_outpoints (ptx r))" "r \<in> set ps" for q r
  proof -
    have "q \<notin> set (created_outpoints (ptx p))" using ind(2) that by blast
    then show ?thesis using assms(2) that by (auto simp: assms(3) ready_def)
  qed
  ultimately show ?thesis using assms(2) unfolding ready_def by (auto simp: case_prod_unfold)
qed

lemma independent_transactions_apply:
  assumes "applies base (Direct d)" and "independent ps" and "ready base (compose_get base (Direct d)) ps"
  shows "\<exists>d'. ofold (\<lambda>p. add_transaction p daa) ps d = Ok d' \<and> applies base (Direct d') \<and>
    (\<forall>p\<in>set ps. \<forall>(q, e)\<in>set (output_entries (ptx p) daa). compose_get base (Direct d') q = Some e) \<and>
    (\<forall>p\<in>set ps. \<forall>q\<in>spent_by p. compose_get base (Direct d') q = None) \<and>
    (\<forall>q. (\<forall>p\<in>set ps. q \<notin> spent_by p \<and> q \<notin> set (created_outpoints (ptx p))) \<longrightarrow> compose_get base (Direct d') q = compose_get base (Direct d) q)"
  using assms
proof (induction ps arbitrary: d)
  case (Cons p ps)
  let ?v = "compose_get base (Direct d)" and ?O = "output_entries (ptx p) daa"
  note ind = independent_Cons [OF Cons.prems(2)]
  have p: "length (tx_outputs (ptx p)) \<le> 2 ^ 32" "spends_from ?v p"
    using Cons.prems(2,3) by (auto simp: independent_def ready_def spends_from_def)
  have fresh: "base q = None \<and> ?v q = None" if "q \<in> set (created_outpoints (ptx r))" "r \<in> set (p # ps)" for q r
    using Cons.prems(3) that by (auto simp: ready_def)
  have "\<forall>(q, e)\<in>set ?O. ?v q = None \<and> (same_daa (hm_get (diff_remove d) q) (Some e) \<longrightarrow> hm_get (diff_remove d) q = Some e)"
    using fresh [of _ p] applies_fresh [OF Cons.prems(1)] by (fastforce simp: created_outpoints_entries [of _ daa] same_daa_def)
  from add_transaction_applies [OF Cons.prems(1) refl p(2,1) this]
  obtain d1 where d1: "add_transaction p daa d = Ok d1" "applies base (Direct d1)"
    and v1: "\<And>q. compose_get base (Direct d1) q = (case map_of ?O q of Some e \<Rightarrow> Some e | None \<Rightarrow> if q \<in> spent_by p then None else ?v q)"
    unfolding spent_by_def by blast
  have out: "map_of ?O q = None \<longleftrightarrow> q \<notin> set (created_outpoints (ptx p))" for q
    by (simp add: map_of_eq_None_iff created_outpoints_entries [of _ daa])
  have "ready base (compose_get base (Direct d1)) ps"
    by (rule ready_step [OF Cons.prems(2,3)]) (simp add: v1 out [THEN iffD2])
  then obtain d2 where d2: "ofold (\<lambda>p. add_transaction p daa) ps d1 = Ok d2" "applies base (Direct d2)"
    "\<forall>r\<in>set ps. \<forall>(q, e)\<in>set (output_entries (ptx r) daa). compose_get base (Direct d2) q = Some e"
    "\<forall>r\<in>set ps. \<forall>q\<in>spent_by r. compose_get base (Direct d2) q = None"
    "\<And>q. (\<forall>r\<in>set ps. q \<notin> spent_by r \<and> q \<notin> set (created_outpoints (ptx r))) \<Longrightarrow> compose_get base (Direct d2) q = compose_get base (Direct d1) q"
    using Cons.IH [OF d1(2) ind(1)] by blast
  have o: "compose_get base (Direct d2) q = Some e" if "(q, e) \<in> set ?O" for q e
  proof -
    have q: "q \<in> set (created_outpoints (ptx p))" using that by (force simp: created_outpoints_entries [of _ daa])
    have "compose_get base (Direct d2) q = compose_get base (Direct d1) q" using ind(2,3) q by (intro d2(5)) auto
    moreover have "map_of ?O q = Some e" using that distinct_output_entries [OF p(1)] by simp
    ultimately show ?thesis by (simp add: v1)
  qed
  have i: "compose_get base (Direct d2) q = None" if q: "q \<in> spent_by p" for q
  proof -
    have "compose_get base (Direct d2) q = compose_get base (Direct d1) q" using ind(2,3) q by (intro d2(5)) auto
    moreover have "map_of ?O q = None" using ind(3) q by (auto simp: out)
    ultimately show ?thesis using q by (simp add: v1)
  qed
  have "compose_get base (Direct d2) q = ?v q" if "\<forall>r\<in>set (p # ps). q \<notin> spent_by r \<and> q \<notin> set (created_outpoints (ptx r))" for q
    using that d2(5) [of q] by (simp add: v1 out [THEN iffD2])
  then show ?case using d1(1) d2(1-4) o i by (intro exI [of _ d2]) auto
qed simp

lemma distinct_concat_disjoint:
  assumes "distinct (concat (map f xs))" and "x \<in> set xs" "y \<in> set xs" "x \<noteq> y"
  shows "set (f x) \<inter> set (f y) = {}"
proof -
  obtain ys zs where xs: "xs = ys @ x # zs" using assms(2) by (auto simp: in_set_conv_decomp)
  then have "y \<in> set ys \<union> set zs" using assms(3,4) by auto
  then show ?thesis using assms(1) unfolding xs by auto
qed

lemma body_independent:
  assumes ok: "body_ok bp block" and "\<forall>tx\<in>set (block_transactions block). length (tx_outputs tx) \<le> 2 ^ 32"
    and sub: "set (map ptx ps) \<subseteq> set (block_transactions block)" and dist: "distinct (map ptx ps)" and "\<forall>p\<in>set ps. populated_wf p"
  shows "independent ps"
proof -
  let ?f = "\<lambda>tx. map previous_outpoint (tx_inputs tx)"
  have ids: "distinct (map tx_id (block_transactions block))" and ins: "distinct (concat (map ?f (block_transactions block)))"
    and chain: "\<forall>tx\<in>set (block_transactions block). set (created_outpoints tx) \<inter> set (block_inputs block) = {}"
    using ok by (simp_all add: body_ok_def Let_def block_inputs_def)
  have spent: "map (\<lambda>(i, e). previous_outpoint i) (populated_inputs p) = ?f (ptx p)" if "p \<in> set ps" for p
    using assms(5) that by (intro nth_equalityI) (auto simp: populated_inputs_def populated_wf_def)
  have spent_set: "spent_by p = set (?f (ptx p))" if "p \<in> set ps" for p
    using arg_cong [OF spent [OF that], of set] by (simp add: spent_by_def)
  have in_block: "ptx p \<in> set (block_transactions block)" if "p \<in> set ps" for p using sub that by auto
  have disj: "set (?f s) \<inter> set (?f t) = {}" if "s \<in> set (block_transactions block)" "t \<in> set (block_transactions block)" "s \<noteq> t" for s t
    using distinct_concat_disjoint [OF ins that] .
  have "distinct (map tx_id (map ptx ps))" using ids sub dist by (auto simp: distinct_map intro!: comp_inj_on intro: inj_on_subset)
  then have 1: "distinct (map (\<lambda>p. tx_id (ptx p)) ps)" by (simp add: comp_def)
  have 2: "distinct (?f (ptx p)) \<and> length (tx_outputs (ptx p)) \<le> 2 ^ 32" if "p \<in> set ps" for p
    using ins in_block [OF that] assms(2) by (auto simp: distinct_concat_iff)
  have 3: "spent_by p \<inter> spent_by q = {}" if "p \<in> set ps" "q \<in> set ps" "p \<noteq> q" for p q
    using disj [OF in_block [OF that(1)] in_block [OF that(2)]] dist that by (auto simp: spent_set distinct_map inj_on_def)
  have 4: "set (created_outpoints (ptx p)) \<inter> spent_by q = {}" if "p \<in> set ps" "q \<in> set ps" for p q
  proof -
    have "spent_by q \<subseteq> set (block_inputs block)" using in_block [OF that(2)] by (auto simp: spent_set [OF that(2)] block_inputs_def)
    then show ?thesis using chain in_block [OF that(1)] by blast
  qed
  show ?thesis unfolding independent_def using 1 2 3 4 dist spent by (simp add: distinct_map)
qed

text \<open>C36: a body that passes validation in isolation is well formed: its transactions are those the header commits to, exactly the first is a
  coinbase transaction, every one passes the rules of transactions in isolation, the ids are distinct, no outpoint is spent
  twice and none is created and spent in the block, and the three masses returned are the exact sums over the transactions and
  within the limit. Validation does not panic, for transactions of less than two to the power 40 bytes, rates of the mass calculator of at most two to the
  power 16 and a mass limit below the largest word, at which the saturating sums would not be exact.\<close>

theorem body_isolation_sound:
  assumes "\<forall>tx\<in>set (block_transactions block). serialized_size tx < 2 ^ 40" and "rates_bounded (bp_mass_calculator bp)"
    and "unat (max_block_mass bp) < 2 ^ 64 - 1"
  shows "validate_body_in_isolation bp block \<noteq> Panic \<and>
    (\<forall>m s. validate_body_in_isolation bp block = Ok (m, s) \<longrightarrow> body_ok bp block \<and>
       (unat (compute_mass m), unat (transient_mass m), unat s) = totals bp (block_transactions block) \<and>
       compute_mass m \<le> max_block_mass bp \<and> transient_mass m \<le> max_block_mass bp \<and> s \<le> max_block_mass bp)"
proof -
  have "calc_non_contextual_masses (sha3_384 (bp_lib bp)) (bp_mass_calculator bp) tx \<noteq> (Panic :: (rule_error, _) outcome)"
    if "tx \<in> set (block_transactions block)" for tx
    using masses_return [OF _ assms(2), of tx "sha3_384 (bp_lib bp)", where 'e = rule_error] assms(1) that by auto
  from validate_body_in_isolation_safe [OF this assms(3)] show ?thesis by (auto simp: safely_def)
qed

text \<open>C37: the transactions of a body that passes validation in isolation can be applied to the UTXO set in any order. Populated with entries of the current view, and
  with no created outpoint there yet, every order of them is applied without an error and gives the same view, in
  which every output exists and no input does. A transaction has at most two to the power 32 outputs, the range of an index.\<close>

theorem body_order_irrelevant:
  assumes valid: "validate_body_in_isolation bp block = Ok r" and "\<forall>tx\<in>set (block_transactions block). length (tx_outputs tx) \<le> 2 ^ 32"
    and "map ptx ps = block_transactions block" and "\<forall>p\<in>set ps. populated_wf p"
    and "applies base (Direct d)" and "ready base (compose_get base (Direct d)) ps" and "mset qs = mset ps"
  shows "\<exists>d1 d2. ofold (\<lambda>p. add_transaction p daa) ps d = Ok d1 \<and> ofold (\<lambda>p. add_transaction p daa) qs d = Ok d2 \<and>
    compose_get base (Direct d2) = compose_get base (Direct d1) \<and>
    (\<forall>p\<in>set ps. \<forall>(q, e)\<in>set (output_entries (ptx p) daa). compose_get base (Direct d1) q = Some e) \<and>
    (\<forall>p\<in>set ps. \<forall>q\<in>spent_by p. compose_get base (Direct d1) q = None)"
proof -
  have ok: "body_ok bp block" by (rule validate_body_Ok [OF valid])
  have s: "set qs = set ps" by (rule mset_eq_setD [OF assms(7)])
  have ids: "distinct (map ptx ps)" using ok assms(3) by (auto simp: body_ok_def Let_def distinct_map)
  moreover have "mset (map ptx qs) = mset (map ptx ps)" using assms(7) by simp
  ultimately have ids': "distinct (map ptx qs)" by (metis mset_eq_imp_distinct_iff)
  have sub: "set (map ptx ps) \<subseteq> set (block_transactions block)" "set (map ptx qs) \<subseteq> set (block_transactions block)"
    using assms(3) s by (auto simp flip: assms(3))
  have wf: "\<forall>p\<in>set qs. populated_wf p" and ready: "ready base (compose_get base (Direct d)) qs" using assms(4,6) s by (simp_all add: ready_def)
  obtain d1 where d1: "ofold (\<lambda>p. add_transaction p daa) ps d = Ok d1"
    "\<forall>p\<in>set ps. \<forall>(q, e)\<in>set (output_entries (ptx p) daa). compose_get base (Direct d1) q = Some e"
    "\<forall>p\<in>set ps. \<forall>q\<in>spent_by p. compose_get base (Direct d1) q = None"
    "\<forall>q. (\<forall>p\<in>set ps. q \<notin> spent_by p \<and> q \<notin> set (created_outpoints (ptx p))) \<longrightarrow> compose_get base (Direct d1) q = compose_get base (Direct d) q"
    using independent_transactions_apply [OF assms(5) body_independent [OF ok assms(2) sub(1) ids assms(4)] assms(6), of daa] by blast
  obtain d2 where d2: "ofold (\<lambda>p. add_transaction p daa) qs d = Ok d2"
    "\<forall>p\<in>set ps. \<forall>(q, e)\<in>set (output_entries (ptx p) daa). compose_get base (Direct d2) q = Some e"
    "\<forall>p\<in>set ps. \<forall>q\<in>spent_by p. compose_get base (Direct d2) q = None"
    "\<forall>q. (\<forall>p\<in>set ps. q \<notin> spent_by p \<and> q \<notin> set (created_outpoints (ptx p))) \<longrightarrow> compose_get base (Direct d2) q = compose_get base (Direct d) q"
    using independent_transactions_apply [OF assms(5) body_independent [OF ok assms(2) sub(2) ids' wf] ready, of daa] unfolding s by blast
  have "compose_get base (Direct d2) q = compose_get base (Direct d1) q" for q
  proof (cases "\<exists>p\<in>set ps. q \<in> spent_by p \<or> q \<in> set (created_outpoints (ptx p))")
    case True
    then show ?thesis using d1(2,3) d2(2,3) by (fastforce simp: created_outpoints_entries [of _ daa])
  qed (use d1(4) d2(4) in auto)
  then show ?thesis using d1(1-3) d2(1) by (intro exI [of _ d1] exI [of _ d2]) auto
qed

section \<open>An example\<close>

definition ex_body_processor :: body_processor where
  "ex_body_processor = \<lparr>max_block_mass = 500000, bp_mass_calculator = tv_mass_calculator ex_validator, bp_transaction_validator = ex_validator,
     bp_lib = ex_lib, MerkleBranchHash = \<lambda>_. ZERO_MERKLE_HASH, TransactionHash = \<lambda>_. ZERO_HASH\<rparr>"

definition ex_coinbase :: transaction where
  "ex_coinbase = \<lparr>tx_version = 0, tx_inputs = [], tx_outputs = [], lock_time = 0, subnetwork_id = SUBNETWORK_ID_COINBASE, tx_gas = 0,
     tx_payload = [], tx_mass = 0, tx_id = Hash [9]\<rparr>"

definition ex_payment :: transaction where
  "ex_payment = ex_contract_tx 1\<lparr>tx_id := Hash [5]\<rparr>"

definition ex_block :: block where
  "ex_block = \<lparr>block_header = sample_header 1, block_transactions = [ex_coinbase, ex_payment]\<rparr>"

lemma ex_subnetworks: "is_coinbase ex_coinbase" "\<not> is_coinbase ex_payment"
  by (simp_all add: is_coinbase_def ex_coinbase_def ex_payment_def ex_contract_tx_def SUBNETWORK_ID_NATIVE_def SUBNETWORK_ID_COINBASE_def subnetwork_from_byte_def)

lemma ex_coinbase_Ok: "validate_tx_in_isolation ex_validator ex_lib ex_coinbase = Ok ()"
  using ex_subnetworks(1)
  by (simp add: validate_tx_in_isolation_def check_transaction_inputs_count_def check_transaction_signature_scripts_def position_def
      check_transaction_outputs_count_def check_transaction_script_public_keys_def check_coinbase_in_isolation_def
      check_transaction_output_value_ranges_def check_duplicate_transaction_inputs_def check_gas_def
      check_transaction_subnetwork_def check_transaction_version_def validate_carrier_outputs_def
      validate_alt_outputs_and_refs_def is_contract_deploy_def is_mint_policy_deploy_def validate_token_outputs_def
      padd_eq ex_validator_def MAX_TX_VERSION_def) (simp add: ex_coinbase_def)

lemma ex_payment_Ok: "validate_tx_in_isolation ex_validator ex_lib ex_payment = Ok ()"
proof -
  have "validate_tx_in_isolation ex_validator ex_lib ex_payment = validate_tx_in_isolation ex_validator ex_lib (ex_contract_tx 1)"
    by (simp add: validate_tx_in_isolation_def check_transaction_inputs_count_def check_transaction_signature_scripts_def
      check_transaction_outputs_count_def check_transaction_script_public_keys_def check_coinbase_in_isolation_def
      check_transaction_output_value_ranges_def check_duplicate_transaction_inputs_def check_gas_def
      check_transaction_subnetwork_def check_transaction_version_def validate_carrier_outputs_def is_coinbase_def
      validate_alt_outputs_and_refs_def is_contract_deploy_def is_mint_policy_deploy_def validate_token_outputs_def
      validate_contract_deploy_def validate_mint_policy_deploy_def ex_payment_def)
  then show ?thesis using ex_contract_tx_Ok [of 1] by simp
qed

lemma ex_masses:
  "calc_non_contextual_masses (sha3_384 ex_lib) (tv_mass_calculator ex_validator) ex_coinbase = (Ok \<lparr>compute_mass = 0, transient_mass = 0\<rparr> :: (rule_error, _) outcome)"
  "\<exists>m. calc_non_contextual_masses (sha3_384 ex_lib) (tv_mass_calculator ex_validator) ex_payment = (Ok m :: (rule_error, _) outcome) \<and> unat (compute_mass m) \<le> 5000 \<and> unat (transient_mass m) \<le> 5000"
proof -
  show "calc_non_contextual_masses (sha3_384 ex_lib) (tv_mass_calculator ex_validator) ex_coinbase = (Ok \<lparr>compute_mass = 0, transient_mass = 0\<rparr> :: (rule_error, _) outcome)"
    by (simp add: calc_non_contextual_masses_def ex_subnetworks)
  have "(1 :: u8) \<noteq> 0xfd" "(1 :: u8) \<noteq> 0xfe" by simp_all
  then have c: "classify_alt_script (replicate 32 (1 :: u8)) = None"
    by (simp add: classify_alt_script_def ALT_DISCRIMINATOR_REFERENCE_def ALT_DISCRIMINATOR_CREATION_def numeral_eq_Suc)
  show "\<exists>m. calc_non_contextual_masses (sha3_384 ex_lib) (tv_mass_calculator ex_validator) ex_payment = (Ok m :: (rule_error, _) outcome) \<and> unat (compute_mass m) \<le> 5000 \<and> unat (transient_mass m) \<le> 5000"
    by (simp add: calc_non_contextual_masses_def ex_subnetworks)
      (simp add: ex_payment_def ex_contract_tx_def transaction_estimated_serialized_size_def osum_def padd_eq pmul_def checked_mul_def
        transaction_input_estimated_serialized_size_def transaction_output_estimated_serialized_size_def outpoint_estimated_serialized_size_def
        ex_validator_def HASH_SIZE_def SUBNETWORK_ID_SIZE_def TRANSIENT_BYTE_TO_MASS_FACTOR_def c)
qed

lemma ex_outpoints: "block_inputs ex_block = [\<lparr>transaction_id = Hash [], outpoint_index = 0\<rparr>]"
  "created_outpoints ex_coinbase = []" "created_outpoints ex_payment = [\<lparr>transaction_id = Hash [5], outpoint_index = 0\<rparr>]"
  by (simp_all add: block_inputs_def ex_block_def ex_coinbase_def ex_payment_def ex_contract_tx_def created_outpoints_def)

lemma ex_block_Ok: "\<exists>m. validate_body_in_isolation ex_body_processor ex_block = Ok m"
proof -
  obtain m where m: "calc_non_contextual_masses (sha3_384 ex_lib) (tv_mass_calculator ex_validator) ex_payment = (Ok m :: (rule_error, _) outcome)"
    "unat (compute_mass m) \<le> 5000" "unat (transient_mass m) \<le> 5000" using ex_masses(2) by blast
  have "tx_mass ex_coinbase = 0" "tx_mass ex_payment = 750" by (simp_all add: ex_coinbase_def ex_payment_def ex_contract_tx_def)
  then have "block_mass_step ex_body_processor ex_coinbase (0, 0, 0) = Ok (0, 0, 0)"
      "block_mass_step ex_body_processor ex_payment (0, 0, 0) = Ok (compute_mass m, transient_mass m, 750)"
    using m(2,3) by (simp_all add: block_mass_step_def ex_body_processor_def ex_masses(1) m(1) saturating_add_def checked_add_def word_less_nat_alt)
  then have "\<exists>m. check_block_mass ex_body_processor ex_block = Ok m" by (simp add: check_block_mass_def ex_block_def)
  moreover have "calc_merkle_root (\<lambda>_. ZERO_MERKLE_HASH) [ZERO_HASH, ZERO_HASH] = ZERO_MERKLE_HASH"
    by (simp add: calc_merkle_root_def merkle_levels.simps leaf_nodes_def next_power_of_two_def next_power_from.simps leaf_at_def parent_node_def merkle_hash_from_tx_def merkle_hash_from_node_def)
  then have "check_hash_merkle_root ex_body_processor ex_block = Ok ()"
    by (simp add: check_hash_merkle_root_def calc_hash_merkle_root_def tx_hash_def ex_body_processor_def ex_block_def sample_header_def)
  moreover have t: "block_transactions ex_block = [ex_coinbase, ex_payment]" by (simp add: ex_block_def)
  have "check_transactions_in_isolation ex_body_processor ex_block = Ok ()"
    by (simp add: check_transactions_in_isolation_def t ex_body_processor_def ex_coinbase_Ok ex_payment_Ok)
  moreover have "check_only_one_coinbase ex_block = Ok ()" by (simp add: check_only_one_coinbase_def t ex_subnetworks position_def)
  moreover have "tx_id ex_coinbase \<noteq> tx_id ex_payment" by (simp add: ex_coinbase_def ex_payment_def)
  then have "check_duplicate_transactions ex_block = Ok ()" by (simp add: check_duplicate_transactions_def t insert_new_def)
  moreover have "check_block_double_spends ex_block = Ok ()" by (simp add: check_block_double_spends_def ex_outpoints insert_new_def)
  moreover have "check_no_chained_transactions ex_block = Ok ()" by (simp add: check_no_chained_transactions_def ex_outpoints t)
  ultimately show ?thesis by (auto simp: validate_body_in_isolation_def check_has_transactions_def t)
qed

lemma ex_block_sizes: "\<forall>tx\<in>set (block_transactions ex_block). serialized_size tx < 2 ^ 40" "rates_bounded (bp_mass_calculator ex_body_processor)"
  by (simp_all add: ex_block_def ex_coinbase_def ex_payment_def ex_contract_tx_def serialized_size_def input_size_def output_size_def rates_bounded_def
      ex_body_processor_def ex_validator_def)

theorem body_isolation_sound_witness:
  "\<exists>m s. validate_body_in_isolation ex_body_processor ex_block = Ok (m, s) \<and> body_ok ex_body_processor ex_block \<and> unat s = 750"
proof -
  obtain m s where v: "validate_body_in_isolation ex_body_processor ex_block = Ok (m, s)" using ex_block_Ok by fastforce
  obtain n where n: "calc_non_contextual_masses (sha3_384 ex_lib) (tv_mass_calculator ex_validator) ex_payment = (Ok n :: (rule_error, _) outcome)"
    using ex_masses(2) by blast
  have "snd (snd (totals ex_body_processor (block_transactions ex_block))) = 750"
    by (simp add: totals_def tx_masses_def ex_block_def ex_body_processor_def n ex_masses(1)) (simp add: ex_coinbase_def ex_payment_def ex_contract_tx_def)
  moreover have "body_ok ex_body_processor ex_block \<and>
      (unat (compute_mass m), unat (transient_mass m), unat s) = totals ex_body_processor (block_transactions ex_block)"
    using v body_isolation_sound [OF ex_block_sizes] by (auto simp: ex_body_processor_def)
  ultimately show ?thesis using v by (metis snd_conv)
qed

text \<open>The contract transaction spends one entry; it is applied before and after the coinbase transaction.\<close>

definition ex_spent_entry :: utxo_entry where
  "ex_spent_entry = \<lparr>amount = 9, entry_spk = \<lparr>spk_version = 0, spk_script = []\<rparr>, block_daa_score = 3, entry_is_coinbase = False\<rparr>"

definition ex_utxo_base :: utxo_view where
  "ex_utxo_base = [\<lparr>transaction_id = Hash [], outpoint_index = 0\<rparr> \<mapsto> ex_spent_entry]"

theorem body_order_irrelevant_witness:
  "\<exists>d1 d2. ofold (\<lambda>p. add_transaction p 7) [\<lparr>ptx = ex_coinbase, ptx_entries = []\<rparr>, \<lparr>ptx = ex_payment, ptx_entries = [ex_spent_entry]\<rparr>]
       \<lparr>diff_add = [], diff_remove = []\<rparr> = Ok d1 \<and>
     ofold (\<lambda>p. add_transaction p 7) [\<lparr>ptx = ex_payment, ptx_entries = [ex_spent_entry]\<rparr>, \<lparr>ptx = ex_coinbase, ptx_entries = []\<rparr>]
       \<lparr>diff_add = [], diff_remove = []\<rparr> = Ok d2 \<and>
     compose_get ex_utxo_base (Direct d2) = compose_get ex_utxo_base (Direct d1)"
proof -
  let ?d = "\<lparr>diff_add = [], diff_remove = []\<rparr>" and ?ps = "[\<lparr>ptx = ex_coinbase, ptx_entries = []\<rparr>, \<lparr>ptx = ex_payment, ptx_entries = [ex_spent_entry]\<rparr>]"
  have v: "compose_get ex_utxo_base (Direct ?d) = ex_utxo_base" by (simp add: compose_get_def fun_eq_iff hm_get_def hm_contains_key_def)
  have "populated_inputs \<lparr>ptx = ex_payment, ptx_entries = [ex_spent_entry]\<rparr> = [(tx_inputs ex_payment ! 0, ex_spent_entry)]"
      "previous_outpoint (tx_inputs ex_payment ! 0) = \<lparr>transaction_id = Hash [], outpoint_index = 0\<rparr>"
      "populated_inputs \<lparr>ptx = ex_coinbase, ptx_entries = []\<rparr> = []"
    by (simp_all add: populated_inputs_def ex_payment_def ex_contract_tx_def ex_coinbase_def)
  then have r: "ready ex_utxo_base (compose_get ex_utxo_base (Direct ?d)) ?ps"
    unfolding v by (simp add: ready_def ex_outpoints ex_utxo_base_def)
  have wf: "\<forall>p\<in>set ?ps. populated_wf p" by (simp add: populated_wf_def ex_coinbase_def ex_payment_def ex_contract_tx_def)
  have a: "applies ex_utxo_base (Direct ?d)" by (simp add: applies_def diff_inv_def applies_at_def hm_get_def hm_inv_def)
  have l: "\<forall>tx\<in>set (block_transactions ex_block). length (tx_outputs tx) \<le> 2 ^ 32"
    by (simp add: ex_block_def ex_coinbase_def ex_payment_def ex_contract_tx_def)
  have t: "map ptx ?ps = block_transactions ex_block" by (simp add: ex_block_def)
  obtain m where m: "validate_body_in_isolation ex_body_processor ex_block = Ok m" using ex_block_Ok by blast
  show ?thesis
    using body_order_irrelevant [OF m l t wf a r, of "rev ?ps" 7] by auto
qed

end
