(* ===== verification/Work.thy ===== *)
theory Work
  imports Uint_Codec Uint_Div Ghostdag_Data
begin

text \<open>
  The work of a block: \<open>calc_work\<close> and \<open>level_work\<close> of
  src/consensus/src/processes/difficulty.rs, on the limb integers. \<open>BlueWorkType\<close> is \<open>Uint192\<close>;
  the sums and comparisons of blue work are those of 192-bit words, and \<open>blue_work_of\<close> reads three limbs as one.
\<close>

definition MAX_WORK_LEVEL :: nat where "MAX_WORK_LEVEL = 128"

definition blue_work_of :: "limbs \<Rightarrow> blue_work_type" where
  "blue_work_of x = of_nat (uval x)"

text \<open>\<open>!target / (target + 1) + 1\<close> and the conversion to 192 bits, whose \<open>expect\<close> panics. The
  additions are those of \<open>Uint256\<close>, which wrap.\<close>

definition calc_work :: "u32 \<Rightarrow> ('e, blue_work_type) outcome" where
  "calc_work bits =
     (let target = from_compact_target_bits bits in
      obind (div_rem (uint_not target) (uint_add_u64 target 1)) (\<lambda>(q, r).
      case uint192_try_from_uint256 (uint_add_u64 q 1) of Ok w \<Rightarrow> Ok (blue_work_of w) | _ \<Rightarrow> Panic))"

definition level_work :: "u8 \<Rightarrow> u8 \<Rightarrow> blue_work_type" where
  "level_work level max_block_level =
     (if level = 0 then 0
      else blue_work_of (uint_shl (uint_from_u64 3 1) (min (unat level + 256 - unat max_block_level) MAX_WORK_LEVEL)))"

section \<open>The value of the work\<close>

lemma uval_uint_not: "uval (uint_not x) + uval x + 1 = 2 ^ (64 * length x)"
proof (induction x)
  case (Cons a x)
  have "NOT a = - 1 - a" by (simp add: not_eq_complement)
  then have a: "unat (NOT a) = 2 ^ 64 - 1 - unat a" by (simp add: unat_sub unat_max_word)
  have "unat a \<le> 2 ^ 64 - 1" using unat_less_exp [of a] by simp
  then show ?case using Cons by (simp add: uint_not_def a power_add algebra_simps)
qed (simp add: uint_not_def)

lemma length_from_compact_target_bits [simp]: "length (from_compact_target_bits bits) = 4"
  by (simp add: from_compact_target_bits_def uint_ZERO_def uint_from_u64_def Let_def split: prod.splits)

lemma uint_shl_mod: "uint_shl x s = uint_shl x (s mod (64 * length x))"
  by (simp add: uint_shl_def overflowing_shl_def uint_BITS_def Let_def)

text \<open>A decoded target never has all its bits set, so \<open>target + 1\<close> does not wrap.\<close>

lemma compact_target_not_max: "uval (from_compact_target_bits bits) + 1 < 2 ^ 256"
proof -
  have "uval (uint_shl (uint_from_u64 4 (ucast (v :: u32))) s) + 1 < 2 ^ 256" for v s
  proof -
    let ?x = "uint_from_u64 4 (ucast v :: u64)" and ?s = "s mod 256"
    have x: "length ?x = 4" "uval ?x = unat v" by (simp_all add: uval_from_u64 unat_ucast_up) (simp add: uint_from_u64_def uint_ZERO_def)
    have e: "uint_shl ?x s = uint_shl ?x ?s" using uint_shl_mod [of ?x s] x(1) by simp
    have "uval (uint_shl ?x s) = unat v * 2 ^ ?s mod 2 ^ 256" unfolding e using uval_uint_shl [of ?s ?x] x by simp
    moreover have "unat v * 2 ^ ?s mod 2 ^ 256 + 1 < 2 ^ 256"
    proof (cases "?s = 0")
      case True
      then show ?thesis using unat_less_exp [of v] by simp
    next
      case False
      then obtain n where "?s = Suc n" by (cases ?s) auto
      then have "even (unat v * 2 ^ ?s mod 2 ^ 256)" by (simp add: dvd_mod)
      then have "unat v * 2 ^ ?s mod 2 ^ 256 \<noteq> 2 ^ 256 - 1" by auto
      moreover have "a \<noteq> n - 1 \<Longrightarrow> a < n \<Longrightarrow> a + 1 < n" for a n :: nat by arith
      ultimately show ?thesis by (metis mod_less_divisor zero_less_numeral zero_less_power)
    qed
    ultimately show ?thesis by simp
  qed
  then show ?thesis by (simp add: from_compact_target_bits_def uint_ZERO_def Let_def split: prod.splits)
qed

lemma uint192_try_from_uint256_uval:
  assumes "length v = 4"
  shows "uint192_try_from_uint256 v = (if uval v < 2 ^ 192 then Ok (take 3 v) else Err ())"
    and "uval v < 2 ^ 192 \<Longrightarrow> uval (take 3 v) = uval v"
proof -
  have v: "uval v = uval (take 3 v) + 2 ^ 192 * unat (v ! 3)"
    using uval_take_Suc [of 3 v] assms by simp
  have "uval (take 3 v) < 2 ^ 192" using uval_bound [of "take 3 v"] assms by simp
  moreover have "2 ^ 192 \<le> uval v" if "v ! 3 \<noteq> 0"
  proof -
    have "1 \<le> unat (v ! 3)" using that by (simp add: Suc_le_eq unat_gt_0)
    then show ?thesis unfolding v by simp
  qed
  ultimately have z: "uval v < 2 ^ 192 \<longleftrightarrow> v ! 3 = 0" by (cases "v ! 3 = 0") (simp_all only: v not_less, simp_all)
  then show "uint192_try_from_uint256 v = (if uval v < 2 ^ 192 then Ok (take 3 v) else Err ())"
    by (simp add: uint192_try_from_uint256_def)
  show "uval v < 2 ^ 192 \<Longrightarrow> uval (take 3 v) = uval v" using v z by simp
qed

lemma uint_add_u64_wraps:
  assumes "x \<noteq> []"
  shows "length (uint_add_u64 x v) = length x" "uval (uint_add_u64 x v) = (uval x + unat v) mod 2 ^ (64 * length x)"
proof -
  obtain z c where z: "overflowing_add_u64 x v = (z, c)" by force
  note zc = overflowing_add_u64_uval [OF assms(1) z]
  show "length (uint_add_u64 x v) = length x" by (simp add: uint_add_u64_def z zc(1))
  have "uval z < 2 ^ (64 * length x)" using uval_bound [of z] zc(1) by simp
  from carry_unique(1) [OF this zc(2)] show "uval (uint_add_u64 x v) = (uval x + unat v) mod 2 ^ (64 * length x)"
    by (simp add: uint_add_u64_def z)
qed

lemma div_complement_Suc: "(m - 1 - t) div (t + 1) + 1 = m div (t + 1)" if "t + 1 \<le> m" for m t :: nat
  using that by (metis Suc_eq_plus1 add.commute diff_diff_left le_div_geq zero_less_Suc plus_1_eq_Suc)

definition work_value :: "u32 \<Rightarrow> nat" where
  "work_value bits = 2 ^ 256 div (uval (from_compact_target_bits bits) + 1)"

lemma calc_work_wrapped:
  "calc_work bits = (if work_value bits mod 2 ^ 256 < 2 ^ 192 then Ok (of_nat (work_value bits mod 2 ^ 256)) else Panic)"
proof -
  let ?x = "from_compact_target_bits bits"
  define t where "t = uval ?x"
  have t: "t + 1 < 2 ^ 256" unfolding t_def by (rule compact_target_not_max)
  have x: "?x \<noteq> []" "length ?x = 4" by (simp_all flip: length_greater_0_conv)
  have y: "length (uint_add_u64 ?x 1) = 4" "uval (uint_add_u64 ?x 1) = t + 1"
    using uint_add_u64_wraps [OF x(1), of 1] t by (simp_all add: t_def)
  have n: "length (uint_not ?x) = 4" "uval (uint_not ?x) = 2 ^ 256 - 1 - t"
    using uval_uint_not [of ?x] by (simp_all add: t_def uint_not_def)
  obtain q r where q: "div_rem (uint_not ?x) (uint_add_u64 ?x 1) = (Ok (q, r) :: ('a, _) outcome)" "length q = 4"
      "uval q = (2 ^ 256 - 1 - t) div (t + 1)"
    using div_rem_correct [of "uint_not ?x" "uint_add_u64 ?x 1"] unfolding n y by auto
  have q1: "uval q + 1 = 2 ^ 256 div (t + 1)" unfolding q(3) by (rule div_complement_Suc) (use t in simp)
  have "q \<noteq> []" using q(2) by auto
  from uint_add_u64_wraps [OF this, of 1] q1 q(2)
  have z: "length (uint_add_u64 q 1) = 4" "uval (uint_add_u64 q 1) = 2 ^ 256 div (t + 1) mod 2 ^ 256" by simp_all
  show ?thesis unfolding calc_work_def Let_def q(1)
    using z(2) uint192_try_from_uint256_uval(2) [OF z(1)]
    by (simp add: work_value_def t_def [symmetric] blue_work_of_def uint192_try_from_uint256_uval(1) [OF z(1)])
qed

lemma work_value_bound: "uval (from_compact_target_bits bits) \<noteq> 0 \<Longrightarrow> work_value bits < 2 ^ 256"
  unfolding work_value_def by (intro div_less_dividend) simp_all

lemma calc_work_Ok:
  "uval (from_compact_target_bits bits) \<noteq> 0 \<Longrightarrow> work_value bits < 2 ^ 192 \<Longrightarrow> calc_work bits = Ok (of_nat (work_value bits))"
  using work_value_bound [of bits] by (simp add: calc_work_wrapped)

text \<open>C31: the work of a block. For a non-zero target \<open>calc_work\<close> returns exactly
  \<open>2\<^sup>2\<^sup>5\<^sup>6 / (target + 1)\<close>, which its arithmetic computes without representing \<open>2\<^sup>2\<^sup>5\<^sup>6\<close>, and panics exactly
  when that does not fit in 192 bits; the zero target, which the last addition wraps on, has work zero.\<close>

theorem calc_work_exact:
  "calc_work bits =
     (let t = uval (from_compact_target_bits bits) in
      if t = 0 then Ok 0 else if 2 ^ 256 div (t + 1) < 2 ^ 192 then Ok (of_nat (2 ^ 256 div (t + 1)))
      else Panic)"
  using work_value_bound [of bits]
  by (cases "uval (from_compact_target_bits bits) = 0") (simp_all add: calc_work_wrapped work_value_def)
end
