(* ===== verification/Ghostdag.thy ===== *)
theory Ghostdag
  imports Work
begin

text \<open>
  The GHOSTDAG protocol: \<open>GhostdagManager\<close> of src/consensus/src/processes/ghostdag/protocol.rs with the
  mergeset search of mergeset.rs and the block order of ordering.rs. The manager holds its four readers as the
  struct does: the stores are maps whose missing key makes the \<open>unwrap\<close> panic, and
  \<open>is_dag_ancestor_of\<close> of the reachability service is a function, the type parameter \<open>U\<close> of the source.

  Three loops of the code have no bound of their own (the mergeset queue and the two walks down the selected chain).
  They are partial functions to \<open>outcome option\<close>, where \<^const>\<open>None\<close> is not returning.
\<close>

section \<open>Computations that may not return\<close>

definition dbind :: "('e, 'a) outcome option \<Rightarrow> ('a \<Rightarrow> ('e, 'b) outcome option) \<Rightarrow> ('e, 'b) outcome option" where
  "dbind m f = (case m of None \<Rightarrow> None | Some (Ok x) \<Rightarrow> f x | Some (Err e) \<Rightarrow> Some (Err e) | Some Panic \<Rightarrow> Some Panic)"

lemma dbind_simps [simp]:
  "dbind None f = None" "dbind (Some (Ok x)) f = f x" "dbind (Some (Err e)) f = Some (Err e)"
  "dbind (Some Panic) f = Some Panic"
  by (simp_all add: dbind_def)

lemma dbind_assoc: "dbind (dbind m f) g = dbind m (\<lambda>x. dbind (f x) g)"
  by (simp add: dbind_def split: option.splits outcome.splits)

lemma dbind_mono [partial_function_mono]:
  fixes m :: "('i \<Rightarrow> 'j option) \<Rightarrow> ('e, 'a) outcome option"
  assumes "mono_option m" and "\<And>x. mono_option (\<lambda>f. g x f)"
  shows "mono_option (\<lambda>f. dbind (m f) (\<lambda>x. g x f))"
proof (rule monotoneI)
  fix f h :: "'i \<Rightarrow> 'j option"
  assume le: "option.le_fun f h"
  have "option_ord (m f) (m h)" by (rule monotoneD [OF assms(1)]) (rule le)
  moreover have "option_ord (g x f) (g x h)" for x by (rule monotoneD [OF assms(2)]) (rule le)
  ultimately show "option_ord (dbind (m f) (\<lambda>x. g x f)) (dbind (m h) (\<lambda>x. g x h))"
    by (cases "m f"; cases "m h") (auto simp: flat_ord_def dbind_def split: outcome.splits)
qed

primrec dfold :: "('a \<Rightarrow> 's \<Rightarrow> ('e, 's) outcome option) \<Rightarrow> 'a list \<Rightarrow> 's \<Rightarrow> ('e, 's) outcome option" where
  "dfold f [] s = Some (Ok s)"
| "dfold f (x # xs) s = dbind (f x s) (dfold f xs)"

text \<open>The loop rule, with an invariant of the prefix already processed.\<close>

lemma dfold_invariant:
  assumes "I [] s" and "\<And>ys y zs s. xs = ys @ y # zs \<Longrightarrow> I ys s \<Longrightarrow> \<exists>t. f y s = Some (Ok t) \<and> I (ys @ [y]) t"
  shows "\<exists>t. dfold f xs s = Some (Ok t) \<and> I xs t"
proof -
  have "\<exists>t. dfold f zs s = Some (Ok t) \<and> I (ys @ zs) t" if "xs = ys @ zs" "I ys s" for ys zs s
    using that
  proof (induction zs arbitrary: ys s)
    case (Cons z zs)
    obtain t where "f z s = Some (Ok t)" "I (ys @ [z]) t" using assms(2) Cons.prems by blast
    then show ?case using Cons.IH [of "ys @ [z]" t] Cons.prems(1) by simp
  qed simp
  from this [of "[]" xs s] assms(1) show ?thesis by simp
qed

section \<open>The manager\<close>

record ghostdag_manager =
  genesis_hash :: hash
  gd_k :: k_type
  ghostdag_store :: "hash \<rightharpoonup> ghostdag_data"
  relations_store :: "hash \<rightharpoonup> hash list"
  headers_bits :: "hash \<rightharpoonup> u32"
  is_dag_ancestor_of :: "hash \<Rightarrow> hash \<Rightarrow> bool"
  gd_level_work :: blue_work_type

definition get_sortable_block :: "ghostdag_manager \<Rightarrow> hash \<Rightarrow> ('e, sortable_block) outcome" where
  "get_sortable_block m block = obind (unwrap (ghostdag_store m block)) (\<lambda>d. Ok (SortableBlock block (blue_work d)))"

definition find_selected_parent :: "ghostdag_manager \<Rightarrow> hash list \<Rightarrow> ('e, hash) outcome" where
  "find_selected_parent m parents = obind (omap (get_sortable_block m) parents) (\<lambda>bs.
     case bs of [] \<Rightarrow> Panic | b # bs \<Rightarrow> Ok (sb_hash (fold max bs b)))"

definition sort_blocks :: "ghostdag_manager \<Rightarrow> hash list \<Rightarrow> ('e, hash list) outcome" where
  "sort_blocks m blocks = obind (omap (get_sortable_block m) blocks) (\<lambda>bs. Ok (map sb_hash (sort bs)))"

section \<open>The mergeset\<close>

text \<open>One iteration of the loop over the parents of the current block: the state is the mergeset, the known past of
  the selected parent and the queue.\<close>

definition visit_parent :: "ghostdag_manager \<Rightarrow> hash \<Rightarrow> hash \<Rightarrow> hash list \<times> hash list \<times> hash list
    \<Rightarrow> hash list \<times> hash list \<times> hash list" where
  "visit_parent m sp parent = (\<lambda>(mergeset, past, queue).
     if parent \<in> set mergeset \<or> parent \<in> set past then (mergeset, past, queue)
     else if is_dag_ancestor_of m parent sp then (mergeset, past @ [parent], queue)
     else (mergeset @ [parent], past, queue @ [parent]))"

partial_function (option) mergeset_loop :: "ghostdag_manager \<Rightarrow> hash \<Rightarrow> hash list \<Rightarrow> hash list \<Rightarrow> hash list
    \<Rightarrow> ('e, hash list) outcome option" where
  "mergeset_loop m sp mergeset past queue =
     (case queue of
        [] \<Rightarrow> Some (Ok mergeset)
      | current # rest \<Rightarrow> (case relations_store m current of
            None \<Rightarrow> Some Panic
          | Some ps \<Rightarrow> (case fold (visit_parent m sp) ps (mergeset, past, rest) of (mergeset', past', queue') \<Rightarrow>
              mergeset_loop m sp mergeset' past' queue')))"

definition unordered_mergeset_without_selected_parent :: "ghostdag_manager \<Rightarrow> hash \<Rightarrow> hash list
    \<Rightarrow> ('e, hash list) outcome option" where
  "unordered_mergeset_without_selected_parent m sp parents =
     (let queue = filter (\<lambda>p. p \<noteq> sp) parents in mergeset_loop m sp (remdups queue) [] queue)"

definition ordered_mergeset_without_selected_parent :: "ghostdag_manager \<Rightarrow> hash \<Rightarrow> hash list
    \<Rightarrow> ('e, hash list) outcome option" where
  "ordered_mergeset_without_selected_parent m sp parents =
     dbind (unordered_mergeset_without_selected_parent m sp parents) (\<lambda>ms. Some (sort_blocks m ms))"

section \<open>Colouring\<close>

datatype coloring_state = StateBlue | StateRed | Pending

datatype coloring_output = OutputBlue k_type "(hash, k_type) hmap" | OutputRed

partial_function (option) blue_anticone_size_loop :: "ghostdag_manager \<Rightarrow> hash \<Rightarrow> (hash, k_type) hmap \<Rightarrow> hash
    \<Rightarrow> ('e, k_type) outcome option" where
  "blue_anticone_size_loop m block sizes sp =
     (case hm_get sizes block of
        Some s \<Rightarrow> Some (Ok s)
      | None \<Rightarrow> if sp = genesis_hash m \<or> sp = ORIGIN then Some Panic
          else (case ghostdag_store m sp of
              None \<Rightarrow> Some Panic
            | Some d \<Rightarrow> blue_anticone_size_loop m block (blues_anticone_sizes d) (selected_parent d)))"

definition blue_anticone_size :: "ghostdag_manager \<Rightarrow> hash \<Rightarrow> ghostdag_data \<Rightarrow> ('e, k_type) outcome option" where
  "blue_anticone_size m block context =
     blue_anticone_size_loop m block (blues_anticone_sizes context) (selected_parent context)"

text \<open>The loop over the blue peers of a chain block. The two \<open>mut\<close> arguments of the source, the sizes and
  the count of the candidate, are threaded through.\<close>

primrec check_peers :: "ghostdag_manager \<Rightarrow> ghostdag_data \<Rightarrow> hash \<Rightarrow> k_type \<Rightarrow> hash list \<Rightarrow> (hash, k_type) hmap \<Rightarrow> k_type
    \<Rightarrow> ('e, coloring_state \<times> (hash, k_type) hmap \<times> k_type) outcome option" where
  "check_peers m new_block_data candidate k [] sizes n = Some (Ok (Pending, sizes, n))"
| "check_peers m new_block_data candidate k (peer # peers) sizes n =
     (if is_dag_ancestor_of m peer candidate then check_peers m new_block_data candidate k peers sizes n
      else dbind (blue_anticone_size m peer new_block_data) (\<lambda>peer_size.
           dbind (Some (padd n 1)) (\<lambda>n'.
             let sizes' = hm_insert peer peer_size sizes in
             if n' > k then Some (Ok (StateRed, sizes', n'))
             else if peer_size = k then Some (Ok (StateRed, sizes', n'))
             else if \<not> peer_size \<le> k then Some Panic
             else check_peers m new_block_data candidate k peers sizes' n')))"

definition check_blue_candidate_with_chain_block :: "ghostdag_manager \<Rightarrow> ghostdag_data \<Rightarrow> hash option \<Rightarrow> ghostdag_data
    \<Rightarrow> hash \<Rightarrow> k_type \<Rightarrow> (hash, k_type) hmap \<Rightarrow> k_type
    \<Rightarrow> ('e, coloring_state \<times> (hash, k_type) hmap \<times> k_type) outcome option" where
  "check_blue_candidate_with_chain_block m new_block_data chain_hash chain_data candidate k sizes n =
     (if (case chain_hash of None \<Rightarrow> False | Some h \<Rightarrow> is_dag_ancestor_of m h candidate)
      then Some (Ok (StateBlue, sizes, n))
      else check_peers m new_block_data candidate k (mergeset_blues chain_data) sizes n)"

partial_function (option) check_blue_candidate_loop :: "ghostdag_manager \<Rightarrow> ghostdag_data \<Rightarrow> hash \<Rightarrow> k_type
    \<Rightarrow> hash option \<Rightarrow> ghostdag_data \<Rightarrow> (hash, k_type) hmap \<Rightarrow> k_type \<Rightarrow> ('e, coloring_output) outcome option" where
  "check_blue_candidate_loop m new_block_data candidate k chain_hash chain_data sizes n =
     dbind (check_blue_candidate_with_chain_block m new_block_data chain_hash chain_data candidate k sizes n)
       (\<lambda>(state, sizes', n').
         (case state of
            StateBlue \<Rightarrow> Some (Ok (OutputBlue n' sizes'))
          | StateRed \<Rightarrow> Some (Ok OutputRed)
          | Pending \<Rightarrow> (case ghostdag_store m (selected_parent chain_data) of
                None \<Rightarrow> Some Panic
              | Some d \<Rightarrow> check_blue_candidate_loop m new_block_data candidate k (Some (selected_parent chain_data)) d
                  sizes' n')))"

definition check_blue_candidate :: "ghostdag_manager \<Rightarrow> ghostdag_data \<Rightarrow> hash \<Rightarrow> k_type
    \<Rightarrow> ('e, coloring_output) outcome option" where
  "check_blue_candidate m new_block_data candidate k =
     dbind (Some (padd k 1)) (\<lambda>k1.
       if of_nat (length (mergeset_blues new_block_data)) = k1 then Some (Ok OutputRed)
       else check_blue_candidate_loop m new_block_data candidate k None new_block_data [] 0)"

definition colour_step :: "ghostdag_manager \<Rightarrow> hash \<Rightarrow> ghostdag_data \<Rightarrow> ('e, ghostdag_data) outcome option" where
  "colour_step m candidate new_block_data =
     dbind (check_blue_candidate m new_block_data candidate (gd_k m)) (\<lambda>out.
       case out of
         OutputBlue n sizes \<Rightarrow> Some (add_blue candidate n sizes new_block_data)
       | OutputRed \<Rightarrow> Some (Ok (add_red candidate new_block_data)))"

section \<open>The protocol\<close>

definition block_work :: "ghostdag_manager \<Rightarrow> hash \<Rightarrow> ('e, blue_work_type) outcome" where
  "block_work m block =
     obind (unwrap (headers_bits m block)) (\<lambda>bits. obind (calc_work bits) (\<lambda>w. Ok (max w (gd_level_work m))))"

definition finalize_data :: "ghostdag_manager \<Rightarrow> hash \<Rightarrow> ghostdag_data \<Rightarrow> ('e, ghostdag_data) outcome" where
  "finalize_data m sp new_block_data =
     obind (unwrap (ghostdag_store m sp)) (\<lambda>sp_data.
     obind (padd (blue_score sp_data) (of_nat (length (mergeset_blues new_block_data)))) (\<lambda>score.
     obind (omap (block_work m) (mergeset_blues new_block_data)) (\<lambda>works.
     Ok (finalize_score_and_work score (blue_work sp_data + sum_list works) new_block_data))))"

definition ghostdag :: "ghostdag_manager \<Rightarrow> hash list \<Rightarrow> ('e, ghostdag_data) outcome option" where
  "ghostdag m parents =
     (if parents = [] then Some Panic
      else dbind (Some (find_selected_parent m parents)) (\<lambda>sp.
        if is_origin sp then Some (new_with_selected_parent sp 1)
        else dbind (Some (new_with_selected_parent sp (gd_k m))) (\<lambda>new_block_data.
          dbind (ordered_mergeset_without_selected_parent m sp parents) (\<lambda>ordered_mergeset.
          dbind (dfold (colour_step m) ordered_mergeset new_block_data) (\<lambda>new_block_data.
          Some (finalize_data m sp new_block_data))))))"

end
