(* ===== verification/Window.thy ===== *)
theory Window
  imports Rule_Error Ghostdag
begin

text \<open>
  Sampled block windows: src/consensus/src/processes/window.rs, with the heap of
  src/consensus/src/model/stores/block_window_cache.rs, the mergeset iterators of
  src/consensus/src/model/stores/ghostdag.rs and the DAA score of src/consensus/src/processes/difficulty.rs.

  A \<open>BinaryHeap\<close> of reversed blocks is its ascending list: the head is what \<open>peek\<close> and \<open>pop\<close> give. An
  iterator whose items may panic when they are computed is the list of the outcomes of its items, so that a consumer that stops early does not
  see a later panic. A window cache may hold an entry or not, so it is a partial map.
\<close>

section \<open>Heaps\<close>

type_synonym block_window_heap = "sortable_block list"

record bounded_size_block_heap =
  binary_heap :: block_window_heap
  size_bound :: nat

definition reached_size_bound :: "bounded_size_block_heap \<Rightarrow> bool" where
  "reached_size_bound h \<longleftrightarrow> length (binary_heap h) = size_bound h"

definition can_push :: "hash \<Rightarrow> blue_work_type \<Rightarrow> bounded_size_block_heap \<Rightarrow> ('e, bool) outcome" where
  "can_push hash work h =
     (if reached_size_bound h then (case binary_heap h of [] \<Rightarrow> Panic | least # _ \<Rightarrow> Ok (least \<le> SortableBlock hash work)) else Ok True)"

definition try_push :: "hash \<Rightarrow> blue_work_type \<Rightarrow> bounded_size_block_heap \<Rightarrow> bool \<times> bounded_size_block_heap" where
  "try_push hash work h =
     (let b = SortableBlock hash work in
      if reached_size_bound h then
        (case binary_heap h of
           least # rest \<Rightarrow> if b < least then (False, h) else (True, h\<lparr>binary_heap := insort b rest\<rparr>)
         | [] \<Rightarrow> (True, h\<lparr>binary_heap := [b]\<rparr>))
      else (True, h\<lparr>binary_heap := insort b (binary_heap h)\<rparr>))"

text \<open>\<open>append\<close>, then one \<open>pop\<close> for each block above the bound.\<close>

definition merge_ancestor_heap :: "block_window_heap \<Rightarrow> bounded_size_block_heap \<Rightarrow> bounded_size_block_heap" where
  "merge_ancestor_heap ancestor h =
     (let blocks = sort (binary_heap h @ ancestor) in h\<lparr>binary_heap := drop (length blocks - size_bound h) blocks\<rparr>)"

section \<open>The manager\<close>

datatype window_type = DifficultyWindow | MedianTimeWindow | VaryingWindow nat

datatype sampled_block = Sampled sortable_block | NonDaa hash

record difficulty_manager =
  dm_headers_store :: "hash \<rightharpoonup> header"
  dm_genesis_hash :: hash
  dm_genesis_bits :: u32
  max_difficulty_target :: limbs
  dm_window_size :: nat
  dm_min_window_size :: nat
  dm_sample_rate :: u64
  dm_target_time_per_block :: u64

record window_manager =
  wm_genesis_hash :: hash
  wm_ghostdag_store :: "hash \<rightharpoonup> ghostdag_data"
  wm_headers_store :: "hash \<rightharpoonup> header"
  cache_for_difficulty :: "hash \<rightharpoonup> block_window_heap"
  cache_for_past_median_time :: "hash \<rightharpoonup> block_window_heap"
  difficulty_window_size :: nat
  difficulty_sample_rate :: u64
  past_median_time_window_size :: nat
  past_median_time_sample_rate :: u64
  difficulty_manager_of :: difficulty_manager

definition window_size :: "window_manager \<Rightarrow> window_type \<Rightarrow> nat" where
  "window_size m t = (case t of DifficultyWindow \<Rightarrow> difficulty_window_size m
     | MedianTimeWindow \<Rightarrow> past_median_time_window_size m | VaryingWindow n \<Rightarrow> n)"

definition sample_rate :: "window_manager \<Rightarrow> window_type \<Rightarrow> u64" where
  "sample_rate m t = (case t of DifficultyWindow \<Rightarrow> difficulty_sample_rate m
     | MedianTimeWindow \<Rightarrow> past_median_time_sample_rate m | VaryingWindow _ \<Rightarrow> 1)"

definition window_cache :: "window_manager \<Rightarrow> window_type \<Rightarrow> hash \<rightharpoonup> block_window_heap" where
  "window_cache m t = (case t of DifficultyWindow \<Rightarrow> cache_for_difficulty m
     | MedianTimeWindow \<Rightarrow> cache_for_past_median_time m | VaryingWindow _ \<Rightarrow> Map.empty)"

definition difficulty_full_window_size :: "difficulty_manager \<Rightarrow> ('e, u64) outcome" where
  "difficulty_full_window_size dm = pmul (of_nat (dm_window_size dm)) (dm_sample_rate dm)"

definition lowest_daa_blue_score :: "difficulty_manager \<Rightarrow> ghostdag_data \<Rightarrow> ('e, u64) outcome" where
  "lowest_daa_blue_score dm d = obind (difficulty_full_window_size dm) (\<lambda>full. psub (max (blue_score d) full) full)"

definition calc_daa_score :: "difficulty_manager \<Rightarrow> ghostdag_data \<Rightarrow> hash list \<Rightarrow> ('e, u64) outcome" where
  "calc_daa_score dm d mergeset_non_daa =
     obind (unwrap (dm_headers_store dm (selected_parent d))) (\<lambda>sp.
       if mergeset_size d < length mergeset_non_daa then Panic
       else padd (hdr_daa_score sp) (of_nat (mergeset_size d - length mergeset_non_daa)))"

section \<open>The mergeset in descending order\<close>

definition sortable_item :: "(hash \<rightharpoonup> ghostdag_data) \<Rightarrow> hash \<Rightarrow> ('e, sortable_block) outcome" where
  "sortable_item store h = obind (unwrap (store h)) (\<lambda>d. Ok (SortableBlock h (blue_work d)))"

text \<open>\<open>merge_join_by\<close> of two descending iterators; equal items panic.\<close>

fun merge_desc :: "('e, sortable_block) outcome list \<Rightarrow> ('e, sortable_block) outcome list \<Rightarrow> ('e, sortable_block) outcome list" where
  "merge_desc [] ys = ys"
| "merge_desc xs [] = xs"
| "merge_desc (Ok x # xs) (Ok y # ys) =
     (if y < x then Ok x # merge_desc xs (Ok y # ys) else if x < y then Ok y # merge_desc (Ok x # xs) ys else [Panic])"
| "merge_desc _ _ = [Panic]"

definition descending_mergeset_without_selected_parent :: "(hash \<rightharpoonup> ghostdag_data) \<Rightarrow> ghostdag_data \<Rightarrow> ('e, sortable_block) outcome list" where
  "descending_mergeset_without_selected_parent store d =
     merge_desc (map (sortable_item store) (rev (drop 1 (mergeset_blues d)))) (map (sortable_item store) (rev (mergeset_reds d)))"

text \<open>The closure of \<open>filter_map\<close>, with its counter.\<close>

fun sample_items :: "window_manager \<Rightarrow> u64 \<Rightarrow> u64 \<Rightarrow> u64 \<Rightarrow> u64 \<Rightarrow> ('e, sortable_block) outcome list \<Rightarrow> ('e, sampled_block) outcome list" where
  "sample_items m rate sp_daa_score threshold index (Ok block # items) =
     (case wm_ghostdag_store m (sb_hash block) of
        None \<Rightarrow> [Panic]
      | Some d \<Rightarrow>
          if blue_score d < threshold then Ok (NonDaa (sb_hash block)) # sample_items m rate sp_daa_score threshold index items
          else (case (padd index 1 :: ('e, u64) outcome) of
              Ok index' \<Rightarrow> (case (padd sp_daa_score index' :: ('e, u64) outcome) of
                  Ok score \<Rightarrow> if score mod rate = 0 then Ok (Sampled block) # sample_items m rate sp_daa_score threshold index' items
                    else sample_items m rate sp_daa_score threshold index' items
                | _ \<Rightarrow> [Panic])
            | _ \<Rightarrow> [Panic]))"
| "sample_items m rate sp_daa_score threshold index [] = []"
| "sample_items m rate sp_daa_score threshold index _ = [Panic]"

definition sampled_mergeset :: "window_manager \<Rightarrow> u64 \<Rightarrow> ghostdag_data \<Rightarrow> blue_work_type \<Rightarrow> ('e, ('e, sampled_block) outcome list) outcome" where
  "sampled_mergeset m rate d sp_blue_work =
     obind (unwrap (wm_headers_store m (selected_parent d))) (\<lambda>sp.
     obind (lowest_daa_blue_score (difficulty_manager_of m) d) (\<lambda>threshold.
     Ok (sample_items m rate (hdr_daa_score sp) threshold 0
       (Ok (SortableBlock (selected_parent d) sp_blue_work) # descending_mergeset_without_selected_parent (wm_ghostdag_store m) d))))"

section \<open>Building a window\<close>

text \<open>The two loops of \<open>push_mergeset\<close>: with an inserter for the non-DAA blocks, and without one, where the first block that
  does not fit ends the loop.\<close>

fun push_all :: "('e, sampled_block) outcome list \<Rightarrow> bounded_size_block_heap \<Rightarrow> hash list \<Rightarrow> ('e, bounded_size_block_heap \<times> hash list) outcome" where
  "push_all [] h non_daa = Ok (h, non_daa)"
| "push_all (Ok (Sampled b) # items) h non_daa = push_all items (snd (try_push (sb_hash b) (sb_blue_work b) h)) non_daa"
| "push_all (Ok (NonDaa x) # items) h non_daa = push_all items h (List.insert x non_daa)"
| "push_all (Err e # items) h non_daa = Err e"
| "push_all (Panic # items) h non_daa = Panic"

fun push_while :: "('e, sampled_block) outcome list \<Rightarrow> bounded_size_block_heap \<Rightarrow> ('e, bounded_size_block_heap) outcome" where
  "push_while [] h = Ok h"
| "push_while (Ok (Sampled b) # items) h =
     (case try_push (sb_hash b) (sb_blue_work b) h of (pushed, h') \<Rightarrow> if pushed then push_while items h' else Ok h')"
| "push_while (Ok (NonDaa x) # items) h = push_while items h"
| "push_while (Err e # items) h = Err e"
| "push_while (Panic # items) h = Panic"

text \<open>The loop down the selected chain.\<close>

partial_function (option) window_loop :: "window_manager \<Rightarrow> u64 \<Rightarrow> (hash \<rightharpoonup> block_window_heap) \<Rightarrow> ghostdag_data \<Rightarrow> bounded_size_block_heap
    \<Rightarrow> bounded_size_block_heap block_process_result option" where
  "window_loop m rate cache current h =
     (if is_origin (selected_parent current)
      then Some (if reached_size_bound h then Ok h else Err (InsufficientDaaWindowSize (length (binary_heap h))))
      else if selected_parent current = wm_genesis_hash m then Some (Ok h)
      else (case wm_ghostdag_store m (selected_parent current) of
          None \<Rightarrow> Some Panic
        | Some parent \<Rightarrow>
            dbind (Some (can_push (selected_parent current) (blue_work parent) h)) (\<lambda>can.
            if \<not> can then Some (Ok h)
            else dbind (Some (sampled_mergeset m rate current (blue_work parent))) (\<lambda>items.
              dbind (Some (push_while items h)) (\<lambda>h'.
              case cache (selected_parent current) of
                Some window \<Rightarrow> Some (Ok (merge_ancestor_heap window h'))
              | None \<Rightarrow> window_loop m rate cache parent h')))))"

definition build_block_window :: "window_manager \<Rightarrow> ghostdag_data \<Rightarrow> window_type \<Rightarrow> (block_window_heap \<times> hash list) block_process_result option" where
  "build_block_window m d t =
     (let size = window_size m t; rate = sample_rate m t; cache = window_cache m t in
      if size = 0 then Some (Ok ([], []))
      else if selected_parent d = wm_genesis_hash m then Some (Ok ([], [wm_genesis_hash m]))
      else if is_origin (selected_parent d) then Some (Err (InsufficientDaaWindowSize 0))
      else dbind (Some (unwrap (wm_ghostdag_store m (selected_parent d)))) (\<lambda>sp.
        dbind (Some (sampled_mergeset m rate d (blue_work sp))) (\<lambda>items.
        case cache (selected_parent d) of
          Some window \<Rightarrow> dbind (Some (push_all items \<lparr>binary_heap = window, size_bound = size\<rparr> [])) (\<lambda>(h, non_daa). Some (Ok (binary_heap h, non_daa)))
        | None \<Rightarrow> dbind (Some (push_all items \<lparr>binary_heap = [], size_bound = size\<rparr> [])) (\<lambda>(h, non_daa).
            dbind (window_loop m rate cache sp h) (\<lambda>h. Some (Ok (binary_heap h, non_daa)))))))"

end
