(* ===== verification/Window_Heap.thy ===== *)
theory Window_Heap
  imports Window
begin

text \<open>
  The bounded heap of a window holds the highest elements of the blocks pushed into it.
\<close>

definition top_of :: "nat \<Rightarrow> 'a::linorder set \<Rightarrow> 'a list" where
  "top_of n S = (let xs = sorted_list_of_set S in drop (length xs - n) xs)"

lemma top_of_split:
  assumes "finite S"
  shows "sorted_list_of_set S = take (card S - n) (sorted_list_of_set S) @ top_of n S"
  using assms by (simp add: top_of_def Let_def)

lemma top_of_sorted: "sorted_wrt (<) (top_of n S)"
  using sorted_wrt_drop [OF strict_sorted_list_of_set] by (simp add: top_of_def Let_def)

lemma length_top_of: "length (top_of n S) = min n (card S)"
  by (simp add: top_of_def Let_def)

lemma set_top_of: "finite S \<Longrightarrow> set (top_of n S) \<subseteq> S"
  using set_drop_subset [of _ "sorted_list_of_set S"] by (auto simp: top_of_def Let_def)

lemma top_of_all: "finite S \<Longrightarrow> card S \<le> n \<Longrightarrow> top_of n S = sorted_list_of_set S"
  by (simp add: top_of_def)

lemma below_top:
  assumes "finite S" and "x \<in> S" "x \<notin> set (top_of n S)" and "y \<in> set (top_of n S)"
  shows "x < y"
proof -
  have "x \<in> set (take (card S - n) (sorted_list_of_set S))" using top_of_split [OF assms(1), of n] assms(1-3) by (metis Un_iff set_append set_sorted_list_of_set)
  then show ?thesis
    using assms(4) top_of_split [OF assms(1), of n] strict_sorted_list_of_set [of S] by (metis sorted_wrt_append)
qed

lemma top_of_unique:
  assumes "finite S" and "sorted_wrt (<) xs" and "set xs \<subseteq> S" and "length xs = min n (card S)" and "\<And>x y. x \<in> S \<Longrightarrow> x \<notin> set xs \<Longrightarrow> y \<in> set xs \<Longrightarrow> x < y"
  shows "top_of n S = xs"
proof -
  let ?ys = "sorted_list_of_set (S - set xs)"
  have f: "finite (S - set xs)" using assms(1) by simp
  have "sorted_wrt (<) (?ys @ xs)" using assms(2,5) f by (simp add: sorted_wrt_append)
  moreover have "set (?ys @ xs) = S" using assms(3) f by auto
  ultimately have s: "sorted_list_of_set S = ?ys @ xs" by (metis sorted_list_of_set.idem_if_sorted_distinct strict_sorted_iff)
  have "length ?ys = card S - n" using assms(4) arg_cong [OF s, of length] by simp
  then show ?thesis by (simp add: top_of_def s assms(4))
qed

text \<open>Leaving out elements with enough others above them.\<close>

lemma top_of_restrict:
  assumes S: "finite S" "U \<subseteq> S" and above: "\<And>x. x \<in> S \<Longrightarrow> x \<notin> U \<Longrightarrow> n \<le> card {y \<in> U. x < y}"
  shows "top_of n S = top_of n U"
proof (rule top_of_unique [OF S(1) top_of_sorted])
  have U: "finite U" using S finite_subset by blast
  show "set (top_of n U) \<subseteq> S" using set_top_of [OF U] S(2) by blast
  show "length (top_of n U) = min n (card S)"
  proof (cases "U = S")
    case False
    then obtain x where "x \<in> S" "x \<notin> U" using S(2) by blast
    then have "n \<le> card {y \<in> U. x < y}" by (rule above)
    also have "\<dots> \<le> card U" using U by (intro card_mono) auto
    finally show ?thesis using card_mono [OF S] by (simp add: length_top_of)
  qed (simp add: length_top_of)
  fix x y assume x: "x \<in> S" "x \<notin> set (top_of n U)" and y: "y \<in> set (top_of n U)"
  show "x < y"
  proof (cases "x \<in> U")
    case False
    let ?A = "{z \<in> U. x < z}"
    show ?thesis
    proof (rule ccontr)
      assume "\<not> x < y"
      then have "y \<notin> ?A" by simp
      moreover have "?A \<subseteq> set (top_of n U)" using below_top [OF U _ _ y] \<open>\<not> x < y\<close> by fastforce
      ultimately have "card ?A < card (set (top_of n U))" using y by (intro psubset_card_mono) auto
      also have "\<dots> \<le> n" using card_length [of "top_of n U"] by (simp add: length_top_of)
      finally show False using above [OF x(1) False] by simp
    qed
  qed (use below_top [OF U _ x(2) y] in blast)
qed

lemma top_above:
  assumes "finite S" and "x \<in> S" "x \<notin> set (top_of n S)"
  shows "n = card {y \<in> set (top_of n S). x < y}"
proof -
  have "{y \<in> set (top_of n S). x < y} = set (top_of n S)" using below_top [OF assms] by blast
  moreover have "card (set (top_of n S)) = length (top_of n S)" using top_of_sorted [of n S] by (simp add: strict_sorted_iff distinct_card)
  moreover have "n < card S"
  proof (rule ccontr)
    assume "\<not> n < card S"
    then show False using assms top_of_all [OF assms(1), of n] by simp
  qed
  ultimately show ?thesis by (simp add: length_top_of)
qed

lemma top_of_union:
  assumes "finite S" "finite T"
  shows "top_of n (S \<union> T) = top_of n (set (top_of n S) \<union> T)"
proof (rule top_of_restrict)
  show "set (top_of n S) \<union> T \<subseteq> S \<union> T" using set_top_of [OF assms(1)] by blast
  fix x assume "x \<in> S \<union> T" "x \<notin> set (top_of n S) \<union> T"
  then have "n = card {y \<in> set (top_of n S). x < y}" using top_above [OF assms(1)] by blast
  also have "\<dots> \<le> card {y \<in> set (top_of n S) \<union> T. x < y}" using assms(2) by (intro card_mono) auto
  finally show "n \<le> card {y \<in> set (top_of n S) \<union> T. x < y}" .
qed (simp add: assms)

section \<open>The operations of the heap\<close>

definition heap_of :: "nat \<Rightarrow> sortable_block set \<Rightarrow> bounded_size_block_heap" where
  "heap_of n S = \<lparr>binary_heap = top_of n S, size_bound = n\<rparr>"

lemma insort_strict: "sorted_wrt (<) xs \<Longrightarrow> x \<notin> set xs \<Longrightarrow> insort x xs = sorted_list_of_set (insert x (set xs))"
  by (metis List.finite_set insort_key.simps sorted_list_of_set.idem_if_sorted_distinct sorted_list_of_set_insert strict_sorted_iff)

lemma top_of_below:
  assumes S: "finite S" "n \<le> card S" and "\<And>t y. t \<in> T \<Longrightarrow> y \<in> set (top_of n S) \<Longrightarrow> t < y" and "finite T"
  shows "top_of n (S \<union> T) = top_of n S"
proof (rule top_of_restrict)
  fix x assume x: "x \<in> S \<union> T" "x \<notin> S"
  have "card (set (top_of n S)) = n" using top_of_sorted [of n S] S(2) by (simp add: strict_sorted_iff distinct_card length_top_of)
  moreover have "set (top_of n S) \<subseteq> {y \<in> S. x < y}" using set_top_of [OF S(1)] assms(3) x by blast
  ultimately show "n \<le> card {y \<in> S. x < y}" using card_mono [of "{y \<in> S. x < y}" "set (top_of n S)"] S(1) by simp
qed (use S assms(4) in auto)

lemma top_of_replace:
  assumes S: "finite S" "top_of n S = least # rest" "n \<le> card S" and b: "b \<notin> S" "least < b"
  shows "top_of n (insert b S) = insort b rest"
proof (rule top_of_unique)
  have sub: "insert least (set rest) \<subseteq> S" using set_top_of [OF S(1), of n] S(2) by simp
  have srt: "sorted_wrt (<) (least # rest)" using top_of_sorted [of n S] S(2) by simp
  moreover have "b \<notin> set rest" using b(1) sub by auto
  ultimately have "insort b rest = sorted_list_of_set (insert b (set rest))" by (intro insort_strict) simp_all
  then show "sorted_wrt (<) (insort b rest)" by (metis strict_sorted_list_of_set)
  show "set (insort b rest) \<subseteq> insert b S" using sub by (auto simp: set_insort_key)
  show "length (insort b rest) = min n (card (insert b S))"
    using length_top_of [of n S] S b(1) by simp
  fix x y assume x: "x \<in> insert b S" "x \<notin> set (insort b rest)" and y: "y \<in> set (insort b rest)"
  have x': "x \<in> S" "x \<noteq> b" "x \<notin> set rest" using x by (auto simp: set_insort_key)
  have "x \<le> least" using below_top [OF S(1) x'(1), of n least] S(2) x'(3) by (cases "x = least") auto
  then show "x < y" using y b(2) srt by (auto simp: set_insort_key)
qed (simp add: S(1))

lemma try_push_top:
  assumes S: "finite S" and n: "0 < n" and b: "b \<notin> S"
  shows "snd (try_push (sb_hash b) (sb_blue_work b) (heap_of n S)) = heap_of n (insert b S)"
    and "\<not> fst (try_push (sb_hash b) (sb_blue_work b) (heap_of n S)) \<Longrightarrow> finite T \<Longrightarrow> \<forall>t\<in>T. t \<le> b \<Longrightarrow> top_of n (S \<union> T) = top_of n S"
proof -
  have "snd (try_push (sb_hash b) (sb_blue_work b) (heap_of n S)) = heap_of n (insert b S) \<and>
    (\<not> fst (try_push (sb_hash b) (sb_blue_work b) (heap_of n S)) \<longrightarrow> finite T \<longrightarrow> (\<forall>t\<in>T. t \<le> b) \<longrightarrow> top_of n (S \<union> T) = top_of n S)"
  proof (cases "n \<le> card S")
    case True
    then obtain least rest where t: "top_of n S = least # rest" using n length_top_of [of n S] by (cases "top_of n S") auto
    have srt: "sorted_wrt (<) (least # rest)" using top_of_sorted [of n S] t by simp
    have ne: "least \<noteq> b" using set_top_of [OF S, of n] t b by auto
    have len: "length (top_of n S) = n" using True by (simp add: length_top_of)
    show ?thesis
    proof (cases "b < least")
      case below: True
      have "t < y" if "t \<le> b" "y \<in> set (top_of n S)" for t y using that srt below unfolding t by auto
      then show ?thesis using top_of_below [OF S True, of "{b}"] top_of_below [OF S True, of T] below t len
        by (auto simp: try_push_def heap_of_def reached_size_bound_def)
    next
      case False
      then show ?thesis using top_of_replace [OF S t True b] ne t len
        by (auto simp: try_push_def heap_of_def reached_size_bound_def)
    qed
  next
    case False
    then have "top_of n S = sorted_list_of_set S" "top_of n (insert b S) = sorted_list_of_set (insert b S)" "length (top_of n S) \<noteq> n"
      using S b by (simp_all add: top_of_all length_top_of)
    moreover have "insort b (sorted_list_of_set S) = sorted_list_of_set (insert b S)" using S b by (simp add: sorted_list_of_set_insert)
    ultimately show ?thesis by (simp add: try_push_def heap_of_def reached_size_bound_def)
  qed
  then show "snd (try_push (sb_hash b) (sb_blue_work b) (heap_of n S)) = heap_of n (insert b S)"
    and "\<not> fst (try_push (sb_hash b) (sb_blue_work b) (heap_of n S)) \<Longrightarrow> finite T \<Longrightarrow> \<forall>t\<in>T. t \<le> b \<Longrightarrow> top_of n (S \<union> T) = top_of n S" by blast+
qed

lemma merge_ancestor_heap_top:
  assumes "finite S" "finite T" "S \<inter> T = {}"
  shows "merge_ancestor_heap (top_of n T) (heap_of n S) = heap_of n (S \<union> T)"
proof -
  let ?U = "set (top_of n S) \<union> set (top_of n T)"
  have "top_of n (S \<union> T) = top_of n ?U"
    using top_of_union [OF assms(1,2), of n] top_of_union [OF assms(2) finite_set [of "top_of n S"], of n] by (simp add: Un_commute)
  moreover have "distinct (top_of n S @ top_of n T)"
    using set_top_of [OF assms(1), of n] set_top_of [OF assms(2), of n] assms(3) top_of_sorted [of n S] top_of_sorted [of n T] by (auto simp: strict_sorted_iff)
  then have "sort (top_of n S @ top_of n T) = sorted_list_of_set ?U" by (metis distinct_remdups_id set_append sorted_list_of_set_sort_remdups)
  ultimately show ?thesis by (simp add: merge_ancestor_heap_def heap_of_def Let_def top_of_def)
qed

end
