(* ===== verification/Ghostdag_Dag.thy ===== *)
theory Ghostdag_Dag
  imports Ghostdag
begin

text \<open>
  What the GHOSTDAG data of a block means: ancestry in the DAG of the stored relations, anticones and k-clusters, the
  blue set a block commits to, the greedy colouring of a mergeset, and the invariant of the stores. The mergeset search and the
  sorting of ghostdag/mergeset.rs and ordering.rs are shown to compute the set they name, in an order compatible
  with ancestry.
\<close>

section \<open>Ancestry, anticones and clusters\<close>

inductive dag_ancestor :: "(hash \<rightharpoonup> hash list) \<Rightarrow> hash \<Rightarrow> hash \<Rightarrow> bool" for rel where
  dag_refl [intro, simp]: "dag_ancestor rel b b"
| dag_step: "rel b = Some ps \<Longrightarrow> p \<in> set ps \<Longrightarrow> dag_ancestor rel a p \<Longrightarrow> dag_ancestor rel a b"

lemma dag_ancestor_trans: "dag_ancestor rel b c \<Longrightarrow> dag_ancestor rel a b \<Longrightarrow> dag_ancestor rel a c"
  by (induction rule: dag_ancestor.induct) (auto intro: dag_step)

lemma dag_ancestor_unfold:
  "dag_ancestor rel a b \<longleftrightarrow> a = b \<or> (\<exists>ps. rel b = Some ps \<and> (\<exists>p\<in>set ps. dag_ancestor rel a p))"
  by (auto elim: dag_ancestor.cases intro: dag_step)

definition anticone :: "(hash \<rightharpoonup> hash list) \<Rightarrow> hash set \<Rightarrow> hash \<Rightarrow> hash set" where
  "anticone rel S x = {y \<in> S. \<not> dag_ancestor rel x y \<and> \<not> dag_ancestor rel y x}"

definition k_cluster :: "(hash \<rightharpoonup> hash list) \<Rightarrow> nat \<Rightarrow> hash set \<Rightarrow> bool" where
  "k_cluster rel k S \<longleftrightarrow> (\<forall>x\<in>S. card (anticone rel S x) \<le> k)"

text \<open>The greedy colouring: a candidate joins the blue set when the result is still a k-cluster.\<close>

primrec greedy_blues :: "(hash \<rightharpoonup> hash list) \<Rightarrow> nat \<Rightarrow> hash set \<Rightarrow> hash list \<Rightarrow> hash list" where
  "greedy_blues rel k S [] = []"
| "greedy_blues rel k S (c # cs) =
     (if k_cluster rel k (insert c S) then c # greedy_blues rel k (insert c S) cs else greedy_blues rel k S cs)"

lemma greedy_blues_snoc:
  "greedy_blues rel k S (cs @ [c]) =
     greedy_blues rel k S cs @ (if k_cluster rel k (insert c (S \<union> set (greedy_blues rel k S cs))) then [c] else [])"
  by (induction cs arbitrary: S) (simp_all add: insert_commute)

lemma greedy_blues_subset: "set (greedy_blues rel k S cs) \<subseteq> set cs"
  by (induction cs arbitrary: S) auto

lemma greedy_blues_distinct: "distinct cs \<Longrightarrow> distinct (greedy_blues rel k S cs)"
  using greedy_blues_subset by (induction cs arbitrary: S) (auto, blast)

lemma anticone_insert: "anticone rel (insert c S) x =
    (if \<not> dag_ancestor rel x c \<and> \<not> dag_ancestor rel c x then insert c (anticone rel S x) else anticone rel S x)"
  by (auto simp: anticone_def)

lemma anticone_subset: "anticone rel S x \<subseteq> S"
  by (auto simp: anticone_def)

section \<open>Blue sets and the sizes that describe them\<close>

text \<open>The blue set of a block: its mergeset blues and those of its selected chain.\<close>

inductive in_blue :: "(hash \<rightharpoonup> ghostdag_data) \<Rightarrow> ghostdag_data \<Rightarrow> hash \<Rightarrow> bool" for store where
  blue_here: "x \<in> set (mergeset_blues d) \<Longrightarrow> in_blue store d x"
| blue_chain: "selected_parent d \<noteq> ORIGIN \<Longrightarrow> store (selected_parent d) = Some d' \<Longrightarrow> in_blue store d' x \<Longrightarrow> in_blue store d x"

definition blue_set :: "(hash \<rightharpoonup> ghostdag_data) \<Rightarrow> ghostdag_data \<Rightarrow> hash set" where
  "blue_set store d = {x. in_blue store d x}"

lemma blue_set_unfold:
  "selected_parent d \<noteq> ORIGIN \<Longrightarrow> store (selected_parent d) = Some d' \<Longrightarrow>
     blue_set store d = set (mergeset_blues d) \<union> blue_set store d'"
  by (auto simp: blue_set_def intro: in_blue.intros elim: in_blue.cases)

lemma blue_set_origin_child: "selected_parent d = ORIGIN \<Longrightarrow> blue_set store d = set (mergeset_blues d)"
  by (auto simp: blue_set_def intro: in_blue.intros elim: in_blue.cases)

text \<open>The size recorded for a blue block: the first entry down the selected chain.\<close>

inductive lookup_size :: "ghostdag_manager \<Rightarrow> ghostdag_data \<Rightarrow> hash \<Rightarrow> k_type \<Rightarrow> bool" for m where
  size_here: "hm_get (blues_anticone_sizes d) x = Some s \<Longrightarrow> lookup_size m d x s"
| size_chain: "hm_get (blues_anticone_sizes d) x = None \<Longrightarrow> selected_parent d \<noteq> genesis_hash m \<Longrightarrow>
    selected_parent d \<noteq> ORIGIN \<Longrightarrow> ghostdag_store m (selected_parent d) = Some d' \<Longrightarrow> lookup_size m d' x s \<Longrightarrow> lookup_size m d x s"

lemma lookup_size_returns: "lookup_size m d x s \<Longrightarrow> blue_anticone_size m x d = Some (Ok s)"
  by (induction rule: lookup_size.induct) (simp_all add: blue_anticone_size_def blue_anticone_size_loop.simps)

section \<open>The invariant of the stores\<close>

definition blocks :: "ghostdag_manager \<Rightarrow> hash set" where
  "blocks m = dom (relations_store m) - {ORIGIN}"

definition work_of :: "ghostdag_manager \<Rightarrow> hash \<Rightarrow> nat" where
  "work_of m b = (case headers_bits m b of Some bits \<Rightarrow> max (work_value bits) (unat (gd_level_work m)) | None \<Rightarrow> 0)"

definition rank :: "ghostdag_manager \<Rightarrow> hash \<Rightarrow> nat" where
  "rank m b = (case ghostdag_store m b of Some d \<Rightarrow> unat (blue_work d) | None \<Rightarrow> 0)"

abbreviation ancestor :: "ghostdag_manager \<Rightarrow> hash \<Rightarrow> hash \<Rightarrow> bool" where
  "ancestor m \<equiv> dag_ancestor (relations_store m)"

abbreviation blues_of :: "ghostdag_manager \<Rightarrow> ghostdag_data \<Rightarrow> hash set" where
  "blues_of m \<equiv> blue_set (ghostdag_store m)"

text \<open>The recorded sizes are the sizes of the blue anticones.\<close>

definition sizes_exact :: "ghostdag_manager \<Rightarrow> ghostdag_data \<Rightarrow> bool" where
  "sizes_exact m d \<longleftrightarrow> (\<forall>x\<in>blues_of m d. \<exists>s. lookup_size m d x s \<and> unat s = card (anticone (relations_store m) (blues_of m d) x))"

definition block_inv :: "ghostdag_manager \<Rightarrow> hash \<Rightarrow> hash list \<Rightarrow> ghostdag_data \<Rightarrow> bool" where
  "block_inv m b ps d \<longleftrightarrow>
     set ps \<subseteq> blocks m \<and> selected_parent d \<in> set ps \<and> (\<forall>p\<in>set ps. rank m p < rank m b) \<and>
     (\<exists>bs. mergeset_blues d = selected_parent d # bs \<and> distinct bs \<and>
        (\<forall>x\<in>set bs. (\<exists>p\<in>set ps. ancestor m x p) \<and> \<not> ancestor m x (selected_parent d))) \<and>
     sizes_exact m d \<and> k_cluster (relations_store m) (unat (gd_k m)) (blues_of m d) \<and>
     unat (blue_score d) = card (blues_of m d) \<and> unat (blue_work d) = sum (work_of m) (blues_of m d)"

definition dag_inv :: "ghostdag_manager \<Rightarrow> bool" where
  "dag_inv m \<longleftrightarrow>
     genesis_hash m \<noteq> ORIGIN \<and> finite (dom (relations_store m)) \<and> dom (ghostdag_store m) = dom (relations_store m) \<and>
     relations_store m ORIGIN = Some [] \<and> relations_store m (genesis_hash m) = Some [ORIGIN] \<and>
     ghostdag_store m (genesis_hash m) = Some genesis_ghostdag_data \<and>
     (\<forall>b ps d. relations_store m b = Some ps \<longrightarrow> ghostdag_store m b = Some d \<longrightarrow> b \<noteq> ORIGIN \<longrightarrow> b \<noteq> genesis_hash m \<longrightarrow>
        block_inv m b ps d)"

text \<open>The contract of the reachability service: ancestry, inclusive, between known blocks.\<close>

definition reachability_ok :: "ghostdag_manager \<Rightarrow> bool" where
  "reachability_ok m \<longleftrightarrow>
     (\<forall>a\<in>dom (relations_store m). \<forall>b\<in>dom (relations_store m). is_dag_ancestor_of m a b \<longleftrightarrow> ancestor m a b)"

lemma dag_inv_genesis:
  assumes "dag_inv m"
  shows "genesis_hash m \<noteq> ORIGIN" "genesis_hash m \<in> blocks m" "relations_store m ORIGIN = Some []"
    "relations_store m (genesis_hash m) = Some [ORIGIN]" "ghostdag_store m (genesis_hash m) = Some genesis_ghostdag_data"
    "finite (blocks m)" "finite (dom (relations_store m))"
  using assms by (auto simp: dag_inv_def blocks_def)

lemma dag_inv_block:
  assumes "dag_inv m" and "b \<in> blocks m"
  obtains (genesis) "b = genesis_hash m" | (block) ps d where "b \<noteq> genesis_hash m" "relations_store m b = Some ps"
    "ghostdag_store m b = Some d" "block_inv m b ps d"
proof (cases "b = genesis_hash m")
  case False
  obtain ps where ps: "relations_store m b = Some ps" using assms(2) by (auto simp: blocks_def)
  moreover have "b \<in> dom (ghostdag_store m)" using assms by (auto simp: dag_inv_def blocks_def)
  then obtain d where "ghostdag_store m b = Some d" by blast
  moreover have "b \<noteq> ORIGIN" using assms(2) by (simp add: blocks_def)
  ultimately show ?thesis using block False assms(1) unfolding dag_inv_def by blast
qed (rule genesis)

lemma blocks_store: "dag_inv m \<Longrightarrow> b \<in> blocks m \<Longrightarrow> \<exists>d. ghostdag_store m b = Some d"
  by (auto simp: dag_inv_def blocks_def)

text \<open>Induction along the selected chain.\<close>

lemma chain_induct [consumes 2, case_names genesis block]:
  assumes "dag_inv m" and "b \<in> blocks m"
    and "P (genesis_hash m)"
    and "\<And>b ps d. b \<in> blocks m \<Longrightarrow> b \<noteq> genesis_hash m \<Longrightarrow> relations_store m b = Some ps \<Longrightarrow> ghostdag_store m b = Some d \<Longrightarrow>
      block_inv m b ps d \<Longrightarrow> selected_parent d \<in> blocks m \<Longrightarrow> P (selected_parent d) \<Longrightarrow> P b"
  shows "P b"
  using assms(2)
proof (induction "rank m b" arbitrary: b rule: less_induct)
  case less
  show ?case
  proof (rule dag_inv_block [OF assms(1) less.prems])
    fix ps d assume b: "b \<noteq> genesis_hash m" "relations_store m b = Some ps" "ghostdag_store m b = Some d" "block_inv m b ps d"
    then have sp: "selected_parent d \<in> blocks m" "rank m (selected_parent d) < rank m b" by (auto simp: block_inv_def)
    with less.hyps have "P (selected_parent d)" by blast
    with assms(4) less.prems b sp(1) show ?thesis by blast
  qed (simp add: assms(3))
qed

lemma ancestor_origin: "dag_inv m \<Longrightarrow> ancestor m a ORIGIN \<Longrightarrow> a = ORIGIN"
  by (drule dag_inv_genesis(3)) (auto simp: dag_ancestor_unfold [of _ _ ORIGIN])

lemma genesis_ancestor: "dag_inv m \<Longrightarrow> b \<in> blocks m \<Longrightarrow> ancestor m (genesis_hash m) b"
  by (induction rule: chain_induct) (auto simp: block_inv_def intro: dag_step)

lemma origin_ancestor: "dag_inv m \<Longrightarrow> b \<in> blocks m \<Longrightarrow> ancestor m ORIGIN b"
  using dag_ancestor_trans [OF genesis_ancestor] dag_inv_genesis(4) [of m] by (meson dag_refl dag_step list.set_intros(1))

lemma ancestor_block:
  assumes m: "dag_inv m" and "ancestor m a b" and "b \<in> blocks m" and "a \<noteq> ORIGIN"
  shows "a \<in> blocks m"
  using assms(2-)
proof (induction rule: dag_ancestor.induct)
  case (dag_step b ps p a)
  show ?case
  proof (rule dag_inv_block [OF m dag_step.prems(1)])
    assume "b = genesis_hash m"
    then show ?thesis using dag_step dag_inv_genesis(4) [OF m] ancestor_origin [OF m, of a] by auto
  next
    fix ps' d assume "relations_store m b = Some ps'" "block_inv m b ps' d"
    then have "p \<in> blocks m" using dag_step.hyps(1,2) by (auto simp: block_inv_def)
    then show ?thesis using dag_step by blast
  qed
qed simp

lemma ancestor_rank:
  assumes m: "dag_inv m" and "ancestor m a b" and "b \<in> blocks m" and "a \<noteq> ORIGIN"
  shows "a = b \<or> rank m a < rank m b"
  using assms(2-)
proof (induction rule: dag_ancestor.induct)
  case (dag_step b ps p a)
  show ?case
  proof (rule dag_inv_block [OF m dag_step.prems(1)])
    assume "b = genesis_hash m"
    then show ?thesis using dag_step dag_inv_genesis(4) [OF m] ancestor_origin [OF m, of a] by auto
  next
    fix ps' d assume "relations_store m b = Some ps'" "block_inv m b ps' d"
    then have "p \<in> blocks m" "rank m p < rank m b" using dag_step.hyps(1,2) by (auto simp: block_inv_def)
    then show ?thesis using dag_step by fastforce
  qed
qed simp

lemma ancestor_antisym:
  assumes "dag_inv m" and "a \<in> blocks m" and "b \<in> blocks m" and "ancestor m a b" and "ancestor m b a"
  shows "a = b"
  using ancestor_rank [OF assms(1,4,3)] ancestor_rank [OF assms(1,5,2)] assms(2,3) by (auto simp: blocks_def)

section \<open>The blue set lies in the past\<close>

lemma blues_genesis [simp]: "blue_set store genesis_ghostdag_data = {}"
  by (simp add: blue_set_origin_child genesis_ghostdag_data_def)

lemma blues_block:
  assumes "dag_inv m" and "block_inv m b ps d" and "ghostdag_store m (selected_parent d) = Some d'"
  shows "blues_of m d = set (mergeset_blues d) \<union> blues_of m d'"
  using assms by (intro blue_set_unfold) (auto simp: block_inv_def blocks_def)

lemma mergeset_blues_past:
  assumes "dag_inv m" and "b \<in> blocks m" and "relations_store m b = Some ps" and "block_inv m b ps d"
    and "x \<in> set (mergeset_blues d)"
  shows "x \<in> blocks m \<and> ancestor m x b \<and> rank m x < rank m b"
proof -
  obtain bs where bs: "mergeset_blues d = selected_parent d # bs"
      "\<forall>x\<in>set bs. (\<exists>p\<in>set ps. ancestor m x p) \<and> \<not> ancestor m x (selected_parent d)" and
    ps: "set ps \<subseteq> blocks m" "selected_parent d \<in> set ps" "\<forall>p\<in>set ps. rank m p < rank m b"
    using assms(4) by (auto simp: block_inv_def)
  obtain p where p: "p \<in> set ps" "ancestor m x p" "x \<noteq> ORIGIN"
    using assms(5) bs ps origin_ancestor [OF assms(1), of "selected_parent d"] by (fastforce simp: blocks_def)
  have "x \<in> blocks m" using ancestor_block [OF assms(1) p(2) _ p(3)] ps(1) p(1) by blast
  moreover have "ancestor m x b" using dag_step [OF assms(3) p(1,2)] .
  moreover have "rank m x \<le> rank m p" using ancestor_rank [OF assms(1) p(2) _ p(3)] ps(1) p(1) by (metis less_imp_le order_refl subsetD)
  ultimately show ?thesis using ps(3) p(1) by fastforce
qed

lemma blues_past:
  assumes "dag_inv m" and "b \<in> blocks m" and "ghostdag_store m b = Some d" and "x \<in> blues_of m d"
  shows "x \<in> blocks m \<and> ancestor m x b \<and> rank m x < rank m b"
  using assms
proof (induction arbitrary: d rule: chain_induct)
  case genesis
  then show ?case using dag_inv_genesis(5) [OF assms(1)] by simp
next
  case (block b ps d')
  then have d: "d = d'" by simp
  obtain e where e: "ghostdag_store m (selected_parent d) = Some e" using blocks_store [OF assms(1)] block d by blast
  have sp: "selected_parent d \<in> set ps" "rank m (selected_parent d) < rank m b" using block d by (auto simp: block_inv_def)
  consider "x \<in> set (mergeset_blues d)" | "x \<in> blues_of m e" using blues_block [OF assms(1) _ e] block d by blast
  then show ?case
  proof cases
    case 1
    then show ?thesis using mergeset_blues_past [OF assms(1)] block d by blast
  next
    case 2
    then have x: "x \<in> blocks m \<and> ancestor m x (selected_parent d) \<and> rank m x < rank m (selected_parent d)"
      using block.IH e d by blast
    then have "ancestor m x b" using dag_step block.hyps(3) sp(1) by blast
    then show ?thesis using x sp(2) by simp
  qed
qed

lemma finite_blues:
  assumes "dag_inv m" and "b \<in> blocks m" and "ghostdag_store m b = Some d"
  shows "finite (blues_of m d)"
  using blues_past [OF assms] dag_inv_genesis(6) [OF assms(1)] by (meson finite_subset subsetI)

lemma not_in_own_blues:
  assumes "dag_inv m" and "b \<in> blocks m" and "ghostdag_store m b = Some d"
  shows "b \<notin> blues_of m d"
  using blues_past [OF assms] by blast

section \<open>The mergeset\<close>

definition parents_ok :: "ghostdag_manager \<Rightarrow> hash list \<Rightarrow> bool" where
  "parents_ok m ps \<longleftrightarrow> ps \<noteq> [] \<and> set ps \<subseteq> blocks m \<and> (\<forall>a\<in>set ps. \<forall>b\<in>set ps. a \<noteq> b \<longrightarrow> \<not> ancestor m a b)"

text \<open>The blocks in the past of the parents and not in the past of the selected parent.\<close>

definition mergeset_of :: "ghostdag_manager \<Rightarrow> hash \<Rightarrow> hash list \<Rightarrow> hash set" where
  "mergeset_of m sp ps = {x. (\<exists>p\<in>set ps. ancestor m x p) \<and> \<not> ancestor m x sp}"

lemma mergeset_of_blocks:
  assumes "dag_inv m" and "set ps \<subseteq> blocks m" and "sp \<in> blocks m"
  shows "mergeset_of m sp ps \<subseteq> blocks m" and "finite (mergeset_of m sp ps)"
proof -
  show *: "mergeset_of m sp ps \<subseteq> blocks m"
    using ancestor_block [OF assms(1)] origin_ancestor [OF assms(1,3)] assms(2) by (auto simp: mergeset_of_def)
  show "finite (mergeset_of m sp ps)" using finite_subset [OF * dag_inv_genesis(6) [OF assms(1)]] .
qed

text \<open>The invariant of the search: what is in the mergeset belongs there, and the parents of every block already taken from the
  queue have been seen.\<close>

definition search_inv :: "ghostdag_manager \<Rightarrow> hash \<Rightarrow> hash list \<Rightarrow> hash list \<Rightarrow> hash list \<Rightarrow> hash list \<Rightarrow> bool" where
  "search_inv m sp ps ms past queue \<longleftrightarrow> distinct ms \<and> set ms \<subseteq> mergeset_of m sp ps \<and> set queue \<subseteq> set ms \<and>
     set ps - {sp} \<subseteq> set ms \<and> (\<forall>x\<in>set past. ancestor m x sp) \<and>
     (\<forall>x\<in>set ms - set queue. \<forall>qs. relations_store m x = Some qs \<longrightarrow> (\<forall>q\<in>set qs. q \<in> set ms \<or> ancestor m q sp))"

lemma search_complete:
  assumes "search_inv m sp ps ms past []" 
  shows "set ms = mergeset_of m sp ps"
proof
  show "set ms \<subseteq> mergeset_of m sp ps" using assms by (simp add: search_inv_def)
  have "x \<in> set ms" if "ancestor m x y" "y \<in> set ms" "\<not> ancestor m x sp" for x y
    using that
  proof (induction rule: dag_ancestor.induct)
    case (dag_step b qs q a)
    then have "q \<in> set ms \<or> ancestor m q sp" using assms by (simp add: search_inv_def)
    then show ?case using dag_step dag_ancestor_trans by blast
  qed simp
  then show "mergeset_of m sp ps \<subseteq> set ms"
    using assms by (auto simp: search_inv_def mergeset_of_def)
qed

lemma parent_known:
  assumes "dag_inv m" and "x \<in> blocks m" and "relations_store m x = Some qs" and "q \<in> set qs"
  shows "q \<in> dom (relations_store m)"
proof (rule dag_inv_block [OF assms(1,2)])
  assume "x = genesis_hash m"
  then show ?thesis using assms dag_inv_genesis(3,4) [OF assms(1)] by auto
next
  fix ps' d assume "relations_store m x = Some ps'" "block_inv m x ps' d"
  then show ?thesis using assms by (auto simp: block_inv_def blocks_def)
qed

lemma visit_parents:
  assumes "reachability_ok m" and "sp \<in> dom (relations_store m)" and "set qs \<subseteq> dom (relations_store m)"
    and "\<And>q. q \<in> set qs \<Longrightarrow> \<not> ancestor m q sp \<Longrightarrow> q \<in> M" and "distinct ms" and "\<forall>x\<in>set past. ancestor m x sp"
  shows "\<exists>new past'. fold (visit_parent m sp) qs (ms, past, queue) = (ms @ new, past', queue @ new) \<and> distinct (ms @ new) \<and>
    set new \<subseteq> M \<and> (\<forall>x\<in>set past'. ancestor m x sp) \<and> (\<forall>q\<in>set qs. q \<in> set (ms @ new) \<or> ancestor m q sp)"
  using assms(3-)
proof (induction qs arbitrary: ms past queue)
  case (Cons q qs)
  have R: "is_dag_ancestor_of m q sp \<longleftrightarrow> ancestor m q sp" using assms(1,2) Cons.prems(1) by (simp add: reachability_ok_def)
  consider (seen) "q \<in> set ms \<or> q \<in> set past" | (past) "q \<notin> set ms" "q \<notin> set past" "ancestor m q sp"
    | (new) "q \<notin> set ms" "q \<notin> set past" "\<not> ancestor m q sp" by blast
  then show ?case
  proof cases
    case seen
    then have "visit_parent m sp q (ms, past, queue) = (ms, past, queue)" by (auto simp: visit_parent_def)
    then show ?thesis using Cons.IH [of ms past queue] Cons.prems seen by fastforce
  next
    case past
    then have "visit_parent m sp q (ms, past, queue) = (ms, past @ [q], queue)" by (simp add: visit_parent_def R)
    then show ?thesis using Cons.IH [of ms "past @ [q]" queue] Cons.prems past by fastforce
  next
    case new
    then have v: "visit_parent m sp q (ms, past, queue) = (ms @ [q], past, queue @ [q])" by (simp add: visit_parent_def R)
    obtain n p' where "fold (visit_parent m sp) qs (ms @ [q], past, queue @ [q]) = ((ms @ [q]) @ n, p', (queue @ [q]) @ n)"
        "distinct ((ms @ [q]) @ n)" "set n \<subseteq> M" "\<forall>x\<in>set p'. ancestor m x sp" "\<forall>y\<in>set qs. y \<in> set ((ms @ [q]) @ n) \<or> ancestor m y sp"
      using Cons.IH [of "ms @ [q]" past "queue @ [q]"] Cons.prems new by fastforce
    then show ?thesis using v Cons.prems(2) new by (intro exI [of _ "q # n"] exI [of _ p']) auto
  qed
qed simp

text \<open>The search returns, and what it returns is the mergeset: every turn of the loop shortens the queue or moves
  a block of the finite DAG into the mergeset.\<close>

lemma mergeset_loop_returns:
  assumes m: "dag_inv m" "reachability_ok m" and sp: "sp \<in> blocks m" and ps: "set ps \<subseteq> blocks m"
    and "search_inv m sp ps ms past queue"
  shows "\<exists>ms'. mergeset_loop m sp ms past queue = Some (Ok ms') \<and> distinct ms' \<and> set ms' = mergeset_of m sp ps"
  using assms(5)
proof (induction "2 * card (mergeset_of m sp ps - set ms) + length queue" arbitrary: ms past queue rule: less_induct)
  case less
  note M = mergeset_of_blocks [OF m(1) ps sp]
  show ?case
  proof (cases queue)
    case Nil
    then have "set ms = mergeset_of m sp ps" "distinct ms" using search_complete [of m sp ps ms past] less.prems
      by (simp_all add: search_inv_def)
    then show ?thesis by (simp add: mergeset_loop.simps Nil)
  next
    case (Cons x rest)
    have x: "x \<in> mergeset_of m sp ps" "x \<in> blocks m" using less.prems M(1) Cons by (auto simp: search_inv_def)
    then obtain qs where qs: "relations_store m x = Some qs" by (auto simp: blocks_def)
    have q: "q \<in> mergeset_of m sp ps" if "q \<in> set qs" "\<not> ancestor m q sp" for q
    proof -
      have "ancestor m q x" using dag_step [of "relations_store m" x qs q q] qs that(1) by simp
      then show ?thesis using x(1) that(2) dag_ancestor_trans by (auto simp: mergeset_of_def) blast
    qed
    have "sp \<in> dom (relations_store m)" "set qs \<subseteq> dom (relations_store m)"
      using sp parent_known [OF m(1) x(2) qs] by (auto simp: blocks_def)
    from visit_parents [OF m(2) this q, of ms past rest] less.prems obtain new past' where
      v: "fold (visit_parent m sp) qs (ms, past, rest) = (ms @ new, past', rest @ new)" "distinct (ms @ new)"
        "set new \<subseteq> mergeset_of m sp ps" "\<forall>x\<in>set past'. ancestor m x sp" "\<forall>q\<in>set qs. q \<in> set (ms @ new) \<or> ancestor m q sp"
      by (auto simp: search_inv_def)
    have "q \<in> set (ms @ new) \<or> ancestor m q sp"
      if "y \<in> set (ms @ new) - set (rest @ new)" "relations_store m y = Some rs" "q \<in> set rs" for y rs q
    proof (cases "y = x")
      case False
      then have "y \<in> set ms - set queue" using that(1) by (auto simp: Cons)
      then show ?thesis using less.prems that(2,3) unfolding search_inv_def set_append by blast
    qed (use that v(5) qs in auto)
    then have inv: "search_inv m sp ps (ms @ new) past' (rest @ new)"
      using less.prems v(2-4) unfolding search_inv_def Cons by auto
    have "card (mergeset_of m sp ps - set (ms @ new)) + length new = card (mergeset_of m sp ps - set ms)"
    proof -
      have "mergeset_of m sp ps - set ms = (mergeset_of m sp ps - set (ms @ new)) \<union> set new" using v(2,3) by auto
      moreover have "card (set new) = length new" using v(2) by (simp add: distinct_card)
      moreover have "card ((mergeset_of m sp ps - set (ms @ new)) \<union> set new) = card (mergeset_of m sp ps - set (ms @ new)) + card (set new)"
        using M(2) by (intro card_Un_disjoint) auto
      ultimately show ?thesis by simp
    qed
    then have "2 * card (mergeset_of m sp ps - set (ms @ new)) + length (rest @ new) < 2 * card (mergeset_of m sp ps - set ms) + length queue"
      by (simp add: Cons)
    from less.hyps [OF this inv] show ?thesis by (subst mergeset_loop.simps) (simp add: Cons qs v(1))
  qed
qed

lemma unordered_mergeset_returns:
  assumes "dag_inv m" "reachability_ok m" and ps: "parents_ok m ps" and sp: "sp \<in> set ps"
  shows "\<exists>ms. unordered_mergeset_without_selected_parent m sp ps = Some (Ok ms) \<and> distinct ms \<and> set ms = mergeset_of m sp ps"
proof -
  let ?q = "filter (\<lambda>p. p \<noteq> sp) ps"
  have "search_inv m sp ps (remdups ?q) [] ?q"
    using ps sp by (auto simp: search_inv_def mergeset_of_def parents_ok_def)
  moreover have "sp \<in> blocks m" "set ps \<subseteq> blocks m" using ps sp by (auto simp: parents_ok_def)
  ultimately show ?thesis
    unfolding unordered_mergeset_without_selected_parent_def Let_def by (intro mergeset_loop_returns assms)
qed

section \<open>The order of blocks\<close>

definition block_key :: "ghostdag_manager \<Rightarrow> hash \<Rightarrow> sortable_block" where
  "block_key m b = SortableBlock b (case ghostdag_store m b of Some d \<Rightarrow> blue_work d | None \<Rightarrow> 0)"

lemma sb_hash_block_key [simp]: "sb_hash (block_key m b) = b"
  by (simp add: block_key_def)

lemma block_key_rank: "block_key m a \<le> block_key m b \<Longrightarrow> rank m a \<le> rank m b"
  by (auto simp: block_key_def rank_def less_eq_sortable_block_def sortable_block_cmp_le_def word_less_nat_alt
      split: option.splits)

lemma get_sortable_block_key: "dag_inv m \<Longrightarrow> b \<in> blocks m \<Longrightarrow> get_sortable_block m b = Ok (block_key m b)"
  using blocks_store [of m b] by (auto simp: get_sortable_block_def block_key_def)

lemma find_selected_parent_returns:
  assumes "dag_inv m" and "ps \<noteq> []" and "set ps \<subseteq> blocks m"
  shows "\<exists>sp\<in>set ps. find_selected_parent m ps = (Ok sp :: ('e, _) outcome) \<and> (\<forall>p\<in>set ps. block_key m p \<le> block_key m sp)"
proof -
  obtain q qs where q: "ps = q # qs" using assms(2) by (cases ps) auto
  let ?ks = "map (block_key m) ps"
  have "omap (get_sortable_block m) ps = (Ok ?ks :: ('e, _) outcome)" using assms(3) by (intro omap_Ok get_sortable_block_key [OF assms(1)]) auto
  then have "find_selected_parent m ps = (Ok (sb_hash (fold max (map (block_key m) qs) (block_key m q))) :: ('e, _) outcome)"
    unfolding find_selected_parent_def by (simp add: q del: omap.simps)
  then have f: "find_selected_parent m ps = (Ok (sb_hash (Max (set ?ks))) :: ('e, _) outcome)" unfolding q list.map Max.set_eq_fold .
  have "Max (set ?ks) \<in> set ?ks" using assms(2) by (intro Max_in) simp_all
  then obtain sp where sp: "sp \<in> set ps" "Max (set ?ks) = block_key m sp" by auto
  have "\<forall>p\<in>set ps. block_key m p \<le> Max (set ?ks)" by simp
  then show ?thesis using f sp unfolding sp(2) sb_hash_block_key by blast
qed

lemma sort_blocks_returns:
  assumes "dag_inv m" and "distinct ms" and "set ms \<subseteq> blocks m"
  shows "\<exists>cs. sort_blocks m ms = (Ok cs :: ('e, _) outcome) \<and> distinct cs \<and> set cs = set ms \<and> sorted (map (block_key m) cs)"
proof -
  let ?ks = "map (block_key m) ms"
  have o: "omap (get_sortable_block m) ms = (Ok ?ks :: ('e, _) outcome)" using assms(3) by (intro omap_Ok get_sortable_block_key [OF assms(1)]) auto
  have "inj_on (block_key m) (set ms)" by (metis inj_onI sb_hash_block_key)
  then have "distinct (sort ?ks)" using assms(2) by (simp add: distinct_map)
  moreover have "inj_on sb_hash (set (sort ?ks))" by (auto simp: inj_on_def)
  ultimately have "distinct (map sb_hash (sort ?ks))" by (simp add: distinct_map)
  moreover have "map (block_key m) (map sb_hash (sort ?ks)) = sort ?ks" by (auto simp: intro!: map_idI)
  moreover have "set (map sb_hash (sort ?ks)) = set ms" by (simp add: image_image)
  ultimately show ?thesis by (simp add: sort_blocks_def o)
qed

text \<open>The candidates come in an order compatible with ancestry.\<close>

lemma candidates_topological:
  assumes "dag_inv m" and "sorted (map (block_key m) (xs @ c # ys))" and "distinct (xs @ c # ys)"
    and "set (xs @ c # ys) \<subseteq> blocks m" and "x \<in> set xs"
  shows "\<not> ancestor m c x"
proof
  assume "ancestor m c x"
  moreover have "x \<in> blocks m" "c \<noteq> ORIGIN" "c \<noteq> x" using assms(3-) by (auto simp: blocks_def)
  ultimately have "rank m c < rank m x" using ancestor_rank [OF assms(1)] by blast
  moreover have "rank m x \<le> rank m c" using assms(2,5) by (intro block_key_rank) (auto simp: sorted_append)
  ultimately show False by simp
qed

end
