(* ===== verification/Ghostdag_Colouring.thy ===== *)
theory Ghostdag_Colouring
  imports Ghostdag_Dag
begin

text \<open>
  The colouring loop of \<open>ghostdag\<close> computes the greedy colouring: the walk down the selected chain visits
  exactly the blue blocks that can be in the anticone of the candidate, the sizes recorded along the chain are the
  sizes of the blue anticones, and the early exits of \<open>check_blue_candidate\<close> decide whether the blue set with the
  candidate is still a k-cluster.
\<close>

section \<open>The peers of a candidate\<close>

lemma check_peers_returns:
  assumes "\<And>p. p \<in> set L \<Longrightarrow> \<not> is_dag_ancestor_of m p c \<Longrightarrow> blue_anticone_size m p nd = (Some (Ok (sz p)) :: ('e, _) outcome option) \<and> sz p \<le> k"
    and "unat k < 65535" and "n \<le> k"
  defines "F \<equiv> filter (\<lambda>p. \<not> is_dag_ancestor_of m p c) L"
  defines "fits \<equiv> unat n + length F \<le> unat k \<and> (\<forall>p\<in>set F. sz p \<noteq> k)"
  shows "\<exists>sizes' n'. check_peers m nd c k L sizes n = (Some (Ok (if fits then Pending else StateRed, sizes', n')) :: ('e, _) outcome option) \<and>
    (fits \<longrightarrow> sizes' = fold (\<lambda>p. hm_insert p (sz p)) F sizes \<and> unat n' = unat n + length F)"
  using assms(1,3) unfolding F_def fits_def
proof (induction L arbitrary: sizes n)
  case (Cons p L)
  show ?case
  proof (cases "is_dag_ancestor_of m p c")
    case True
    then show ?thesis using Cons.IH [of n sizes] Cons.prems by simp
  next
    case False
    note p = Cons.prems(1) [of p, simplified, OF False]
    have n: "unat n + 1 < 2 ^ 16" "unat (n + 1) = unat n + 1" using Cons.prems(2) assms(2)
      by (simp_all add: word_le_nat_alt unat_word_ariths)
    then have add: "padd n 1 = (Ok (n + 1) :: ('e, _) outcome)" by (intro padd_eq) simp
    have step: "check_peers m nd c k (p # L) sizes n =
      (if n + 1 > k \<or> sz p = k then Some (Ok (StateRed, hm_insert p (sz p) sizes, n + 1))
       else check_peers m nd c k L (hm_insert p (sz p) sizes) (n + 1) :: ('e, _) outcome option)"
      using p False by (simp add: add Let_def)
    show ?thesis
    proof (cases "n + 1 > k \<or> sz p = k")
      case True
      then show ?thesis using step False n(2) by (auto simp: word_less_nat_alt)
    next
      case False
      then have "n + 1 \<le> k" by (simp add: not_less)
      from Cons.IH [OF Cons.prems(1) this, of "hm_insert p (sz p) sizes"] show ?thesis
        using step False n(2) \<open>\<not> is_dag_ancestor_of m p c\<close> by simp
    qed
  qed
qed (simp add: word_le_nat_alt)

lemma check_peers_append:
  "check_peers m nd c k (xs @ ys) sizes n =
     dbind (check_peers m nd c k xs sizes n) (\<lambda>(st, sizes', n'). if st = Pending then check_peers m nd c k ys sizes' n'
       else Some (Ok (st, sizes', n')))"
  by (induction xs arbitrary: sizes n) (simp_all add: dbind_assoc Let_def cong: if_cong,
      auto simp: dbind_def Let_def split: option.splits outcome.splits)

definition finish_check :: "('e, coloring_state \<times> (hash, k_type) hmap \<times> k_type) outcome option \<Rightarrow> ('e, coloring_output) outcome option" where
  "finish_check r = dbind r (\<lambda>(st, sizes, n). Some (Ok (if st = StateRed then OutputRed else OutputBlue n sizes)))"

lemma candidate_loop_step:
  assumes "case h of None \<Rightarrow> True | Some h \<Rightarrow> \<not> is_dag_ancestor_of m h c" and "ghostdag_store m (selected_parent d) = Some d'"
    and "\<And>sizes n. check_blue_candidate_loop m nd c k (Some (selected_parent d)) d' sizes n =
      (finish_check (check_peers m nd c k L sizes n) :: ('e, _) outcome option)"
  shows "check_blue_candidate_loop m nd c k h d sizes n =
    (finish_check (check_peers m nd c k (mergeset_blues d @ L) sizes n) :: ('e, _) outcome option)"
proof -
  have "\<not> (case h of None \<Rightarrow> False | Some h \<Rightarrow> is_dag_ancestor_of m h c)" using assms(1) by (cases h) simp_all
  then have w: "check_blue_candidate_with_chain_block m nd h d c k sizes n =
      (check_peers m nd c k (mergeset_blues d) sizes n :: ('e, _) outcome option)"
    unfolding check_blue_candidate_with_chain_block_def by simp
  show ?thesis
    by (subst check_blue_candidate_loop.simps, unfold w check_peers_append finish_check_def dbind_assoc)
      (rule arg_cong [where f = "dbind _"], auto simp: fun_eq_iff assms(2,3) finish_check_def split: coloring_state.splits)
qed

lemma candidate_loop_stop:
  assumes m: "dag_inv m" "reachability_ok m" and c: "c \<in> blocks m" and "ancestor m h c"
    and h: "h \<in> blocks m" "ghostdag_store m h = Some d"
  shows "\<exists>L. distinct L \<and> set L \<subseteq> blues_of m d \<and> (\<forall>x\<in>blues_of m d. ancestor m x c \<or> x \<in> set L) \<and>
    (\<forall>sizes n. check_blue_candidate_loop m nd c k (Some h) d sizes n =
       (finish_check (check_peers m nd c k L sizes n) :: ('e, _) outcome option))"
proof -
  have "is_dag_ancestor_of m h c" using assms by (simp add: reachability_ok_def blocks_def)
  moreover have "ancestor m x c" if "x \<in> blues_of m d" for x
    using blues_past [OF m(1) h that] assms(4) dag_ancestor_trans by blast
  ultimately show ?thesis
    by (intro exI [of _ "[]"]) (simp add: check_blue_candidate_loop.simps check_blue_candidate_with_chain_block_def finish_check_def)
qed

lemma mergeset_blues_fresh:
  assumes "dag_inv m" and "block_inv m b ps d" and "ghostdag_store m (selected_parent d) = Some e"
  shows "distinct (mergeset_blues d)" "set (mergeset_blues d) \<inter> blues_of m e = {}"
proof -
  obtain bs where bs: "mergeset_blues d = selected_parent d # bs" "distinct bs" "\<forall>x\<in>set bs. \<not> ancestor m x (selected_parent d)"
    and sp: "selected_parent d \<in> blocks m" using assms(2) by (auto simp: block_inv_def)
  show "distinct (mergeset_blues d)" using bs by auto
  show "set (mergeset_blues d) \<inter> blues_of m e = {}"
    using blues_past [OF assms(1) sp assms(3)] bs by auto
qed

text \<open>The walk down the chain from a stored block: the peers it examines contain every blue block of that block that
  is not an ancestor of the candidate, each once. It stops at the genesis at the latest.\<close>

lemma candidate_loop_chain:
  assumes m: "dag_inv m" "reachability_ok m" and c: "c \<in> blocks m"
    and "h \<in> blocks m" and "ghostdag_store m h = Some d"
  shows "\<exists>L. distinct L \<and> set L \<subseteq> blues_of m d \<and> (\<forall>x\<in>blues_of m d. ancestor m x c \<or> x \<in> set L) \<and>
    (\<forall>sizes n. check_blue_candidate_loop m nd c k (Some h) d sizes n =
       (finish_check (check_peers m nd c k L sizes n) :: ('e, _) outcome option))"
  using assms(4,5)
proof (induction arbitrary: d rule: chain_induct [OF m(1) assms(4)])
  case (1 d)
  show ?case by (rule candidate_loop_stop [OF m c genesis_ancestor [OF m(1) c] 1])
next
  case (2 b ps d' d)
  then have d: "d' = d" by simp
  show ?case
  proof (cases "ancestor m b c")
    case True
    show ?thesis by (rule candidate_loop_stop [OF m c True 2(8,9)])
  next
    case False
    obtain e where e: "ghostdag_store m (selected_parent d) = Some e" using blocks_store [OF m(1) 2(6)] d by blast
    obtain L where L: "distinct L" "set L \<subseteq> blues_of m e" "\<forall>x\<in>blues_of m e. ancestor m x c \<or> x \<in> set L"
        "\<And>sizes n. check_blue_candidate_loop m nd c k (Some (selected_parent d)) e sizes n =
           (finish_check (check_peers m nd c k L sizes n) :: ('e, _) outcome option)"
      using 2(7) [of e] 2(6) e d by auto
    have "\<not> is_dag_ancestor_of m b c" using False m(2) c 2(1) by (simp add: reachability_ok_def blocks_def)
    then have "check_blue_candidate_loop m nd c k (Some b) d sizes n =
        (finish_check (check_peers m nd c k (mergeset_blues d @ L) sizes n) :: ('e, _) outcome option)" for sizes n
      by (intro candidate_loop_step [OF _ e L(4)]) simp
    moreover have "distinct (mergeset_blues d @ L)"
      using L(1,2) mergeset_blues_fresh [OF m(1) 2(5) [unfolded d] e] by auto
    moreover have "blues_of m d = set (mergeset_blues d) \<union> blues_of m e" using blues_block [OF m(1) _ e] 2(5) d by blast
    ultimately show ?thesis using L(2,3) by (intro exI [of _ "mergeset_blues d @ L"]) auto
  qed
qed

section \<open>One candidate\<close>

definition colour_inv :: "ghostdag_manager \<Rightarrow> hash \<Rightarrow> ghostdag_data \<Rightarrow> hash list \<Rightarrow> ghostdag_data \<Rightarrow> bool" where
  "colour_inv m sp spd pre nd \<longleftrightarrow>
     (let bs = greedy_blues (relations_store m) (unat (gd_k m)) (insert sp (blues_of m spd)) pre in
      selected_parent nd = sp \<and> mergeset_blues nd = sp # bs \<and> mergeset_reds nd = filter (\<lambda>x. x \<notin> set bs) pre \<and>
      sizes_exact m nd \<and> k_cluster (relations_store m) (unat (gd_k m)) (blues_of m nd))"

text \<open>The setting of the loop: a selected parent among the parents, and the mergeset in order.\<close>

definition mergeset_order :: "ghostdag_manager \<Rightarrow> hash list \<Rightarrow> hash \<Rightarrow> ghostdag_data \<Rightarrow> hash list \<Rightarrow> bool" where
  "mergeset_order m ps sp spd cs \<longleftrightarrow> dag_inv m \<and> reachability_ok m \<and> parents_ok m ps \<and> sp \<in> set ps \<and>
     ghostdag_store m sp = Some spd \<and> distinct cs \<and> set cs = mergeset_of m sp ps \<and> sorted (map (block_key m) cs)"

lemma mergeset_orderD:
  assumes "mergeset_order m ps sp spd cs"
  shows "dag_inv m" "reachability_ok m" "sp \<in> blocks m" "ghostdag_store m sp = Some spd" "set cs \<subseteq> blocks m"
    "c \<in> set cs \<Longrightarrow> \<not> ancestor m c sp" "c \<in> set cs \<Longrightarrow> \<not> ancestor m sp c"
proof -
  show 1: "dag_inv m" "reachability_ok m" "sp \<in> blocks m" "ghostdag_store m sp = Some spd"
    using assms by (auto simp: mergeset_order_def parents_ok_def)
  show "set cs \<subseteq> blocks m" using assms mergeset_of_blocks(1) [OF 1(1) _ 1(3)] by (simp add: mergeset_order_def parents_ok_def)
  show c: "\<not> ancestor m c sp" if "c \<in> set cs" using assms that by (simp add: mergeset_order_def mergeset_of_def)
  show "\<not> ancestor m sp c" if "c \<in> set cs"
  proof
    assume "ancestor m sp c"
    moreover have "c \<in> mergeset_of m sp ps" using that assms by (simp add: mergeset_order_def)
    then obtain p where p: "p \<in> set ps" "ancestor m c p" by (auto simp: mergeset_of_def)
    ultimately have "ancestor m sp p" using dag_ancestor_trans by blast
    then have "p = sp" using assms p(1) by (auto simp: mergeset_order_def parents_ok_def)
    then show False using c [OF that] p(2) by simp
  qed
qed

lemma colour_inv_blues:
  assumes "mergeset_order m ps sp spd cs" and "colour_inv m sp spd pre nd"
  shows "blues_of m nd = insert sp (blues_of m spd) \<union> set (greedy_blues (relations_store m) (unat (gd_k m)) (insert sp (blues_of m spd)) pre)"
proof -
  have "sp \<noteq> ORIGIN" using mergeset_orderD(3) [OF assms(1)] by (simp add: blocks_def)
  then have "blues_of m nd = set (mergeset_blues nd) \<union> blues_of m spd"
    using blue_set_unfold [of nd "ghostdag_store m" spd] assms mergeset_orderD(4) [OF assms(1)] by (simp add: colour_inv_def Let_def)
  then show ?thesis using assms(2) by (auto simp: colour_inv_def Let_def)
qed

text \<open>The blue set so far: finite, of known blocks, with nothing in the future of the candidate.\<close>

lemma colour_inv_set:
  assumes "mergeset_order m ps sp spd cs" and "colour_inv m sp spd pre nd" and cs: "cs = pre @ c # post"
  shows "blues_of m nd \<subseteq> blocks m" "finite (blues_of m nd)" "c \<in> blocks m" "c \<notin> blues_of m nd"
    "x \<in> blues_of m nd \<Longrightarrow> \<not> ancestor m c x"
proof -
  note D = mergeset_orderD [OF assms(1)]
  note B = colour_inv_blues [OF assms(1,2)]
  have g: "set (greedy_blues (relations_store m) (unat (gd_k m)) (insert sp (blues_of m spd)) pre) \<subseteq> set pre" by (rule greedy_blues_subset)
  note past = blues_past [OF D(1,3,4)]
  show "blues_of m nd \<subseteq> blocks m" unfolding B using past g D(3,5) cs by auto
  then show "finite (blues_of m nd)" using dag_inv_genesis(6) [OF D(1)] finite_subset by blast
  show "c \<in> blocks m" using D(5) cs by simp
  show x: "\<not> ancestor m c x" if "x \<in> blues_of m nd" for x
  proof -
    have "\<not> ancestor m c sp" using D(6) cs by simp
    moreover have "\<not> ancestor m c x" if "x \<in> set pre"
      using candidates_topological [OF D(1), of pre c post x] assms(1) D(5) that unfolding mergeset_order_def cs by blast
    ultimately show ?thesis using that g past dag_ancestor_trans unfolding B by blast
  qed
  then show "c \<notin> blues_of m nd" by blast
qed

lemma anticone_candidate:
  assumes "\<And>x. x \<in> S \<Longrightarrow> \<not> dag_ancestor rel c x"
  shows "anticone rel S c = {x \<in> S. \<not> dag_ancestor rel x c}"
  using assms by (auto simp: anticone_def)

lemma k_cluster_insert:
  assumes "k_cluster rel k S" and "finite S" and "c \<notin> S" and "\<And>x. x \<in> S \<Longrightarrow> \<not> dag_ancestor rel c x"
  shows "k_cluster rel k (insert c S) \<longleftrightarrow> card (anticone rel S c) \<le> k \<and> (\<forall>x\<in>anticone rel S c. card (anticone rel S x) \<noteq> k)"
proof -
  have c: "anticone rel (insert c S) c = anticone rel S c" by (simp add: anticone_insert)
  have x: "card (anticone rel (insert c S) x) = card (anticone rel S x) + (if x \<in> anticone rel S c then 1 else 0)" if "x \<in> S" for x
  proof -
    have "finite (anticone rel S x)" "c \<notin> anticone rel S x"
      using assms(2,3) finite_subset [OF anticone_subset [of rel S x]] anticone_subset [of rel S x] by auto
    then show ?thesis using that assms(4) by (simp add: anticone_insert anticone_candidate [OF assms(4)])
  qed
  have le: "card (anticone rel S x) \<le> k" if "x \<in> S" for x using assms(1) that by (simp add: k_cluster_def)
  have "k_cluster rel k (insert c S) \<longleftrightarrow> card (anticone rel S c) \<le> k \<and> (\<forall>x\<in>S. card (anticone rel (insert c S) x) \<le> k)"
    by (simp add: k_cluster_def c)
  also have "(\<forall>x\<in>S. card (anticone rel (insert c S) x) \<le> k) \<longleftrightarrow> (\<forall>x\<in>S. x \<in> anticone rel S c \<longrightarrow> card (anticone rel S x) \<noteq> k)"
  proof (intro ball_cong refl)
    fix y assume y: "y \<in> S"
    have "Suc a \<le> k \<longleftrightarrow> a \<noteq> k" if "a \<le> k" for a using that by auto
    then show "card (anticone rel (insert c S) y) \<le> k \<longleftrightarrow> (y \<in> anticone rel S c \<longrightarrow> card (anticone rel S y) \<noteq> k)"
      using le [OF y] by (simp add: x [OF y])
  qed
  also have "\<dots> \<longleftrightarrow> (\<forall>x\<in>anticone rel S c. card (anticone rel S x) \<noteq> k)" using anticone_subset [of rel S c] by blast
  finally show ?thesis .
qed

lemma peer_size:
  assumes "colour_inv m sp spd pre nd" and "x \<in> blues_of m nd"
  shows "blue_anticone_size m x nd = (Some (Ok (of_nat (card (anticone (relations_store m) (blues_of m nd) x)))) :: ('e, _) outcome option)"
    and "unat (of_nat (card (anticone (relations_store m) (blues_of m nd) x)) :: k_type) = card (anticone (relations_store m) (blues_of m nd) x)"
    and "card (anticone (relations_store m) (blues_of m nd) x) \<le> unat (gd_k m)"
proof -
  obtain s where s: "lookup_size m nd x s" "unat s = card (anticone (relations_store m) (blues_of m nd) x)"
    using assms by (auto simp: colour_inv_def Let_def sizes_exact_def)
  then have e: "of_nat (card (anticone (relations_store m) (blues_of m nd) x)) = s" by (simp flip: s(2))
  show "blue_anticone_size m x nd = (Some (Ok (of_nat (card (anticone (relations_store m) (blues_of m nd) x)))) :: ('e, _) outcome option)"
    unfolding e by (rule lookup_size_returns [OF s(1)])
  show "unat (of_nat (card (anticone (relations_store m) (blues_of m nd) x)) :: k_type) = card (anticone (relations_store m) (blues_of m nd) x)"
    unfolding e by (rule s(2))
  show "card (anticone (relations_store m) (blues_of m nd) x) \<le> unat (gd_k m)"
    using assms by (auto simp: colour_inv_def Let_def k_cluster_def)
qed

text \<open>The first test of \<open>check_blue_candidate\<close> agrees with the cluster condition: the mergeset blues other than the
  selected parent are all in its anticone.\<close>

lemma mergeset_blues_cap:
  assumes "mergeset_order m ps sp spd cs" and "colour_inv m sp spd pre nd" and cs: "cs = pre @ c # post"
  shows "length (mergeset_blues nd) \<le> Suc (unat (gd_k m))"
    and "length (mergeset_blues nd) = Suc (unat (gd_k m)) \<Longrightarrow> \<not> k_cluster (relations_store m) (unat (gd_k m)) (insert c (blues_of m nd))"
proof -
  note D = mergeset_orderD [OF assms(1)] and S = colour_inv_set [OF assms]
  let ?rel = "relations_store m" and ?k = "unat (gd_k m)"
  let ?bs = "greedy_blues ?rel ?k (insert sp (blues_of m spd)) pre"
  have bs: "mergeset_blues nd = sp # ?bs" using assms(2) by (simp add: colour_inv_def Let_def)
  have "distinct pre" using assms(1) by (simp add: mergeset_order_def cs)
  then have len: "length ?bs = card (set ?bs)" using greedy_blues_distinct distinct_card by metis
  have "set ?bs \<subseteq> set pre" by (rule greedy_blues_subset)
  then have sub: "set ?bs \<subseteq> anticone ?rel (blues_of m nd) sp"
    using D(6,7) cs unfolding anticone_def colour_inv_blues [OF assms(1,2)] by auto
  have fin: "finite (anticone ?rel (blues_of m nd) sp)" using finite_subset [OF anticone_subset S(2)] .
  have le: "card (set ?bs) \<le> card (anticone ?rel (blues_of m nd) sp)" by (rule card_mono [OF fin sub])
  have sp: "sp \<in> blues_of m nd" unfolding colour_inv_blues [OF assms(1,2)] by simp
  show "length (mergeset_blues nd) \<le> Suc ?k" using le peer_size(3) [OF assms(2) sp] by (simp add: bs len)
  assume "length (mergeset_blues nd) = Suc ?k"
  then have "?k \<le> card (anticone ?rel (blues_of m nd) sp)" using le by (simp add: bs len)
  moreover have "c \<notin> anticone ?rel (blues_of m nd) sp" using S(4) anticone_subset by blast
  moreover have "anticone ?rel (insert c (blues_of m nd)) sp = insert c (anticone ?rel (blues_of m nd) sp)"
    using D(6,7) [of c] cs by (simp add: anticone_insert)
  ultimately have "?k < card (anticone ?rel (insert c (blues_of m nd)) sp)" using fin by simp
  then show "\<not> k_cluster ?rel ?k (insert c (blues_of m nd))" using sp by (auto simp: k_cluster_def not_le)
qed

lemma new_blues_fresh:
  assumes mo: "mergeset_order m ps sp spd cs" and ci: "colour_inv m sp spd pre nd" and "set pre \<subseteq> set cs" and "distinct pre"
  shows "distinct (mergeset_blues nd)" "set (mergeset_blues nd) \<inter> blues_of m spd = {}"
proof -
  note D = mergeset_orderD [OF mo]
  let ?bs = "greedy_blues (relations_store m) (unat (gd_k m)) (insert sp (blues_of m spd)) pre"
  have bs: "mergeset_blues nd = sp # ?bs" using ci by (simp add: colour_inv_def Let_def)
  have sub: "set ?bs \<subseteq> set cs" using greedy_blues_subset assms(3) by blast
  have "sp \<notin> set ?bs" using D(6) [of sp] sub by auto
  then show "distinct (mergeset_blues nd)" unfolding bs using greedy_blues_distinct [OF assms(4)] by simp
  show "set (mergeset_blues nd) \<inter> blues_of m spd = {}" unfolding bs
    using blues_past [OF D(1,3,4)] not_in_own_blues [OF D(1,3,4)] sub D(6) by auto
qed

lemma cap_test:
  fixes k :: k_type
  assumes "n \<le> Suc (unat k)" and "unat k < 65535"
  shows "of_nat n = k + 1 \<longleftrightarrow> n = Suc (unat k)" and "padd k 1 = Ok (k + 1)"
proof -
  have u: "unat (of_nat n :: k_type) = n" "unat (k + 1) = Suc (unat k)"
    using assms by (simp_all add: unat_of_nat_small unat_word_ariths)
  show "of_nat n = k + 1 \<longleftrightarrow> n = Suc (unat k)" unfolding word_unat_eq_iff u ..
  show "padd k 1 = Ok (k + 1)" using assms(2) by (intro padd_eq) simp
qed

lemma fold_hm_insert:
  "distinct F \<Longrightarrow> set F \<inter> fst ` set xs = {} \<Longrightarrow> fold (\<lambda>p. hm_insert p (f p)) F xs = xs @ map (\<lambda>p. (p, f p)) F"
proof (induction F arbitrary: xs)
  case (Cons p F)
  have "AList.update p (f p) xs = xs @ [(p, f p)]" using Cons.prems(2) by (induction xs) auto
  then show ?case using Cons by (simp add: hm_insert_def image_iff)
qed simp

text \<open>The peers examined for a candidate: those that are not its ancestors are its anticone in the blue set.\<close>

lemma candidate_peers:
  assumes mo: "mergeset_order m ps sp spd cs" and ci: "colour_inv m sp spd pre nd" and cs: "cs = pre @ c # post"
  shows "\<exists>L. set L \<subseteq> blues_of m nd \<and> distinct L \<and>
    set (filter (\<lambda>p. \<not> is_dag_ancestor_of m p c) L) = anticone (relations_store m) (blues_of m nd) c \<and>
    check_blue_candidate_loop m nd c k None nd [] 0 = (finish_check (check_peers m nd c k L [] 0) :: ('e, _) outcome option)"
proof -
  note D = mergeset_orderD [OF mo] and SS = colour_inv_set [OF mo ci cs]
  obtain L where L: "distinct L" "set L \<subseteq> blues_of m spd" "\<forall>x\<in>blues_of m spd. ancestor m x c \<or> x \<in> set L"
      "\<And>sizes n. check_blue_candidate_loop m nd c k (Some sp) spd sizes n = (finish_check (check_peers m nd c k L sizes n) :: ('e, _) outcome option)"
    using candidate_loop_chain [OF D(1,2) SS(3) D(3,4)] by blast
  have nd: "selected_parent nd = sp" using ci by (simp add: colour_inv_def Let_def)
  have loop: "check_blue_candidate_loop m nd c k None nd [] 0 = (finish_check (check_peers m nd c k (mergeset_blues nd @ L) [] 0) :: ('e, _) outcome option)"
    using L(4) D(4) nd by (intro candidate_loop_step) simp_all
  have "distinct pre" "set pre \<subseteq> set cs" using mo by (auto simp: mergeset_order_def cs)
  note fresh = new_blues_fresh [OF mo ci this(2,1)]
  have S: "blues_of m nd = set (mergeset_blues nd) \<union> blues_of m spd"
    unfolding colour_inv_blues [OF mo ci] using ci by (auto simp: colour_inv_def Let_def)
  have R: "is_dag_ancestor_of m p c \<longleftrightarrow> ancestor m p c" if "p \<in> blues_of m nd" for p
    using D(2) SS(1,3) that unfolding reachability_ok_def blocks_def by blast
  have "anticone (relations_store m) (blues_of m nd) c = {x \<in> blues_of m nd. \<not> ancestor m x c}"
    by (rule anticone_candidate) (rule SS(5))
  then have "set (filter (\<lambda>p. \<not> is_dag_ancestor_of m p c) (mergeset_blues nd @ L)) = anticone (relations_store m) (blues_of m nd) c"
    using R L(2,3) by (auto simp: S)
  then show ?thesis using loop fresh L(1,2) by (intro exI [of _ "mergeset_blues nd @ L"]) (auto simp: S)
qed

text \<open>The verdict on a candidate: blue exactly when the blue set with it is a k-cluster, and then with the size of its blue
  anticone and the current sizes of the blocks in it.\<close>

lemma check_blue_candidate_returns:
  assumes mo: "mergeset_order m ps sp spd cs" and ci: "colour_inv m sp spd pre nd" and cs: "cs = pre @ c # post"
    and k: "unat (gd_k m) < 65535"
  defines "S \<equiv> blues_of m nd"
  shows "\<exists>n F. check_blue_candidate m nd c (gd_k m) =
      (Some (Ok (if k_cluster (relations_store m) (unat (gd_k m)) (insert c S)
         then OutputBlue n (map (\<lambda>p. (p, of_nat (card (anticone (relations_store m) S p)))) F) else OutputRed)) :: ('e, _) outcome option) \<and>
    distinct F \<and> set F = anticone (relations_store m) S c \<and>
    (k_cluster (relations_store m) (unat (gd_k m)) (insert c S) \<longrightarrow> unat n = card (anticone (relations_store m) S c))"
proof -
  let ?rel = "relations_store m" and ?k = "gd_k m"
  let ?sz = "\<lambda>p. of_nat (card (anticone ?rel S p)) :: k_type"
  note D = mergeset_orderD [OF mo] and SS = colour_inv_set [OF mo ci cs, folded S_def]
  note cap = mergeset_blues_cap [OF mo ci cs, folded S_def] and sz = peer_size [OF ci, folded S_def]
  obtain L where L: "set L \<subseteq> S" "distinct L" "set (filter (\<lambda>p. \<not> is_dag_ancestor_of m p c) L) = anticone ?rel S c"
      "check_blue_candidate_loop m nd c ?k None nd [] 0 = (finish_check (check_peers m nd c ?k L [] 0) :: ('e, _) outcome option)"
    using candidate_peers [OF mo ci cs, folded S_def] by blast
  define F where "F = filter (\<lambda>p. \<not> is_dag_ancestor_of m p c) L"
  have F: "distinct F" "set F = anticone ?rel S c" using L(2,3) by (simp_all add: F_def)
  have lenF: "length F = card (anticone ?rel S c)" using distinct_card [OF F(1)] by (simp add: F(2))
  have "?sz p = ?k \<longleftrightarrow> card (anticone ?rel S p) = unat ?k" if "p \<in> S" for p
    unfolding word_unat_eq_iff sz(2) [OF that] ..
  then have fits: "k_cluster ?rel (unat ?k) (insert c S) \<longleftrightarrow> unat (0 :: k_type) + length F \<le> unat ?k \<and> (\<forall>p\<in>set F. ?sz p \<noteq> ?k)"
    using k_cluster_insert [OF _ SS(2,4,5)] ci anticone_subset [of ?rel S c] F(2) lenF by (auto simp: colour_inv_def Let_def S_def)
  have sizes: "blue_anticone_size m p nd = (Some (Ok (?sz p)) :: ('e, _) outcome option) \<and> ?sz p \<le> ?k" if "p \<in> set L" for p
    using that sz [of p] L(1) by (auto simp: word_le_nat_alt)
  obtain sizes' n' where peers: "check_peers m nd c ?k L [] 0 =
      (Some (Ok (if k_cluster ?rel (unat ?k) (insert c S) then Pending else StateRed, sizes', n')) :: ('e, _) outcome option)"
      "k_cluster ?rel (unat ?k) (insert c S) \<Longrightarrow> sizes' = fold (\<lambda>p. hm_insert p (?sz p)) F [] \<and> unat n' = unat (0 :: k_type) + length F"
    using check_peers_returns [where sz = ?sz and L = L and c = c and sizes = "[]", OF sizes k word_zero_le,
        folded F_def, folded fits] by blast
  have "check_blue_candidate m nd c ?k = (if length (mergeset_blues nd) = Suc (unat ?k) then Some (Ok OutputRed)
      else finish_check (check_peers m nd c ?k L [] 0) :: ('e, _) outcome option)"
    by (simp add: check_blue_candidate_def cap_test [OF cap(1) k] L(4))
  then show ?thesis using cap(2) peers fold_hm_insert [OF F(1), of "[]" ?sz] lenF F
    by (intro exI [of _ n'] exI [of _ F]) (auto simp: finish_check_def)
qed

section \<open>The colouring loop\<close>

lemma blue_set_cong:
  "mergeset_blues d = mergeset_blues d' \<Longrightarrow> selected_parent d = selected_parent d' \<Longrightarrow> blue_set store d = blue_set store d'"
  by (simp add: blue_set_def in_blue.simps [of store d] in_blue.simps [of store d'])

lemma lookup_size_cong:
  assumes "lookup_size m d x s" and "hm_get (blues_anticone_sizes d') x = hm_get (blues_anticone_sizes d) x"
    and "selected_parent d' = selected_parent d"
  shows "lookup_size m d' x s"
  using assms by (simp add: lookup_size.simps [of m d] lookup_size.simps [of m d'])

lemma hm_get_fold_insert: "hm_get (fold (\<lambda>p. hm_insert p (f p)) F sizes) x = (if x \<in> set F then Some (f x) else hm_get sizes x)"
  by (induction F arbitrary: sizes) (auto simp: hm_get_def hm_insert_def update_conv')

lemma add_blue_returns:
  assumes "\<And>p. p \<in> set F \<Longrightarrow> unat (f p) + 1 < 2 ^ 16"
  shows "add_blue c n (map (\<lambda>p. (p, f p)) F) d = (Ok (d\<lparr>mergeset_blues := mergeset_blues d @ [c],
    blues_anticone_sizes := fold (\<lambda>p. hm_insert p (f p + 1)) F (hm_insert c n (blues_anticone_sizes d))\<rparr>) :: ('e, _) outcome)"
proof -
  have "ofold (\<lambda>(blue, s) sizes. obind (padd s 1) (\<lambda>s. Ok (hm_insert blue s sizes))) (map (\<lambda>p. (p, f p)) F) sizes =
      (Ok (fold (\<lambda>p. hm_insert p (f p + 1)) F sizes) :: ('e, _) outcome)" for sizes
    using assms
  proof (induction F arbitrary: sizes)
    case (Cons p F)
    have "padd (f p) 1 = (Ok (f p + 1) :: ('e, _) outcome)" using Cons.prems [of p] by (intro padd_eq) simp
    then show ?case using Cons by simp
  qed simp
  then show ?thesis by (simp add: add_blue_def)
qed

text \<open>Adding a blue block updates the sizes to those of the larger blue set.\<close>

lemma sizes_exact_add_blue:
  assumes "sizes_exact m d" and S: "S = blues_of m d" "finite S" "c \<notin> S" "\<And>x. x \<in> S \<Longrightarrow> \<not> ancestor m c x"
    and d': "selected_parent d' = selected_parent d" "blues_of m d' = insert c S"
      "blues_anticone_sizes d' = fold (\<lambda>p. hm_insert p (of_nat (card (anticone (relations_store m) S p)) + 1)) F (hm_insert c n (blues_anticone_sizes d))"
    and F: "set F = anticone (relations_store m) S c" "unat n = card (anticone (relations_store m) S c)"
    and small: "\<And>x. x \<in> S \<Longrightarrow> card (anticone (relations_store m) S x) + 1 < 2 ^ 16"
  shows "sizes_exact m d'"
  unfolding sizes_exact_def d'(2)
proof
  let ?rel = "relations_store m"
  have get: "hm_get (blues_anticone_sizes d') x = (if x \<in> anticone ?rel S c then Some (of_nat (card (anticone ?rel S x)) + 1)
      else if x = c then Some n else hm_get (blues_anticone_sizes d) x)" for x
    by (simp add: d'(3) hm_get_fold_insert F(1))
  fix x assume x: "x \<in> insert c S"
  show "\<exists>s. lookup_size m d' x s \<and> unat s = card (anticone ?rel (insert c S) x)"
  proof (cases "x = c")
    case True
    have "c \<notin> anticone ?rel S c" "anticone ?rel (insert c S) c = anticone ?rel S c" by (auto simp: anticone_def)
    then show ?thesis using get [of c] F(2) True by (intro exI [of _ n]) (auto intro: size_here)
  next
    case False
    then have xS: "x \<in> S" using x by simp
    obtain s where s: "lookup_size m d x s" "unat s = card (anticone ?rel S x)" using assms(1) xS S(1) by (auto simp: sizes_exact_def)
    have fin: "finite (anticone ?rel S x)" "c \<notin> anticone ?rel S x" using finite_subset [OF anticone_subset S(2)] S(3) anticone_subset by blast+
    show ?thesis
    proof (cases "x \<in> anticone ?rel S c")
      case True
      then have "anticone ?rel (insert c S) x = insert c (anticone ?rel S x)" by (auto simp: anticone_insert anticone_def)
      moreover have "unat (of_nat (card (anticone ?rel S x)) + 1 :: k_type) = card (anticone ?rel S x) + 1"
        using small [OF xS] by (simp add: unat_word_ariths unat_of_nat)
      ultimately show ?thesis using fin True get [of x] by (intro exI [of _ "of_nat (card (anticone ?rel S x)) + 1"]) (auto intro: size_here)
    next
      case n: False
      then have "anticone ?rel (insert c S) x = anticone ?rel S x" using xS by (auto simp: anticone_insert anticone_def)
      then show ?thesis using lookup_size_cong [OF s(1)] get [of x] n False d'(1) s(2) by auto
    qed
  qed
qed

lemma colour_step_returns:
  assumes mo: "mergeset_order m ps sp spd cs" and ci: "colour_inv m sp spd pre nd" and cs: "cs = pre @ c # post"
    and k: "unat (gd_k m) < 65535"
  shows "\<exists>nd'. colour_step m c nd = (Some (Ok nd') :: ('e, _) outcome option) \<and> colour_inv m sp spd (pre @ [c]) nd'"
proof -
  let ?rel = "relations_store m" and ?k = "unat (gd_k m)" and ?S = "blues_of m nd" and ?T = "insert sp (blues_of m spd)"
  let ?bs = "greedy_blues ?rel ?k ?T pre"
  note SS = colour_inv_set [OF mo ci cs]
  have nd: "selected_parent nd = sp" "mergeset_blues nd = sp # ?bs" "mergeset_reds nd = filter (\<lambda>x. x \<notin> set ?bs) pre" "sizes_exact m nd"
    "k_cluster ?rel ?k ?S" using ci by (simp_all add: colour_inv_def Let_def)
  have g: "greedy_blues ?rel ?k ?T (pre @ [c]) = ?bs @ (if k_cluster ?rel ?k (insert c ?S) then [c] else [])"
    using greedy_blues_snoc [of ?rel ?k ?T pre c] by (simp only: colour_inv_blues [OF mo ci])
  have c: "c \<notin> set pre" using mo by (auto simp: mergeset_order_def cs)
  have bs: "set ?bs \<subseteq> set pre" by (rule greedy_blues_subset)
  obtain n F where F: "check_blue_candidate m nd c (gd_k m) = (Some (Ok (if k_cluster ?rel ?k (insert c ?S)
         then OutputBlue n (map (\<lambda>p. (p, of_nat (card (anticone ?rel ?S p)))) F) else OutputRed)) :: ('e, _) outcome option)"
      "set F = anticone ?rel ?S c" "k_cluster ?rel ?k (insert c ?S) \<Longrightarrow> unat n = card (anticone ?rel ?S c)"
    using check_blue_candidate_returns [OF mo ci cs k] by blast
  show ?thesis
  proof (cases "k_cluster ?rel ?k (insert c ?S)")
    case True
    have small: "card (anticone ?rel ?S x) + 1 < 2 ^ 16" if "x \<in> ?S" for x using peer_size(3) [OF ci that] k by simp
    define nd' where "nd' = nd\<lparr>mergeset_blues := mergeset_blues nd @ [c], blues_anticone_sizes :=
      fold (\<lambda>p. hm_insert p (of_nat (card (anticone ?rel ?S p)) + 1)) F (hm_insert c n (blues_anticone_sizes nd))\<rparr>"
    have "unat (of_nat (card (anticone ?rel ?S p)) :: k_type) + 1 < 2 ^ 16" if "p \<in> set F" for p
      using that small [of p] peer_size(2) [OF ci, of p] anticone_subset [of ?rel ?S c] F(2) by auto
    from add_blue_returns [OF this] have "add_blue c n (map (\<lambda>p. (p, of_nat (card (anticone ?rel ?S p)))) F) nd = (Ok nd' :: ('e, _) outcome)"
      by (simp add: nd'_def)
    then have "colour_step m c nd = (Some (Ok nd') :: ('e, _) outcome option)" using F(1) True by (simp add: colour_step_def)
    moreover have B: "blues_of m nd' = insert c ?S"
      using blue_set_unfold [of nd' "ghostdag_store m" spd] blue_set_unfold [of nd "ghostdag_store m" spd] mergeset_orderD(3,4) [OF mo] nd(1)
      by (auto simp: nd'_def blocks_def)
    moreover have "sizes_exact m nd'"
      using sizes_exact_add_blue [OF nd(4) refl SS(2,4,5) _ B _ F(2) F(3) [OF True] small] by (simp add: nd'_def)
    ultimately show ?thesis using nd g True bs c by (intro exI [of _ nd']) (auto simp: colour_inv_def Let_def nd'_def intro!: filter_cong)
  next
    case False
    let ?nd = "add_red c nd"
    have "blues_of m ?nd = ?S" by (rule blue_set_cong) (simp_all add: add_red_def)
    moreover have "sizes_exact m ?nd" using nd(4) lookup_size_cong [of m nd _ _ ?nd] unfolding sizes_exact_def \<open>blues_of m ?nd = ?S\<close>
      by (fastforce simp: add_red_def)
    ultimately show ?thesis using F(1) False nd g bs c by (auto simp: colour_step_def colour_inv_def Let_def add_red_def)
  qed
qed

end
