(* ===== verification/Ghostdag_Protocol.thy ===== *)
theory Ghostdag_Protocol
  imports Ghostdag_Colouring
begin

text \<open>
  The whole of \<open>ghostdag\<close>: in a DAG whose stores satisfy the invariant it returns, for every admissible list of
  parents, the data of the greedy colouring with the exact blue score and blue work; and storing a block with that data keeps the
  invariant.
\<close>

section \<open>The start of the loop\<close>

lemma data_exact:
  assumes "dag_inv m" and "b \<in> blocks m" and "ghostdag_store m b = Some d"
  shows "sizes_exact m d" "k_cluster (relations_store m) (unat (gd_k m)) (blues_of m d)"
    "unat (blue_score d) = card (blues_of m d)" "unat (blue_work d) = sum (work_of m) (blues_of m d)"
proof -
  have "sizes_exact m d \<and> k_cluster (relations_store m) (unat (gd_k m)) (blues_of m d) \<and>
      unat (blue_score d) = card (blues_of m d) \<and> unat (blue_work d) = sum (work_of m) (blues_of m d)"
  proof (rule dag_inv_block [OF assms(1,2)])
    assume "b = genesis_hash m"
    then have "d = genesis_ghostdag_data" using dag_inv_genesis(5) [OF assms(1)] assms(3) by simp
    then show ?thesis by (simp add: sizes_exact_def k_cluster_def) (simp add: genesis_ghostdag_data_def)
  qed (use assms(3) in \<open>auto simp: block_inv_def\<close>)
  then show "sizes_exact m d" "k_cluster (relations_store m) (unat (gd_k m)) (blues_of m d)"
    "unat (blue_score d) = card (blues_of m d)" "unat (blue_work d) = sum (work_of m) (blues_of m d)" by auto
qed

lemma colour_inv_init:
  assumes mo: "mergeset_order m ps sp spd cs" and k: "unat (gd_k m) < 65535"
  shows "\<exists>nd. new_with_selected_parent sp (gd_k m) = (Ok nd :: ('e, _) outcome) \<and> colour_inv m sp spd [] nd"
proof -
  note D = mergeset_orderD [OF mo]
  let ?rel = "relations_store m" and ?B = "blues_of m spd"
  define nd where "nd = \<lparr>blue_score = 0, blue_work = 0, selected_parent = sp, mergeset_blues = [sp], mergeset_reds = [],
    blues_anticone_sizes = hm_insert sp (0 :: k_type) []\<rparr>"
  have new: "new_with_selected_parent sp (gd_k m) = (Ok nd :: ('e, _) outcome)"
    using cap_test(2) [of 0 "gd_k m"] k by (simp add: new_with_selected_parent_def nd_def padd_eq)
  have B: "blues_of m nd = insert sp ?B"
    using blue_set_unfold [of nd "ghostdag_store m" spd] D(3,4) by (simp add: nd_def blocks_def)
  note past = blues_past [OF D(1,3,4)] and exact = data_exact [OF D(1,3,4)]
  have sp: "anticone ?rel (insert sp ?B) sp = {}" using past by (auto simp: anticone_def)
  have x: "anticone ?rel (insert sp ?B) x = anticone ?rel ?B x" "x \<noteq> sp" if "x \<in> ?B" for x
    using past [OF that] by (auto simp: anticone_insert)
  have "\<exists>s. lookup_size m nd x s \<and> unat s = card (anticone ?rel (insert sp ?B) x)" if "x \<in> insert sp ?B" for x
  proof (cases "x = sp")
    case True
    then show ?thesis by (intro exI [of _ 0]) (simp add: sp size_here nd_def hm_get_def hm_insert_def)
  next
    case False
    then have xB: "x \<in> ?B" using that by simp
    then obtain s where s: "lookup_size m spd x s" "unat s = card (anticone ?rel ?B x)" using exact(1) by (auto simp: sizes_exact_def)
    have "sp \<noteq> genesis_hash m" using xB dag_inv_genesis(5) [OF D(1)] D(4) by auto
    then have "lookup_size m nd x s"
      using s(1) D(3,4) x(2) [OF xB] by (intro size_chain [of nd x m spd]) (auto simp: nd_def hm_get_def hm_insert_def blocks_def)
    then show ?thesis using s(2) x(1) [OF xB] by auto
  qed
  moreover have "k_cluster ?rel (unat (gd_k m)) (insert sp ?B)" using exact(2) sp x(1) by (auto simp: k_cluster_def)
  ultimately show ?thesis using new B by (intro exI [of _ nd]) (simp add: colour_inv_def sizes_exact_def, simp add: nd_def)
qed

section \<open>The blue score and the blue work\<close>

text \<open>The bounds of the arithmetic: every known block has a non-zero target and work that fits, the total work of the DAG
  fits in 192 bits and the number of blocks in 64.\<close>

definition dag_sized :: "ghostdag_manager \<Rightarrow> bool" where
  "dag_sized m \<longleftrightarrow> card (blocks m) < 2 ^ 64 \<and> sum (work_of m) (blocks m) < 2 ^ 192 \<and>
     (\<forall>b\<in>blocks m. \<exists>bits. headers_bits m b = Some bits \<and> uval (from_compact_target_bits bits) \<noteq> 0 \<and> work_value bits < 2 ^ 192)"

lemma block_work_returns:
  assumes "dag_sized m" and "b \<in> blocks m"
  shows "\<exists>w. block_work m b = (Ok w :: ('e, _) outcome) \<and> unat w = work_of m b" and "0 < work_of m b"
proof -
  obtain bits where b: "headers_bits m b = Some bits" "uval (from_compact_target_bits bits) \<noteq> 0" "work_value bits < 2 ^ 192"
    using assms by (auto simp: dag_sized_def)
  have u: "unat (of_nat (work_value bits) :: blue_work_type) = work_value bits" using b(3) by (intro unat_of_nat_small) simp
  have "unat (max (of_nat (work_value bits)) (gd_level_work m)) = max (work_value bits) (unat (gd_level_work m))"
    using u by (simp add: max_def word_le_nat_alt)
  then show "\<exists>w. block_work m b = (Ok w :: ('e, _) outcome) \<and> unat w = work_of m b"
    by (simp add: block_work_def b(1) calc_work_Ok [OF b(2,3)] work_of_def)
  have "0 < work_value bits" unfolding work_value_def using compact_target_not_max [of bits]
    by (simp only: div_greater_zero_iff) linarith
  then show "0 < work_of m b" by (simp add: work_of_def b)
qed

lemma unat_sum_list:
  "sum_list (map unat ws) < 2 ^ LENGTH('a) \<Longrightarrow> unat (sum_list ws) = sum_list (map unat ws)" for ws :: "'a::len word list"
proof (induction ws)
  case (Cons w ws)
  then show ?case by (simp add: unat_word_ariths)
qed simp

lemma sum_blues_le:
  assumes "dag_inv m" and "S \<subseteq> blocks m"
  shows "sum (work_of m) S \<le> sum (work_of m) (blocks m)" "card S \<le> card (blocks m)"
  using assms dag_inv_genesis(6) [OF assms(1)] by (auto intro: sum_mono2 card_mono)

lemma finalize_returns:
  assumes mo: "mergeset_order m ps sp spd cs" and ci: "colour_inv m sp spd cs nd" and sized: "dag_sized m"
  shows "\<exists>d. finalize_data m sp nd = (Ok d :: ('e, _) outcome) \<and> colour_inv m sp spd cs d \<and>
    unat (blue_score d) = card (blues_of m d) \<and> unat (blue_work d) = sum (work_of m) (blues_of m d)"
proof -
  note D = mergeset_orderD [OF mo]
  note exact = data_exact [OF D(1,3,4)]
  let ?mb = "mergeset_blues nd" and ?S = "blues_of m nd"
  have "distinct cs" using mo by (simp add: mergeset_order_def)
  note fresh = new_blues_fresh [OF mo ci order_refl this]
  have S: "?S = set ?mb \<union> blues_of m spd"
    unfolding colour_inv_blues [OF mo ci] using ci by (auto simp: colour_inv_def Let_def)
  have mb: "set ?mb \<subseteq> blocks m"
    using ci D(3,5) greedy_blues_subset [of "relations_store m" "unat (gd_k m)" "insert sp (blues_of m spd)" cs]
    by (auto simp: colour_inv_def Let_def)
  have Sb: "?S \<subseteq> blocks m" using mb blues_past [OF D(1,3,4)] by (auto simp: S)
  have fin: "finite (blues_of m spd)" by (rule finite_blues [OF D(1,3,4)])
  have card: "card ?S = card (blues_of m spd) + length ?mb" and sum: "sum (work_of m) ?S = sum (work_of m) (blues_of m spd) + sum_list (map (work_of m) ?mb)"
    unfolding S using fresh fin by (simp_all add: card_Un_disjoint sum.union_disjoint distinct_card sum_list_distinct_conv_sum_set)
  have "\<forall>b\<in>set ?mb. \<exists>w. block_work m b = (Ok w :: ('e, _) outcome) \<and> unat w = work_of m b" using block_work_returns(1) [OF sized] mb by blast
  then obtain f where f: "\<And>b. b \<in> set ?mb \<Longrightarrow> block_work m b = (Ok (f b) :: ('e, _) outcome)" "\<And>b. b \<in> set ?mb \<Longrightarrow> unat (f b) = work_of m b" by metis
  have um: "map unat (map f ?mb) = map (work_of m) ?mb" using f(2) by simp
  have lim: "sum (work_of m) ?S < 2 ^ 192" "card ?S < 2 ^ 64" using sum_blues_le [OF D(1) Sb] sized by (auto simp: dag_sized_def)
  have w: "unat (blue_work spd + sum_list (map f ?mb)) = sum (work_of m) ?S"
    using lim(1) unat_sum_list [of "map f ?mb"] exact(4) unfolding um sum by (simp add: unat_word_ariths)
  have l: "unat (of_nat (length ?mb) :: u64) = length ?mb" using lim(2) by (intro unat_of_nat_small) (simp add: card)
  then have sc: "padd (blue_score spd) (of_nat (length ?mb)) = (Ok (blue_score spd + of_nat (length ?mb)) :: ('e, _) outcome)"
      "unat (blue_score spd + of_nat (length ?mb)) = card ?S"
    using lim(2) exact(3) by (auto simp: card unat_word_ariths intro!: padd_eq)
  define d where "d = finalize_score_and_work (blue_score spd + of_nat (length ?mb)) (blue_work spd + sum_list (map f ?mb)) nd"
  have "finalize_data m sp nd = (Ok d :: ('e, _) outcome)" by (simp add: finalize_data_def D(4) sc(1) omap_Ok [OF f(1)] d_def)
  moreover have B: "blues_of m d = ?S" by (rule blue_set_cong) (simp_all add: d_def finalize_score_and_work_def)
  moreover have "sizes_exact m d" using ci lookup_size_cong [of m nd _ _ d] unfolding sizes_exact_def B
    by (fastforce simp: d_def finalize_score_and_work_def colour_inv_def Let_def sizes_exact_def)
  ultimately show ?thesis using ci w sc(2) by (auto simp: colour_inv_def Let_def d_def finalize_score_and_work_def)
qed

section \<open>The protocol\<close>

lemma ordered_mergeset_returns:
  assumes m: "dag_inv m" "reachability_ok m" and ps: "parents_ok m ps" and sp: "sp \<in> set ps" "ghostdag_store m sp = Some spd"
  shows "\<exists>cs. ordered_mergeset_without_selected_parent m sp ps = (Some (Ok cs) :: ('e, _) outcome option) \<and> mergeset_order m ps sp spd cs"
proof -
  obtain ms where ms: "unordered_mergeset_without_selected_parent m sp ps = (Some (Ok ms) :: ('e, _) outcome option)" "distinct ms" "set ms = mergeset_of m sp ps"
    using unordered_mergeset_returns [OF m ps sp(1)] by blast
  have "set ms \<subseteq> blocks m" using mergeset_of_blocks(1) [OF m(1)] ps sp(1) by (auto simp: ms(3) parents_ok_def)
  from sort_blocks_returns [OF m(1) ms(2) this] obtain cs where
    "sort_blocks m ms = (Ok cs :: ('e, _) outcome)" "distinct cs" "set cs = set ms" "sorted (map (block_key m) cs)" by blast
  then show ?thesis using ms m ps sp by (auto simp: ordered_mergeset_without_selected_parent_def mergeset_order_def)
qed

definition ghostdag_spec :: "ghostdag_manager \<Rightarrow> hash list \<Rightarrow> ghostdag_data \<Rightarrow> bool" where
  "ghostdag_spec m ps d \<longleftrightarrow>
     (\<exists>sp spd cs. mergeset_order m ps sp spd cs \<and> (\<forall>p\<in>set ps. block_key m p \<le> block_key m sp) \<and> colour_inv m sp spd cs d \<and>
        unat (blue_score d) = card (blues_of m d) \<and> unat (blue_work d) = sum (work_of m) (blues_of m d))"

lemma ghostdag_returns:
  assumes m: "dag_inv m" "reachability_ok m" "dag_sized m" and k: "unat (gd_k m) < 65535" and ps: "parents_ok m ps"
  shows "\<exists>d. ghostdag m ps = (Some (Ok d) :: ('e, _) outcome option) \<and> ghostdag_spec m ps d"
proof -
  have pb: "ps \<noteq> []" "set ps \<subseteq> blocks m" using ps by (simp_all add: parents_ok_def)
  obtain sp where sp: "sp \<in> set ps" "find_selected_parent m ps = (Ok sp :: ('e, _) outcome)" "\<forall>p\<in>set ps. block_key m p \<le> block_key m sp"
    using find_selected_parent_returns [OF m(1) pb] by blast
  obtain spd where spd: "ghostdag_store m sp = Some spd" using blocks_store [OF m(1)] sp(1) pb(2) by blast
  obtain cs where cs: "ordered_mergeset_without_selected_parent m sp ps = (Some (Ok cs) :: ('e, _) outcome option)" "mergeset_order m ps sp spd cs"
    using ordered_mergeset_returns [OF m(1,2) ps sp(1) spd] by blast
  obtain nd where nd: "new_with_selected_parent sp (gd_k m) = (Ok nd :: ('e, _) outcome)" "colour_inv m sp spd [] nd"
    using colour_inv_init [OF cs(2) k] by blast
  obtain t where t: "dfold (colour_step m) cs nd = (Some (Ok t) :: ('e, _) outcome option)" "colour_inv m sp spd cs t"
    using dfold_invariant [where I = "colour_inv m sp spd" and f = "colour_step m", OF nd(2)] colour_step_returns [OF cs(2) _ _ k] by blast
  obtain d where d: "finalize_data m sp t = (Ok d :: ('e, _) outcome)" "colour_inv m sp spd cs d"
      "unat (blue_score d) = card (blues_of m d)" "unat (blue_work d) = sum (work_of m) (blues_of m d)"
    using finalize_returns [OF cs(2) t(2) m(3)] by blast
  have "\<not> is_origin sp" using sp(1) pb(2) by (auto simp: is_origin_def blocks_def)
  then have "ghostdag m ps = (Some (Ok d) :: ('e, _) outcome option)" using pb(1) by (simp add: ghostdag_def sp(2) nd(1) cs(1) t(1) d(1))
  then show ?thesis using cs(2) sp(3) d(2-) unfolding ghostdag_spec_def by blast
qed

end
