(* ===== verification/Ghostdag_Growth.thy ===== *)
theory Ghostdag_Growth
  imports Ghostdag_Protocol
begin

text \<open>
  Growth of the DAG: storing a new block with the data \<open>ghostdag\<close> returns keeps the invariant of the stores.
  Ancestry, blue sets and recorded sizes of the blocks already there do not change.
\<close>

definition add_block :: "hash \<Rightarrow> hash list \<Rightarrow> ghostdag_data \<Rightarrow> u32 \<Rightarrow> (hash \<Rightarrow> hash \<Rightarrow> bool) \<Rightarrow> ghostdag_manager \<Rightarrow> ghostdag_manager" where
  "add_block h ps d bits reachability m =
     m\<lparr>ghostdag_store := (ghostdag_store m)(h \<mapsto> d), relations_store := (relations_store m)(h \<mapsto> ps),
       headers_bits := (headers_bits m)(h \<mapsto> bits), is_dag_ancestor_of := reachability\<rparr>"

lemma add_block_simps [simp]:
  "ghostdag_store (add_block h ps d bits R m) = (ghostdag_store m)(h \<mapsto> d)"
  "relations_store (add_block h ps d bits R m) = (relations_store m)(h \<mapsto> ps)"
  "headers_bits (add_block h ps d bits R m) = (headers_bits m)(h \<mapsto> bits)"
  "is_dag_ancestor_of (add_block h ps d bits R m) = R"
  "genesis_hash (add_block h ps d bits R m) = genesis_hash m" "gd_k (add_block h ps d bits R m) = gd_k m"
  "gd_level_work (add_block h ps d bits R m) = gd_level_work m"
  by (simp_all add: add_block_def)

section \<open>What an old block keeps\<close>

lemma dag_ancestor_mono: "dag_ancestor rel a b \<Longrightarrow> rel \<subseteq>\<^sub>m rel' \<Longrightarrow> dag_ancestor rel' a b"
  by (induction rule: dag_ancestor.induct) (auto intro: dag_step simp: map_le_def dom_def)

lemma add_block_ancestor:
  assumes m: "dag_inv m" and h: "h \<notin> dom (relations_store m)" and "b \<in> dom (relations_store m)"
  shows "dag_ancestor ((relations_store m)(h \<mapsto> ps)) a b \<longleftrightarrow> ancestor m a b"
proof
  assume "dag_ancestor ((relations_store m)(h \<mapsto> ps)) a b"
  then show "ancestor m a b" using assms(3)
  proof (induction rule: dag_ancestor.induct)
    case (dag_step b qs p a)
    then have qs: "relations_store m b = Some qs" using h by (auto split: if_splits)
    have "b = ORIGIN \<or> b \<in> blocks m" using dag_step.prems by (auto simp: blocks_def)
    then have "p \<in> dom (relations_store m)"
      using parent_known [OF m _ qs dag_step.hyps(2)] dag_step.hyps(2) qs dag_inv_genesis(3) [OF m] by auto
    then show ?case using dag_step.IH dag_ancestor.dag_step [of "relations_store m" b qs p a] qs dag_step.hyps(2) by blast
  qed simp
next
  assume "ancestor m a b"
  then show "dag_ancestor ((relations_store m)(h \<mapsto> ps)) a b"
    by (rule dag_ancestor_mono) (use h in \<open>auto simp: map_le_def\<close>)
qed

lemma add_block_anticone:
  assumes "dag_inv m" and "h \<notin> dom (relations_store m)" and "S \<subseteq> blocks m" and "x \<in> S"
  shows "anticone ((relations_store m)(h \<mapsto> ps)) S x = anticone (relations_store m) S x"
proof -
  have "dag_ancestor ((relations_store m)(h \<mapsto> ps)) a b \<longleftrightarrow> ancestor m a b" if "b \<in> S" for a b
    using assms(3) that by (intro add_block_ancestor [OF assms(1,2)]) (auto simp: blocks_def)
  then show ?thesis using assms(4) by (auto simp: anticone_def)
qed

lemma add_block_k_cluster:
  assumes "dag_inv m" and "h \<notin> dom (relations_store m)" and "S \<subseteq> blocks m"
  shows "k_cluster ((relations_store m)(h \<mapsto> ps)) k S \<longleftrightarrow> k_cluster (relations_store m) k S"
  using add_block_anticone [OF assms] by (simp add: k_cluster_def)

lemma add_block_blues:
  assumes m: "dag_inv m" and h: "h \<notin> dom (relations_store m)" and "b \<in> blocks m" and "ghostdag_store m b = Some e"
  shows "blue_set ((ghostdag_store m)(h \<mapsto> d)) e = blues_of m e"
  using assms(3,4)
proof (induction arbitrary: e rule: chain_induct [OF m assms(3)])
  case 1
  then show ?case using dag_inv_genesis(5) [OF m] by simp
next
  case (2 b qs e' e)
  then have e: "e' = e" by simp
  obtain f where f: "ghostdag_store m (selected_parent e) = Some f" using blocks_store [OF m 2(6)] e by blast
  moreover have "selected_parent e \<noteq> h" "selected_parent e \<noteq> ORIGIN" using 2(6) e h by (auto simp: blocks_def)
  ultimately show ?case using 2(7) [OF _ f [folded e]] 2(6) e by (simp add: blue_set_unfold [of e _ f])
qed

lemma add_block_lookup:
  assumes "lookup_size m e x s" and "h \<notin> dom (ghostdag_store m)"
  shows "lookup_size (add_block h ps d bits R m) e x s"
  using assms(1)
proof (induction rule: lookup_size.induct)
  case (size_chain e x e' s)
  then have "ghostdag_store (add_block h ps d bits R m) (selected_parent e) = Some e'" using assms(2) by auto
  then show ?case using size_chain lookup_size.size_chain [of e x "add_block h ps d bits R m" e' s] by simp
qed (simp add: lookup_size.size_here)

lemma add_block_blocks: "h \<noteq> ORIGIN \<Longrightarrow> blocks (add_block h ps d bits R m) = insert h (blocks m)"
  by (auto simp: blocks_def)

lemma add_block_rank: "b \<noteq> h \<Longrightarrow> rank (add_block h ps d bits R m) b = rank m b"
  by (simp add: rank_def)

lemma add_block_work: "b \<noteq> h \<Longrightarrow> work_of (add_block h ps d bits R m) b = work_of m b"
  by (simp add: work_of_def split: option.split)

text \<open>The parts of the invariant that only look at a blue set of old blocks.\<close>

lemma add_block_sizes:
  assumes "dag_inv m" and "h \<notin> dom (relations_store m)" and "blue_set ((ghostdag_store m)(h \<mapsto> d)) e = blues_of m e"
    and "blues_of m e \<subseteq> blocks m"
  shows "sizes_exact m e \<Longrightarrow> sizes_exact (add_block h ps d bits R m) e"
proof -
  have "h \<notin> dom (ghostdag_store m)" using assms(1,2) by (simp add: dag_inv_def)
  then show "sizes_exact m e \<Longrightarrow> sizes_exact (add_block h ps d bits R m) e"
    using add_block_anticone [OF assms(1,2,4)] add_block_lookup
    by (fastforce simp: sizes_exact_def assms(3))
qed

lemma add_block_sum:
  assumes "h \<notin> S"
  shows "sum (work_of (add_block h ps d bits R m)) S = sum (work_of m) S"
  using assms by (intro sum.cong refl add_block_work) auto

section \<open>The invariant is kept\<close>

lemma old_block_inv:
  assumes m: "dag_inv m" and h: "h \<notin> dom (relations_store m)" "h \<noteq> ORIGIN" and b: "b \<in> blocks m" "ghostdag_store m b = Some e"
    and inv: "block_inv m b qs e"
  shows "block_inv (add_block h ps d bits R m) b qs e"
proof -
  have "h \<notin> blocks m" using h(1) by (simp add: blocks_def)
  then have ne: "x \<noteq> h" if "x \<in> blocks m" for x using that by blast
  have sub: "blues_of m e \<subseteq> blocks m" using blues_past [OF m b] by blast
  have B: "blue_set ((ghostdag_store m)(h \<mapsto> d)) e = blues_of m e" by (rule add_block_blues [OF m h(1) b])
  have anc: "dag_ancestor ((relations_store m)(h \<mapsto> ps)) x p \<longleftrightarrow> ancestor m x p" if "p \<in> blocks m" for x p
    using that by (intro add_block_ancestor [OF m h(1)]) (simp add: blocks_def)
  have qs: "set qs \<subseteq> blocks m" "selected_parent e \<in> set qs" using inv by (auto simp: block_inv_def)
  obtain bs where bs: "mergeset_blues e = selected_parent e # bs" "distinct bs"
      "\<forall>x\<in>set bs. (\<exists>p\<in>set qs. ancestor m x p) \<and> \<not> ancestor m x (selected_parent e)" using inv by (auto simp: block_inv_def)
  have sp: "selected_parent e \<in> blocks m" using qs by blast
  have "\<forall>x\<in>set bs. (\<exists>p\<in>set qs. dag_ancestor ((relations_store m)(h \<mapsto> ps)) x p) \<and>
      \<not> dag_ancestor ((relations_store m)(h \<mapsto> ps)) x (selected_parent e)" using bs(3) anc [OF sp] anc qs(1) by blast
  moreover have "\<forall>p\<in>set qs. rank (add_block h ps d bits R m) p < rank (add_block h ps d bits R m) b"
    using inv qs(1) ne b(1) by (auto simp: block_inv_def add_block_rank)
  moreover have "sizes_exact (add_block h ps d bits R m) e"
    using inv by (intro add_block_sizes [OF m h(1) B sub]) (simp add: block_inv_def)
  moreover have "h \<notin> blues_of m e" using sub ne by blast
  ultimately show ?thesis using inv bs(1,2) qs add_block_k_cluster [OF m h(1) sub]
    by (auto simp: block_inv_def add_block_blocks [OF h(2)] B add_block_sum)
qed

lemma new_block_rank:
  assumes mo: "mergeset_order m ps sp spd cs" and ci: "colour_inv m sp spd cs d" and sized: "dag_sized m"
    and w: "unat (blue_work d) = sum (work_of m) (blues_of m d)" and "\<forall>p\<in>set ps. block_key m p \<le> block_key m sp" and "p \<in> set ps"
  shows "rank m p < unat (blue_work d)"
proof -
  note D = mergeset_orderD [OF mo]
  have "finite (blues_of m d)"
    using colour_inv_blues [OF mo ci] finite_blues [OF D(1,3,4)] by simp
  moreover have "insert sp (blues_of m spd) \<subseteq> blues_of m d" using colour_inv_blues [OF mo ci] by blast
  ultimately have "sum (work_of m) (insert sp (blues_of m spd)) \<le> sum (work_of m) (blues_of m d)" by (intro sum_mono2) auto
  moreover have "sum (work_of m) (insert sp (blues_of m spd)) = work_of m sp + rank m sp"
    using not_in_own_blues [OF D(1,3,4)] finite_blues [OF D(1,3,4)] data_exact(4) [OF D(1,3,4)] by (simp add: rank_def D(4))
  moreover have "0 < work_of m sp" by (rule block_work_returns(2) [OF sized D(3)])
  moreover have "rank m p \<le> rank m sp" using assms(5,6) block_key_rank by blast
  ultimately show ?thesis unfolding w by linarith
qed

lemma new_block_inv:
  assumes m: "dag_inv m" "dag_sized m" and h: "h \<notin> dom (relations_store m)" "h \<noteq> ORIGIN" and spec: "ghostdag_spec m ps d"
  shows "block_inv (add_block h ps d bits R m) h ps d"
proof -
  obtain sp spd cs where mo: "mergeset_order m ps sp spd cs" and key: "\<forall>p\<in>set ps. block_key m p \<le> block_key m sp" and ci: "colour_inv m sp spd cs d"
    and score: "unat (blue_score d) = card (blues_of m d)" and work: "unat (blue_work d) = sum (work_of m) (blues_of m d)"
    using spec by (auto simp: ghostdag_spec_def)
  note D = mergeset_orderD [OF mo]
  let ?bs = "greedy_blues (relations_store m) (unat (gd_k m)) (insert sp (blues_of m spd)) cs"
  have ps: "set ps \<subseteq> blocks m" "sp \<in> set ps" "distinct cs" "set cs = mergeset_of m sp ps"
    using mo by (simp_all add: mergeset_order_def parents_ok_def)
  have ne: "x \<noteq> h" if "x \<in> blocks m" for x using that h(1) by (auto simp: blocks_def)
  have sp: "selected_parent d = sp" "mergeset_blues d = sp # ?bs" "sizes_exact m d" "k_cluster (relations_store m) (unat (gd_k m)) (blues_of m d)"
    using ci by (simp_all add: colour_inv_def Let_def)
  have bs: "set ?bs \<subseteq> mergeset_of m sp ps" using greedy_blues_subset ps(4) by blast
  have sub: "blues_of m d \<subseteq> blocks m"
    using colour_inv_blues [OF mo ci] bs ps(4) D(3,5) blues_past [OF D(1,3,4)] by auto
  have spb: "sp \<noteq> ORIGIN" "sp \<noteq> h" using D(3) ne by (auto simp: blocks_def)
  have B: "blue_set ((ghostdag_store m)(h \<mapsto> d)) d = blues_of m d"
    using D(4) spb add_block_blues [OF m(1) h(1) D(3,4)]
    by (simp add: blue_set_unfold [of d "(ghostdag_store m)(h \<mapsto> d)" spd] blue_set_unfold [of d "ghostdag_store m" spd] sp(1))
  have anc: "dag_ancestor ((relations_store m)(h \<mapsto> ps)) x p \<longleftrightarrow> ancestor m x p" if "p \<in> blocks m" for x p
    using that by (intro add_block_ancestor [OF m(1) h(1)]) (simp add: blocks_def)
  have "\<forall>x\<in>set ?bs. (\<exists>p\<in>set ps. dag_ancestor ((relations_store m)(h \<mapsto> ps)) x p) \<and> \<not> dag_ancestor ((relations_store m)(h \<mapsto> ps)) x sp"
    using bs anc ps(1) D(3) unfolding mergeset_of_def by blast
  moreover have "\<forall>p\<in>set ps. rank (add_block h ps d bits R m) p < rank (add_block h ps d bits R m) h"
    using new_block_rank [OF mo ci m(2) work key] ps(1) ne by (auto simp: rank_def)
  moreover have "sizes_exact (add_block h ps d bits R m) d" by (rule add_block_sizes [OF m(1) h(1) B sub sp(3)])
  moreover have "h \<notin> blues_of m d" using sub ne by blast
  ultimately show ?thesis using sp ps(1,2) greedy_blues_distinct [OF ps(3)] add_block_k_cluster [OF m(1) h(1) sub] score work
    by (auto simp: block_inv_def add_block_blocks [OF h(2)] B add_block_sum)
qed

lemma add_block_inv:
  assumes m: "dag_inv m" "dag_sized m" and h: "h \<notin> dom (relations_store m)" and spec: "ghostdag_spec m ps d"
  shows "dag_inv (add_block h ps d bits R m)"
proof -
  have hO: "h \<noteq> ORIGIN" "h \<noteq> genesis_hash m" using h dag_inv_genesis(3,4) [OF m(1)] by auto
  have "block_inv (add_block h ps d bits R m) b qs e"
    if "relations_store (add_block h ps d bits R m) b = Some qs" "ghostdag_store (add_block h ps d bits R m) b = Some e"
      "b \<noteq> ORIGIN" "b \<noteq> genesis_hash m" for b qs e
  proof (cases "b = h")
    case True
    then show ?thesis using that new_block_inv [OF m h hO(1) spec] by simp
  next
    case False
    then have "block_inv m b qs e" "b \<in> blocks m" using m(1) that by (auto simp: dag_inv_def blocks_def)
    then show ?thesis using old_block_inv [OF m(1) h hO(1)] that False by simp
  qed
  then show ?thesis using m(1) h hO unfolding dag_inv_def by auto
qed

end
