(* ===== verification/Ghostdag_Properties.thy ===== *)
theory Ghostdag_Properties
  imports Ghostdag_Growth
begin

text \<open>
  The DAGs a node can build, from the genesis block on, and what holds of their GHOSTDAG data.
\<close>

definition genesis_dag :: "hash \<Rightarrow> u32 \<Rightarrow> k_type \<Rightarrow> (hash \<Rightarrow> hash \<Rightarrow> bool) \<Rightarrow> ghostdag_manager" where
  "genesis_dag genesis bits k reachability =
     \<lparr>genesis_hash = genesis, gd_k = k, ghostdag_store = [ORIGIN \<mapsto> origin_ghostdag_data, genesis \<mapsto> genesis_ghostdag_data],
      relations_store = [ORIGIN \<mapsto> [], genesis \<mapsto> [ORIGIN]], headers_bits = [genesis \<mapsto> bits],
      is_dag_ancestor_of = reachability, gd_level_work = 0\<rparr>"

text \<open>A block is added with the data \<open>ghostdag\<close> computes for its parents.\<close>

inductive dag_reachable :: "ghostdag_manager \<Rightarrow> bool" where
  dag_genesis: "genesis \<noteq> ORIGIN \<Longrightarrow> dag_reachable (genesis_dag genesis bits k R)"
| dag_add: "dag_reachable m \<Longrightarrow> reachability_ok m \<Longrightarrow> dag_sized m \<Longrightarrow> unat (gd_k m) < 65535 \<Longrightarrow> parents_ok m ps \<Longrightarrow>
    h \<notin> dom (relations_store m) \<Longrightarrow> ghostdag m ps = Some (Ok d :: (unit, _) outcome) \<Longrightarrow> dag_reachable (add_block h ps d bits R m)"

lemma genesis_dag_inv: "genesis \<noteq> ORIGIN \<Longrightarrow> dag_inv (genesis_dag genesis bits k R)"
  by (auto simp: genesis_dag_def dag_inv_def)

lemma dag_reachable_inv: "dag_reachable m \<Longrightarrow> dag_inv m"
proof (induction rule: dag_reachable.induct)
  case (dag_add m ps h d bits R)
  obtain d' where "ghostdag m ps = Some (Ok d' :: (unit, _) outcome)" "ghostdag_spec m ps d'"
    using ghostdag_returns [OF dag_add.IH dag_add.hyps(2-5), where 'e = unit] by blast
  then show ?case using add_block_inv [OF dag_add.IH dag_add.hyps(3,6)] dag_add.hyps(7) by simp
qed (rule genesis_dag_inv)

text \<open>C29: GHOSTDAG computes the greedy colouring. On every DAG the node can build, and for any parents that are known and not
  ancestors of one another, the algorithm returns: it does not loop and does not panic. The selected parent is the parent of
  the highest blue work; the mergeset is the set of blocks behind the parents and not behind the selected parent; going through it in the order of
  blue work, a block is blue exactly when the blue set stays a k-cluster with it, and red otherwise. The counters and the lookups along the
  selected chain by which the code decides this agree with the definition.\<close>

theorem ghostdag_greedy_colouring:
  assumes "dag_reachable m" "reachability_ok m" "dag_sized m" "unat (gd_k m) < 65535" "parents_ok m ps"
  shows "\<exists>d sp spd cs. ghostdag m ps = (Some (Ok d) :: ('e, _) outcome option) \<and> selected_parent d = sp \<and> ghostdag_store m sp = Some spd \<and>
    sp \<in> set ps \<and> (\<forall>p\<in>set ps. block_key m p \<le> block_key m sp) \<and>
    distinct cs \<and> set cs = mergeset_of m sp ps \<and> sorted (map (block_key m) cs) \<and>
    (let bs = greedy_blues (relations_store m) (unat (gd_k m)) (insert sp (blue_set (ghostdag_store m) spd)) cs in
     mergeset_blues d = sp # bs \<and> mergeset_reds d = filter (\<lambda>x. x \<notin> set bs) cs)"
proof -
  obtain d where d: "ghostdag m ps = (Some (Ok d) :: ('e, _) outcome option)" "ghostdag_spec m ps d"
    using ghostdag_returns [OF dag_reachable_inv [OF assms(1)] assms(2-5), where 'e = 'e] by blast
  then show ?thesis by (fastforce simp: ghostdag_spec_def mergeset_order_def colour_inv_def Let_def)
qed

text \<open>C30: the stored data of every block of every DAG the node can build is right: its blue set is a k-cluster of its past (no blue block has more
  than k blue blocks in its anticone), the blue score is the number of its blue blocks, the blue work is the sum
  of their work, and the blue work grows strictly from each parent.\<close>

theorem stored_blue_sets:
  assumes "dag_reachable m" and "relations_store m b = Some ps" "ghostdag_store m b = Some d" "b \<noteq> ORIGIN" "b \<noteq> genesis_hash m"
  shows "k_cluster (relations_store m) (unat (gd_k m)) (blue_set (ghostdag_store m) d) \<and>
    (\<forall>x\<in>blue_set (ghostdag_store m) d. dag_ancestor (relations_store m) x b) \<and>
    unat (blue_score d) = card (blue_set (ghostdag_store m) d) \<and>
    unat (blue_work d) = sum (work_of m) (blue_set (ghostdag_store m) d) \<and>
    (\<forall>p\<in>set ps. \<exists>e. ghostdag_store m p = Some e \<and> blue_work e < blue_work d)"
proof -
  have m: "dag_inv m" by (rule dag_reachable_inv [OF assms(1)])
  have b: "b \<in> blocks m" "block_inv m b ps d" using m assms(2-) by (auto simp: dag_inv_def blocks_def)
  have "\<exists>e. ghostdag_store m p = Some e \<and> blue_work e < blue_work d" if p: "p \<in> set ps" for p
  proof -
    have "p \<in> blocks m" "rank m p < rank m b" using b(2) p by (auto simp: block_inv_def)
    then show ?thesis using blocks_store [OF m] assms(3) by (fastforce simp: rank_def word_less_nat_alt)
  qed
  then show ?thesis using b(2) blues_past [OF m b(1) assms(3)] by (auto simp: block_inv_def)
qed

section \<open>A DAG of four blocks\<close>

text \<open>The genesis block \<open>[1]\<close>, two blocks on it, and parameter \<open>k = 0\<close>, so that a block that merges the two has one of them red.\<close>

definition sample_reachability :: "hash \<Rightarrow> hash \<Rightarrow> bool" where
  "sample_reachability a b \<longleftrightarrow> a = b \<or> a = ORIGIN \<or> (a = Hash [1] \<and> b \<noteq> ORIGIN)"

definition sample_data :: ghostdag_data where
  "sample_data = \<lparr>blue_score = 1, blue_work = 2, selected_parent = Hash [1], mergeset_blues = [Hash [1]], mergeset_reds = [],
     blues_anticone_sizes = [(Hash [1], 0)]\<rparr>"

definition sample_genesis :: ghostdag_manager where
  "sample_genesis = genesis_dag (Hash [1]) 0x207fffff 0 sample_reachability"

definition sample_chain :: ghostdag_manager where
  "sample_chain = add_block (Hash [2]) [Hash [1]] sample_data 0x207fffff sample_reachability sample_genesis"

definition sample_fork :: ghostdag_manager where
  "sample_fork = add_block (Hash [3]) [Hash [1]] sample_data 0x207fffff sample_reachability sample_chain"

lemma sample_origin: "Hash [x] \<noteq> ORIGIN"
  by (simp add: ORIGIN_def HASH_SIZE_def numeral_eq_Suc)

lemma sample_work: "work_value 0x207fffff = 2" "uval (from_compact_target_bits 0x207fffff) \<noteq> 0"
  using from_compact_target_bits_uval [of "0x207fffff" "0x7fffff" "0x20"] by (simp_all add: work_value_def)

lemma sample_ancestor:
  assumes "rel ORIGIN = Some []" "rel (Hash [1]) = Some [ORIGIN]" and "\<And>b. b \<noteq> ORIGIN \<Longrightarrow> b \<noteq> Hash [1] \<Longrightarrow> rel b = None \<or> rel b = Some [Hash [1]]"
  shows "dag_ancestor rel a b \<longleftrightarrow> a = b \<or> (a = ORIGIN \<and> b \<in> dom rel) \<or> (a = Hash [1] \<and> b \<in> dom rel \<and> b \<noteq> ORIGIN)"
proof -
  have o: "dag_ancestor rel a ORIGIN \<longleftrightarrow> a = ORIGIN" for a by (subst dag_ancestor_unfold) (auto simp: assms(1))
  have g: "dag_ancestor rel a (Hash [1]) \<longleftrightarrow> a = Hash [1] \<or> a = ORIGIN" for a by (subst dag_ancestor_unfold) (auto simp: assms(2) o)
  show ?thesis using assms(3) [of b] by (cases "b = ORIGIN"; cases "b = Hash [1]") (auto simp: o g assms(1,2) dag_ancestor_unfold [of rel a b])
qed

lemma sample_reachability_ok:
  assumes "relations_store m ORIGIN = Some []" "relations_store m (Hash [1]) = Some [ORIGIN]" "is_dag_ancestor_of m = sample_reachability"
    and "\<And>b. b \<noteq> ORIGIN \<Longrightarrow> b \<noteq> Hash [1] \<Longrightarrow> relations_store m b = None \<or> relations_store m b = Some [Hash [1]]"
  shows "reachability_ok m"
  by (simp add: reachability_ok_def sample_ancestor [OF assms(1,2,4)] assms(3) sample_reachability_def)

lemmas sample_states = sample_genesis_def sample_chain_def sample_fork_def genesis_dag_def add_block_def

lemmas sample_evaluation = ghostdag_def find_selected_parent_def get_sortable_block_def sample_origin
  is_origin_def new_with_selected_parent_def ordered_mergeset_without_selected_parent_def
  unordered_mergeset_without_selected_parent_def mergeset_loop.simps sort_blocks_def finalize_data_def block_work_def calc_work_Ok
  sample_work sample_data_def padd_eq hm_insert_def genesis_ghostdag_data_def finalize_score_and_work_def

lemma sample_ghostdag:
  "ghostdag sample_genesis [Hash [1]] = Some (Ok sample_data :: (unit, _) outcome)"
  "ghostdag sample_chain [Hash [1]] = Some (Ok sample_data :: (unit, _) outcome)"
  by (simp_all add: sample_states sample_evaluation)

lemma sample_reachability_oks: "reachability_ok sample_genesis" "reachability_ok sample_chain" "reachability_ok sample_fork"
  by (rule sample_reachability_ok; simp add: sample_states sample_origin sample_origin [symmetric])+

lemma sample_sized:
  assumes "blocks m \<subseteq> {Hash [1], Hash [2], Hash [3]}" "gd_level_work m = 0" and "\<And>b. b \<in> blocks m \<Longrightarrow> headers_bits m b = Some 0x207fffff"
  shows "dag_sized m"
proof -
  have "card (blocks m) \<le> card {Hash [1], Hash [2], Hash [3]}" by (rule card_mono [OF _ assms(1)]) simp
  then have "card (blocks m) \<le> 3" by simp
  moreover have "sum (work_of m) (blocks m) = card (blocks m) * 2" using assms(2,3) by (simp add: work_of_def sample_work(1))
  ultimately show ?thesis using assms(3) sample_work by (simp add: dag_sized_def)
qed

lemma sample_sizes: "dag_sized sample_genesis" "dag_sized sample_chain" "dag_sized sample_fork"
  by (rule sample_sized; auto simp: sample_states blocks_def)+

lemma sample_parents:
  "parents_ok sample_genesis [Hash [1]]" "parents_ok sample_chain [Hash [1]]" "parents_ok sample_fork [Hash [2], Hash [3]]"
  using sample_reachability_oks(3)
  by (auto simp: parents_ok_def blocks_def sample_states sample_origin reachability_ok_def sample_reachability_def)

lemma sample_k [simp]: "gd_k sample_genesis = 0" "gd_k sample_chain = 0" "gd_k sample_fork = 0"
  by (simp_all add: sample_states)

lemma sample_reachable: "dag_reachable sample_fork"
proof -
  have "dag_reachable sample_genesis" unfolding sample_genesis_def by (intro dag_genesis sample_origin)
  then have "dag_reachable sample_chain" unfolding sample_chain_def
    by (rule dag_add [OF _ sample_reachability_oks(1) sample_sizes(1) _ sample_parents(1) _ sample_ghostdag(1)]) (simp_all add: sample_states sample_origin)
  then show ?thesis unfolding sample_fork_def
    by (rule dag_add [OF _ sample_reachability_oks(2) sample_sizes(2) _ sample_parents(2) _ sample_ghostdag(2)]) (simp_all add: sample_states sample_origin)
qed

theorem ghostdag_greedy_colouring_witness:
  "\<exists>d. ghostdag sample_fork [Hash [2], Hash [3]] = (Some (Ok d) :: (unit, _) outcome option) \<and> selected_parent d \<in> {Hash [2], Hash [3]}"
  using ghostdag_greedy_colouring [OF sample_reachable sample_reachability_oks(3) sample_sizes(3) _ sample_parents(3), where 'e = unit]
  by fastforce

theorem stored_blue_sets_witness:
  "k_cluster (relations_store sample_fork) 0 (blue_set (ghostdag_store sample_fork) sample_data) \<and>
   card (blue_set (ghostdag_store sample_fork) sample_data) = 1"
  using stored_blue_sets [OF sample_reachable, of "Hash [3]" "[Hash [1]]" sample_data]
  by (simp add: sample_states sample_origin) (simp add: sample_data_def)

end
