(* ===== verification/Ghostdag_Mergeset.thy ===== *)
theory Ghostdag_Mergeset
  imports Ghostdag_Properties
begin

text \<open>
  The mergesets stored in a DAG: blues and reds are disjoint, each in strictly ascending order, below the selected
  parent and outside of its past. This is what the iterators over a mergeset rely on.
\<close>

definition mergeset_sorted :: "ghostdag_manager \<Rightarrow> ghostdag_data \<Rightarrow> bool" where
  "mergeset_sorted m d \<longleftrightarrow> selected_parent d \<in> blocks m \<and>
     (\<exists>bs. mergeset_blues d = selected_parent d # bs \<and>
        sorted_wrt (<) (map (block_key m) bs) \<and> sorted_wrt (<) (map (block_key m) (mergeset_reds d)) \<and> set bs \<inter> set (mergeset_reds d) = {} \<and>
        (\<forall>x\<in>set bs \<union> set (mergeset_reds d). x \<in> blocks m \<and> block_key m x < block_key m (selected_parent d) \<and> \<not> ancestor m x (selected_parent d)))"

definition mergesets_inv :: "ghostdag_manager \<Rightarrow> bool" where
  "mergesets_inv m \<longleftrightarrow> (\<forall>b d. b \<in> blocks m \<longrightarrow> b \<noteq> genesis_hash m \<longrightarrow> ghostdag_store m b = Some d \<longrightarrow>
     mergeset_sorted m d \<and> (\<forall>x\<in>set (unordered_mergeset d). ancestor m x b))"

lemma greedy_blues_filter: "distinct cs \<Longrightarrow> greedy_blues rel k S cs = filter (\<lambda>x. x \<in> set (greedy_blues rel k S cs)) cs"
proof (induction cs arbitrary: S)
  case (Cons c cs)
  have "c \<notin> set (greedy_blues rel k T cs)" for T using greedy_blues_subset [of rel k T cs] Cons.prems by auto
  moreover have "filter (\<lambda>x. x = c \<or> P x) cs = filter P cs" for P using Cons.prems by (intro filter_cong) auto
  ultimately show ?case using Cons by auto
qed simp

lemma sorted_keys_distinct: "sorted (map (block_key m) cs) \<Longrightarrow> distinct cs \<Longrightarrow> sorted_wrt (<) (map (block_key m) cs)"
proof -
  assume "sorted (map (block_key m) cs)" "distinct cs"
  moreover have "inj (block_key m)" by (rule injI) (metis sb_hash_block_key)
  ultimately show ?thesis by (simp add: strict_sorted_iff distinct_map inj_on_def inj_def)
qed

lemma key_below:
  assumes m: "dag_inv m" and "x \<in> mergeset_of m sp ps" "set ps \<subseteq> blocks m" "sp \<in> set ps" "\<forall>p\<in>set ps. block_key m p \<le> block_key m sp"
  shows "block_key m x < block_key m sp"
proof -
  obtain p where p: "p \<in> set ps" "ancestor m x p" "\<not> ancestor m x sp" using assms(2) by (auto simp: mergeset_of_def)
  then have "x \<noteq> ORIGIN" using origin_ancestor [OF m, of sp] assms(3,4) by auto
  then have "x = p \<or> rank m x < rank m p" using ancestor_rank [OF m p(2)] p(1) assms(3) by blast
  then show ?thesis
  proof
    assume "x = p"
    then show ?thesis using assms(5) p by (metis dag_refl order_le_less sb_hash_block_key)
  next
    assume "rank m x < rank m p"
    moreover have "rank m p \<le> rank m sp" using assms(5) p(1) block_key_rank by blast
    ultimately show ?thesis by (metis block_key_rank leD leI order_less_le_trans)
  qed
qed

lemma ghostdag_spec_sorted:
  assumes "ghostdag_spec m ps d"
  shows "mergeset_sorted m d" and "x \<in> set (unordered_mergeset d) \<Longrightarrow> \<exists>p\<in>set ps. ancestor m x p"
proof -
  obtain sp spd cs where mo: "mergeset_order m ps sp spd cs" and key: "\<forall>p\<in>set ps. block_key m p \<le> block_key m sp" and ci: "colour_inv m sp spd cs d"
    using assms by (auto simp: ghostdag_spec_def)
  note D = mergeset_orderD [OF mo]
  let ?bs = "greedy_blues (relations_store m) (unat (gd_k m)) (insert sp (blues_of m spd)) cs"
  have cs: "distinct cs" "set cs = mergeset_of m sp ps" "sorted (map (block_key m) cs)" "sp \<in> set ps" "set ps \<subseteq> blocks m"
    using mo by (simp_all add: mergeset_order_def parents_ok_def)
  have d: "selected_parent d = sp" "mergeset_blues d = sp # ?bs" "mergeset_reds d = filter (\<lambda>x. x \<notin> set ?bs) cs"
    using ci by (simp_all add: colour_inv_def Let_def)
  have s: "sorted_wrt (<) (map (block_key m) cs)" by (rule sorted_keys_distinct [OF cs(3,1)])
  then have "sorted_wrt (<) (map (block_key m) (filter P cs))" for P by (simp add: sorted_wrt_map sorted_wrt_filter)
  then have "sorted_wrt (<) (map (block_key m) ?bs)" "sorted_wrt (<) (map (block_key m) (mergeset_reds d))"
    using greedy_blues_filter [OF cs(1)] unfolding d(3) by metis+
  moreover have sub: "set ?bs \<subseteq> set cs" "set (mergeset_reds d) \<subseteq> set cs" using greedy_blues_subset d(3) by auto
  moreover have "x \<in> blocks m \<and> block_key m x < block_key m sp \<and> \<not> ancestor m x sp" if "x \<in> set cs" for x
    using that D(5,6) key_below [OF D(1) _ cs(5,4) key] cs(2) by auto
  ultimately show "mergeset_sorted m d" using D(3) d by (auto simp: mergeset_sorted_def)
  show "\<exists>p\<in>set ps. ancestor m x p" if "x \<in> set (unordered_mergeset d)"
    using that sub cs(2,4) d by (auto simp: unordered_mergeset_def mergeset_of_def)
qed

lemma add_block_key: "b \<noteq> h \<Longrightarrow> block_key (add_block h ps d bits R m) b = block_key m b"
  by (simp add: block_key_def)

lemma add_block_sorted:
  assumes m: "dag_inv m" and h: "h \<notin> dom (relations_store m)" "h \<noteq> ORIGIN" and "mergeset_sorted m e"
  shows "mergeset_sorted (add_block h ps d bits R m) e"
proof -
  obtain bs where sp: "selected_parent e \<in> blocks m" and bs: "mergeset_blues e = selected_parent e # bs"
    "sorted_wrt (<) (map (block_key m) bs)" "sorted_wrt (<) (map (block_key m) (mergeset_reds e))" "set bs \<inter> set (mergeset_reds e) = {}"
    "\<forall>x\<in>set bs \<union> set (mergeset_reds e). x \<in> blocks m \<and> block_key m x < block_key m (selected_parent e) \<and> \<not> ancestor m x (selected_parent e)"
    using assms(4) by (auto simp: mergeset_sorted_def)
  have k: "block_key (add_block h ps d bits R m) x = block_key m x" if "x \<in> blocks m" for x
    using that h(1) by (intro add_block_key) (auto simp: blocks_def)
  have maps: "map (block_key (add_block h ps d bits R m)) bs = map (block_key m) bs"
      "map (block_key (add_block h ps d bits R m)) (mergeset_reds e) = map (block_key m) (mergeset_reds e)" using k bs(5) by auto
  have anc: "dag_ancestor ((relations_store m)(h \<mapsto> ps)) x (selected_parent e) \<longleftrightarrow> ancestor m x (selected_parent e)" for x
    using sp by (intro add_block_ancestor [OF m h(1)]) (simp add: blocks_def)
  have "\<forall>x\<in>set bs \<union> set (mergeset_reds e). x \<in> blocks (add_block h ps d bits R m) \<and>
      block_key (add_block h ps d bits R m) x < block_key (add_block h ps d bits R m) (selected_parent e) \<and>
      \<not> ancestor (add_block h ps d bits R m) x (selected_parent e)"
    using bs(5) k sp by (simp add: anc add_block_blocks [OF h(2)])
  then show ?thesis using sp bs(1-4) unfolding mergeset_sorted_def by (simp add: maps [simplified] add_block_blocks [OF h(2)]) (simp add: maps)
qed

lemma add_block_mergesets:
  assumes m: "dag_inv m" and h: "h \<notin> dom (relations_store m)" and inv: "mergesets_inv m" and spec: "ghostdag_spec m ps d"
  shows "mergesets_inv (add_block h ps d bits R m)"
proof -
  have hO: "h \<noteq> ORIGIN" using h dag_inv_genesis(3) [OF m] by auto
  have ps: "set ps \<subseteq> blocks m" using spec by (auto simp: ghostdag_spec_def mergeset_order_def parents_ok_def)
  have mono: "ancestor m x b \<Longrightarrow> dag_ancestor ((relations_store m)(h \<mapsto> ps)) x b" for x b
    by (erule dag_ancestor_mono) (use h in \<open>auto simp: map_le_def\<close>)
  have "\<forall>x\<in>set (unordered_mergeset d). dag_ancestor ((relations_store m)(h \<mapsto> ps)) x h"
    using ghostdag_spec_sorted(2) [OF spec] mono dag_step [of "(relations_store m)(h \<mapsto> ps)" h ps] by (metis fun_upd_same)
  moreover have "mergeset_sorted (add_block h ps d bits R m) d" by (rule add_block_sorted [OF m h hO ghostdag_spec_sorted(1) [OF spec]])
  moreover have "mergeset_sorted (add_block h ps d bits R m) e \<and> (\<forall>x\<in>set (unordered_mergeset e). dag_ancestor ((relations_store m)(h \<mapsto> ps)) x b)"
    if "b \<in> blocks m" "b \<noteq> genesis_hash m" "ghostdag_store m b = Some e" for b e
    using inv that mono add_block_sorted [OF m h hO] unfolding mergesets_inv_def by metis
  ultimately show ?thesis unfolding mergesets_inv_def add_block_blocks [OF hO] by auto
qed

lemma dag_reachable_mergesets: "dag_reachable m \<Longrightarrow> mergesets_inv m"
proof (induction rule: dag_reachable.induct)
  case (dag_genesis genesis bits k R)
  then show ?case by (auto simp: mergesets_inv_def genesis_dag_def blocks_def)
next
  case (dag_add m ps h d bits R)
  note m = dag_reachable_inv [OF dag_add.hyps(1)]
  obtain d' where "ghostdag m ps = Some (Ok d' :: (unit, _) outcome)" "ghostdag_spec m ps d'"
    using ghostdag_returns [OF m dag_add.hyps(2-5), where 'e = unit] by blast
  then show ?case using add_block_mergesets [OF m dag_add.hyps(6) dag_add.IH] dag_add.hyps(7) by simp
qed

end
