(* ===== verification/Window_Properties.thy ===== *)
theory Window_Properties
  imports Window_Heap Ghostdag_Mergeset
begin

text \<open>
  A block window is the set of the highest sampled blocks of the selected chain, whether or not a cache holds the windows
  of ancestors.
\<close>

section \<open>Sampling a mergeset\<close>

text \<open>The sampling over blocks that are all known.\<close>

fun samples_list :: "window_manager \<Rightarrow> u64 \<Rightarrow> u64 \<Rightarrow> u64 \<Rightarrow> u64 \<Rightarrow> sortable_block list \<Rightarrow> sampled_block list" where
  "samples_list w rate sp_daa threshold index [] = []"
| "samples_list w rate sp_daa threshold index (b # bs) =
     (if blue_score (the (wm_ghostdag_store w (sb_hash b))) < threshold then NonDaa (sb_hash b) # samples_list w rate sp_daa threshold index bs
      else if (sp_daa + (index + 1)) mod rate = 0 then Sampled b # samples_list w rate sp_daa threshold (index + 1) bs
      else samples_list w rate sp_daa threshold (index + 1) bs)"

lemma sample_items_known:
  assumes "\<forall>b\<in>set bs. wm_ghostdag_store w (sb_hash b) \<noteq> None" and "unat sp_daa + unat index + length bs < 2 ^ 64"
  shows "sample_items w rate sp_daa threshold index (map Ok bs) = (map Ok (samples_list w rate sp_daa threshold index bs) :: ('e, _) outcome list)"
  using assms
proof (induction bs arbitrary: index)
  case (Cons b bs)
  obtain d where d: "wm_ghostdag_store w (sb_hash b) = Some d" using Cons.prems(1) by auto
  have i: "unat (index + 1) = unat index + 1" using Cons.prems(2) by (simp add: unat_word_ariths)
  have "padd index 1 = (Ok (index + 1) :: ('e, _) outcome)" "padd sp_daa (index + 1) = (Ok (sp_daa + (index + 1)) :: ('e, _) outcome)" using Cons.prems(2) i by (simp_all add: padd_eq)
  then show ?case using Cons i d by simp
qed simp

primrec sampled_blocks :: "sampled_block list \<Rightarrow> sortable_block list" where
  "sampled_blocks [] = []"
| "sampled_blocks (x # xs) = (case x of Sampled b \<Rightarrow> b # sampled_blocks xs | NonDaa _ \<Rightarrow> sampled_blocks xs)"

primrec non_daa_blocks :: "sampled_block list \<Rightarrow> hash list" where
  "non_daa_blocks [] = []"
| "non_daa_blocks (x # xs) = (case x of Sampled _ \<Rightarrow> non_daa_blocks xs | NonDaa h \<Rightarrow> h # non_daa_blocks xs)"

lemma sampled_subset: "set (sampled_blocks (samples_list w rate sp_daa threshold index bs)) \<subseteq> set bs"
  by (induction bs arbitrary: index) auto

lemma sampled_descending:
  "sorted_wrt (>) bs \<Longrightarrow> sorted_wrt (>) (sampled_blocks (samples_list w rate sp_daa threshold index bs))"
  using sampled_subset [of w rate sp_daa threshold _ "_ :: sortable_block list"]
  by (induction bs arbitrary: index) (auto, blast+)

lemma non_daa_exact:
  "non_daa_blocks (samples_list w rate sp_daa threshold index bs) = map sb_hash (filter (\<lambda>b. blue_score (the (wm_ghostdag_store w (sb_hash b))) < threshold) bs)"
  by (induction bs arbitrary: index) auto

section \<open>Pushing samples\<close>

lemma push_all_top:
  assumes "0 < n" "finite S" and "distinct (sampled_blocks xs)" and "set (sampled_blocks xs) \<inter> S = {}"
  shows "push_all (map Ok xs) (heap_of n S) non_daa =
    Ok (heap_of n (S \<union> set (sampled_blocks xs)), fold List.insert (non_daa_blocks xs) non_daa)"
  using assms
proof (induction xs arbitrary: S non_daa)
  case (Cons x xs)
  then show ?case using try_push_top(1) [OF Cons.prems(2,1)] by (cases x) (auto simp: Un_commute)
qed simp

lemma push_while_top:
  assumes "0 < n" "finite S" and "sorted_wrt (>) (sampled_blocks xs)" and "set (sampled_blocks xs) \<inter> S = {}"
  shows "push_while (map Ok xs) (heap_of n S) = Ok (heap_of n (S \<union> set (sampled_blocks xs)))"
  using assms
proof (induction xs arbitrary: S)
  case (Cons x xs)
  show ?case
  proof (cases x)
    case (Sampled b)
    have b: "b \<notin> S" using Cons.prems(4) Sampled by simp
    obtain ok h where p: "try_push (sb_hash b) (sb_blue_work b) (heap_of n S) = (ok, h)" by force
    have h: "h = heap_of n (insert b S)" using try_push_top(1) [OF Cons.prems(2,1) b] p by simp
    show ?thesis
    proof (cases ok)
      case True
      then show ?thesis using Cons.IH [of "insert b S"] Cons.prems Sampled p h by auto
    next
      case False
      then have "top_of n (S \<union> insert b (set (sampled_blocks xs))) = top_of n S" "top_of n (S \<union> {b}) = top_of n S"
        using try_push_top(2) [OF Cons.prems(2,1) b, of "insert b (set (sampled_blocks xs))"] try_push_top(2) [OF Cons.prems(2,1) b, of "{b}"]
          p Cons.prems(3) Sampled by (auto simp: less_imp_le)
      then show ?thesis using False p h Sampled by (simp add: heap_of_def)
    qed
  qed (use Cons in simp)
qed simp

section \<open>The mergeset in descending order\<close>

lemma merge_desc_sorted:
  assumes "sorted_wrt (>) xs" "sorted_wrt (>) ys" "set xs \<inter> set ys = {}"
  shows "\<exists>zs. merge_desc (map Ok xs) (map Ok ys) = (map Ok zs :: ('e, _) outcome list) \<and> sorted_wrt (>) zs \<and> set zs = set xs \<union> set ys \<and>
    length zs = length xs + length ys"
  using assms
proof (induction "length xs + length ys" arbitrary: xs ys rule: less_induct)
  case less
  show ?case
  proof (cases "xs = [] \<or> ys = []")
    case True
    then show ?thesis using less.prems by (intro exI [of _ "xs @ ys"]) (cases xs; cases ys; auto)
  next
    case False
    then obtain x xs' y ys' where xy: "xs = x # xs'" "ys = y # ys'" by (cases xs; cases ys) auto
    then have ne: "x \<noteq> y" using less.prems(3) by auto
    show ?thesis
    proof (cases "y < x")
      case True
      obtain zs where "merge_desc (map Ok xs') (map Ok ys) = (map Ok zs :: ('e, _) outcome list)" "sorted_wrt (>) zs" "set zs = set xs' \<union> set ys"
          "length zs = length xs' + length ys"
        using less.hyps [of xs' ys] less.prems xy by auto
      then show ?thesis using True less.prems xy by (intro exI [of _ "x # zs"]) auto
    next
      case False
      obtain zs where "merge_desc (map Ok xs) (map Ok ys') = (map Ok zs :: ('e, _) outcome list)" "sorted_wrt (>) zs" "set zs = set xs \<union> set ys'"
          "length zs = length xs + length ys'"
        using less.hyps [of xs ys'] less.prems xy by auto
      then show ?thesis using False ne less.prems xy by (intro exI [of _ "y # zs"]) auto
    qed
  qed
qed

definition mergeset_desc :: "ghostdag_manager \<Rightarrow> ghostdag_data \<Rightarrow> sortable_block list" where
  "mergeset_desc m d = block_key m (selected_parent d) # rev (sorted_list_of_set (block_key m ` set (drop 1 (mergeset_blues d) @ mergeset_reds d)))"

text \<open>The setting: a DAG and a window manager on its stores.\<close>

definition window_env :: "ghostdag_manager \<Rightarrow> window_manager \<Rightarrow> bool" where
  "window_env m w \<longleftrightarrow> dag_inv m \<and> mergesets_inv m \<and> wm_genesis_hash w = genesis_hash m \<and> wm_ghostdag_store w = ghostdag_store m \<and>
     (\<forall>b\<in>blocks m. \<exists>h. wm_headers_store w b = Some h) \<and>
     dm_window_size (difficulty_manager_of w) * unat (dm_sample_rate (difficulty_manager_of w)) < 2 ^ 64 \<and>
     dm_window_size (difficulty_manager_of w) < 2 ^ 64"

definition daa_room :: "window_manager \<Rightarrow> ghostdag_data \<Rightarrow> bool" where
  "daa_room w d \<longleftrightarrow> unat (hdr_daa_score (the (wm_headers_store w (selected_parent d)))) + mergeset_size d < 2 ^ 64"

definition daa_threshold :: "window_manager \<Rightarrow> ghostdag_data \<Rightarrow> u64" where
  "daa_threshold w d = (let full = of_nat (dm_window_size (difficulty_manager_of w)) * dm_sample_rate (difficulty_manager_of w) in
     max (blue_score d) full - full)"

definition window_items :: "ghostdag_manager \<Rightarrow> window_manager \<Rightarrow> u64 \<Rightarrow> ghostdag_data \<Rightarrow> sampled_block list" where
  "window_items m w rate d =
     samples_list w rate (hdr_daa_score (the (wm_headers_store w (selected_parent d)))) (daa_threshold w d) 0 (mergeset_desc m d)"

lemma lowest_daa_blue_score_Ok:
  assumes "window_env m w"
  shows "lowest_daa_blue_score (difficulty_manager_of w) d = (Ok (daa_threshold w d) :: ('e, _) outcome)"
proof -
  let ?dm = "difficulty_manager_of w"
  have n: "unat (of_nat (dm_window_size ?dm) :: u64) = dm_window_size ?dm" using assms by (intro unat_of_nat_small) (simp add: window_env_def)
  then have "pmul (of_nat (dm_window_size ?dm)) (dm_sample_rate ?dm) = (Ok (of_nat (dm_window_size ?dm) * dm_sample_rate ?dm) :: ('e, _) outcome)"
    using assms by (simp add: pmul_def checked_mul_def window_env_def)
  then show ?thesis
    by (simp add: lowest_daa_blue_score_def difficulty_full_window_size_def daa_threshold_def Let_def psub_def checked_sub_def word_le_nat_alt [symmetric])
qed

lemma block_key_inject [simp]: "block_key m a = block_key m b \<longleftrightarrow> a = b"
  by (metis sb_hash_block_key)

lemma sorted_keys_rev: "sorted_wrt (<) (map (block_key m) xs) \<Longrightarrow> sorted_wrt (>) (map (block_key m) (rev xs))"
  by (simp add: rev_map [symmetric] sorted_wrt_rev)

lemma sortable_items:
  assumes "dag_inv m" and "set xs \<subseteq> blocks m"
  shows "map (sortable_item (ghostdag_store m)) xs = (map Ok (map (block_key m) xs) :: ('e, _) outcome list)"
  using assms(2) blocks_store [OF assms(1)] by (induction xs) (fastforce simp: sortable_item_def block_key_def)+

lemma descending_mergeset:
  assumes m: "dag_inv m" and "mergeset_sorted m d"
  shows "Ok (block_key m (selected_parent d)) # descending_mergeset_without_selected_parent (ghostdag_store m) d = (map Ok (mergeset_desc m d) :: ('e, _) outcome list)"
    and "sorted_wrt (>) (mergeset_desc m d)" and "length (mergeset_desc m d) = mergeset_size d"
    and "set (mergeset_desc m d) = block_key m ` set (unordered_mergeset d)" and "set (unordered_mergeset d) \<subseteq> blocks m"
proof -
  obtain bs where sp: "selected_parent d \<in> blocks m" and bs: "mergeset_blues d = selected_parent d # bs"
    "sorted_wrt (<) (map (block_key m) bs)" "sorted_wrt (<) (map (block_key m) (mergeset_reds d))" "set bs \<inter> set (mergeset_reds d) = {}"
    "\<forall>x\<in>set bs \<union> set (mergeset_reds d). x \<in> blocks m \<and> block_key m x < block_key m (selected_parent d)"
    using assms(2) by (auto simp: mergeset_sorted_def)
  let ?x = "map (block_key m) (rev bs)" and ?y = "map (block_key m) (rev (mergeset_reds d))"
  have sub: "set (rev bs) \<subseteq> blocks m" "set (rev (mergeset_reds d)) \<subseteq> blocks m" using bs(5) by auto
  have "set ?x \<inter> set ?y = {}" using bs(4) by auto
  then obtain zs where zs: "merge_desc (map Ok ?x) (map Ok ?y) = (map Ok zs :: ('e, _) outcome list)" "sorted_wrt (>) zs" "set zs = set ?x \<union> set ?y"
    using merge_desc_sorted [OF sorted_keys_rev [OF bs(2)] sorted_keys_rev [OF bs(3)], where 'e = 'e] by blast
  have inj: "inj_on (block_key m) A" for A by (simp add: inj_on_def)
  have "sorted_wrt (<) (rev zs)" "set (rev zs) = block_key m ` set (bs @ mergeset_reds d)" using zs(2,3) by (auto simp: sorted_wrt_rev image_Un)
  then have "rev zs = sorted_list_of_set (block_key m ` set (bs @ mergeset_reds d))" by (metis sorted_list_of_set.idem_if_sorted_distinct strict_sorted_iff)
  then have "rev (sorted_list_of_set (block_key m ` set (bs @ mergeset_reds d))) = zs" by (metis rev_rev_ident)
  then have z: "mergeset_desc m d = block_key m (selected_parent d) # zs" by (simp add: mergeset_desc_def bs(1))
  show "Ok (block_key m (selected_parent d)) # descending_mergeset_without_selected_parent (ghostdag_store m) d = (map Ok (mergeset_desc m d) :: ('e, _) outcome list)"
    using zs(1) by (simp add: z descending_mergeset_without_selected_parent_def bs(1) sortable_items [OF m sub(1)] sortable_items [OF m sub(2)])
  show "sorted_wrt (>) (mergeset_desc m d)" unfolding z using zs(2,3) bs(5) by auto
  have "distinct (bs @ mergeset_reds d)" using bs(2-4) by (auto simp: strict_sorted_iff distinct_map)
  then have "card (block_key m ` set (bs @ mergeset_reds d)) = length (bs @ mergeset_reds d)" by (metis card_image distinct_card inj)
  then show "length (mergeset_desc m d) = mergeset_size d" by (simp add: mergeset_desc_def mergeset_size_def bs(1))
  show "set (mergeset_desc m d) = block_key m ` set (unordered_mergeset d)" unfolding z using zs(3) by (auto simp: unordered_mergeset_def bs(1))
  show "set (unordered_mergeset d) \<subseteq> blocks m" using sp bs(5) by (auto simp: unordered_mergeset_def bs(1))
qed

lemma sampled_mergeset_Ok:
  assumes env: "window_env m w" and d: "mergeset_sorted m d" and room: "daa_room w d" and sp: "ghostdag_store m (selected_parent d) = Some e"
  shows "sampled_mergeset w rate d (blue_work e) = (Ok (map Ok (window_items m w rate d)) :: ('e, _) outcome)"
proof -
  have m: "dag_inv m" and store: "wm_ghostdag_store w = ghostdag_store m" using env by (simp_all add: window_env_def)
  note desc = descending_mergeset(1) [OF m d, where 'e = 'e] descending_mergeset(2-5) [OF m d]
  have "selected_parent d \<in> blocks m" using d by (simp add: mergeset_sorted_def)
  then obtain h where h: "wm_headers_store w (selected_parent d) = Some h" using env by (auto simp: window_env_def)
  have key: "SortableBlock (selected_parent d) (blue_work e) = block_key m (selected_parent d)" using sp by (simp add: block_key_def)
  have known: "\<forall>b\<in>set (mergeset_desc m d). wm_ghostdag_store w (sb_hash b) \<noteq> None"
    using desc(4,5) blocks_store [OF m] by (fastforce simp: store)
  have "sample_items w rate (hdr_daa_score h) (daa_threshold w d) 0 (map Ok (mergeset_desc m d)) = (map Ok (window_items m w rate d) :: ('e, _) outcome list)"
    using sample_items_known [OF known, of "hdr_daa_score h" 0 rate "daa_threshold w d", where 'e = 'e] room desc(3) h by (simp add: window_items_def daa_room_def)
  then show ?thesis
    using desc(1) lowest_daa_blue_score_Ok [OF env, of d, where 'e = 'e] h by (simp add: sampled_mergeset_def key store)
qed

section \<open>The samples of the selected chain\<close>

text \<open>The sampled blocks of the mergesets down the selected chain, to the child of the genesis block, whose own mergeset is not part of a window.\<close>

inductive in_chain_samples :: "ghostdag_manager \<Rightarrow> window_manager \<Rightarrow> u64 \<Rightarrow> ghostdag_data \<Rightarrow> sortable_block \<Rightarrow> bool" for m w rate where
  sample_here: "selected_parent d \<noteq> genesis_hash m \<Longrightarrow> b \<in> set (sampled_blocks (window_items m w rate d)) \<Longrightarrow> in_chain_samples m w rate d b"
| sample_chain: "selected_parent d \<noteq> genesis_hash m \<Longrightarrow> ghostdag_store m (selected_parent d) = Some e \<Longrightarrow> in_chain_samples m w rate e b \<Longrightarrow>
    in_chain_samples m w rate d b"

definition chain_samples :: "ghostdag_manager \<Rightarrow> window_manager \<Rightarrow> u64 \<Rightarrow> ghostdag_data \<Rightarrow> sortable_block set" where
  "chain_samples m w rate d = {b. in_chain_samples m w rate d b}"

lemma chain_samples_genesis: "selected_parent d = genesis_hash m \<Longrightarrow> chain_samples m w rate d = {}"
  by (auto simp: chain_samples_def elim: in_chain_samples.cases)

lemma chain_samples_step:
  "selected_parent d \<noteq> genesis_hash m \<Longrightarrow> ghostdag_store m (selected_parent d) = Some e \<Longrightarrow>
     chain_samples m w rate d = set (sampled_blocks (window_items m w rate d)) \<union> chain_samples m w rate e"
  by (auto simp: chain_samples_def in_chain_samples.simps [of m w rate d])

lemma window_items_blocks:
  assumes "window_env m w" and "mergeset_sorted m d"
  shows "set (sampled_blocks (window_items m w rate d)) \<subseteq> block_key m ` set (unordered_mergeset d)"
    and "sorted_wrt (>) (sampled_blocks (window_items m w rate d))"
proof -
  have m: "dag_inv m" using assms(1) by (simp add: window_env_def)
  show "set (sampled_blocks (window_items m w rate d)) \<subseteq> block_key m ` set (unordered_mergeset d)"
    unfolding window_items_def using sampled_subset descending_mergeset(4) [OF m assms(2)] by metis
  show "sorted_wrt (>) (sampled_blocks (window_items m w rate d))"
    unfolding window_items_def by (rule sampled_descending [OF descending_mergeset(2) [OF m assms(2)]])
qed

lemma stored_mergeset:
  assumes env: "window_env m w" and c: "c \<in> blocks m" "c \<noteq> genesis_hash m" "ghostdag_store m c = Some e"
  shows "mergeset_sorted m e" and "selected_parent e \<in> blocks m" and "rank m (selected_parent e) < rank m c"
    and "x \<in> set (unordered_mergeset e) \<Longrightarrow> x \<in> blocks m \<and> ancestor m x c \<and> x \<noteq> c"
proof -
  have m: "dag_inv m" using env by (simp add: window_env_def)
  show ms: "mergeset_sorted m e" using assms unfolding window_env_def mergesets_inv_def by blast
  then show "selected_parent e \<in> blocks m" by (simp add: mergeset_sorted_def)
  obtain ps where "relations_store m c = Some ps" using c(1) by (auto simp: blocks_def)
  then have "block_inv m c ps e" using m c unfolding dag_inv_def blocks_def by blast
  then show r: "rank m (selected_parent e) < rank m c" by (auto simp: block_inv_def)
  assume x: "x \<in> set (unordered_mergeset e)"
  then have "block_key m x \<le> block_key m (selected_parent e)"
    using ms by (auto simp: mergeset_sorted_def unordered_mergeset_def intro: less_imp_le)
  then have "rank m x \<le> rank m (selected_parent e)" by (rule block_key_rank)
  then have "x \<noteq> c" using r by auto
  then show "x \<in> blocks m \<and> ancestor m x c \<and> x \<noteq> c"
    using x descending_mergeset(5) [OF m ms] assms unfolding window_env_def mergesets_inv_def by blast
qed

text \<open>The samples of a stored block are in its past.\<close>

lemma chain_samples_past:
  assumes env: "window_env m w" and "c \<in> blocks m" "c \<noteq> genesis_hash m" "ghostdag_store m c = Some e"
  shows "chain_samples m w rate e \<subseteq> {block_key m x | x. x \<in> blocks m \<and> ancestor m x c \<and> x \<noteq> c}"
proof -
  have m: "dag_inv m" and ms: "mergesets_inv m" using env by (simp_all add: window_env_def)
  have "in_chain_samples m w rate e b \<Longrightarrow> c \<in> blocks m \<Longrightarrow> c \<noteq> genesis_hash m \<Longrightarrow> ghostdag_store m c = Some e \<Longrightarrow>
      \<exists>x. b = block_key m x \<and> x \<in> blocks m \<and> ancestor m x c \<and> x \<noteq> c" for b
  proof (induction arbitrary: c rule: in_chain_samples.induct)
    case (sample_here d b)
    note c = stored_mergeset [OF env sample_here.prems]
    show ?case using window_items_blocks(1) [OF env c(1)] sample_here.hyps(2) c(4) by blast
  next
    case (sample_chain d e b)
    note c = stored_mergeset [OF env sample_chain.prems]
    obtain x where x: "b = block_key m x" "x \<in> blocks m" "ancestor m x (selected_parent d)" "x \<noteq> selected_parent d"
      using sample_chain.IH [OF c(2) sample_chain.hyps(1,2)] by blast
    have sp: "ancestor m (selected_parent d) c" using c(1,4) by (auto simp: mergeset_sorted_def unordered_mergeset_def)
    have "x \<noteq> ORIGIN" using x(2) by (simp add: blocks_def)
    then have "rank m x < rank m c" using ancestor_rank [OF m x(3) c(2)] x(4) c(3) by auto
    then show ?case using x dag_ancestor_trans [OF sp x(3)] by auto
  qed
  then show ?thesis using assms(2-4) by (auto simp: chain_samples_def)
qed

lemma chain_samples_facts:
  assumes env: "window_env m w" and c: "c \<in> blocks m" "c \<noteq> genesis_hash m" "ghostdag_store m c = Some e"
  shows "finite (chain_samples m w rate e)" and "b \<in> chain_samples m w rate e \<Longrightarrow> b < block_key m c"
proof -
  have m: "dag_inv m" using env by (simp add: window_env_def)
  note past = chain_samples_past [OF env c, of rate]
  have "chain_samples m w rate e \<subseteq> block_key m ` blocks m" using past by blast
  then show "finite (chain_samples m w rate e)" using dag_inv_genesis(6) [OF m] by (meson finite_imageI finite_subset)
  assume "b \<in> chain_samples m w rate e"
  then obtain x where x: "b = block_key m x" "x \<in> blocks m" "ancestor m x c" "x \<noteq> c" using past by blast
  have "x \<noteq> ORIGIN" using x(2) by (simp add: blocks_def)
  then have "rank m x < rank m c" using ancestor_rank [OF m x(3) c(1)] x(4) by blast
  then show "b < block_key m c" unfolding x(1) by (metis block_key_rank leD leI)
qed

lemma chain_samples_disjoint:
  assumes env: "window_env m w" and d: "mergeset_sorted m d" and sp: "selected_parent d \<noteq> genesis_hash m" "ghostdag_store m (selected_parent d) = Some e"
  shows "set (sampled_blocks (window_items m w rate d)) \<inter> chain_samples m w rate e = {}"
    and "b \<in> chain_samples m w rate d \<Longrightarrow> b \<le> block_key m (selected_parent d)"
proof -
  have c: "selected_parent d \<in> blocks m" using d by (simp add: mergeset_sorted_def)
  note items = window_items_blocks(1) [OF env d, of rate]
  have "x = selected_parent d \<or> \<not> ancestor m x (selected_parent d)" "block_key m x \<le> block_key m (selected_parent d)"
    if "x \<in> set (unordered_mergeset d)" for x
    using d that by (auto simp: mergeset_sorted_def unordered_mergeset_def intro: less_imp_le)
  note x = this
  show "set (sampled_blocks (window_items m w rate d)) \<inter> chain_samples m w rate e = {}"
    using items x(1) chain_samples_past [OF env c sp, of rate] by fastforce
  show "b \<le> block_key m (selected_parent d)" if "b \<in> chain_samples m w rate d"
    using that items x(2) chain_samples_facts(2) [OF env c sp, of b rate] by (auto simp: chain_samples_step [OF sp])
qed

section \<open>The window\<close>

text \<open>A cache that holds only windows of known blocks, and scores that leave room for a mergeset.\<close>

definition cache_ok :: "ghostdag_manager \<Rightarrow> window_manager \<Rightarrow> nat \<Rightarrow> u64 \<Rightarrow> (hash \<rightharpoonup> block_window_heap) \<Rightarrow> bool" where
  "cache_ok m w n rate cache \<longleftrightarrow> (\<forall>c window. cache c = Some window \<longrightarrow>
     (\<exists>e. c \<in> blocks m \<and> c \<noteq> genesis_hash m \<and> ghostdag_store m c = Some e \<and> window = top_of n (chain_samples m w rate e)))"

definition rooms :: "ghostdag_manager \<Rightarrow> window_manager \<Rightarrow> bool" where
  "rooms m w \<longleftrightarrow> (\<forall>c e. c \<in> blocks m \<longrightarrow> c \<noteq> genesis_hash m \<longrightarrow> ghostdag_store m c = Some e \<longrightarrow> daa_room w e)"

lemma can_push_top:
  assumes "finite S" "0 < n"
  shows "can_push (sb_hash b) (sb_blue_work b) (heap_of n S) = Ok (n \<le> card S \<longrightarrow> (\<exists>y\<in>set (top_of n S). y \<le> b))"
proof (cases "n \<le> card S")
  case True
  then obtain least rest where t: "top_of n S = least # rest" using assms length_top_of [of n S] by (cases "top_of n S") auto
  moreover have "sorted_wrt (<) (least # rest)" using top_of_sorted [of n S] t by simp
  moreover have "length (top_of n S) = n" using True by (simp add: length_top_of)
  ultimately show ?thesis using True by (auto simp: can_push_def heap_of_def reached_size_bound_def)
qed (simp add: can_push_def heap_of_def reached_size_bound_def length_top_of)

text \<open>One round of the loop: it pushes the samples of the current block, or stops when the selected parent does not fit any more.\<close>

lemma window_loop_round:
  assumes env: "window_env m w" and rooms: "rooms m w" and n: "0 < n" and c: "c \<in> blocks m" "c \<noteq> genesis_hash m" "ghostdag_store m c = Some current"
    and S: "finite S" "S \<inter> chain_samples m w rate current = {}"
    and p: "selected_parent current \<noteq> genesis_hash m" "ghostdag_store m (selected_parent current) = Some e"
  shows "window_loop w rate cache current (heap_of n S) = Some (Ok (heap_of n (S \<union> chain_samples m w rate current))) \<or>
    window_loop w rate cache current (heap_of n S) =
      (let h = heap_of n (S \<union> set (sampled_blocks (window_items m w rate current))) in
       case cache (selected_parent current) of Some window \<Rightarrow> Some (Ok (merge_ancestor_heap window h)) | None \<Rightarrow> window_loop w rate cache e h)"
proof -
  have w: "wm_genesis_hash w = genesis_hash m" "wm_ghostdag_store w = ghostdag_store m" using env by (simp_all add: window_env_def)
  note cm = stored_mergeset [OF env c]
  let ?p = "selected_parent current"
  have origin: "\<not> is_origin ?p" using cm(2) by (simp add: is_origin_def blocks_def)
  have can: "can_push ?p (blue_work e) (heap_of n S) = (Ok (n \<le> card S \<longrightarrow> (\<exists>y\<in>set (top_of n S). y \<le> block_key m ?p)) :: (rule_error, _) outcome)"
    using can_push_top [OF S(1) n, of "block_key m ?p", where 'a = rule_error] by (simp add: block_key_def p(2))
  show ?thesis
  proof (cases "n \<le> card S \<longrightarrow> (\<exists>y\<in>set (top_of n S). y \<le> block_key m ?p)")
    case True
    have "sampled_mergeset w rate current (blue_work e) = (Ok (map Ok (window_items m w rate current)) :: (rule_error, _) outcome)"
      using rooms c by (intro sampled_mergeset_Ok [OF env cm(1) _ p(2)]) (auto simp: rooms_def)
    moreover have "push_while (map Ok (window_items m w rate current)) (heap_of n S) =
        (Ok (heap_of n (S \<union> set (sampled_blocks (window_items m w rate current)))) :: (rule_error, _) outcome)"
      using S(2) chain_samples_step [OF p, of w rate] by (intro push_while_top [OF n S(1) window_items_blocks(2) [OF env cm(1)]]) auto
    ultimately show ?thesis using can True origin p by (simp add: window_loop.simps [of w rate cache current] w Let_def)
  next
    case False
    then have "t < y" if "t \<in> chain_samples m w rate current" "y \<in> set (top_of n S)" for t y
      using chain_samples_disjoint(2) [OF env cm(1) p that(1)] that(2) by (meson leI order_le_less_trans)
    then have "top_of n (S \<union> chain_samples m w rate current) = top_of n S"
      using False chain_samples_facts(1) [OF env c] by (intro top_of_below [OF S(1)]) auto
    then show ?thesis using can False origin p by (simp add: window_loop.simps [of w rate cache current] w heap_of_def)
  qed
qed

lemma window_loop_top:
  assumes env: "window_env m w" and cache: "cache_ok m w n rate cache" and rooms: "rooms m w" and n: "0 < n"
    and c: "c \<in> blocks m" "c \<noteq> genesis_hash m" "ghostdag_store m c = Some current"
    and S: "finite S" "S \<inter> chain_samples m w rate current = {}"
  shows "window_loop w rate cache current (heap_of n S) = Some (Ok (heap_of n (S \<union> chain_samples m w rate current)))"
  using c S
proof (induction "rank m c" arbitrary: c current S rule: less_induct)
  case less
  have w: "wm_genesis_hash w = genesis_hash m" and m: "dag_inv m" using env by (simp_all add: window_env_def)
  note cm = stored_mergeset [OF env less.prems(1-3)]
  let ?p = "selected_parent current"
  show ?case
  proof (cases "?p = genesis_hash m")
    case True
    moreover have "\<not> is_origin ?p" using cm(2) by (simp add: is_origin_def blocks_def)
    ultimately show ?thesis by (simp add: window_loop.simps [of w rate cache current] w chain_samples_genesis)
  next
    case False
    obtain e where e: "ghostdag_store m ?p = Some e" using blocks_store [OF m cm(2)] by blast
    let ?I = "set (sampled_blocks (window_items m w rate current))" and ?E = "chain_samples m w rate e"
    have finE: "finite ?E" by (rule chain_samples_facts(1) [OF env cm(2) False e])
    have SI: "finite (S \<union> ?I)" "(S \<union> ?I) \<inter> ?E = {}" "S \<union> ?I \<union> ?E = S \<union> chain_samples m w rate current"
      using less.prems(4,5) chain_samples_disjoint(1) [OF env cm(1) False e, of rate] chain_samples_step [OF False e, of w rate] by auto
    have "(case cache ?p of Some window \<Rightarrow> Some (Ok (merge_ancestor_heap window (heap_of n (S \<union> ?I)))) | None \<Rightarrow> window_loop w rate cache e (heap_of n (S \<union> ?I)))
        = Some (Ok (heap_of n (S \<union> chain_samples m w rate current)))"
    proof (cases "cache ?p")
      case None
      then show ?thesis using less.hyps [OF cm(3,2) False e SI(1,2)] SI(3) by simp
    next
      case (Some window)
      then have "window = top_of n ?E" using cache e unfolding cache_ok_def by fastforce
      then show ?thesis using Some merge_ancestor_heap_top [OF SI(1) finE SI(2), of n] SI(3) by simp
    qed
    then show ?thesis using window_loop_round [OF env rooms n less.prems False e, of cache] by (simp add: Let_def)
  qed
qed

lemma fold_insert: "set (fold List.insert xs ys) = set xs \<union> set ys" "distinct (fold List.insert xs ys) \<longleftrightarrow> distinct ys"
  by (induction xs arbitrary: ys) auto

lemma build_block_window_top:
  assumes env: "window_env m w" and d: "mergeset_sorted m d" "daa_room w d" "selected_parent d \<noteq> genesis_hash m" and "rooms m w"
    and "cache_ok m w (window_size w t) (sample_rate w t) (window_cache w t)" and n: "0 < window_size w t"
  shows "build_block_window w d t = Some (Ok (top_of (window_size w t) (chain_samples m w (sample_rate w t) d),
    fold List.insert (non_daa_blocks (window_items m w (sample_rate w t) d)) []))"
proof -
  have m: "dag_inv m" and w: "wm_genesis_hash w = genesis_hash m" "wm_ghostdag_store w = ghostdag_store m"
    using env by (simp_all add: window_env_def)
  let ?n = "window_size w t" and ?r = "sample_rate w t" and ?p = "selected_parent d"
  have p: "?p \<in> blocks m" "\<not> is_origin ?p" using d(1) by (auto simp: mergeset_sorted_def is_origin_def blocks_def)
  obtain e where e: "ghostdag_store m ?p = Some e" using blocks_store [OF m p(1)] by blast
  let ?items = "window_items m w ?r d" let ?I = "set (sampled_blocks ?items)" and ?E = "chain_samples m w ?r e"
  let ?nd = "fold List.insert (non_daa_blocks ?items) []"
  have items: "sampled_mergeset w ?r d (blue_work e) = (Ok (map Ok ?items) :: (rule_error, _) outcome)" by (rule sampled_mergeset_Ok [OF env d(1,2) e])
  have "sorted_wrt (<) (rev (sampled_blocks ?items))" using window_items_blocks(2) [OF env d(1), of ?r] by (simp add: sorted_wrt_rev)
  then have I: "distinct (sampled_blocks ?items)" by (metis distinct_rev strict_sorted_iff)
  have finE: "finite ?E" by (rule chain_samples_facts(1) [OF env p(1) d(3) e])
  have disj: "?I \<inter> ?E = {}" "?I \<union> ?E = chain_samples m w ?r d"
    using chain_samples_disjoint(1) [OF env d(1,3) e, of ?r] chain_samples_step [OF d(3) e, of w ?r] by auto
  have empty: "\<lparr>binary_heap = [], size_bound = ?n\<rparr> = heap_of ?n {}" by (simp add: heap_of_def top_of_def)
  show ?thesis
  proof (cases "window_cache w t ?p")
    case None
    have "push_all (map Ok ?items) (heap_of ?n {}) [] = (Ok (heap_of ?n ?I, ?nd) :: (rule_error, _) outcome)"
      using push_all_top [OF n _ I, of "{}"] by simp
    moreover have "window_loop w ?r (window_cache w t) e (heap_of ?n ?I) = Some (Ok (heap_of ?n (chain_samples m w ?r d)))"
      using window_loop_top [OF env assms(6,5) n p(1) d(3) e _ disj(1)] disj(2) by simp
    ultimately show ?thesis using None n d(3) p(2) e items by (simp add: build_block_window_def w empty heap_of_def Let_def)
  next
    case (Some window)
    then have win: "\<lparr>binary_heap = window, size_bound = ?n\<rparr> = heap_of ?n ?E" using assms(6) e unfolding cache_ok_def heap_of_def by fastforce
    have "push_all (map Ok ?items) (heap_of ?n ?E) [] = (Ok (heap_of ?n (?E \<union> ?I), ?nd) :: (rule_error, _) outcome)"
      by (rule push_all_top [OF n finE I disj(1)])
    then show ?thesis using Some n d(3) p(2) e items disj(2) by (simp add: build_block_window_def w win heap_of_def Let_def Un_commute)
  qed
qed

text \<open>C38: a block window is exact, and the caches are transparent. For the data GHOSTDAG computes on a DAG the node can build, the window
  of a type is the list of the highest sampled blocks of the selected chain, in ascending order, as many as fit; the loop down the chain returns and
  stops early only when nothing below can enter. This holds for every content of the cache that maps blocks to their windows, so a
  full, an empty and a partly evicted cache give the same window. The blocks left out of the DAA are those of the mergeset below the threshold. The selected parent is not the genesis
  block: on the genesis block the window is empty by a special case of the code.\<close>

theorem block_window_exact:
  assumes "dag_reachable m" "reachability_ok m" "dag_sized m" "unat (gd_k m) < 65535" "parents_ok m ps"
    and "ghostdag m ps = Some (Ok d :: (unit, _) outcome)"
    and "window_env m w" "rooms m w" "daa_room w d" "cache_ok m w (window_size w t) (sample_rate w t) (window_cache w t)" "0 < window_size w t"
    and "selected_parent d \<noteq> genesis_hash m"
  shows "\<exists>non_daa. build_block_window w d t = Some (Ok (top_of (window_size w t) (chain_samples m w (sample_rate w t) d), non_daa)) \<and>
    set non_daa = {x \<in> set (unordered_mergeset d). blue_score (the (ghostdag_store m x)) < daa_threshold w d} \<and> distinct non_daa"
proof -
  have m: "dag_inv m" and w: "wm_ghostdag_store w = ghostdag_store m" using assms(7) by (simp_all add: window_env_def)
  have "ghostdag_spec m ps d" using ghostdag_returns [OF m assms(2-5), where 'e = unit] assms(6) by auto
  note d = ghostdag_spec_sorted(1) [OF this]
  have "set (non_daa_blocks (window_items m w (sample_rate w t) d)) =
      {x \<in> set (unordered_mergeset d). blue_score (the (ghostdag_store m x)) < daa_threshold w d}"
    using descending_mergeset(4) [OF m d] by (auto simp: window_items_def non_daa_exact w image_iff) (metis sb_hash_block_key)
  then show ?thesis using build_block_window_top [OF assms(7) d assms(9,12,8,10,11)] by (simp add: fold_insert)
qed

section \<open>An example\<close>

definition sample_windows :: window_manager where
  "sample_windows = \<lparr>wm_genesis_hash = Hash [1], wm_ghostdag_store = ghostdag_store sample_fork, wm_headers_store = \<lambda>_. Some (sample_header 0),
     cache_for_difficulty = Map.empty, cache_for_past_median_time = Map.empty, difficulty_window_size = 10, difficulty_sample_rate = 1,
     past_median_time_window_size = 10, past_median_time_sample_rate = 1,
     difficulty_manager_of = \<lparr>dm_headers_store = \<lambda>_. Some (sample_header 0), dm_genesis_hash = Hash [1], dm_genesis_bits = 0x207fffff,
       max_difficulty_target = uint_MAX 5, dm_window_size = 10, dm_min_window_size = 2, dm_sample_rate = 1, dm_target_time_per_block = 1000\<rparr>\<rparr>"

lemma sample_windows_env: "window_env sample_fork sample_windows"
  using dag_reachable_inv [OF sample_reachable] dag_reachable_mergesets [OF sample_reachable]
  by (simp add: window_env_def sample_windows_def) (simp add: sample_states)

lemma mergeset_size_bound:
  assumes "dag_inv m" "mergeset_sorted m d"
  shows "mergeset_size d \<le> card (blocks m)"
proof -
  have "sorted_wrt (<) (rev (mergeset_desc m d))" using descending_mergeset(2) [OF assms] by (simp add: sorted_wrt_rev)
  then have "length (mergeset_desc m d) = card (set (mergeset_desc m d))" by (metis distinct_card distinct_rev strict_sorted_iff)
  also have "\<dots> \<le> card (block_key m ` blocks m)"
    using descending_mergeset(4,5) [OF assms] dag_inv_genesis(6) [OF assms(1)] by (intro card_mono) auto
  also have "\<dots> \<le> card (blocks m)" by (rule card_image_le [OF dag_inv_genesis(6) [OF assms(1)]])
  finally show ?thesis using descending_mergeset(3) [OF assms] by simp
qed

theorem block_window_exact_witness:
  "\<exists>d non_daa. ghostdag sample_fork [Hash [2], Hash [3]] = Some (Ok d :: (unit, _) outcome) \<and>
     build_block_window sample_windows d DifficultyWindow = Some (Ok (top_of 10 (chain_samples sample_fork sample_windows 1 d), non_daa))"
proof -
  note m = dag_reachable_inv [OF sample_reachable]
  have k: "unat (gd_k sample_fork) < 65535" by simp
  obtain d where d: "ghostdag sample_fork [Hash [2], Hash [3]] = Some (Ok d :: (unit, _) outcome)" "ghostdag_spec sample_fork [Hash [2], Hash [3]] d"
    using ghostdag_returns [OF m sample_reachability_oks(3) sample_sizes(3) k sample_parents(3), where 'e = unit] by blast
  have sp: "selected_parent d \<in> {Hash [2], Hash [3]}" using d(2) by (auto simp: ghostdag_spec_def mergeset_order_def colour_inv_def Let_def)
  have "mergeset_size d < 2 ^ 64"
    using mergeset_size_bound [OF m ghostdag_spec_sorted(1) [OF d(2)]] sample_sizes(3) by (simp add: dag_sized_def)
  then have room: "daa_room sample_windows d" by (simp add: daa_room_def sample_windows_def sample_header_def)
  have rooms: "rooms sample_fork sample_windows"
    by (auto simp: rooms_def daa_room_def sample_windows_def sample_header_def sample_states blocks_def mergeset_size_def sample_data_def split: if_splits)
  have cache: "cache_ok sample_fork sample_windows n r (window_cache sample_windows DifficultyWindow)" for n r by (simp add: cache_ok_def window_cache_def sample_windows_def)
  have g: "genesis_hash sample_fork = Hash [1]" by (simp add: sample_states)
  show ?thesis
    using block_window_exact [OF sample_reachable sample_reachability_oks(3) sample_sizes(3) k sample_parents(3) d(1) sample_windows_env rooms room cache]
      sp d(1) by (auto simp: g window_size_def sample_rate_def sample_windows_def)
qed

end
