(* ===== verification/Difficulty.thy ===== *)
theory Difficulty
  imports Window Uint_Div Uint_Codec
begin

text \<open>
  The difficulty adjustment and the past median time over a sampled block window:
  src/consensus/src/processes/difficulty.rs, src/consensus/src/processes/past_median_time.rs, and the operations of
  src/consensus/src/processes/window.rs that call them.

  The headers store and its view of compact header data are the map of headers of the manager. A heap is visited in ascending order; the
  lemmas show that the results do not depend on the order.
\<close>

section \<open>Difficulty\<close>

datatype difficulty_error = UnderMinWindowSizeAllowed nat nat | InsufficientWindowData nat | EmptyTimestampRange

record difficulty_block =
  db_timestamp :: u64
  db_bits :: u32
  db_sortable_block :: sortable_block

text \<open>\<open>Ord::cmp\<close> of a difficulty block.\<close>

definition difficulty_block_less :: "difficulty_block \<Rightarrow> difficulty_block \<Rightarrow> bool" where
  "difficulty_block_less a b \<longleftrightarrow>
     db_timestamp a < db_timestamp b \<or> db_timestamp a = db_timestamp b \<and> db_sortable_block a < db_sortable_block b"

definition get_difficulty_blocks :: "difficulty_manager \<Rightarrow> block_window_heap \<Rightarrow> ('e, difficulty_block list) outcome" where
  "get_difficulty_blocks dm window = omap (\<lambda>item. obind (unwrap (dm_headers_store dm (sb_hash item))) (\<lambda>h.
     Ok \<lparr>db_timestamp = hdr_timestamp h, db_bits = hdr_bits h, db_sortable_block = item\<rparr>)) window"

text \<open>\<open>Itertools::position_minmax\<close>: the first of the least positions and the last of the greatest ones.\<close>

definition position_minmax :: "('a \<Rightarrow> 'a \<Rightarrow> bool) \<Rightarrow> 'a list \<Rightarrow> (nat \<times> nat) option" where
  "position_minmax lt xs = (if xs = [] then None else
     Some (foldl (\<lambda>i j. if lt (xs ! j) (xs ! i) then j else i) 0 [1..<length xs],
       foldl (\<lambda>i j. if lt (xs ! j) (xs ! i) then i else j) 0 [1..<length xs]))"

text \<open>\<open>Vec::swap_remove\<close>: the last element takes the place of the one removed.\<close>

definition swap_remove :: "nat \<Rightarrow> 'a list \<Rightarrow> 'a list" where
  "swap_remove i xs = butlast (xs[i := last xs])"

text \<open>The product and the quotient of a 320-bit integer and a word; the check of the carry is a debug assertion.\<close>

definition uint_mul_u64 :: "limbs \<Rightarrow> u64 \<Rightarrow> ('e, limbs) outcome" where
  "uint_mul_u64 x v = obind (overflowing_mul_u64 x v) (\<lambda>(product, carry). Ok product)"

definition uint_div_u64 :: "limbs \<Rightarrow> u64 \<Rightarrow> ('e, limbs) outcome" where
  "uint_div_u64 x v = obind (div_rem_u64 x v) (\<lambda>(q, r). Ok q)"

definition uint_min :: "limbs \<Rightarrow> limbs \<Rightarrow> limbs" where
  "uint_min x y = (if uint_less y x then y else x)"

definition difficulty_manager_new :: "(hash \<rightharpoonup> header) \<Rightarrow> hash \<Rightarrow> u32 \<Rightarrow> limbs \<Rightarrow> nat \<Rightarrow> nat \<Rightarrow> u64 \<Rightarrow> u64 \<Rightarrow> ('e, difficulty_manager) outcome" where
  "difficulty_manager_new headers genesis bits max_target full_size min_size rate target_time =
     (if \<not> min_size \<le> full_size then Panic else
      Ok \<lparr>dm_headers_store = headers, dm_genesis_hash = genesis, dm_genesis_bits = bits,
        max_difficulty_target = uint320_from_uint256 max_target, dm_window_size = full_size, dm_min_window_size = min_size,
        dm_sample_rate = rate, dm_target_time_per_block = target_time\<rparr>)"

text \<open>The target of a window of difficulty blocks, from the line that finds the extreme timestamps on.\<close>

definition window_target_bits :: "difficulty_manager \<Rightarrow> difficulty_block list \<Rightarrow> ('e, u32) outcome" where
  "window_target_bits dm blocks =
     obind (unwrap (position_minmax difficulty_block_less blocks)) (\<lambda>(min_ts_index, max_ts_index).
     let min_ts = db_timestamp (blocks ! min_ts_index); max_ts = db_timestamp (blocks ! max_ts_index);
         blocks = swap_remove min_ts_index blocks; n = of_nat (length blocks) in
     obind (uint_div_u64 (uint_sum 5 (map (\<lambda>b. uint320_from_uint256 (from_compact_target_bits (db_bits b))) blocks)) n) (\<lambda>average_target.
     obind (psub max_ts min_ts) (\<lambda>duration.
     obind (pmul (dm_target_time_per_block dm) (dm_sample_rate dm)) (\<lambda>t. obind (pmul t n) (\<lambda>expected_duration.
     obind (uint_mul_u64 average_target (max duration 1)) (\<lambda>product.
     obind (uint_div_u64 product expected_duration) (\<lambda>new_target.
     case uint256_try_from_uint320 (uint_min new_target (max_difficulty_target dm)) of
       Ok target \<Rightarrow> Ok (compact_target_bits target) | _ \<Rightarrow> Panic)))))))"

definition calculate_difficulty_bits :: "difficulty_manager \<Rightarrow> block_window_heap \<Rightarrow> ghostdag_data \<Rightarrow> ('e, u32) outcome" where
  "calculate_difficulty_bits dm window d =
     obind (get_difficulty_blocks dm window) (\<lambda>blocks.
     if length blocks < dm_min_window_size dm then
       if selected_parent d = dm_genesis_hash dm then Ok (dm_genesis_bits dm)
       else obind (unwrap (dm_headers_store dm (selected_parent d))) (\<lambda>sp. Ok (hdr_bits sp))
     else window_target_bits dm blocks)"

definition estimate_network_hashes_per_second :: "difficulty_manager \<Rightarrow> block_window_heap \<Rightarrow> (difficulty_error, u64) outcome" where
  "estimate_network_hashes_per_second dm window =
     then_do (ensure (1000 \<le> length window) (UnderMinWindowSizeAllowed (length window) 1000)) (
     obind (get_difficulty_blocks dm window) (\<lambda>blocks.
     let times = map db_timestamp blocks; works = map (\<lambda>b. sb_blue_work (db_sortable_block b)) blocks;
         min_ts = Min (set times); max_ts = Max (set times) in
     then_do (ensure (min_ts \<noteq> max_ts) EmptyTimestampRange) (
     obind (psub max_ts min_ts) (\<lambda>range.
     let window_duration = range div 1000 in
     if window_duration = 0 then Ok 0
     else Ok (ucast ((Max (set works) - Min (set works)) div ucast window_duration))))))"

definition calc_daa_score_and_mergeset_non_daa_blocks :: "difficulty_manager \<Rightarrow> (hash \<rightharpoonup> ghostdag_data) \<Rightarrow> ghostdag_data \<Rightarrow> ('e, u64 \<times> hash list) outcome" where
  "calc_daa_score_and_mergeset_non_daa_blocks dm store d =
     obind (lowest_daa_blue_score dm d) (\<lambda>lowest.
     obind (omap (\<lambda>h. obind (unwrap (store h)) (\<lambda>data. Ok (h, blue_score data))) (unordered_mergeset d)) (\<lambda>scores.
     let non_daa = remdups (map fst (filter (\<lambda>(h, score). score < lowest) scores)) in
     obind (calc_daa_score dm d non_daa) (\<lambda>score. Ok (score, non_daa))))"

section \<open>Past median time\<close>

definition AVERAGE_FRAME_SIZE :: nat where "AVERAGE_FRAME_SIZE = 11"

text \<open>\<open>Iterator::sum\<close> over words: an addition that overflows panics.\<close>

definition word_sum :: "u64 list \<Rightarrow> ('e, u64) outcome" where
  "word_sum xs = ofold (\<lambda>x s. padd s x) xs 0"

definition past_median_time :: "(hash \<rightharpoonup> header) \<Rightarrow> block_window_heap \<Rightarrow> hash \<Rightarrow> ('e, u64) outcome" where
  "past_median_time headers window sp =
     (if window = [] then obind (unwrap (headers sp)) (\<lambda>h. Ok (hdr_timestamp h))
      else obind (omap (\<lambda>item. obind (unwrap (headers (sb_hash item))) (\<lambda>h. Ok (hdr_timestamp h))) window) (\<lambda>times.
        let times = sort times; frame = min (length times) AVERAGE_FRAME_SIZE;
            ending_index = (length times + frame + 1) div 2 in
        obind (word_sum (drop (ending_index - frame) (take ending_index times))) (\<lambda>s.
        obind (padd s (of_nat frame div 2)) (\<lambda>s. pdiv s (of_nat frame)))))"

section \<open>The operations of the window manager\<close>

record daa_window =
  dw_window :: block_window_heap
  dw_daa_score :: u64
  dw_mergeset_non_daa :: "hash list"

definition block_window :: "window_manager \<Rightarrow> ghostdag_data \<Rightarrow> window_type \<Rightarrow> block_window_heap block_process_result option" where
  "block_window m d t = dbind (build_block_window m d t) (\<lambda>(window, non_daa). Some (Ok window))"

definition calc_daa_window :: "window_manager \<Rightarrow> ghostdag_data \<Rightarrow> block_window_heap \<Rightarrow> ('e, daa_window) outcome" where
  "calc_daa_window m d window =
     obind (calc_daa_score_and_mergeset_non_daa_blocks (difficulty_manager_of m) (wm_ghostdag_store m) d) (\<lambda>(score, non_daa).
     Ok \<lparr>dw_window = window, dw_daa_score = score, dw_mergeset_non_daa = non_daa\<rparr>)"

definition block_daa_window :: "window_manager \<Rightarrow> ghostdag_data \<Rightarrow> daa_window block_process_result option" where
  "block_daa_window m d =
     dbind (build_block_window m d DifficultyWindow) (\<lambda>(window, non_daa).
     dbind (Some (calc_daa_score (difficulty_manager_of m) d non_daa)) (\<lambda>score.
     Some (Ok \<lparr>dw_window = window, dw_daa_score = score, dw_mergeset_non_daa = non_daa\<rparr>)))"

definition calc_past_median_time :: "window_manager \<Rightarrow> ghostdag_data \<Rightarrow> (u64 \<times> block_window_heap) block_process_result option" where
  "calc_past_median_time m d =
     dbind (block_window m d MedianTimeWindow) (\<lambda>window.
     dbind (Some (past_median_time (wm_headers_store m) window (selected_parent d))) (\<lambda>t. Some (Ok (t, window))))"

text \<open>The result and the manager with its cache updated.\<close>

definition calc_past_median_time_for_known_hash :: "window_manager \<Rightarrow> hash \<Rightarrow> (u64 \<times> window_manager) block_process_result option" where
  "calc_past_median_time_for_known_hash m h =
     (case cache_for_past_median_time m h of
        Some window \<Rightarrow>
          dbind (Some (unwrap (wm_ghostdag_store m h))) (\<lambda>d.
          dbind (Some (past_median_time (wm_headers_store m) window (selected_parent d))) (\<lambda>t. Some (Ok (t, m))))
      | None \<Rightarrow>
          dbind (Some (unwrap (wm_ghostdag_store m h))) (\<lambda>d.
          dbind (calc_past_median_time m d) (\<lambda>(t, window).
          Some (Ok (t, m\<lparr>cache_for_past_median_time := (cache_for_past_median_time m)(h \<mapsto> window)\<rparr>)))))"

text \<open>One pass over a mergeset: what is covered and what remains to be visited.\<close>

definition cover_step :: "window_manager \<Rightarrow> hash \<Rightarrow> hash set \<times> hash set \<Rightarrow> ('e, hash set \<times> hash set) outcome" where
  "cover_step m merged = (\<lambda>(cover, unvisited).
     if merged \<in> unvisited then obind (unwrap (wm_ghostdag_store m merged)) (\<lambda>d.
       Ok (insert (selected_parent d) (insert merged cover), unvisited - {merged}))
     else Ok (insert merged cover, unvisited))"

partial_function (option) cover_loop :: "window_manager \<Rightarrow> ghostdag_data \<Rightarrow> hash set \<times> hash set \<Rightarrow> ('e, hash set) outcome option" where
  "cover_loop m d st =
     (if snd st = {} then Some (Ok (fst st))
      else if is_origin (selected_parent d) then Some Panic
      else dbind (Some (ofold (cover_step m) (unordered_mergeset d) st)) (\<lambda>st.
        if snd st = {} then Some (Ok (fst st))
        else dbind (Some (unwrap (wm_ghostdag_store m (selected_parent d)))) (\<lambda>d. cover_loop m d st)))"

definition consecutive_cover_for_window :: "window_manager \<Rightarrow> ghostdag_data \<Rightarrow> block_window_heap \<Rightarrow> ('e, hash set) outcome option" where
  "consecutive_cover_for_window m d window =
     (if 2 ^ 64 \<le> length window * unat (difficulty_sample_rate m) then Some Panic
      else dbind (cover_loop m d ({}, sb_hash ` set window)) (\<lambda>cover. Some (Ok (cover - {ORIGIN}))))"

end
