(* ===== verification/Difficulty_Properties.thy ===== *)
theory Difficulty_Properties
  imports Difficulty Work "HOL-Library.Multiset"
begin

text \<open>
  The difficulty adjustment computes the exact average on 320-bit integers. The past median time is the rounded average of the eleven
  middle timestamps, and stays in an interval as long as at most (n - 11) / 2 of the n blocks are below it and as many above.
\<close>

section \<open>Positions, removal, sums\<close>

lemma least_position:
  fixes xs :: "'a list"
  assumes asym: "\<And>a b. lt a b \<Longrightarrow> \<not> lt b a" and weak: "\<And>a b c. lt a b \<Longrightarrow> lt a c \<or> lt c b" and "0 < n"
  defines "f \<equiv> \<lambda>i j. if lt (xs ! j) (xs ! i) then j else i"
  shows "foldl f 0 [1..<n] < n \<and> (\<forall>k < n. \<not> lt (xs ! k) (xs ! foldl f 0 [1..<n]))"
  using \<open>0 < n\<close>
proof (induction n rule: nat_induct_non_zero)
  case 1
  then show ?case using asym by auto
next
  case (Suc n)
  define i where "i = foldl f 0 [1..<n]"
  have i: "i < n" "\<And>k. k < n \<Longrightarrow> \<not> lt (xs ! k) (xs ! i)" using Suc.IH by (auto simp: i_def)
  have e: "foldl f 0 [1..<Suc n] = (if lt (xs ! n) (xs ! i) then n else i)" using Suc.hyps by (simp add: i_def f_def)
  have "\<not> lt (xs ! k) (xs ! n)" if "lt (xs ! n) (xs ! i)" "k < Suc n" for k
    using weak [of "xs ! k" "xs ! n" "xs ! i"] i(2) [of k] asym that less_Suc_eq by blast
  then show ?case unfolding e using i by (auto simp: less_Suc_eq)
qed

lemma greatest_position:
  fixes xs :: "'a list"
  assumes asym: "\<And>a b. lt a b \<Longrightarrow> \<not> lt b a" and weak: "\<And>a b c. lt a b \<Longrightarrow> lt a c \<or> lt c b" and "0 < n"
  defines "f \<equiv> \<lambda>i j. if lt (xs ! j) (xs ! i) then i else j"
  shows "foldl f 0 [1..<n] < n \<and> (\<forall>k < n. \<not> lt (xs ! foldl f 0 [1..<n]) (xs ! k))"
  using \<open>0 < n\<close>
proof (induction n rule: nat_induct_non_zero)
  case 1
  then show ?case using asym by auto
next
  case (Suc n)
  define i where "i = foldl f 0 [1..<n]"
  have i: "i < n" "\<And>k. k < n \<Longrightarrow> \<not> lt (xs ! i) (xs ! k)" using Suc.IH by (auto simp: i_def)
  have e: "foldl f 0 [1..<Suc n] = (if lt (xs ! n) (xs ! i) then i else n)" using Suc.hyps by (simp add: i_def f_def)
  have "\<not> lt (xs ! n) (xs ! k)" if "\<not> lt (xs ! n) (xs ! i)" "k < Suc n" for k
    using weak [of "xs ! n" "xs ! k" "xs ! i"] i(2) [of k] asym that less_Suc_eq by blast
  then show ?case unfolding e using i asym [of "xs ! n" "xs ! i"] by (auto simp: less_Suc_eq)
qed

lemma mset_swap_remove: "i < length xs \<Longrightarrow> mset (swap_remove i xs) = mset xs - {#xs ! i#}"
proof -
  assume i: "i < length xs"
  define ys where "ys = xs[i := last xs]"
  have ne: "ys \<noteq> []" and "xs \<noteq> []" using i by (auto simp: ys_def)
  then have "last ys = last xs" by (simp add: ys_def last_list_update)
  then have "mset ys = add_mset (last xs) (mset (butlast ys))"
    using arg_cong [OF append_butlast_last_id [OF ne], of mset] by simp
  then show ?thesis using i by (simp add: ys_def mset_update swap_remove_def)
qed

lemma sum_list_upper: "(\<And>x. f x \<le> m) \<Longrightarrow> sum_list (map f xs) \<le> length xs * m" for m :: nat
proof (induction xs)
  case (Cons x xs)
  then show ?case using add_mono [of "f x" m] by simp
qed simp

lemma uint_add_exact:
  assumes "length x = length y" and "uval x + uval y < 2 ^ (64 * length x)"
  shows "length (uint_add x y) = length x \<and> uval (uint_add x y) = uval x + uval y"
proof -
  obtain z c where z: "overflowing_add x y = (z, c)" by force
  then show ?thesis using overflowing_add_uval [OF assms(1) z] assms by (auto simp: uint_add_def of_bool_def split: if_splits)
qed

lemma uint_sum_exact:
  assumes "\<And>x. x \<in> set xs \<Longrightarrow> length x = n" and "sum_list (map uval xs) < 2 ^ (64 * n)"
  shows "length (uint_sum n xs) = n \<and> uval (uint_sum n xs) = sum_list (map uval xs)"
proof -
  have f: "length (fold (\<lambda>b a. uint_add a b) ys a) = n \<and> uval (fold (\<lambda>b a. uint_add a b) ys a) = uval a + sum_list (map uval ys)"
    if "length a = n" "\<And>x. x \<in> set ys \<Longrightarrow> length x = n" "uval a + sum_list (map uval ys) < 2 ^ (64 * n)" for ys a
    using that
  proof (induction ys arbitrary: a)
    case (Cons y ys)
    then have "length (uint_add a y) = n \<and> uval (uint_add a y) = uval a + uval y" using uint_add_exact [of a y] by simp
    then show ?case using Cons.IH [of "uint_add a y"] Cons.prems by (simp add: add.assoc)
  qed simp
  show ?thesis
  proof (cases xs)
    case Nil
    then show ?thesis by (simp add: uint_sum_def uint_ZERO_def)
  next
    case (Cons x ys)
    then show ?thesis using f [of x ys] assms by (simp add: uint_sum_def)
  qed
qed

lemma uval_uint320: "length x = 4 \<Longrightarrow> length (uint320_from_uint256 x) = 5 \<and> uval (uint320_from_uint256 x) = uval x"
  by (simp add: uint320_from_uint256_def uval_append)

lemma uint_div_u64_exact:
  assumes "v \<noteq> 0"
  shows "\<exists>q. uint_div_u64 x v = (Ok q :: ('e, _) outcome) \<and> length q = length x \<and> uval q = uval x div unat v"
  using div_rem_u64_correct [OF assms, of x, where 'e = 'e] by (auto simp: uint_div_u64_def)

lemma uint_mul_u64_exact:
  assumes "uval x * unat v < 2 ^ (64 * length x)"
  shows "\<exists>p. uint_mul_u64 x v = (Ok p :: ('e, _) outcome) \<and> length p = length x \<and> uval p = uval x * unat v"
proof -
  obtain z c where z: "carrying_mul_u64 x v = (Ok (z, c) :: ('e, _) outcome)" "length z = length x"
      "uval z + 2 ^ (64 * length x) * unat c = unat v * uval x"
    using carrying_mul_u64_returns [of x v, where 'a = 'e] by (auto simp: returns_def)
  have "unat c = 0"
  proof (rule ccontr)
    assume "unat c \<noteq> 0"
    then have "2 ^ (64 * length x) \<le> 2 ^ (64 * length x) * unat c" by simp
    then show False using z(3) assms unfolding mult.commute [of "unat v"] by linarith
  qed
  then show ?thesis using z by (auto simp: uint_mul_u64_def overflowing_mul_u64_def mult.commute)
qed

section \<open>The difficulty adjustment\<close>

definition block_target :: "difficulty_manager \<Rightarrow> sortable_block \<Rightarrow> nat" where
  "block_target dm b = (case dm_headers_store dm (sb_hash b) of Some h \<Rightarrow> uval (from_compact_target_bits (hdr_bits h)) | None \<Rightarrow> 0)"

definition block_time :: "(hash \<rightharpoonup> header) \<Rightarrow> sortable_block \<Rightarrow> nat" where
  "block_time headers b = (case headers (sb_hash b) of Some h \<Rightarrow> unat (hdr_timestamp h) | None \<Rightarrow> 0)"

definition difficulty_block_of :: "difficulty_manager \<Rightarrow> sortable_block \<Rightarrow> difficulty_block" where
  "difficulty_block_of dm b = (case dm_headers_store dm (sb_hash b) of
     Some h \<Rightarrow> \<lparr>db_timestamp = hdr_timestamp h, db_bits = hdr_bits h, db_sortable_block = b\<rparr>
   | None \<Rightarrow> \<lparr>db_timestamp = 0, db_bits = 0, db_sortable_block = b\<rparr>)"

lemma get_difficulty_blocks_known:
  assumes "\<And>b. b \<in> set w \<Longrightarrow> dm_headers_store dm (sb_hash b) \<noteq> None"
  shows "get_difficulty_blocks dm w = (Ok (map (difficulty_block_of dm) w) :: ('e, _) outcome)"
  unfolding get_difficulty_blocks_def
  by (rule omap_Ok) (use assms in \<open>force simp: difficulty_block_of_def unwrap_def\<close>)

text \<open>The earliest block of a window, by timestamp and then by blue work and hash.\<close>

definition earliest :: "difficulty_manager \<Rightarrow> block_window_heap \<Rightarrow> sortable_block \<Rightarrow> bool" where
  "earliest dm w b \<longleftrightarrow> b \<in> set w \<and> (\<forall>c\<in>set w. block_time (dm_headers_store dm) b < block_time (dm_headers_store dm) c \<or>
     block_time (dm_headers_store dm) b = block_time (dm_headers_store dm) c \<and> b \<le> c)"

lemma block_less_time:
  "difficulty_block_less (difficulty_block_of dm b) (difficulty_block_of dm c) \<longleftrightarrow>
     block_time (dm_headers_store dm) b < block_time (dm_headers_store dm) c \<or>
     block_time (dm_headers_store dm) b = block_time (dm_headers_store dm) c \<and> b < c"
  by (auto simp: difficulty_block_less_def difficulty_block_of_def block_time_def word_less_nat_alt word_unat_eq_iff split: option.splits)

lemma unat_db_timestamp: "unat (db_timestamp (difficulty_block_of dm b)) = block_time (dm_headers_store dm) b"
  by (simp add: difficulty_block_of_def block_time_def split: option.splits)

lemma difficulty_block_order:
  "difficulty_block_less a b \<Longrightarrow> \<not> difficulty_block_less b a"
  "difficulty_block_less a b \<Longrightarrow> difficulty_block_less a c \<or> difficulty_block_less c b"
  by (auto simp: difficulty_block_less_def)

lemma window_extremes:
  assumes e: "earliest dm w b"
  shows "\<exists>i j. position_minmax difficulty_block_less (map (difficulty_block_of dm) w) = Some (i, j) \<and> i < length w \<and> j < length w \<and>
    w ! i = b \<and> block_time (dm_headers_store dm) (w ! j) = Max (block_time (dm_headers_store dm) ` set w)"
proof -
  let ?t = "block_time (dm_headers_store dm)" and ?xs = "map (difficulty_block_of dm) w"
  have ne: "0 < length w" using e by (cases w) (auto simp: earliest_def)
  obtain i j where ij: "position_minmax difficulty_block_less ?xs = Some (i, j)" using ne by (auto simp: position_minmax_def)
  have i: "i < length w" "\<And>k. k < length w \<Longrightarrow> \<not> difficulty_block_less (?xs ! k) (?xs ! i)"
    using ij least_position [where lt = difficulty_block_less and xs = ?xs, OF difficulty_block_order ne] ne
    by (auto simp: position_minmax_def split: if_splits)
  have j: "j < length w" "\<And>k. k < length w \<Longrightarrow> \<not> difficulty_block_less (?xs ! j) (?xs ! k)"
    using ij greatest_position [where lt = difficulty_block_less and xs = ?xs, OF difficulty_block_order ne] ne
    by (auto simp: position_minmax_def split: if_splits)
  obtain k where k: "k < length w" "w ! k = b" using e by (auto simp: earliest_def in_set_conv_nth)
  have "\<not> (?t b < ?t (w ! i) \<or> ?t b = ?t (w ! i) \<and> b < w ! i)" using i(2) [OF k(1)] i(1) k by (simp add: block_less_time)
  moreover have "?t b < ?t (w ! i) \<or> ?t b = ?t (w ! i) \<and> b \<le> w ! i" using e i(1) by (auto simp: earliest_def)
  ultimately have "w ! i = b" by auto
  moreover have "?t (w ! j) = Max (?t ` set w)"
  proof (rule Max_eqI [symmetric])
    fix y
    assume "y \<in> ?t ` set w"
    then obtain k where "k < length w" "y = ?t (w ! k)" by (auto simp: in_set_conv_nth)
    then show "y \<le> ?t (w ! j)" using j(2) [of k] j(1) by (auto simp: block_less_time)
  qed (use j(1) in auto)
  ultimately show ?thesis using ij i(1) j(1) by blast
qed

lemma targets_sum_exact:
  fixes blocks :: "difficulty_block list"
  assumes "length blocks < 2 ^ 64"
  defines "t \<equiv> \<lambda>b. uint320_from_uint256 (from_compact_target_bits (db_bits b))"
  shows "length (uint_sum 5 (map t blocks)) = 5"
    "uval (uint_sum 5 (map t blocks)) = sum_list (map (\<lambda>b. uval (from_compact_target_bits (db_bits b))) blocks)"
    "uval (uint_sum 5 (map t blocks)) \<le> length blocks * (2 ^ 256 - 1)"
proof -
  have t: "length (t b) = 5" "uval (t b) = uval (from_compact_target_bits (db_bits b))" for b
    using uval_uint320 [of "from_compact_target_bits (db_bits b)"] by (simp_all add: t_def)
  have b: "uval (from_compact_target_bits (db_bits b)) \<le> 2 ^ 256 - 1" for b
    using uval_bound [of "from_compact_target_bits (db_bits b)"] by simp
  then have s: "sum_list (map (\<lambda>b. uval (from_compact_target_bits (db_bits b))) blocks) \<le> length blocks * (2 ^ 256 - 1)"
    by (rule sum_list_upper)
  also have "\<dots> \<le> 2 ^ 64 * (2 ^ 256 - 1)" using assms(1) by (intro mult_le_mono1) simp
  also have "\<dots> < 2 ^ (64 * 5)" by simp
  finally have "sum_list (map (\<lambda>b. uval (from_compact_target_bits (db_bits b))) blocks) < 2 ^ (64 * 5)" .
  then have "length (uint_sum 5 (map t blocks)) = 5 \<and>
      uval (uint_sum 5 (map t blocks)) = sum_list (map (\<lambda>b. uval (from_compact_target_bits (db_bits b))) blocks)"
    using uint_sum_exact [of "map t blocks" 5] t by (auto simp: comp_def)
  then show "length (uint_sum 5 (map t blocks)) = 5"
    "uval (uint_sum 5 (map t blocks)) = sum_list (map (\<lambda>b. uval (from_compact_target_bits (db_bits b))) blocks)"
    "uval (uint_sum 5 (map t blocks)) \<le> length blocks * (2 ^ 256 - 1)" using s by auto
qed

lemma uint_min_exact:
  assumes "length x = length y"
  shows "uval (uint_min x y) = min (uval x) (uval y)" "length (uint_min x y) = length x"
  using assms by (auto simp: uint_min_def uint_less_uval)

text \<open>The largest target is a 256-bit number.\<close>

definition max_target_fits :: "difficulty_manager \<Rightarrow> bool" where
  "max_target_fits dm \<longleftrightarrow> length (max_difficulty_target dm) = 5 \<and> uval (max_difficulty_target dm) < 2 ^ 256"

lemma narrow_uint320:
  assumes "length x = 5" and "uval x < 2 ^ 256"
  shows "\<exists>y. uint256_try_from_uint320 x = Ok y \<and> length y = 4 \<and> uval y = uval x"
proof -
  have x: "x = take 4 x @ [x ! 4]" using assms(1) id_take_nth_drop [of 4 x] by simp
  have "uval (take 4 x @ [x ! 4]) = uval (take 4 x) + 2 ^ 256 * unat (x ! 4)"
    using assms(1) by (simp add: uval_append)
  then have "uval x = uval (take 4 x) + 2 ^ 256 * unat (x ! 4)" unfolding x [symmetric] .
  then have "unat (x ! 4) = 0" using assms(2) by (cases "unat (x ! 4)") auto
  then show ?thesis using \<open>uval x = _\<close> assms(1) by (simp add: uint256_try_from_uint320_def unat_eq_0)
qed

lemma remaining_targets:
  assumes "i < length w" "w ! i = b" and "\<And>c. c \<in> set w \<Longrightarrow> dm_headers_store dm (sb_hash c) \<noteq> None"
  defines "rest \<equiv> swap_remove i (map (difficulty_block_of dm) w)"
  shows "length rest = length w - 1"
    "sum_list (map (\<lambda>b. uval (from_compact_target_bits (db_bits b))) rest) = sum_list (map (block_target dm) (remove1 b w))"
proof -
  have t: "uval (from_compact_target_bits (db_bits (difficulty_block_of dm c))) = block_target dm c" if "c \<in> set w" for c
    using assms(3) [OF that] by (auto simp: difficulty_block_of_def block_target_def)
  have m: "mset rest = image_mset (difficulty_block_of dm) (mset (remove1 b w))"
    using assms(1,2) by (auto simp: rest_def mset_swap_remove image_mset_Diff)
  show "length rest = length w - 1" using assms(1) by (simp add: rest_def swap_remove_def)
  have "sum_list (map (\<lambda>b. uval (from_compact_target_bits (db_bits b))) rest) =
      (\<Sum>b\<in>#mset rest. uval (from_compact_target_bits (db_bits b)))" by (simp flip: sum_mset_sum_list)
  also have "\<dots> = sum_list (map (\<lambda>c. uval (from_compact_target_bits (db_bits (difficulty_block_of dm c)))) (remove1 b w))"
    unfolding m by (simp add: image_mset.compositionality comp_def flip: sum_mset_sum_list)
  also have "\<dots> = sum_list (map (block_target dm) (remove1 b w))"
    by (intro arg_cong [of _ _ sum_list] map_cong refl t) (meson notin_set_remove1)
  finally show "sum_list (map (\<lambda>b. uval (from_compact_target_bits (db_bits b))) rest) = sum_list (map (block_target dm) (remove1 b w))" .
qed

lemma expected_duration:
  fixes t r k :: u64
  assumes "unat k = n" and "n \<noteq> 0" and "0 < unat t * unat r" "unat t * unat r * n < 2 ^ 64"
  shows "\<exists>te ex. pmul t r = (Ok te :: ('e, _) outcome) \<and> pmul te k = (Ok ex :: ('e, _) outcome) \<and>
    unat ex = unat t * unat r * n \<and> ex \<noteq> 0"
proof -
  have "unat t * unat r * 1 \<le> unat t * unat r * n" using assms(2) by (intro mult_le_mono2) simp
  then have "unat t * unat r < 2 ^ 64" using assms(4) by linarith
  then have "returns (\<lambda>te. unat te = unat t * unat r) (pmul t r :: ('e, u64) outcome)" by (simp add: returns_pmul)
  then obtain te where te: "pmul t r = (Ok te :: ('e, u64) outcome)" "unat te = unat t * unat r" by (auto simp: returns_def)
  then have "returns (\<lambda>ex. unat ex = unat t * unat r * n) (pmul te k :: ('e, u64) outcome)"
    using assms(1,4) by (simp add: returns_pmul)
  then obtain ex where ex: "pmul te k = (Ok ex :: ('e, u64) outcome)" "unat ex = unat t * unat r * n" by (auto simp: returns_def)
  then have "ex \<noteq> 0" using assms(2,3) by auto
  then show ?thesis using te(1) ex by blast
qed

lemma window_target_bits_exact:
  fixes dm :: difficulty_manager
  assumes e: "earliest dm w b" and known: "\<And>c. c \<in> set w \<Longrightarrow> dm_headers_store dm (sb_hash c) \<noteq> None"
    and n: "2 \<le> length w" "length w < 2 ^ 64" and fits: "max_target_fits dm"
    and rate: "0 < unat (dm_target_time_per_block dm) * unat (dm_sample_rate dm)"
      "unat (dm_target_time_per_block dm) * unat (dm_sample_rate dm) * (length w - 1) < 2 ^ 64"
  shows "\<exists>x. window_target_bits dm (map (difficulty_block_of dm) w) = (Ok (compact_target_bits x) :: ('e, _) outcome) \<and> length x = 4 \<and>
    uval x = min (sum_list (map (block_target dm) (remove1 b w)) div (length w - 1) *
        max 1 (Max (block_time (dm_headers_store dm) ` set w) - block_time (dm_headers_store dm) b)
        div (unat (dm_target_time_per_block dm) * unat (dm_sample_rate dm) * (length w - 1))) (uval (max_difficulty_target dm))"
proof -
  let ?t = "block_time (dm_headers_store dm)" and ?T = "unat (dm_target_time_per_block dm) * unat (dm_sample_rate dm)"
  obtain i j where ij: "position_minmax difficulty_block_less (map (difficulty_block_of dm) w) = Some (i, j)" "i < length w"
      "j < length w" "w ! i = b" "?t (w ! j) = Max (?t ` set w)"
    using window_extremes [OF e] by blast
  define rest where "rest = swap_remove i (map (difficulty_block_of dm) w)"
  define s where "s = uint_sum 5 (map (\<lambda>b. uint320_from_uint256 (from_compact_target_bits (db_bits b))) rest)"
  define k :: u64 where "k = of_nat (length rest)"
  have l: "length rest = length w - 1" and sum: "sum_list (map (\<lambda>b. uval (from_compact_target_bits (db_bits b))) rest) =
      sum_list (map (block_target dm) (remove1 b w))"
    using remaining_targets [OF ij(2,4) known] unfolding rest_def by blast+
  have k: "unat k = length w - 1" unfolding k_def l [symmetric] by (rule unat_of_nat_small) (use n(2) l in simp)
  then have k0: "k \<noteq> 0" using n(1) by auto
  have s: "length s = 5" "uval s = sum_list (map (block_target dm) (remove1 b w))" "uval s \<le> (length w - 1) * (2 ^ 256 - 1)"
    using targets_sum_exact [of rest] n(2) l sum by (auto simp: s_def)
  obtain a where a: "uint_div_u64 s k = (Ok a :: ('e, _) outcome)" "length a = 5" "uval a = uval s div (length w - 1)"
    using uint_div_u64_exact [OF k0, of s, where 'e = 'e] s(1) k by auto
  have a_le: "uval a \<le> 2 ^ 256 - 1" using div_le_mono [OF s(3), of "length w - 1"] n(1) a(3) by simp
  have "?t b \<le> Max (?t ` set w)" using e by (intro Max_ge) (auto simp: earliest_def)
  then have "returns (\<lambda>d. unat d = Max (?t ` set w) - ?t b) (psub (db_timestamp (map (difficulty_block_of dm) w ! j))
      (db_timestamp (map (difficulty_block_of dm) w ! i)) :: ('e, _) outcome)"
    using ij by (simp add: returns_psub unat_db_timestamp)
  then obtain dur where dur: "psub (db_timestamp (map (difficulty_block_of dm) w ! j)) (db_timestamp (map (difficulty_block_of dm) w ! i)) =
      (Ok dur :: ('e, _) outcome)" "unat dur = Max (?t ` set w) - ?t b" by (auto simp: returns_def)
  obtain te ex where te: "pmul (dm_target_time_per_block dm) (dm_sample_rate dm) = (Ok te :: ('e, _) outcome)"
      "pmul te k = (Ok ex :: ('e, _) outcome)" "unat ex = ?T * (length w - 1)" "ex \<noteq> 0"
    using expected_duration [OF k _ rate, where 'e = 'e] n(1) by auto
  have m: "unat (max dur 1) = max 1 (Max (?t ` set w) - ?t b)"
    using dur(2) by (auto simp: max_def word_le_nat_alt)
  have "uval a * unat (max dur 1) \<le> (2 ^ 256 - 1) * 2 ^ 64"
    using a_le unsigned_less [of "max dur 1", where 'a = nat] by (intro mult_le_mono) simp_all
  then have "uval a * unat (max dur 1) < 2 ^ (64 * length a)" using a(2) by simp
  then obtain p where p: "uint_mul_u64 a (max dur 1) = (Ok p :: ('e, _) outcome)" "length p = 5" "uval p = uval a * unat (max dur 1)"
    using uint_mul_u64_exact [of a "max dur 1", where 'e = 'e] a(2) by auto
  obtain q where q: "uint_div_u64 p ex = (Ok q :: ('e, _) outcome)" "length q = 5" "uval q = uval p div unat ex"
    using uint_div_u64_exact [OF te(4), of p, where 'e = 'e] p(2) by auto
  obtain x where x: "uint256_try_from_uint320 (uint_min q (max_difficulty_target dm)) = Ok x" "length x = 4"
      "uval x = min (uval q) (uval (max_difficulty_target dm))"
    using narrow_uint320 [of "uint_min q (max_difficulty_target dm)"] uint_min_exact [of q "max_difficulty_target dm"] fits q(2)
    by (auto simp: max_target_fits_def min_less_iff_disj)
  have "window_target_bits dm (map (difficulty_block_of dm) w) = (Ok (compact_target_bits x) :: ('e, _) outcome)"
    using a(1) dur(1) te(1,2) p(1) q(1) x(1)
    by (simp add: window_target_bits_def ij(1) unwrap_def Let_def rest_def [symmetric] s_def [symmetric] k_def [symmetric])
  then show ?thesis using x(2,3) q(3) p(3) m a(3) s(2) te(3) by auto
qed

text \<open>
  C39: The required difficulty of a block whose window has the minimum size is exact: the average target of the window without its earliest
  block, times the measured duration over the expected one, both divisions rounded down, capped by the largest target, in compact form. No sum or product
  overflows 320 bits, and the order in which the heap is visited does not matter. Below the minimum size the difficulty is that of the selected parent.
\<close>

theorem difficulty_exact:
  fixes dm :: difficulty_manager
  assumes "\<forall>c\<in>set w. dm_headers_store dm (sb_hash c) \<noteq> None" and "dm_headers_store dm (selected_parent d) = Some sp"
    and "2 \<le> dm_min_window_size dm" "length w < 2 ^ 64" and "max_target_fits dm"
    and "0 < unat (dm_target_time_per_block dm) * unat (dm_sample_rate dm)"
      "unat (dm_target_time_per_block dm) * unat (dm_sample_rate dm) * (length w - 1) < 2 ^ 64"
  shows "(length w < dm_min_window_size dm \<longrightarrow>
      calculate_difficulty_bits dm w d = (Ok (if selected_parent d = dm_genesis_hash dm then dm_genesis_bits dm else hdr_bits sp) :: ('e, _) outcome)) \<and>
    (dm_min_window_size dm \<le> length w \<and> earliest dm w b \<longrightarrow>
      (\<exists>x. calculate_difficulty_bits dm w d = (Ok (compact_target_bits x) :: ('e, _) outcome) \<and> length x = 4 \<and>
        uval x = min (sum_list (map (block_target dm) (remove1 b w)) div (length w - 1) *
          max 1 (Max (block_time (dm_headers_store dm) ` set w) - block_time (dm_headers_store dm) b)
          div (unat (dm_target_time_per_block dm) * unat (dm_sample_rate dm) * (length w - 1))) (uval (max_difficulty_target dm))))"
  using assms window_target_bits_exact [of dm w b, where 'e = 'e] get_difficulty_blocks_known [of w dm, where 'e = 'e]
  by (simp add: calculate_difficulty_bits_def unwrap_def del: min_less_iff_conj)

definition sample_times :: "hash \<rightharpoonup> header" where
  "sample_times = [Hash [1] \<mapsto> (sample_header 0)\<lparr>hdr_timestamp := 1000\<rparr>,
     Hash [2] \<mapsto> (sample_header 0)\<lparr>hdr_timestamp := 4000, hdr_bits := 0x05123456\<rparr>]"

definition sample_difficulty :: difficulty_manager where
  "sample_difficulty = \<lparr>dm_headers_store = sample_times, dm_genesis_hash = Hash [], dm_genesis_bits = 0,
     max_difficulty_target = [0, 0, 0, 1, 0], dm_window_size = 2, dm_min_window_size = 2, dm_sample_rate = 2, dm_target_time_per_block = 1000\<rparr>"

theorem difficulty_exact_witness:
  "\<exists>x. calculate_difficulty_bits sample_difficulty [SortableBlock (Hash [1]) 1, SortableBlock (Hash [2]) 2]
      (\<lparr>blue_score = 0, blue_work = 0, selected_parent = Hash [2], mergeset_blues = [], mergeset_reds = [], blues_anticone_sizes = []\<rparr>)
      = (Ok (compact_target_bits x) :: (unit, _) outcome) \<and> length x = 4 \<and> uval x = 0x1234560000 * 3000 div 2000"
proof -
  let ?w = "[SortableBlock (Hash [1]) 1, SortableBlock (Hash [2]) 2]"
  let ?d = "\<lparr>blue_score = 0, blue_work = 0, selected_parent = Hash [2], mergeset_blues = [], mergeset_reds = [], blues_anticone_sizes = []\<rparr>"
  have t: "uval (from_compact_target_bits 0x05123456) = 0x1234560000"
    using from_compact_target_bits_uval(1) [of "0x05123456" "0x123456" 5] by simp
  have e: "earliest sample_difficulty ?w (SortableBlock (Hash [1]) 1)"
    by (simp add: earliest_def block_time_def sample_difficulty_def sample_times_def)
  show ?thesis
    using difficulty_exact [of ?w sample_difficulty ?d "(sample_header 0)\<lparr>hdr_timestamp := 4000, hdr_bits := 0x05123456\<rparr>" "SortableBlock (Hash [1]) 1",
        where 'e = unit] e
    by (simp add: sample_difficulty_def sample_times_def max_target_fits_def block_target_def block_time_def t)
qed

section \<open>The past median time\<close>

lemma word_sum_exact:
  assumes "sum_list (map unat xs) < 2 ^ 64"
  shows "\<exists>s. word_sum xs = (Ok s :: ('e, _) outcome) \<and> unat s = sum_list (map unat xs)"
proof -
  have "\<exists>s. ofold (\<lambda>x s. padd s x) ys a = (Ok s :: ('e, u64) outcome) \<and> unat s = unat a + sum_list (map unat ys)"
    if "unat a + sum_list (map unat ys) < 2 ^ 64" for ys and a :: u64
    using that
  proof (induction ys arbitrary: a)
    case (Cons y ys)
    have "returns (\<lambda>s. unat s = unat a + unat y) (padd a y :: ('e, u64) outcome)" using Cons.prems by (simp add: returns_padd)
    then obtain c where c: "padd a y = (Ok c :: ('e, u64) outcome)" "unat c = unat a + unat y" by (auto simp: returns_def)
    then show ?case using Cons.IH [of c] Cons.prems by (simp add: add.assoc)
  qed simp
  from this [of 0 xs] show ?thesis using assms by (simp add: word_sum_def)
qed

text \<open>In a sorted list, an element is not below a bound that few elements are below.\<close>

lemma sorted_above:
  fixes lo :: "'a :: linorder"
  assumes "sorted s" and "j < length s" and "length (filter (\<lambda>x. x < lo) s) \<le> j"
  shows "lo \<le> s ! j"
proof (rule ccontr)
  assume "\<not> lo \<le> s ! j"
  moreover have "s ! i \<le> s ! j" if "i < Suc j" for i using that assms(1,2) by (intro sorted_nth_mono) auto
  ultimately have "\<forall>x \<in> set (take (Suc j) s). x < lo" using assms(2) by (auto simp: in_set_conv_nth) (meson leD leI order_trans)
  then have "Suc j \<le> length (filter (\<lambda>x. x < lo) (take (Suc j) s))" using assms(2) by simp
  also have "\<dots> \<le> length (filter (\<lambda>x. x < lo) (take (Suc j) s @ drop (Suc j) s))" by (simp only: filter_append length_append)
  finally show False using assms(3) by simp
qed

lemma sorted_below:
  fixes hi :: "'a :: linorder"
  assumes "sorted s" and "j < length s" and "length (filter (\<lambda>x. hi < x) s) < length s - j"
  shows "s ! j \<le> hi"
proof (rule ccontr)
  assume "\<not> s ! j \<le> hi"
  moreover have "s ! j \<le> s ! (j + i)" if "i < length s - j" for i using that assms(1,2) by (intro sorted_nth_mono) auto
  ultimately have "\<forall>x \<in> set (drop j s). hi < x" by (auto simp: in_set_conv_nth) (meson leD leI order_trans)
  then have "length s - j \<le> length (filter (\<lambda>x. hi < x) (drop j s))" by simp
  also have "\<dots> \<le> length (filter (\<lambda>x. hi < x) (take j s @ drop j s))" by (simp only: filter_append length_append)
  finally show False using assms(3) by simp
qed

lemma frame_shape:
  fixes n :: nat
  assumes "0 < n"
  defines "k \<equiv> min n AVERAGE_FRAME_SIZE"
  defines "e \<equiv> (n + k + 1) div 2"
  shows "k \<le> 11" "0 < k" "n - 11 = n - k" "k \<le> e" "e \<le> n" "n - k \<le> 2 * (e - k)" "n - k < 2 * (n - e) + 2"
proof -
  have k: "k \<le> n" "k \<le> 11" "0 < k" "n - 11 = n - k" using assms(1) by (auto simp: k_def AVERAGE_FRAME_SIZE_def)
  then show "k \<le> 11" "0 < k" "n - 11 = n - k" by blast+
  show "k \<le> e" "e \<le> n" "n - k \<le> 2 * (e - k)" "n - k < 2 * (n - e) + 2" using k unfolding e_def by auto
qed

text \<open>The central frame of a sorted list lies between two bounds when few elements lie outside them.\<close>

lemma central_frame:
  fixes s :: "nat list"
  assumes "sorted s" "s \<noteq> []"
    and "2 * length (filter (\<lambda>t. t < lo) s) \<le> length s - 11" "2 * length (filter (\<lambda>t. hi < t) s) \<le> length s - 11"
  defines "k \<equiv> min (length s) AVERAGE_FRAME_SIZE"
  defines "e \<equiv> (length s + k + 1) div 2"
  assumes "t \<in> set (drop (e - k) (take e s))"
  shows "lo \<le> t \<and> t \<le> hi"
proof -
  have "0 < length s" using assms(2) by simp
  note f = frame_shape [OF this, folded k_def, folded e_def]
  obtain i where i: "i < k" "t = s ! (e - k + i)" using assms(7) f(4,5) by (auto simp: in_set_conv_nth)
  have l: "e - k + i < length s" using f i by simp
  have "lo \<le> s ! (e - k + i)" by (rule sorted_above [OF assms(1) l]) (use assms(3) f in simp)
  moreover have "s ! (e - k + i) \<le> hi" by (rule sorted_below [OF assms(1) l]) (use assms(4) f i in simp)
  ultimately show ?thesis unfolding i by blast
qed

lemma average_bounds:
  fixes xs :: "nat list"
  assumes "xs \<noteq> []" and "\<And>x. x \<in> set xs \<Longrightarrow> lo \<le> x \<and> x \<le> hi"
  shows "lo \<le> (sum_list xs + length xs div 2) div length xs" "(sum_list xs + length xs div 2) div length xs \<le> hi"
proof -
  have s: "length xs * lo \<le> sum_list xs" "sum_list xs \<le> length xs * hi" using assms(2) by (induction xs) (auto simp: add_mono)
  then show "lo \<le> (sum_list xs + length xs div 2) div length xs"
    using assms(1) by (simp add: less_eq_div_iff_mult_less_eq mult.commute)
  have "length xs div 2 < length xs" using assms(1) by simp
  then have "sum_list xs + length xs div 2 < Suc hi * length xs" using s(2) by (simp add: mult.commute)
  then have "(sum_list xs + length xs div 2) div length xs < Suc hi" by (rule less_mult_imp_div_less)
  then show "(sum_list xs + length xs div 2) div length xs \<le> hi" by simp
qed

text \<open>The sum and the division of the frame, in 64 bits.\<close>

lemma rounded_average:
  fixes xs :: "u64 list"
  assumes "length xs = k" "k \<le> 11" "0 < k" and b: "\<And>x. x \<in> set xs \<Longrightarrow> unat x < 2 ^ 60"
  shows "\<exists>t. obind (word_sum xs) (\<lambda>s. obind (padd s (of_nat k div 2)) (\<lambda>s. pdiv s (of_nat k))) = (Ok t :: ('e, u64) outcome) \<and>
    unat t = (sum_list (map unat xs) + k div 2) div k"
proof -
  have u: "unat (of_nat k :: u64) = k" by (rule unat_of_nat_small) (use assms(2) in simp)
  have k2: "unat (of_nat k div 2 :: u64) = k div 2" by (simp add: unat_div_distrib u)
  have sum: "sum_list (map unat xs) \<le> k * 2 ^ 60"
    using b unfolding assms(1) [symmetric] by (induction xs) (auto simp: add_mono less_imp_le)
  have "k * 2 ^ 60 \<le> 11 * 2 ^ 60" using assms(2) by (intro mult_le_mono1)
  then have s64: "sum_list (map unat xs) + k div 2 < 2 ^ 64" using sum assms(2) by simp
  then obtain s where s: "word_sum xs = (Ok s :: ('e, u64) outcome)" "unat s = sum_list (map unat xs)"
    using word_sum_exact [of xs, where 'e = 'e] by auto
  have "returns (\<lambda>t. unat t = (sum_list (map unat xs) + k div 2) div k) (obind (padd s (of_nat k div 2)) (\<lambda>s. pdiv s (of_nat k)) :: ('e, u64) outcome)"
    using s64 s(2) assms(3) by (simp add: returns_simps u k2)
  then show ?thesis using s(1) by (auto simp: returns_def)
qed

lemma sort_unat: "map unat (sort ts) = sort (map unat ts)" for ts :: "u64 list"
  by (rule properties_for_sort [symmetric]) (simp_all add: sorted_map word_le_nat_alt [symmetric])

text \<open>The timestamps of the central frame of a window.\<close>

definition median_frame :: "(hash \<rightharpoonup> header) \<Rightarrow> block_window_heap \<Rightarrow> nat list" where
  "median_frame headers w =
     (let k = min (length w) AVERAGE_FRAME_SIZE; e = (length w + k + 1) div 2 in drop (e - k) (take e (sort (map (block_time headers) w))))"

lemma length_median_frame: "w \<noteq> [] \<Longrightarrow> length (median_frame headers w) = min (length w) AVERAGE_FRAME_SIZE"
proof -
  assume "w \<noteq> []"
  define k where "k = min (length w) AVERAGE_FRAME_SIZE"
  define e where "e = (length w + k + 1) div 2"
  have "0 < length w" using \<open>w \<noteq> []\<close> by simp
  note f = frame_shape [OF this, folded k_def, folded e_def]
  have "length (median_frame headers w) = e - (e - k)"
    unfolding median_frame_def Let_def k_def [symmetric] e_def [symmetric] using f(5) by simp
  then show ?thesis using f(4) by (simp add: k_def)
qed

lemma past_median_time_exact:
  assumes "w \<noteq> []" and known: "\<And>b. b \<in> set w \<Longrightarrow> headers (sb_hash b) \<noteq> None \<and> block_time headers b < 2 ^ 60"
  shows "\<exists>t. past_median_time headers w sp = (Ok t :: ('e, _) outcome) \<and>
    unat t = (sum_list (median_frame headers w) + length (median_frame headers w) div 2) div length (median_frame headers w)"
proof -
  define ts where "ts = map (\<lambda>b. hdr_timestamp (the (headers (sb_hash b)))) w"
  have t: "unat (hdr_timestamp (the (headers (sb_hash b)))) = block_time headers b" if "b \<in> set w" for b
    using known [OF that] by (auto simp: block_time_def)
  have ts: "omap (\<lambda>item. obind (unwrap (headers (sb_hash item))) (\<lambda>h. Ok (hdr_timestamp h))) w = (Ok ts :: ('e, _) outcome)"
    unfolding ts_def by (rule omap_Ok) (use known in \<open>force simp: unwrap_def\<close>)
  have times: "map unat ts = map (block_time headers) w" using t by (simp add: ts_def)
  define k where "k = min (length w) AVERAGE_FRAME_SIZE"
  define e where "e = (length w + k + 1) div 2"
  define xs where "xs = drop (e - k) (take e (sort ts))"
  have "0 < length w" using assms(1) by simp
  note f = frame_shape [OF this, folded k_def, folded e_def]
  have len: "length ts = length w" by (simp add: ts_def)
  then have l: "length xs = k" using f by (simp add: xs_def)
  have m: "map unat xs = median_frame headers w"
    unfolding median_frame_def Let_def k_def [symmetric] e_def [symmetric] xs_def times [symmetric] sort_unat [symmetric]
    by (simp add: drop_map take_map)
  have "unat x < 2 ^ 60" if "x \<in> set xs" for x
  proof -
    have "x \<in> set ts" using that unfolding xs_def by (metis in_set_dropD in_set_takeD set_sort)
    then show ?thesis using known t by (auto simp: ts_def)
  qed
  then obtain v where v: "obind (word_sum xs) (\<lambda>s. obind (padd s (of_nat k div 2)) (\<lambda>s. pdiv s (of_nat k))) = (Ok v :: ('e, u64) outcome)"
      "unat v = (sum_list (map unat xs) + k div 2) div k"
    using rounded_average [OF l f(1,2), where 'e = 'e] by blast
  have "length (median_frame headers w) = k" unfolding k_def by (rule length_median_frame [OF assms(1)])
  moreover have "past_median_time headers w sp = (Ok v :: ('e, _) outcome)"
    using v(1) assms(1) unfolding past_median_time_def ts obind.simps Let_def length_sort len k_def [symmetric] e_def [symmetric] xs_def [symmetric]
    by simp
  ultimately show ?thesis using v(2) m by auto
qed

text \<open>
  C40: The past median time is exact and robust. For a window whose timestamps are below two to the power 60 it is the average, rounded to the nearest, of the
  central frame: the eleven middle timestamps in sorted order, or all of them where there are fewer. So it cannot be moved out of an interval by a bounded number of blocks:
  where, of n blocks, at most (n - 11) / 2 have a timestamp below the interval and at most (n - 11) / 2 one above it, the result lies
  in the interval. A larger minority can move it, because the frame is an average.
\<close>

theorem past_median_time_robust:
  assumes "w \<noteq> []" and "\<forall>b\<in>set w. headers (sb_hash b) \<noteq> None \<and> block_time headers b < 2 ^ 60"
  shows "\<exists>t. past_median_time headers w sp = (Ok t :: ('e, _) outcome) \<and>
    unat t = (sum_list (median_frame headers w) + length (median_frame headers w) div 2) div length (median_frame headers w) \<and>
    (\<forall>lo hi. 2 * length (filter (\<lambda>b. block_time headers b < lo) w) \<le> length w - 11 \<and>
      2 * length (filter (\<lambda>b. hi < block_time headers b) w) \<le> length w - 11 \<longrightarrow> lo \<le> unat t \<and> unat t \<le> hi)"
proof -
  let ?f = "median_frame headers w" and ?s = "sort (map (block_time headers) w)"
  obtain t where t: "past_median_time headers w sp = (Ok t :: ('e, _) outcome)" "unat t = (sum_list ?f + length ?f div 2) div length ?f"
    using past_median_time_exact [OF assms(1), of headers sp, where 'e = 'e] assms(2) by blast
  have ne: "?f \<noteq> []" using length_median_frame [OF assms(1), of headers] assms(1) by (auto simp: AVERAGE_FRAME_SIZE_def min_def split: if_splits)
  have c: "length (filter P ?s) = length (filter (\<lambda>b. P (block_time headers b)) w)" for P
  proof -
    have "mset (filter P ?s) = mset (filter P (map (block_time headers) w))" by simp
    then have "length (filter P ?s) = length (filter P (map (block_time headers) w))" by (rule mset_eq_length)
    then show ?thesis by (simp add: filter_map comp_def)
  qed
  have "lo \<le> unat t \<and> unat t \<le> hi"
    if few: "2 * length (filter (\<lambda>b. block_time headers b < lo) w) \<le> length w - 11" "2 * length (filter (\<lambda>b. hi < block_time headers b) w) \<le> length w - 11" for lo hi
  proof -
    have "length ?s = length w" by simp
    then have "?s \<noteq> []" using assms(1) by (metis length_0_conv)
    then have "sorted ?s" "?s \<noteq> []" "2 * length (filter (\<lambda>t. t < lo) ?s) \<le> length ?s - 11" "2 * length (filter (\<lambda>t. hi < t) ?s) \<le> length ?s - 11"
      using few assms(1) c [of "\<lambda>t. t < lo"] c [of "\<lambda>t. hi < t"] by simp_all
    note frame = central_frame [OF this]
    have "lo \<le> x \<and> x \<le> hi" if "x \<in> set ?f" for x
      by (rule frame) (use that in \<open>simp add: median_frame_def Let_def\<close>)
    then show ?thesis using average_bounds [OF ne, of lo hi] t(2) by simp
  qed
  then show ?thesis using t by blast
qed

text \<open>Fifteen blocks, two with a timestamp far below the others and two with one far above.\<close>

definition outlier_window :: block_window_heap where
  "outlier_window = map (\<lambda>n. SortableBlock (Hash [n]) 1) [0, 1, 2, 3, 4, 5, 6, 7, 8, 9, 10, 11, 12, 13, 14]"

definition outlier_times :: "hash \<rightharpoonup> header" where
  "outlier_times h = Some ((sample_header 0)\<lparr>hdr_timestamp :=
     if h \<in> {Hash [0], Hash [1]} then 0 else if h \<in> {Hash [2], Hash [3]} then 900000 else 1000\<rparr>)"

theorem past_median_time_robust_witness:
  "\<exists>t. past_median_time outlier_times outlier_window (Hash [2]) = (Ok t :: (unit, _) outcome) \<and> unat t = 1000"
proof -
  have "\<forall>b\<in>set outlier_window. outlier_times (sb_hash b) \<noteq> None \<and> block_time outlier_times b < 2 ^ 60" "outlier_window \<noteq> []"
    by (simp_all add: outlier_window_def outlier_times_def block_time_def)
  moreover have "2 * length (filter (\<lambda>b. block_time outlier_times b < 1000) outlier_window) \<le> length outlier_window - 11"
      "2 * length (filter (\<lambda>b. 1000 < block_time outlier_times b) outlier_window) \<le> length outlier_window - 11"
    by (simp_all add: outlier_window_def outlier_times_def block_time_def)
  ultimately show ?thesis using past_median_time_robust [of outlier_window outlier_times "Hash [2]", where 'e = unit] by (metis le_antisym)
qed

end
