(* ===== verification/Spec2Isabelle.thy ===== *)
theory Spec2Isabelle
  imports Utxo Coinbase Uint_Properties Script_Properties Merkle Tx_Context Header_Wire Body_Isolation Window_Properties Difficulty_Properties
begin

text \<open>
  \<^bold>\<open>Sophis: a verification development of the consensus core.\<close>

  Sophis is a proof-of-work block DAG node written in Rust. A block arrives as a message, becomes a header and a list of
  transactions, and is checked in stages: its header and its body in isolation, its place in the DAG (GHOSTDAG, block
  windows, difficulty, median time), and its transactions against the UTXO set, with the scripts of their inputs. What is
  accepted changes the UTXO set by a diff and pays a coinbase. This library models the rules of these stages; paths below
  are relative to src/.

  \<^bold>\<open>Conventions.\<close> A struct is a record, an enum a datatype, a machine integer a word. A function that may fail returns an
  \<open>outcome\<close>: \<open>Ok\<close>, \<open>Err\<close> with the error of the code, or \<open>Panic\<close>, for an arithmetic overflow with the checks on, an index
  out of range, an \<open>unwrap\<close> of nothing or a failed assertion. A search that has no structural bound is a partial function into
  \<open>option\<close>, where \<open>None\<close> is not returning. A store is the map of its entries.

  \<^bold>\<open>Shared theories.\<close>
  \<^item> \<open>Prelude\<close>: \<open>outcome\<close> and its rules (\<open>returns\<close>, \<open>safely\<close>), checked and saturating arithmetic, little-endian bytes.
  \<^item> \<open>Hash_Map\<close>: \<open>HashMap\<close> as a list of entries in iteration order, and the interface \<open>map_store\<close> its clients rely on.
  \<^item> \<open>Tx\<close>: transactions, outpoints, entries, scripts, hashes (consensus/core/src/tx.rs, subnets.rs, constants.rs).

  \<^bold>\<open>UTXO set and money.\<close>
  \<^item> \<open>Utxo\<close> (consensus/core/src/utxo): diffs, composition and difference of diffs, adding a transaction; each is proved to
    have the effect on the composed view that its name says, and to succeed on consistent arguments.
  \<^item> \<open>Params\<close> (consensus/core/src/config): forks, rates and main network values. \<open>Subsidy_Table\<close>, \<open>Coinbase\<close>
    (consensus/src/processes/coinbase.rs): the payload codec is a bijection, the coinbase pays exactly the rewards, and the
    total emission of the main network.

  \<^bold>\<open>Integers.\<close>
  \<^item> \<open>Uint\<close> (math/src/uint.rs) on lists of 64-bit limbs; \<open>Uint_Arith\<close>, \<open>Uint_Div\<close>, \<open>Uint_Codec\<close> relate each operation to the
    natural number the limbs denote; \<open>Uint_Properties\<close> holds the properties of multiplication, division and compact targets.
  \<^item> \<open>Work\<close>: the work of a target (consensus/src/processes/difficulty.rs).

  \<^bold>\<open>Hashing and codecs.\<close>
  \<^item> \<open>Sighash\<close> (consensus/core/src/hashing): transaction ids, hashes and signature hashes. The interfaces \<open>prefix_code\<close> and
    \<open>unique_code\<close> carry the proofs that the encodings are injective.
  \<^item> \<open>Merkle\<close> (crypto/merkle, consensus/core/src/merkle.rs): roots and proofs, sound and complete.
  \<^item> \<open>Alt\<close>, \<open>Da\<close> (consensus/core/src/alt, da): lookup table and carrier scripts, with their round trips.
  \<^item> \<open>Header\<close> (consensus/core/src/header.rs, hashing/header.rs, utils/src/iter.rs) and \<open>Header_Wire\<close>
    (protocol/p2p/src/convert): compressed parents, the header hash, the messages of the protocol, and the message on which the
    conversion panics.

  \<^bold>\<open>Scripts\<close> (crypto/txscript).
  \<^item> \<open>Script_Num\<close> (the data stack), \<open>Opcode\<close> (the opcodes and the parser), \<open>Script_Engine\<close> and \<open>Script_Exec\<close> (the engine and
    each opcode), \<open>Script_Builder\<close> (builder, classes, standard scripts).
  \<^item> \<open>Script_Safety\<close> (no panic, limits), \<open>Script_Spend\<close> (what built scripts do), \<open>Script_Properties\<close> (the properties).

  \<^bold>\<open>Transaction and body rules.\<close>
  \<^item> \<open>Mass\<close>, \<open>Mass_Bounds\<close> (consensus/core/src/mass): the masses, the formula of the storage mass, absence of overflow.
  \<^item> \<open>Tx_Rules\<close>, \<open>Tx_Isolation\<close>, \<open>Tx_Context\<close> (consensus/src/processes/transaction_validator): the rules without context, with the
    block and with the spent entries; well-formedness of what passes, the fee, token conservation, no panic.
  \<^item> \<open>Rule_Error\<close> (errors/block.rs, blockstatus.rs, block.rs), \<open>Body_Isolation\<close>
    (consensus/src/pipeline/body_processor/body_validation_in_isolation.rs): what an accepted body satisfies, and that its
    transactions may be applied in any order.

  \<^bold>\<open>The DAG.\<close>
  \<^item> \<open>Ghostdag_Data\<close>, \<open>Ghostdag\<close> (consensus/src/processes/ghostdag, model/stores/ghostdag.rs): the protocol.
  \<^item> \<open>Ghostdag_Dag\<close> (ancestry, k-clusters, the invariant \<open>dag_inv\<close>), \<open>Ghostdag_Colouring\<close> (the loop is the greedy colouring),
    \<open>Ghostdag_Protocol\<close> (the whole function returns it), \<open>Ghostdag_Growth\<close> (storing its result keeps the invariant),
    \<open>Ghostdag_Properties\<close> (the DAGs a node can build, as an inductive predicate), \<open>Ghostdag_Mergeset\<close> (stored mergesets).
  \<^item> \<open>Window\<close>, \<open>Window_Heap\<close>, \<open>Window_Properties\<close> (consensus/src/processes/window.rs): a sampled window holds the best samples of
    the chain, with or without cached windows of ancestors.
  \<^item> \<open>Difficulty\<close>, \<open>Difficulty_Properties\<close> (consensus/src/processes/difficulty.rs, past_median_time.rs): the exact required
    difficulty and the exact past median time with its robustness.

  \<^bold>\<open>Parameters.\<close> Code of other packages is an argument of the definitions: Blake2b, SHA-256 and SHA3-384, the verification of
  ML-DSA-44, the Borsh decoders and checks of bytecode (\<open>svm_lib\<close>), the verdict and events of a contract run (\<open>validation_env\<close>).
  The reachability service, a trait in the code, is an argument with the contract \<open>reachability_ok\<close>. Commitment theorems assume of a hash
  only that it is injective on the strings at hand, or conclude with the collision.

  \<^bold>\<open>Bounds.\<close> The searches of GHOSTDAG and of the windows have no fuel, and are proved to return. Absence of overflow needs sizes that
  no node reaches: transactions below 2^40 bytes and mass rates up to 2^16 (\<open>Mass_Bounds\<close>), timestamps below 2^60 for the median
  time, DAA scores and maturity below 2^62 for lock times, scripts below 2^64 bytes, total work below 2^192. Each theorem states the bounds
  it needs.

  \<^bold>\<open>Not modelled.\<close> The interval tree of reachability, the header, virtual and pruning processors with their stores and threads, parents builder and
  pruning proofs, which need that tree and the database; RandomX and MuHash; the WebAssembly runtime of contracts; mempool, peer-to-peer
  flows, RPC, indexes, wallets, oracle, rollup and tools, which are not consensus rules; serde, hex and display code, and logging.
\<close>

end
